(* ===== verification/Prelude.thy ===== *)
theory Prelude
  imports Main "HOL-Library.Word" "HOL-Library.Multiset" "HOL-Library.Monad_Syntax"
begin

text \<open>
  Shared material of the development: the machine integer types, the C and Linux kernel
  primitives that the modelled sources use, the theorem collections, and the generic
  lemmas on lists, options and words that several components need.

  A result of type option is used wherever the C code can fault (a read or write outside an
  allocated object, a division by zero): \<open>None\<close> is the fault. An ordinary error
  return of the code is a value (a negative return code) and never \<open>None\<close>.
\<close>

unbundle bit_operations_syntax

section \<open>Machine integers\<close>

type_synonym u8 = "8 word"
type_synonym u32 = "32 word"
type_synonym u64 = "64 word"

text \<open>The kernel's \<open>abs\<close> macro on a 32-bit argument: the argument is read as a signed
  int, and the negation wraps at the smallest value.\<close>

definition kabs32 :: "u32 \<Rightarrow> u32" where
  "kabs32 x = (if sint x < 0 then - x else x)"

text \<open>\<open>div_u64\<close>: a division by zero faults.\<close>

definition div_u64 :: "u64 \<Rightarrow> u32 \<Rightarrow> u64 option" where
  "div_u64 a b = (if b = 0 then None else Some (a div ucast b))"

text \<open>Signed 32-bit wrap-around of a mathematical integer, and the unsigned reading.\<close>

definition s32 :: "int \<Rightarrow> int" where
  "s32 x = (x + 2 ^ 31) mod 2 ^ 32 - 2 ^ 31"

definition u32 :: "int \<Rightarrow> int" where
  "u32 x = x mod 2 ^ 32"

text \<open>C division and remainder on mathematical integers truncate towards zero.\<close>

definition cdiv :: "int \<Rightarrow> int \<Rightarrow> int" where
  "cdiv a b = sgn a * sgn b * (\<bar>a\<bar> div \<bar>b\<bar>)"

definition bool_int :: "bool \<Rightarrow> int" where
  "bool_int b = (if b then 1 else 0)"

section \<open>Theorem collections\<close>

named_theorems field_frames \<open>operations that leave a field of their state unchanged\<close>
named_theorems op_defs \<open>definitions of straight-line operations, for unfolding\<close>

section \<open>Integers\<close>

lemma s32_id: "- (2 ^ 31) \<le> x \<Longrightarrow> x < 2 ^ 31 \<Longrightarrow> s32 x = x"
  by (simp add: s32_def)

lemma s32_lower: "- (2 ^ 31) \<le> s32 x"
  by (simp add: s32_def)

lemma s32_upper: "s32 x < 2 ^ 31"
  by (simp add: s32_def)

lemma u32_id: "0 \<le> x \<Longrightarrow> x < 2 ^ 32 \<Longrightarrow> u32 x = x"
  by (simp add: u32_def)

lemma u32_nonneg [simp]: "0 \<le> u32 x"
  by (simp add: u32_def)

lemma u32_upper: "u32 x < 2 ^ 32"
  by (simp add: u32_def)

lemma bool_int_cases: "bool_int b = 0 \<or> bool_int b = 1"
  by (simp add: bool_int_def)

lemma bool_int_nonneg [simp]: "0 \<le> bool_int b"
  by (simp add: bool_int_def)

lemma bool_int_le1 [simp]: "bool_int b \<le> 1"
  by (simp add: bool_int_def)

lemma cdiv_nonneg: "0 \<le> a \<Longrightarrow> 0 < b \<Longrightarrow> cdiv a b = a div b"
  by (cases "a = 0") (simp_all add: cdiv_def)

section \<open>Words\<close>

lemma uint_less_if_unat:
  assumes "unat w < 2 ^ 31"
  shows "uint w < 2 ^ 31"
proof -
  have "int (unat w) < int (2 ^ 31)"
    using assms by (simp only: of_nat_less_iff)
  then show ?thesis
    by (simp only: of_nat_unat of_nat_power of_nat_numeral)
qed

text \<open>Below the sign bit, \<open>abs\<close> of a difference is the distance.\<close>

lemma kabs32_diff_above:
  assumes "y \<le> x" "unat x - unat y < 2 ^ 31"
  shows "unat (kabs32 (x - y)) = unat x - unat y"
proof -
  have u: "unat (x - y) = unat x - unat y"
    using assms(1) by (rule unat_sub)
  have lt: "uint (x - y) < 2 ^ 31"
    by (rule uint_less_if_unat) (use assms(2) u in simp)
  have "sint (x - y) = uint (x - y)"
    unfolding sint_uint
  proof (rule signed_take_bit_int_eq_self)
    show "- (2 ^ (LENGTH(32) - Suc 0)) \<le> uint (x - y)"
      by (rule order_trans [of _ 0]) simp_all
    show "uint (x - y) < 2 ^ (LENGTH(32) - Suc 0)"
      using lt by simp
  qed
  then show ?thesis
    by (simp add: kabs32_def u)
qed

section \<open>Lists\<close>

text \<open>Moving an element between two lists that partition a pool.\<close>

lemma mset_move_head: "mset xs + mset (ys @ [x]) = mset (x # xs) + mset ys"
  by simp

lemma mset_move_remove1:
  "x \<in> set xs \<Longrightarrow> mset (remove1 x xs) + mset (ys @ [x]) = mset xs + mset ys"
  by simp

lemma length_remove1_mem: "x \<in> set xs \<Longrightarrow> Suc (length (remove1 x xs)) = length xs"
  by (simp add: length_remove1) (metis Suc_pred length_pos_if_in_set)

section \<open>Loops that can fault\<close>

fun fold_opt :: "('a \<Rightarrow> 's \<Rightarrow> 's option) \<Rightarrow> 'a list \<Rightarrow> 's \<Rightarrow> 's option" where
  "fold_opt f [] s = Some s"
| "fold_opt f (x # xs) s = do { s \<leftarrow> f x s; fold_opt f xs s }"

fun find_opt :: "('a \<Rightarrow> bool option) \<Rightarrow> 'a list \<Rightarrow> 'a option option" where
  "find_opt P [] = Some None"
| "find_opt P (x # xs) = do { b \<leftarrow> P x; if b then Some (Some x) else find_opt P xs }"

fun filter_opt :: "('a \<Rightarrow> bool option) \<Rightarrow> 'a list \<Rightarrow> 'a list option" where
  "filter_opt P [] = Some []"
| "filter_opt P (x # xs) = do { b \<leftarrow> P x; ys \<leftarrow> filter_opt P xs; Some (if b then x # ys else ys) }"

text \<open>A loop whose body may return: the flag says so.\<close>

fun loop_until :: "('a \<Rightarrow> 's \<Rightarrow> (bool \<times> 's) option) \<Rightarrow> 'a list \<Rightarrow> 's \<Rightarrow> 's option" where
  "loop_until f [] s = Some s"
| "loop_until f (x # xs) s = do { (stop, s) \<leftarrow> f x s; if stop then Some s else loop_until f xs s }"

lemma fold_opt_total: "(\<And>x s. x \<in> set xs \<Longrightarrow> f x s = Some (g x s)) \<Longrightarrow> fold_opt f xs s = Some (fold g xs s)"
  by (induction xs arbitrary: s) simp_all

lemma fold_opt_invariant:
  assumes "fold_opt f xs s = Some s'" "I s" "\<And>x s s'. x \<in> set xs \<Longrightarrow> I s \<Longrightarrow> f x s = Some s' \<Longrightarrow> I s'"
  shows "I s'"
  using assms
proof (induction xs arbitrary: s)
  case (Cons x xs)
  then obtain t where t: "f x s = Some t" "fold_opt f xs t = Some s'"
    by (auto simp: bind_eq_Some_conv)
  have "I t"
    by (rule Cons.prems(3) [OF _ Cons.prems(2) t(1)]) simp
  show ?case
  proof (rule Cons.IH [OF t(2) \<open>I t\<close>])
    fix y u u'
    assume "y \<in> set xs" "I u" "f y u = Some u'"
    then show "I u'"
      by (intro Cons.prems(3) [of y u u']) simp_all
  qed
qed simp

lemma loop_until_invariant:
  assumes "loop_until f xs s = Some s'" "I s" "\<And>x s b s'. x \<in> set xs \<Longrightarrow> I s \<Longrightarrow> f x s = Some (b, s') \<Longrightarrow> I s'"
  shows "I s'"
  using assms
proof (induction xs arbitrary: s)
  case (Cons x xs)
  then obtain b t where t: "f x s = Some (b, t)" "(if b then Some t else loop_until f xs t) = Some s'"
    by (auto simp: bind_eq_Some_conv)
  have i: "I t"
    by (rule Cons.prems(3) [OF _ Cons.prems(2) t(1)]) simp
  show ?case
  proof (cases b)
    case False
    then have "loop_until f xs t = Some s'"
      using t(2) by simp
    then show ?thesis
    proof (rule Cons.IH [OF _ i])
      fix y u c u'
      assume "y \<in> set xs" "I u" "f y u = Some (c, u')"
      then show "I u'"
        by (intro Cons.prems(3) [of y u c u']) simp_all
    qed
  qed (use t(2) i in simp)
qed simp

lemma find_opt_eq: "(\<And>x. x \<in> set xs \<Longrightarrow> P x = Some (Q x)) \<Longrightarrow> find_opt P xs = Some (find Q xs)"
  by (induction xs) simp_all

lemma filter_opt_eq: "(\<And>x. x \<in> set xs \<Longrightarrow> P x = Some (Q x)) \<Longrightarrow> filter_opt P xs = Some (filter Q xs)"
  by (induction xs) simp_all

lemma find_opt_Some:
  "find_opt P xs = Some (Some x) \<Longrightarrow> x \<in> set xs \<and> P x = Some True"
  by (induction xs) (auto simp: bind_eq_Some_conv split: if_splits)

lemma find_opt_None:
  "find_opt P xs = Some None \<Longrightarrow> \<forall>x\<in>set xs. P x = Some False"
  by (induction xs) (auto simp: bind_eq_Some_conv split: if_splits)

lemma bind_SomeE:
  assumes "m \<bind> f = Some y"
  obtains x where "m = Some x" "f x = Some y"
  using assms by (cases m) auto

end
