(* ===== verification/Pts_Server.thy ===== *)
theory Pts_Server
  imports Prelude
begin

text \<open>
  The presentation time stamp (PTS) server, media\_sync/pts\_server/pts\_server\_core.c.

  The demuxer checks in the stamp of each piece of stream it feeds (with the stream offset
  the piece starts at), the decoder checks out the stamp for the offset of a frame it has
  decoded. An instance owns a pool of nodes allocated at once (\<open>all_free_ptn\<close>); two
  intrusive lists, \<open>pts_list\<close> and \<open>pts_free_list\<close>, partition the pool. A node
  pointer is modelled by its index in the pool, a list head by the list of the indices
  linked in it. The pool is \<open>[]\<close> when its vmalloc failed. Mutexes make each operation
  atomic, so they are not modelled; debug prints are left out.

  What vmalloc returns is an argument of the model: \<open>None\<close> when it fails, otherwise the
  (arbitrary) contents of the 500 nodes.
\<close>

section \<open>State\<close>

record pts_node =
  node_offset :: u32
  node_pts :: u32
  node_pts_64 :: u64

record ptsserver_alloc_para =
  ap_mMaxCount :: u32
  ap_mLookupThreshold :: u32
  ap_kDoubleCheckThreshold :: u32

record checkin_pts_size =
  ci_size :: u32
  ci_pts :: u32
  ci_pts_64 :: u64

record checkout_pts_offset =
  co_offset :: u64
  co_pts :: u32
  co_pts_64 :: u64

record start_offset =
  mBaseOffset :: u32
  so_mAlignmentOffset :: u32

record ptsserver_ins =
  pts_list :: "nat list"
  pts_free_list :: "nat list"
  mPtsServerInsId :: int
  mMaxCount :: u32
  mLookupThreshold :: u32
  mPtsCheckinStarted :: u32
  mPtsCheckoutStarted :: u32
  mPtsCheckoutFailCount :: u32
  mFrameDuration :: u32
  mFrameDuration64 :: u64
  mFirstCheckinPts :: u32
  mFirstCheckinOffset :: u32
  mFirstCheckinSize :: u32
  mLastCheckinPts :: u32
  mLastCheckinOffset :: u32
  mLastCheckinSize :: u32
  mAlignmentOffset :: u32
  mLastCheckoutPts :: u32
  mLastCheckoutOffset :: u32
  mFirstCheckinPts64 :: u32
  mLastCheckinPts64 :: u32
  mLastCheckoutPts64 :: u64
  mDoubleCheckFrameDuration :: u32
  mDoubleCheckFrameDuration64 :: u64
  mDoubleCheckFrameDurationCount :: u32
  mLastDoubleCheckoutPts :: u32
  mLastDoubleCheckoutPts64 :: u64
  mDecoderDuration :: u32
  kDoubleCheckThreshold :: u32
  mListSize :: u32
  mLastCheckoutCurOffset :: u32
  all_free_ptn :: "pts_node list"
  mTrickMode :: int

type_synonym pts_manager = "ptsserver_ins option list"

definition MAX_INSTANCE_NUM :: nat where
  "MAX_INSTANCE_NUM = 10"

definition kzalloc_ptsserver_ins :: ptsserver_ins where
  "kzalloc_ptsserver_ins = \<lparr>pts_list = [], pts_free_list = [], mPtsServerInsId = 0,
     mMaxCount = 0, mLookupThreshold = 0, mPtsCheckinStarted = 0, mPtsCheckoutStarted = 0,
     mPtsCheckoutFailCount = 0, mFrameDuration = 0, mFrameDuration64 = 0,
     mFirstCheckinPts = 0, mFirstCheckinOffset = 0, mFirstCheckinSize = 0,
     mLastCheckinPts = 0, mLastCheckinOffset = 0, mLastCheckinSize = 0,
     mAlignmentOffset = 0, mLastCheckoutPts = 0, mLastCheckoutOffset = 0,
     mFirstCheckinPts64 = 0, mLastCheckinPts64 = 0, mLastCheckoutPts64 = 0,
     mDoubleCheckFrameDuration = 0, mDoubleCheckFrameDuration64 = 0,
     mDoubleCheckFrameDurationCount = 0, mLastDoubleCheckoutPts = 0,
     mLastDoubleCheckoutPts64 = 0, mDecoderDuration = 0, kDoubleCheckThreshold = 0,
     mListSize = 0, mLastCheckoutCurOffset = 0, all_free_ptn = [], mTrickMode = 0\<rparr>"

section \<open>Creating and releasing instances\<close>

text \<open>The loop that links \<open>&all_free_ptn[index]\<close>, \<open>index < mMaxCount\<close>, into the free
  list. The pool has 500 entries: linking a later one writes outside it.\<close>

primrec add_free_nodes :: "nat \<Rightarrow> nat list option" where
  "add_free_nodes 0 = Some []"
| "add_free_nodes (Suc index) =
     do { xs \<leftarrow> add_free_nodes index;
          if index < 500 then Some (xs @ [index]) else None }"

definition ptsserver_ins_init_syncinfo ::
  "pts_node list option \<Rightarrow> ptsserver_alloc_para option \<Rightarrow> ptsserver_ins \<Rightarrow>
   (int \<times> ptsserver_ins) option" where
  "ptsserver_ins_init_syncinfo mem allocParm ins =
    (let ins1 = (case allocParm of
           Some p \<Rightarrow> ins\<lparr>mMaxCount := ap_mMaxCount p,
                           mLookupThreshold := ap_mLookupThreshold p,
                           kDoubleCheckThreshold := ap_kDoubleCheckThreshold p\<rparr>
         | None \<Rightarrow> ins\<lparr>mMaxCount := 500, mLookupThreshold := 2500,
                        kDoubleCheckThreshold := 5\<rparr>);
         ins2 = ins1\<lparr>mPtsCheckinStarted := 0, mPtsCheckoutStarted := 0,
           mPtsCheckoutFailCount := 0, mFrameDuration := 0, mFrameDuration64 := 0,
           mFirstCheckinPts := 0, mFirstCheckinOffset := 0, mFirstCheckinSize := 0,
           mLastCheckinPts := 0, mLastCheckinOffset := 0, mLastCheckinSize := 0,
           mAlignmentOffset := 0, mLastCheckoutPts := 0, mLastCheckoutOffset := 0,
           mFirstCheckinPts64 := 0, mLastCheckinPts64 := 0, mLastCheckoutPts64 := 0,
           mDoubleCheckFrameDuration := 0, mDoubleCheckFrameDuration64 := 0,
           mDoubleCheckFrameDurationCount := 0, mLastDoubleCheckoutPts := 0,
           mLastDoubleCheckoutPts64 := 0, mDecoderDuration := 0, mListSize := 0,
           mLastCheckoutCurOffset := 0, pts_list := [], pts_free_list := []\<rparr>
     in case mem of
          None \<Rightarrow> Some (-1, ins2\<lparr>all_free_ptn := []\<rparr>)
        | Some pool \<Rightarrow>
            do { xs \<leftarrow> add_free_nodes (unat (mMaxCount ins2));
                 Some (0, ins2\<lparr>all_free_ptn := pool, pts_free_list := xs\<rparr>) })"

definition ptsserver_init :: pts_manager where
  "ptsserver_init = replicate MAX_INSTANCE_NUM None"

text \<open>The search loop of \<open>ptsserver_ins_alloc\<close>: the value of \<open>index\<close> when the loop ends.\<close>

function ins_alloc_scan :: "pts_manager \<Rightarrow> nat \<Rightarrow> nat" where
  "ins_alloc_scan L index =
     (if index < MAX_INSTANCE_NUM - 1
      then (case L ! index of None \<Rightarrow> index | Some _ \<Rightarrow> ins_alloc_scan L (Suc index))
      else index)"
  by pat_completeness auto
termination
  by (relation "measure (\<lambda>(L, index). MAX_INSTANCE_NUM - index)") auto

declare ins_alloc_scan.simps [simp del]

text \<open>
  The result is the return code, what is stored through \<open>pServerInsId\<close> (\<open>None\<close> when
  nothing is stored) and the manager. The first argument says whether kzalloc succeeded.
\<close>

definition ptsserver_ins_alloc ::
  "bool \<Rightarrow> pts_node list option \<Rightarrow> ptsserver_alloc_para option \<Rightarrow> pts_manager \<Rightarrow>
   (int \<times> nat option \<times> pts_manager) option" where
  "ptsserver_ins_alloc kzalloc_ok mem allocParm L =
    (if \<not> kzalloc_ok then Some (-1, None, L)
     else let index = ins_alloc_scan L 0 in
       if index < MAX_INSTANCE_NUM - 1
       then do { (_, ins) \<leftarrow> ptsserver_ins_init_syncinfo mem allocParm
                    (kzalloc_ptsserver_ins\<lparr>mPtsServerInsId := int index\<rparr>);
                 Some (0, Some index, L[index := Some ins]) }
       else if index = MAX_INSTANCE_NUM then Some (-1, None, L)
       else Some (0, None, L))"

text \<open>The guard every other operation starts with.\<close>

definition find_ins :: "int \<Rightarrow> pts_manager \<Rightarrow> (nat \<times> ptsserver_ins) option" where
  "find_ins pServerInsId L =
    (if pServerInsId < 0 \<or> pServerInsId \<ge> int MAX_INSTANCE_NUM then None
     else map_option (Pair (nat pServerInsId)) (L ! nat pServerInsId))"

definition ptsserver_ins_release :: "int \<Rightarrow> pts_manager \<Rightarrow> int \<times> pts_manager" where
  "ptsserver_ins_release sid L =
    (case find_ins sid L of
       None \<Rightarrow> (-1, L)
     | Some (i, ins) \<Rightarrow> (0, L[i := None]))"

section \<open>Small setters and getters\<close>

definition ptsserver_set_first_checkin_offset ::
  "int \<Rightarrow> start_offset \<Rightarrow> pts_manager \<Rightarrow> int \<times> pts_manager" where
  "ptsserver_set_first_checkin_offset sid so L =
    (case find_ins sid L of
       None \<Rightarrow> (-1, L)
     | Some (i, ins) \<Rightarrow>
         (0, L[i := Some (ins\<lparr>mLastCheckinOffset := mBaseOffset so,
                              mAlignmentOffset := so_mAlignmentOffset so\<rparr>)]))"

definition ptsserver_set_trick_mode :: "int \<Rightarrow> int \<Rightarrow> pts_manager \<Rightarrow> int \<times> pts_manager" where
  "ptsserver_set_trick_mode sid mode L =
    (case find_ins sid L of
       None \<Rightarrow> (-1, L)
     | Some (i, ins) \<Rightarrow> (0, L[i := Some (ins\<lparr>mTrickMode := mode\<rparr>)]))"

text \<open>The 64-bit stamp is read from \<open>mLastCheckinPts64\<close>, which the instance declares as
  a u32, and widened into the caller's u64.\<close>

definition ptsserver_get_last_checkin_pts :: "int \<Rightarrow> pts_manager \<Rightarrow> int \<times> (u32 \<times> u64) option" where
  "ptsserver_get_last_checkin_pts sid L =
    (case find_ins sid L of
       None \<Rightarrow> (-1, None)
     | Some (i, ins) \<Rightarrow> (0, Some (mLastCheckinPts ins, ucast (mLastCheckinPts64 ins))))"

definition ptsserver_get_last_checkout_pts :: "int \<Rightarrow> pts_manager \<Rightarrow> int \<times> (u32 \<times> u64) option" where
  "ptsserver_get_last_checkout_pts sid L =
    (case find_ins sid L of
       None \<Rightarrow> (-1, None)
     | Some (i, ins) \<Rightarrow> (0, Some (mLastCheckoutPts ins, mLastCheckoutPts64 ins)))"

section \<open>Check-in\<close>

text \<open>\<open>list_first_entry\<close> of an empty list is the list head read as a node: a fault. The
  instance part of the operation comes in two steps: making room (drop the oldest node when
  the list is full), then taking a free node.\<close>

definition checkin_make_room :: "ptsserver_ins \<Rightarrow> ptsserver_ins option" where
  "checkin_make_room ins =
    (if mListSize ins \<ge> mMaxCount ins
     then (case pts_list ins of
             [] \<Rightarrow> None
           | del_ptn # rest \<Rightarrow>
               Some (ins\<lparr>pts_list := rest, pts_free_list := pts_free_list ins @ [del_ptn],
                         mListSize := mListSize ins - 1\<rparr>))
     else Some ins)"

definition checkin_store :: "checkin_pts_size \<Rightarrow> ptsserver_ins \<Rightarrow> int \<times> ptsserver_ins" where
  "checkin_store ci ins =
    (case pts_free_list ins of
       [] \<Rightarrow> (-1, ins)
     | ptn # free \<Rightarrow>
         let off = mLastCheckinOffset ins + mLastCheckinSize ins;
             ins1 = ins\<lparr>pts_free_list := free,
                      all_free_ptn := (all_free_ptn ins)[ptn := \<lparr>node_offset = off,
                         node_pts = ci_pts ci, node_pts_64 = ci_pts_64 ci\<rparr>],
                      pts_list := pts_list ins @ [ptn],
                      mListSize := mListSize ins + 1\<rparr>;
             ins2 = (if mPtsCheckinStarted ins1 = 0
                     then ins1\<lparr>mFirstCheckinOffset := 0, mFirstCheckinSize := ci_size ci,
                            mFirstCheckinPts := ci_pts ci,
                            mFirstCheckinPts64 := ucast (ci_pts_64 ci),
                            mPtsCheckinStarted := 1\<rparr>
                     else ins1);
             ins3 = (if mAlignmentOffset ins2 \<noteq> 0
                     then ins2\<lparr>mLastCheckinOffset := mAlignmentOffset ins2,
                            mAlignmentOffset := 0\<rparr>
                     else ins2\<lparr>mLastCheckinOffset := off\<rparr>)
         in (0, ins3\<lparr>mLastCheckinSize := ci_size ci, mLastCheckinPts := ci_pts ci,
                    mLastCheckinPts64 := ucast (ci_pts_64 ci)\<rparr>))"

definition ptsserver_checkin_pts_size ::
  "int \<Rightarrow> checkin_pts_size \<Rightarrow> pts_manager \<Rightarrow> (int \<times> pts_manager) option" where
  "ptsserver_checkin_pts_size sid ci L =
    (case find_ins sid L of
       None \<Rightarrow> Some (-1, L)
     | Some (i, ins) \<Rightarrow>
         map_option (\<lambda>ins1. let (r, ins2) = checkin_store ci ins1 in (r, L[i := Some ins2]))
           (checkin_make_room ins))"

section \<open>Check-out: the search\<close>

text \<open>What the first search loop carries: the best distance so far, whether and which node
  is found, the frames seen since, and the two lists (the loop moves stale nodes to the free
  list while it walks).\<close>

record scan_state =
  offsetDiff :: u32
  find_ptn :: "nat option"
  find_frame_num :: nat
  sc_list :: "nat list"
  sc_free :: "nat list"
  sc_size :: u32

definition count_if_found :: "scan_state \<Rightarrow> scan_state" where
  "count_if_found s =
    (if find_ptn s \<noteq> None then s\<lparr>find_frame_num := Suc (find_frame_num s)\<rparr> else s)"

definition take_candidate :: "u32 \<Rightarrow> u32 \<Rightarrow> u32 \<Rightarrow> nat \<Rightarrow> scan_state \<Rightarrow> scan_state" where
  "take_candidate cur off offsetAbs ptn s =
    (if offsetAbs \<le> offsetDiff s \<and> cur > off
     then s\<lparr>offsetDiff := offsetAbs, find_ptn := Some ptn\<rparr> else s)"

text \<open>The loop of \<open>ptsserver_checkout_pts_offset\<close>. \<open>offsetAbs <= mLookupThreshold\<close> compares
  an int with a u32, hence unsigned; \<open>offsetAbs > 251658240\<close> compares two ints.\<close>

fun checkout_scan :: "pts_node list \<Rightarrow> u32 \<Rightarrow> u32 \<Rightarrow> nat list \<Rightarrow> scan_state \<Rightarrow> scan_state" where
  "checkout_scan pool thr cur [] s = s"
| "checkout_scan pool thr cur (ptn # ptns) s =
    (let off = node_offset (pool ! ptn); offsetAbs = kabs32 (cur - off) in
     if offsetAbs \<le> thr
     then checkout_scan pool thr cur ptns (count_if_found (take_candidate cur off offsetAbs ptn s))
     else if sint offsetAbs > 251658240
     then checkout_scan pool thr cur ptns (count_if_found
            (s\<lparr>sc_list := remove1 ptn (sc_list s), sc_free := sc_free s @ [ptn],
               sc_size := sc_size s - 1\<rparr>))
     else if find_frame_num s > 5 then s
     else checkout_scan pool thr cur ptns (count_if_found s))"

text \<open>The second loop, in trick mode (I frames only): the distance limit is 10000 and no node
  is dropped.\<close>

fun trick_scan :: "pts_node list \<Rightarrow> u32 \<Rightarrow> nat list \<Rightarrow> scan_state \<Rightarrow> scan_state" where
  "trick_scan pool cur [] s = s"
| "trick_scan pool cur (ptn # ptns) s =
    (let off = node_offset (pool ! ptn); offsetAbs = kabs32 (cur - off) in
     if offsetAbs \<le> offsetDiff s \<and> cur > off
     then trick_scan pool cur ptns
            (count_if_found (s\<lparr>offsetDiff := offsetAbs, find_ptn := Some ptn\<rparr>))
     else if find_frame_num s > 5 then s
     else trick_scan pool cur ptns (count_if_found s))"

definition scan_start :: "u32 \<Rightarrow> ptsserver_ins \<Rightarrow> scan_state" where
  "scan_start limit ins =
     \<lparr>offsetDiff = limit, find_ptn = None, find_frame_num = 0,
      sc_list = pts_list ins, sc_free = pts_free_list ins, sc_size = mListSize ins\<rparr>"

definition checkout_candidate :: "u32 \<Rightarrow> ptsserver_ins \<Rightarrow> scan_state" where
  "checkout_candidate cur ins =
    (let s = checkout_scan (all_free_ptn ins) (mLookupThreshold ins) cur (pts_list ins)
               (scan_start (mLookupThreshold ins) ins)
     in if find_ptn s = None \<and> mTrickMode ins = 1
        then trick_scan (all_free_ptn ins) cur (sc_list s)
               (s\<lparr>offsetDiff := 10000, find_frame_num := 0\<rparr>)
        else s)"

text \<open>The search as a whole: a found node leaves the list for the free list.\<close>

definition checkout_search :: "u32 \<Rightarrow> ptsserver_ins \<Rightarrow> nat option \<times> ptsserver_ins" where
  "checkout_search cur ins =
    (if cur = 0xFFFFFFFF \<or> pts_list ins = [] then (None, ins)
     else let s = checkout_candidate cur ins in
       case find_ptn s of
         None \<Rightarrow> (None, ins\<lparr>pts_list := sc_list s, pts_free_list := sc_free s,
                           mListSize := sc_size s\<rparr>)
       | Some ptn \<Rightarrow>
           (Some ptn, ins\<lparr>pts_list := remove1 ptn (sc_list s), pts_free_list := sc_free s @ [ptn],
                          mListSize := sc_size s - 1\<rparr>))"

section \<open>Check-out: the answer\<close>

definition checkout_fail ::
  "u32 \<Rightarrow> checkout_pts_offset \<Rightarrow> ptsserver_ins \<Rightarrow> checkout_pts_offset \<times> ptsserver_ins" where
  "checkout_fail cur co ins0 =
    (let ins = ins0\<lparr>mPtsCheckoutFailCount := mPtsCheckoutFailCount ins0 + 1\<rparr>;
         ins1 = (if mDecoderDuration ins \<noteq> 0
           then ins\<lparr>mLastCheckoutPts := mLastCheckoutPts ins + mDecoderDuration ins,
                    mLastCheckoutPts64 := mLastCheckoutPts64 ins
                      + ucast (mDecoderDuration ins * 1000 div 96)\<rparr>
           else ins\<lparr>mLastCheckoutPts := (if mFrameDuration ins \<noteq> 0
                        then mLastCheckoutPts ins + mFrameDuration ins
                        else mLastCheckoutPts ins),
                    mLastCheckoutPts64 := (if mFrameDuration64 ins \<noteq> 0
                        then mLastCheckoutPts64 ins + mFrameDuration64 ins
                        else mLastCheckoutPts64 ins)\<rparr>)
     in (co\<lparr>co_pts := mLastCheckoutPts ins1, co_pts_64 := mLastCheckoutPts64 ins1\<rparr>,
         ins1\<lparr>mLastCheckoutCurOffset := cur\<rparr>))"

text \<open>The frame duration estimate, on the second and later hits: a first estimate, limited to
  9000 and 100000 (the comparisons of the unsigned fields with 0 never hold), and then a
  replacement by any value seen \<open>kDoubleCheckThreshold\<close> times in a row.\<close>

definition first_duration :: "u64 \<Rightarrow> u64 \<Rightarrow> ptsserver_ins \<Rightarrow> ptsserver_ins" where
  "first_duration d d64 ins =
    ins\<lparr>mFrameDuration := (if (ucast d :: u32) > 9000 then 0 else ucast d),
        mFrameDuration64 := (if d64 > 100000 then 0 else d64)\<rparr>"

definition count_double_check :: "u32 \<Rightarrow> u64 \<Rightarrow> ptsserver_ins \<Rightarrow> ptsserver_ins" where
  "count_double_check FrameDur FrameDur64 ins =
    (if FrameDur = mDoubleCheckFrameDuration ins \<or> FrameDur64 = mDoubleCheckFrameDuration64 ins
     then ins\<lparr>mDoubleCheckFrameDurationCount := mDoubleCheckFrameDurationCount ins + 1\<rparr>
     else ins\<lparr>mDoubleCheckFrameDuration := FrameDur, mDoubleCheckFrameDuration64 := FrameDur64,
              mDoubleCheckFrameDurationCount := 0\<rparr>)"

definition adopt_double_check :: "ptsserver_ins \<Rightarrow> ptsserver_ins" where
  "adopt_double_check ins =
    (if mDoubleCheckFrameDurationCount ins > kDoubleCheckThreshold ins
     then ins\<lparr>mFrameDuration := mDoubleCheckFrameDuration ins,
              mFrameDuration64 := mDoubleCheckFrameDuration64 ins,
              mDoubleCheckFrameDurationCount := 0\<rparr>
     else ins)"

definition update_frame_duration ::
  "checkout_pts_offset \<Rightarrow> ptsserver_ins \<Rightarrow> ptsserver_ins option" where
  "update_frame_duration co ins =
    (if mPtsCheckoutStarted ins = 0 then Some (ins\<lparr>mPtsCheckoutStarted := 1\<rparr>)
     else if mFrameDuration ins = 0 \<and> mFrameDuration64 ins = 0
     then do {
       d \<leftarrow> div_u64 (ucast (co_pts co - mLastCheckoutPts ins)) (mPtsCheckoutFailCount ins + 1);
       d64 \<leftarrow> div_u64 (co_pts_64 co - mLastCheckoutPts64 ins) (mPtsCheckoutFailCount ins + 1);
       Some (first_duration d d64 ins) }
     else do {
       d \<leftarrow> div_u64 (ucast (co_pts co - mLastDoubleCheckoutPts ins)) (mPtsCheckoutFailCount ins + 1);
       d64 \<leftarrow> div_u64 (co_pts_64 co - mLastDoubleCheckoutPts64 ins) (mPtsCheckoutFailCount ins + 1);
       Some (adopt_double_check (count_double_check (ucast d) d64 ins)) })"

definition checkout_ok ::
  "u32 \<Rightarrow> u32 \<Rightarrow> checkout_pts_offset \<Rightarrow> ptsserver_ins \<Rightarrow> ptsserver_ins option" where
  "checkout_ok cur cur_duration co ins =
    do { ins1 \<leftarrow> update_frame_duration co ins;
         Some (ins1\<lparr>mPtsCheckoutFailCount := 0,
                    mLastCheckoutOffset := ucast (co_offset co),
                    mLastCheckoutPts := co_pts co,
                    mLastCheckoutPts64 := co_pts_64 co,
                    mLastDoubleCheckoutPts := co_pts co,
                    mLastDoubleCheckoutPts64 := co_pts_64 co,
                    mDecoderDuration := cur_duration,
                    mLastCheckoutCurOffset := cur\<rparr>) }"

text \<open>The low 32 bits of the request are the offset, bits 32 to 61 a duration.\<close>

definition cur_offset_of :: "u64 \<Rightarrow> u32" where
  "cur_offset_of off = ucast (0xFFFFFFFF AND off)"

definition cur_duration_of :: "u64 \<Rightarrow> u32" where
  "cur_duration_of off = ucast (drop_bit 32 off AND 0x3FFFFFFF)"

definition checkout_ins ::
  "checkout_pts_offset \<Rightarrow> ptsserver_ins \<Rightarrow> (checkout_pts_offset \<times> ptsserver_ins) option" where
  "checkout_ins co ins =
    (let cur = cur_offset_of (co_offset co); dur = cur_duration_of (co_offset co);
         (found, ins1) = checkout_search cur ins
     in case found of
          None \<Rightarrow> Some (checkout_fail cur co ins1)
        | Some ptn \<Rightarrow>
            let nd = all_free_ptn ins1 ! ptn;
                co1 = co\<lparr>co_pts := node_pts nd, co_pts_64 := node_pts_64 nd\<rparr>
            in map_option (Pair co1) (checkout_ok cur dur co1 ins1))"

definition ptsserver_checkout_pts_offset ::
  "int \<Rightarrow> checkout_pts_offset \<Rightarrow> pts_manager \<Rightarrow>
   (int \<times> checkout_pts_offset \<times> pts_manager) option" where
  "ptsserver_checkout_pts_offset sid co L =
    (case find_ins sid L of
       None \<Rightarrow> Some (-1, co, L)
     | Some (i, ins) \<Rightarrow>
         do { (co1, ins1) \<leftarrow> checkout_ins co ins; Some (0, co1, L[i := Some ins1]) })"

section \<open>Peeking\<close>

fun peek_scan :: "pts_node list \<Rightarrow> u32 \<Rightarrow> u32 \<Rightarrow> nat list \<Rightarrow> scan_state \<Rightarrow> scan_state" where
  "peek_scan pool thr cur [] s = s"
| "peek_scan pool thr cur (ptn # ptns) s =
    (let off = node_offset (pool ! ptn); offsetTmp = kabs32 (off - cur) in
     if offsetTmp \<le> thr
     then peek_scan pool thr cur ptns (count_if_found (take_candidate cur off offsetTmp ptn s))
     else if find_frame_num s > 5 then s
     else peek_scan pool thr cur ptns (count_if_found s))"

text \<open>Here \<open>offsetDiff\<close> starts at the constant 2500, not at the instance's threshold.\<close>

definition peek_search :: "u32 \<Rightarrow> ptsserver_ins \<Rightarrow> nat option" where
  "peek_search cur ins =
    (if cur = 0xFFFFFFFF \<or> pts_list ins = [] then None
     else find_ptn (peek_scan (all_free_ptn ins) (mLookupThreshold ins) cur (pts_list ins)
            (scan_start 2500 ins)))"

definition peek_calculated :: "ptsserver_ins \<Rightarrow> u32 \<times> u64" where
  "peek_calculated ins =
    (if mDecoderDuration ins \<noteq> 0
     then (mLastCheckoutPts ins + mDecoderDuration ins,
           mLastCheckoutPts64 ins + ucast (mDecoderDuration ins * 1000) div 96)
     else (if mFrameDuration ins \<noteq> 0 then mLastCheckoutPts ins + mFrameDuration ins else 0,
           if mFrameDuration64 ins \<noteq> 0 then mLastCheckoutPts64 ins + mFrameDuration64 ins else 0))"

definition ptsserver_peek_pts_offset ::
  "int \<Rightarrow> checkout_pts_offset \<Rightarrow> pts_manager \<Rightarrow> int \<times> checkout_pts_offset" where
  "ptsserver_peek_pts_offset sid co L =
    (case find_ins sid L of
       None \<Rightarrow> (-1, co)
     | Some (i, ins) \<Rightarrow>
         (0, case peek_search (cur_offset_of (co_offset co)) ins of
               Some ptn \<Rightarrow> co\<lparr>co_pts := node_pts (all_free_ptn ins ! ptn),
                               co_pts_64 := node_pts_64 (all_free_ptn ins ! ptn)\<rparr>
             | None \<Rightarrow> co\<lparr>co_pts := fst (peek_calculated ins),
                          co_pts_64 := snd (peek_calculated ins)\<rparr>))"

end
