(* ===== verification/Pts_Server_Correct.thy ===== *)
theory Pts_Server_Correct
  imports Pts_Server
begin

text \<open>
  Correctness of the PTS server: the two lists of an instance partition its node pool in
  every reachable state, the search loops are characterised (what they keep, what they
  find, when the result is the nearest node), check-in is a bounded queue that drops its
  oldest element (a locale, interpreted on the model), peek and check-out agree, and the
  small operations are related to what was checked in.
\<close>

section \<open>Well-formed instances\<close>

definition pool_size :: "ptsserver_ins \<Rightarrow> nat" where
  "pool_size ins = (if all_free_ptn ins = [] then 0 else unat (mMaxCount ins))"

definition pts_wf :: "ptsserver_ins \<Rightarrow> bool" where
  "pts_wf ins \<longleftrightarrow>
     mset (pts_list ins) + mset (pts_free_list ins) = mset [0..<pool_size ins] \<and>
     unat (mListSize ins) = length (pts_list ins) \<and>
     pool_size ins \<le> length (all_free_ptn ins)"

definition pts_usable :: "ptsserver_ins \<Rightarrow> bool" where
  "pts_usable ins \<longleftrightarrow> pts_wf ins \<and> 0 < pool_size ins"

text \<open>The nodes in check-in order, as the rest of the server sees them.\<close>

definition pts_view :: "ptsserver_ins \<Rightarrow> pts_node list" where
  "pts_view ins = map ((!) (all_free_ptn ins)) (pts_list ins)"

lemma add_free_nodes_eq: "add_free_nodes n = (if n \<le> 500 then Some [0..<n] else None)"
  by (induction n) (auto split: if_splits)

lemma pts_wf_size_eq:
  assumes "pts_wf ins"
  shows "length (pts_list ins) + length (pts_free_list ins) = pool_size ins"
proof -
  have "size (mset (pts_list ins) + mset (pts_free_list ins)) = size (mset [0..<pool_size ins])"
    using assms unfolding pts_wf_def by simp
  then show ?thesis
    by simp
qed

lemma pts_wf_set:
  assumes "pts_wf ins"
  shows "set (pts_list ins) \<union> set (pts_free_list ins) = {0..<pool_size ins}"
  using assms unfolding pts_wf_def by (metis set_mset_mset set_mset_union set_upt)

lemma pts_wf_distinct:
  assumes "pts_wf ins"
  shows "distinct (pts_list ins @ pts_free_list ins)"
  using assms unfolding pts_wf_def by (metis distinct_upt mset_append mset_eq_imp_distinct_iff)

lemma pts_wf_index: "pts_wf ins \<Longrightarrow> p \<in> set (pts_list ins) \<Longrightarrow> p < length (all_free_ptn ins)"
  using pts_wf_set [of ins] unfolding pts_wf_def by (metis UnCI atLeastLessThan_iff le_trans not_le)

lemma init_syncinfo_wf:
  assumes "ptsserver_ins_init_syncinfo mem para ins = Some (r, ins')"
    and "\<And>pool. mem = Some pool \<Longrightarrow> length pool = 500"
  shows "pts_wf ins'"
  using assms
  by (auto simp: ptsserver_ins_init_syncinfo_def Let_def add_free_nodes_eq pts_wf_def pool_size_def
      split: option.splits if_splits)

lemma make_room_shape:
  assumes "checkin_make_room ins = Some ins'" "pts_wf ins"
  shows "pts_wf ins'" "all_free_ptn ins' = all_free_ptn ins" "mMaxCount ins' = mMaxCount ins"
    "pts_list ins' = (if mListSize ins \<ge> mMaxCount ins then tl (pts_list ins) else pts_list ins)"
proof -
  have "pts_wf ins' \<and> all_free_ptn ins' = all_free_ptn ins \<and> mMaxCount ins' = mMaxCount ins
     \<and> pts_list ins' = (if mListSize ins \<ge> mMaxCount ins then tl (pts_list ins) else pts_list ins)"
  proof (cases "mListSize ins \<ge> mMaxCount ins")
    case True
    with assms(1) obtain p rest where l: "pts_list ins = p # rest"
      by (auto simp: checkin_make_room_def split: list.splits)
    then have "mListSize ins \<noteq> 0"
      using assms(2) by (auto simp: pts_wf_def)
    then have "unat (mListSize ins - 1) = length rest"
      using assms(2) l by (simp add: unat_minus_one pts_wf_def)
    then show ?thesis
      using assms True l by (auto simp: checkin_make_room_def pts_wf_def pool_size_def)
  next
    case False
    then show ?thesis
      using assms by (auto simp: checkin_make_room_def)
  qed
  then show "pts_wf ins'" "all_free_ptn ins' = all_free_ptn ins" "mMaxCount ins' = mMaxCount ins"
    "pts_list ins' = (if mListSize ins \<ge> mMaxCount ins then tl (pts_list ins) else pts_list ins)"
    by blast+
qed

lemma make_room_total:
  assumes "pts_usable ins"
  obtains ins' where "checkin_make_room ins = Some ins'" "pts_free_list ins' \<noteq> []"
proof -
  have wf: "pts_wf ins" and pos: "0 < pool_size ins"
    using assms by (auto simp: pts_usable_def)
  have sz: "unat (mListSize ins) = length (pts_list ins)"
    using wf by (simp add: pts_wf_def)
  have pool: "pool_size ins = unat (mMaxCount ins)"
    using pos by (auto simp: pool_size_def split: if_splits)
  show ?thesis
  proof (cases "mListSize ins \<ge> mMaxCount ins")
    case True
    then have "pts_list ins \<noteq> []"
      using pos sz pool by (auto simp: word_le_nat_alt)
    then obtain p rest where "pts_list ins = p # rest"
      by (auto simp: neq_Nil_conv)
    then show ?thesis
      using True that by (simp add: checkin_make_room_def)
  next
    case False
    then have "pts_free_list ins \<noteq> []"
      using pts_wf_size_eq [OF wf] sz pool by (auto simp: word_le_nat_alt)
    then show ?thesis
      using that False by (simp add: checkin_make_room_def)
  qed
qed

lemma store_shape:
  assumes "pts_free_list ins = ptn # free"
  shows "\<exists>ins'. checkin_store ci ins = (0, ins') \<and> pts_free_list ins' = free
    \<and> pts_list ins' = pts_list ins @ [ptn] \<and> mListSize ins' = mListSize ins + 1
    \<and> mMaxCount ins' = mMaxCount ins
    \<and> all_free_ptn ins' = (all_free_ptn ins)[ptn := \<lparr>node_offset = mLastCheckinOffset ins
          + mLastCheckinSize ins, node_pts = ci_pts ci, node_pts_64 = ci_pts_64 ci\<rparr>]"
  using assms by (simp add: checkin_store_def Let_def)

lemma store_wf:
  assumes "checkin_store ci ins = (r, ins')" "pts_wf ins"
  shows "pts_wf ins'" "mMaxCount ins' = mMaxCount ins" "pool_size ins' = pool_size ins"
proof -
  have "pts_wf ins' \<and> mMaxCount ins' = mMaxCount ins \<and> pool_size ins' = pool_size ins"
  proof (cases "pts_free_list ins")
    case Nil
    then show ?thesis
      using assms by (auto simp: checkin_store_def)
  next
    case (Cons ptn free)
    have "length (pts_list ins) < pool_size ins"
      using pts_wf_size_eq [OF assms(2)] Cons by simp
    then have "Suc (length (pts_list ins)) < 2 ^ LENGTH(32)"
      using unsigned_less [of "mMaxCount ins", where ?'a = nat]
      by (simp add: pool_size_def split: if_splits)
    then have "unat (mListSize ins + 1) = Suc (length (pts_list ins))"
      using assms(2) by (simp add: pts_wf_def unat_word_ariths)
    then show ?thesis
      using store_shape [OF Cons, of ci] assms Cons
      by (auto simp: pts_wf_def pool_size_def split: if_splits)
  qed
  then show "pts_wf ins'" "mMaxCount ins' = mMaxCount ins" "pool_size ins' = pool_size ins"
    by blast+
qed

section \<open>The search\<close>

definition dist :: "pts_node list \<Rightarrow> u32 \<Rightarrow> nat \<Rightarrow> u32" where
  "dist pool cur p = kabs32 (cur - node_offset (pool ! p))"

definition before :: "pts_node list \<Rightarrow> u32 \<Rightarrow> nat \<Rightarrow> bool" where
  "before pool cur p \<longleftrightarrow> node_offset (pool ! p) < cur"

definition stale :: "pts_node list \<Rightarrow> u32 \<Rightarrow> nat \<Rightarrow> bool" where
  "stale pool cur p \<longleftrightarrow> sint (dist pool cur p) > 251658240"

lemmas scan_defs = dist_def before_def stale_def count_if_found_def take_candidate_def

text \<open>What the search loops keep: the two lists still partition the pool, the counter is the
  length of the list, and the candidate is linked.\<close>

definition scan_ok :: "nat multiset \<Rightarrow> scan_state \<Rightarrow> bool" where
  "scan_ok M s \<longleftrightarrow> mset (sc_list s) + mset (sc_free s) = M \<and>
     unat (sc_size s) = length (sc_list s) \<and>
     (\<forall>p. find_ptn s = Some p \<longrightarrow> p \<in> set (sc_list s))"

lemma scan_ok_count [simp]: "scan_ok M (count_if_found s) = scan_ok M s"
  by (simp add: scan_ok_def count_if_found_def)

lemma count_frame [simp]:
  "find_ptn (count_if_found s) = find_ptn s" "sc_list (count_if_found s) = sc_list s"
  "offsetDiff (count_if_found s) = offsetDiff s" "sc_free (count_if_found s) = sc_free s"
  "sc_size (count_if_found s) = sc_size s"
  by (simp_all add: count_if_found_def)

lemma take_candidate_frame [simp]:
  "sc_list (take_candidate cur off d ptn s) = sc_list s"
  "sc_free (take_candidate cur off d ptn s) = sc_free s"
  "sc_size (take_candidate cur off d ptn s) = sc_size s"
  by (simp_all add: take_candidate_def)

lemma scan_ok_take:
  "scan_ok M s \<Longrightarrow> ptn \<in> set (sc_list s) \<Longrightarrow> scan_ok M (take_candidate cur off d ptn s)"
  by (simp add: scan_ok_def take_candidate_def)

lemma unlink_size:
  assumes "unat n = length xs" "x \<in> set xs"
  shows "unat (n - (1 :: u32)) = length (remove1 x xs)"
proof -
  have "n \<noteq> 0"
    using assms by auto
  then show ?thesis
    using assms by (simp add: unat_minus_one length_remove1)
qed

lemma scan_ok_unlink:
  assumes "scan_ok M s" "ptn \<in> set (sc_list s)" "find_ptn s \<noteq> Some ptn"
  shows "scan_ok M (s\<lparr>sc_list := remove1 ptn (sc_list s), sc_free := sc_free s @ [ptn],
                     sc_size := sc_size s - 1\<rparr>)"
  using assms by (auto simp: scan_ok_def unlink_size in_set_remove1)

lemma checkout_scan_ok:
  assumes "scan_ok M s" "distinct ptns" "set ptns \<subseteq> set (sc_list s)" "find_ptn s \<notin> Some ` set ptns"
  shows "scan_ok M (checkout_scan pool thr cur ptns s)"
  using assms
proof (induction pool thr cur ptns s rule: checkout_scan.induct)
  case (1 pool thr cur s)
  then show ?case by simp
next
  case (2 pool thr cur ptn ptns s)
  let ?d = "kabs32 (cur - node_offset (pool ! ptn))"
  let ?t = "take_candidate cur (node_offset (pool ! ptn)) ?d ptn s"
  have ptn: "ptn \<in> set (sc_list s)" "find_ptn s \<noteq> Some ptn" "ptn \<notin> set ptns"
    using "2.prems" by auto
  consider (near) "?d \<le> thr" | (old) "\<not> ?d \<le> thr" "sint ?d > 251658240"
    | (stop) "\<not> ?d \<le> thr" "\<not> sint ?d > 251658240" "find_frame_num s > 5"
    | (skip) "\<not> ?d \<le> thr" "\<not> sint ?d > 251658240" "\<not> find_frame_num s > 5"
    by blast
  then show ?case
  proof cases
    case near
    have "scan_ok M ?t"
      using "2.prems"(1) ptn(1) by (rule scan_ok_take)
    moreover have "find_ptn ?t \<notin> Some ` set ptns"
      using "2.prems" ptn by (auto simp: take_candidate_def)
    ultimately show ?thesis
      using near "2.IH"(1) [OF refl refl near] "2.prems" by (simp add: Let_def)
  next
    case old
    have "set ptns \<subseteq> set (remove1 ptn (sc_list s))"
      using "2.prems"(3) ptn(3) by (metis in_set_remove1 insert_subset list.simps(15) subset_code(1))
    then show ?thesis
      using old "2.IH"(2) [OF refl refl old] "2.prems" ptn
      by (simp add: Let_def scan_ok_unlink)
  next
    case stop
    then show ?thesis
      using "2.prems" by (simp add: Let_def)
  next
    case skip
    then show ?thesis
      using "2.IH"(3) [OF refl refl skip] "2.prems" by (simp add: Let_def)
  qed
qed

lemma trick_scan_ok:
  assumes "scan_ok M s" "set ptns \<subseteq> set (sc_list s)"
  shows "scan_ok M (trick_scan pool cur ptns s)"
  using assms
proof (induction pool cur ptns s rule: trick_scan.induct)
  case (1 pool cur s)
  then show ?case by simp
next
  case (2 pool cur ptn ptns s)
  then show ?case
    by (auto simp: Let_def scan_ok_def)
qed

text \<open>The candidate is before the current offset, at the recorded distance.\<close>

definition cand_ok :: "pts_node list \<Rightarrow> u32 \<Rightarrow> scan_state \<Rightarrow> bool" where
  "cand_ok pool cur s \<longleftrightarrow> (\<forall>p. find_ptn s = Some p \<longrightarrow> before pool cur p \<and> dist pool cur p = offsetDiff s)"

lemma cand_ok_count [simp]: "cand_ok pool cur (count_if_found s) = cand_ok pool cur s"
  by (simp add: cand_ok_def)

lemma cand_ok_lists [simp]:
  "cand_ok pool cur (s\<lparr>sc_list := xs, sc_free := ys, sc_size := n\<rparr>) = cand_ok pool cur s"
  by (simp add: cand_ok_def)

lemma cand_ok_new:
  "off = node_offset (pool ! ptn) \<Longrightarrow> off < cur \<Longrightarrow>
   cand_ok pool cur (s\<lparr>offsetDiff := kabs32 (cur - off), find_ptn := Some ptn\<rparr>)"
  by (simp add: cand_ok_def scan_defs)

lemma cand_ok_take:
  "off = node_offset (pool ! ptn) \<Longrightarrow> cand_ok pool cur s \<Longrightarrow>
   cand_ok pool cur (take_candidate cur off (kabs32 (cur - off)) ptn s)"
  by (simp add: take_candidate_def cand_ok_new)

lemma take_candidate_closer: "offsetDiff (take_candidate cur off d ptn s) \<le> offsetDiff s"
  by (simp add: take_candidate_def)

lemma checkout_scan_cand:
  "cand_ok pool cur s \<Longrightarrow> cand_ok pool cur (checkout_scan pool thr cur ptns s)"
  by (induction pool thr cur ptns s rule: checkout_scan.induct)
     (simp_all add: Let_def cand_ok_take)

lemma checkout_scan_closer: "offsetDiff (checkout_scan pool thr cur ptns s) \<le> offsetDiff s"
proof (induction pool thr cur ptns s rule: checkout_scan.induct)
  case (2 pool thr cur ptn ptns s)
  then show ?case
    by (auto simp: Let_def intro: order_trans [OF _ take_candidate_closer])
qed simp

lemma trick_scan_cand:
  "cand_ok pool cur s \<Longrightarrow> cand_ok pool cur (trick_scan pool cur ptns s)"
  by (induction pool cur ptns s rule: trick_scan.induct)
     (simp_all add: Let_def cand_ok_new)

lemma trick_scan_closer: "offsetDiff (trick_scan pool cur ptns s) \<le> offsetDiff s"
proof (induction pool cur ptns s rule: trick_scan.induct)
  case (2 pool cur ptn ptns s)
  then show ?case
    by (auto simp: Let_def intro: order_trans)
qed simp

text \<open>A found candidate is never dropped again.\<close>

lemma checkout_scan_keeps_found:
  "find_ptn s \<noteq> None \<Longrightarrow> find_ptn (checkout_scan pool thr cur ptns s) \<noteq> None"
  by (induction pool thr cur ptns s rule: checkout_scan.induct)
     (auto simp: Let_def take_candidate_def)

text \<open>A candidate is a node before the current offset and within the threshold; a stopper is a
  node outside the threshold that is not stale, at which the loop may stop once a candidate is
  found. When no stopper stands between two candidates, the result is the nearest
  candidate.\<close>

definition candidate :: "pts_node list \<Rightarrow> u32 \<Rightarrow> u32 \<Rightarrow> nat \<Rightarrow> bool" where
  "candidate pool thr cur p \<longleftrightarrow> before pool cur p \<and> dist pool cur p \<le> thr"

definition stopper :: "pts_node list \<Rightarrow> u32 \<Rightarrow> u32 \<Rightarrow> nat \<Rightarrow> bool" where
  "stopper pool thr cur p \<longleftrightarrow> \<not> dist pool cur p \<le> thr \<and> \<not> stale pool cur p"

definition grouped :: "pts_node list \<Rightarrow> u32 \<Rightarrow> u32 \<Rightarrow> nat list \<Rightarrow> bool" where
  "grouped pool thr cur ptns \<longleftrightarrow> (\<forall>as b bs. ptns = as @ b # bs \<longrightarrow> stopper pool thr cur b \<longrightarrow>
     (\<forall>p \<in> set as. \<not> candidate pool thr cur p) \<or> (\<forall>q \<in> set bs. \<not> candidate pool thr cur q))"

definition unbroken :: "pts_node list \<Rightarrow> u32 \<Rightarrow> u32 \<Rightarrow> nat list \<Rightarrow> scan_state \<Rightarrow> bool" where
  "unbroken pool thr cur ptns s \<longleftrightarrow> grouped pool thr cur ptns \<and>
     (find_frame_num s > 0 \<longrightarrow> find_ptn s \<noteq> None) \<and>
     (find_ptn s \<noteq> None \<longrightarrow> (\<forall>as b bs. ptns = as @ b # bs \<longrightarrow> stopper pool thr cur b \<longrightarrow>
        (\<forall>q \<in> set bs. \<not> candidate pool thr cur q)))"

lemma grouped_tl: "grouped pool thr cur (p # ps) \<Longrightarrow> grouped pool thr cur ps"
  unfolding grouped_def by (metis Cons_eq_appendI list.set_intros(2))

lemma unbroken_tl: "unbroken pool thr cur (p # ps) s \<Longrightarrow> unbroken pool thr cur ps s"
  unfolding unbroken_def by (metis Cons_eq_appendI grouped_tl)

lemma unbroken_count:
  "unbroken pool thr cur ps s \<Longrightarrow> unbroken pool thr cur ps (count_if_found s)"
  by (auto simp: unbroken_def count_if_found_def)

lemma unbroken_lists:
  "unbroken pool thr cur ps (s\<lparr>sc_list := xs, sc_free := ys, sc_size := n\<rparr>) = unbroken pool thr cur ps s"
  by (simp add: unbroken_def)

lemma unbroken_take:
  assumes "unbroken pool thr cur (p # ps) s" "dist pool cur p \<le> thr"
  shows "unbroken pool thr cur ps (take_candidate cur (node_offset (pool ! p)) d p s)"
proof (cases "candidate pool thr cur p")
  case True
  have "\<forall>q \<in> set bs. \<not> candidate pool thr cur q"
    if "ps = as @ b # bs" "stopper pool thr cur b" for as b bs
    using assms(1) that True unfolding unbroken_def grouped_def
    by (metis Cons_eq_appendI list.set_intros(1))
  then show ?thesis
    using unbroken_tl [OF assms(1)] by (auto simp: unbroken_def take_candidate_def)
next
  case False
  then have "take_candidate cur (node_offset (pool ! p)) d p s = s"
    using assms(2) by (auto simp: take_candidate_def candidate_def before_def)
  then show ?thesis
    using unbroken_tl [OF assms(1)] by simp
qed

lemma checkout_scan_best:
  assumes "unbroken pool thr cur ptns s"
    and "q \<in> set ptns" "before pool cur q" "dist pool cur q \<le> thr" "dist pool cur q \<le> offsetDiff s"
    and "cand_ok pool cur s"
  shows "find_ptn (checkout_scan pool thr cur ptns s) \<noteq> None
       \<and> offsetDiff (checkout_scan pool thr cur ptns s) \<le> dist pool cur q"
  using assms
proof (induction pool thr cur ptns s rule: checkout_scan.induct)
  case (1 pool thr cur s)
  then show ?case by simp
next
  case (2 pool thr cur ptn ptns s)
  let ?d = "kabs32 (cur - node_offset (pool ! ptn))"
  let ?t = "count_if_found (take_candidate cur (node_offset (pool ! ptn)) ?d ptn s)"
  have cand: "cand_ok pool cur ?t"
    using "2.prems"(6) by (simp add: cand_ok_take)
  show ?case
  proof (cases "?d \<le> thr")
    case near: True
    have ub: "unbroken pool thr cur ptns ?t"
      using unbroken_take [OF "2.prems"(1)] near by (intro unbroken_count) (simp add: dist_def)
    show ?thesis
    proof (cases "q \<noteq> ptn \<and> dist pool cur q \<le> offsetDiff ?t")
      case True
      then show ?thesis
        using near "2.IH"(1) [OF refl refl near ub] "2.prems" cand by (simp add: Let_def)
    next
      case False
      then have t: "find_ptn ?t \<noteq> None" "offsetDiff ?t \<le> dist pool cur q"
        using "2.prems"(3,5) by (auto simp: scan_defs split: if_splits)
      then show ?thesis
        using near checkout_scan_closer [of pool thr cur ptns ?t] checkout_scan_keeps_found [OF t(1)]
        by (auto simp: Let_def intro: order_trans)
    qed
  next
    case far: False
    then have q: "q \<in> set ptns"
      using "2.prems"(2,4) by (auto simp: dist_def)
    note tl = unbroken_tl [OF "2.prems"(1)]
    show ?thesis
    proof (cases "sint ?d > 251658240")
      case True
      show ?thesis
        using far True q "2.IH"(2) [OF refl refl far True] "2.prems" tl
        by (simp add: Let_def cand_ok_def unbroken_count unbroken_lists)
    next
      case stop: False
      then have "stopper pool thr cur ptn"
        using far by (simp add: stopper_def dist_def stale_def)
      then have "find_ptn s = None"
        using "2.prems"(1,3,4) q unfolding unbroken_def candidate_def by blast
      then have "\<not> find_frame_num s > 5"
        using "2.prems"(1) by (auto simp: unbroken_def)
      then show ?thesis
        using far stop q "2.IH"(3) [OF refl refl far stop] "2.prems" tl
        by (simp add: Let_def unbroken_count)
    qed
  qed
qed

section \<open>One instance: search, check-out, check-in\<close>

lemma checkout_scan_list: "set (sc_list (checkout_scan pool thr cur ptns s)) \<subseteq> set (sc_list s)"
proof (induction pool thr cur ptns s rule: checkout_scan.induct)
  case (2 pool thr cur ptn ptns s)
  show ?case
    using "2.IH"(1) [OF refl refl] "2.IH"(2) [OF refl refl] "2.IH"(3) [OF refl refl]
      set_remove1_subset [of ptn "sc_list s"]
    by (auto simp: Let_def)
qed simp

lemma trick_scan_list [simp]: "sc_list (trick_scan pool cur ptns s) = sc_list s"
  by (induction pool cur ptns s rule: trick_scan.induct) (simp_all add: Let_def)

lemma scan_ok_restart [simp]:
  "scan_ok M (s\<lparr>offsetDiff := d, find_frame_num := n\<rparr>) = scan_ok M s"
  by (simp add: scan_ok_def)

lemma cand_ok_none: "find_ptn s = None \<Longrightarrow> cand_ok pool cur s"
  by (simp add: cand_ok_def)

lemma candidate_ok:
  assumes "pts_wf ins"
  shows "scan_ok (mset [0..<pool_size ins]) (checkout_candidate cur ins)"
    and "cand_ok (all_free_ptn ins) cur (checkout_candidate cur ins)"
    and "set (sc_list (checkout_candidate cur ins)) \<subseteq> set (pts_list ins)"
proof -
  let ?s1 = "checkout_scan (all_free_ptn ins) (mLookupThreshold ins) cur (pts_list ins)
     (scan_start (mLookupThreshold ins) ins)"
  have ok1: "scan_ok (mset [0..<pool_size ins]) ?s1"
    using assms pts_wf_distinct [OF assms]
    by (intro checkout_scan_ok) (simp_all add: scan_ok_def scan_start_def pts_wf_def)
  then show "scan_ok (mset [0..<pool_size ins]) (checkout_candidate cur ins)"
    by (auto simp: checkout_candidate_def Let_def intro!: trick_scan_ok)
  have "cand_ok (all_free_ptn ins) cur ?s1"
    by (rule checkout_scan_cand) (simp add: cand_ok_def scan_start_def)
  then show "cand_ok (all_free_ptn ins) cur (checkout_candidate cur ins)"
    by (simp add: checkout_candidate_def Let_def trick_scan_cand cand_ok_none)
  show "set (sc_list (checkout_candidate cur ins)) \<subseteq> set (pts_list ins)"
    using checkout_scan_list [of "all_free_ptn ins" "mLookupThreshold ins" cur "pts_list ins"
        "scan_start (mLookupThreshold ins) ins"]
    by (auto simp: checkout_candidate_def Let_def scan_start_def)
qed

lemma search_frame:
  "checkout_search cur ins = (f, ins') \<Longrightarrow>
     all_free_ptn ins' = all_free_ptn ins \<and> mMaxCount ins' = mMaxCount ins
     \<and> mPtsCheckoutFailCount ins' = mPtsCheckoutFailCount ins"
  by (auto simp: checkout_search_def Let_def split: if_splits option.splits)

lemma search_wf:
  assumes "pts_wf ins" "checkout_search cur ins = (f, ins')"
  shows "pts_wf ins'" and "pool_size ins' = pool_size ins"
proof -
  show pool: "pool_size ins' = pool_size ins"
    using search_frame [OF assms(2)] by (simp add: pool_size_def)
  show "pts_wf ins'"
  proof (cases "cur = 0xFFFFFFFF \<or> pts_list ins = []")
    case True
    then show ?thesis
      using assms by (auto simp: checkout_search_def)
  next
    case False
    note ok = candidate_ok(1) [OF assms(1), of cur]
    show ?thesis
    proof (cases "find_ptn (checkout_candidate cur ins)")
      case None
      then show ?thesis
        using ok False assms pool by (auto simp: checkout_search_def Let_def pts_wf_def scan_ok_def
            simp del: mset_upt)
    next
      case (Some ptn)
      then have "ptn \<in> set (sc_list (checkout_candidate cur ins))"
        using ok by (simp add: scan_ok_def)
      moreover from this have "ptn \<in># mset [0..<pool_size ins]"
        using ok unfolding scan_ok_def by (metis in_multiset_in_set union_iff)
      ultimately show ?thesis
        using ok False assms Some pool
        by (auto simp: checkout_search_def Let_def pts_wf_def scan_ok_def unlink_size
            simp del: mset_upt)
    qed
  qed
qed

lemma search_found:
  assumes "pts_wf ins" "checkout_search cur ins = (Some p, ins')"
  shows "p \<in> set (pts_list ins)" "before (all_free_ptn ins) cur p" "p \<notin> set (pts_list ins')"
proof -
  let ?s = "checkout_candidate cur ins"
  have s: "find_ptn ?s = Some p" "pts_list ins' = remove1 p (sc_list ?s)"
    using assms(2) by (auto simp: checkout_search_def Let_def split: if_splits option.splits)
  show "before (all_free_ptn ins) cur p" "p \<in> set (pts_list ins)"
    using candidate_ok [OF assms(1), of cur] s(1) by (auto simp: cand_ok_def scan_ok_def)
  have "distinct (sc_list ?s)"
    using candidate_ok(1) [OF assms(1), of cur] unfolding scan_ok_def
    by (metis distinct_append distinct_upt mset_append mset_eq_imp_distinct_iff)
  then show "p \<notin> set (pts_list ins')"
    using s(2) by simp
qed

text \<open>Two cases in which the list is grouped: no stopper at all, and offsets checked in in
  ascending order, below \<open>2 ^ 31\<close> up to the requested one.\<close>

lemma no_stopper_grouped:
  "(\<And>q. q \<in> set ptns \<Longrightarrow> \<not> stopper pool thr cur q) \<Longrightarrow> grouped pool thr cur ptns"
  by (auto simp: grouped_def)

lemma ascending_grouped:
  assumes "sorted (map (\<lambda>p. node_offset (pool ! p)) ptns)" "unat cur < 2 ^ 31"
  shows "grouped pool thr cur ptns"
  unfolding grouped_def
proof (intro allI impI)
  fix as b bs
  assume l: "ptns = as @ b # bs" and st: "stopper pool thr cur b"
  let ?o = "\<lambda>p. node_offset (pool ! p)"
  have before_b: "?o p \<le> ?o b" if "p \<in> set as" for p
    using assms(1) that by (auto simp: l sorted_append)
  have after_b: "?o b \<le> ?o q" if "q \<in> set bs" for q
    using assms(1) that by (auto simp: l sorted_append)
  have mono: "dist pool cur b \<le> dist pool cur p" if "?o p \<le> ?o b" "?o b \<le> cur" for p
    using kabs32_diff_above [of "?o b" cur] kabs32_diff_above [of "?o p" cur] that assms(2)
    by (simp add: dist_def word_le_nat_alt)
  show "(\<forall>p \<in> set as. \<not> candidate pool thr cur p) \<or> (\<forall>q \<in> set bs. \<not> candidate pool thr cur q)"
  proof (cases "?o b \<le> cur")
    case True
    then show ?thesis
      using st mono before_b unfolding stopper_def candidate_def by (meson order_trans)
  next
    case False
    then show ?thesis
      using after_b unfolding candidate_def before_def by (meson leD less_le_not_le order_trans linear)
  qed
qed

lemma search_best:
  assumes "pts_wf ins" "cur \<noteq> 0xFFFFFFFF"
    and "grouped (all_free_ptn ins) (mLookupThreshold ins) cur (pts_list ins)"
    and "q \<in> set (pts_list ins)" "before (all_free_ptn ins) cur q"
    and "dist (all_free_ptn ins) cur q \<le> mLookupThreshold ins"
  obtains p ins' where "checkout_search cur ins = (Some p, ins')"
    "dist (all_free_ptn ins) cur p \<le> dist (all_free_ptn ins) cur q"
proof -
  let ?s1 = "checkout_scan (all_free_ptn ins) (mLookupThreshold ins) cur (pts_list ins)
     (scan_start (mLookupThreshold ins) ins)"
  have best: "find_ptn ?s1 \<noteq> None \<and> offsetDiff ?s1 \<le> dist (all_free_ptn ins) cur q"
    using assms by (intro checkout_scan_best) (auto simp: unbroken_def scan_start_def cand_ok_def)
  then obtain p where p: "find_ptn ?s1 = Some p"
    by auto
  then have c: "checkout_candidate cur ins = ?s1"
    by (simp add: checkout_candidate_def Let_def)
  then have "dist (all_free_ptn ins) cur p = offsetDiff ?s1"
    using candidate_ok(2) [OF assms(1), of cur] p by (simp add: cand_ok_def)
  moreover have "\<exists>ins'. checkout_search cur ins = (Some p, ins')"
    using assms(2,4) c p by (auto simp: checkout_search_def Let_def)
  ultimately show ?thesis
    using that best by auto
qed

text \<open>The answer does not touch the lists.\<close>

lemma duration_frames [field_frames]:
  "pts_list (first_duration d d64 ins) = pts_list ins"
  "pts_free_list (first_duration d d64 ins) = pts_free_list ins"
  "mListSize (first_duration d d64 ins) = mListSize ins"
  "mMaxCount (first_duration d d64 ins) = mMaxCount ins"
  "all_free_ptn (first_duration d d64 ins) = all_free_ptn ins"
  "pts_list (count_double_check f f64 ins) = pts_list ins"
  "pts_free_list (count_double_check f f64 ins) = pts_free_list ins"
  "mListSize (count_double_check f f64 ins) = mListSize ins"
  "mMaxCount (count_double_check f f64 ins) = mMaxCount ins"
  "all_free_ptn (count_double_check f f64 ins) = all_free_ptn ins"
  "pts_list (adopt_double_check ins) = pts_list ins"
  "pts_free_list (adopt_double_check ins) = pts_free_list ins"
  "mListSize (adopt_double_check ins) = mListSize ins"
  "mMaxCount (adopt_double_check ins) = mMaxCount ins"
  "all_free_ptn (adopt_double_check ins) = all_free_ptn ins"
  by (simp_all add: first_duration_def count_double_check_def adopt_double_check_def)

lemma update_duration_frame:
  "update_frame_duration co ins = Some ins' \<Longrightarrow>
     pts_list ins' = pts_list ins \<and> pts_free_list ins' = pts_free_list ins
     \<and> mListSize ins' = mListSize ins \<and> mMaxCount ins' = mMaxCount ins
     \<and> all_free_ptn ins' = all_free_ptn ins"
  by (auto simp: update_frame_duration_def field_frames split: if_splits bind_splits)

lemma checkout_ok_frame:
  "checkout_ok cur d co ins = Some ins' \<Longrightarrow>
     pts_list ins' = pts_list ins \<and> pts_free_list ins' = pts_free_list ins
     \<and> mListSize ins' = mListSize ins \<and> mMaxCount ins' = mMaxCount ins
     \<and> all_free_ptn ins' = all_free_ptn ins"
  by (auto simp: checkout_ok_def bind_eq_Some_conv dest: update_duration_frame)

lemma checkout_fail_frame:
  "checkout_fail cur co ins = (co', ins') \<Longrightarrow>
     pts_list ins' = pts_list ins \<and> pts_free_list ins' = pts_free_list ins
     \<and> mListSize ins' = mListSize ins \<and> mMaxCount ins' = mMaxCount ins
     \<and> all_free_ptn ins' = all_free_ptn ins"
  by (auto simp: checkout_fail_def Let_def)

lemma pts_wf_cong:
  "pts_list ins' = pts_list ins \<and> pts_free_list ins' = pts_free_list ins
     \<and> mListSize ins' = mListSize ins \<and> mMaxCount ins' = mMaxCount ins
     \<and> all_free_ptn ins' = all_free_ptn ins \<Longrightarrow>
   pts_wf ins' = pts_wf ins \<and> pool_size ins' = pool_size ins"
  by (simp add: pts_wf_def pool_size_def)

lemma checkout_ins_wf:
  assumes "checkout_ins co ins = Some (co', ins')" "pts_wf ins"
  shows "pts_wf ins'" and "pool_size ins' = pool_size ins"
proof -
  obtain f ins1 where s: "checkout_search (cur_offset_of (co_offset co)) ins = (f, ins1)"
    by fastforce
  have "pts_wf ins' = pts_wf ins1 \<and> pool_size ins' = pool_size ins1"
    using assms(1) s
    by (auto simp: checkout_ins_def Let_def split: option.splits
        intro!: pts_wf_cong dest: checkout_ok_frame checkout_fail_frame)
  then show "pts_wf ins'" and "pool_size ins' = pool_size ins"
    using search_wf [OF assms(2) s] by simp_all
qed

text \<open>The only fault left in a check-out is the division by the failure count plus one.\<close>

lemma checkout_ok_total:
  assumes "mPtsCheckoutFailCount ins + 1 \<noteq> 0"
  shows "\<exists>ins'. checkout_ok cur d co ins = Some ins'"
  using assms by (simp add: checkout_ok_def update_frame_duration_def div_u64_def)

lemma checkout_ins_total:
  assumes "mPtsCheckoutFailCount ins + 1 \<noteq> 0"
  shows "checkout_ins co ins \<noteq> None"
proof -
  obtain f ins1 where s: "checkout_search (cur_offset_of (co_offset co)) ins = (f, ins1)"
    by fastforce
  have "mPtsCheckoutFailCount ins1 + 1 \<noteq> 0"
    using search_frame [OF s] assms by simp
  then show ?thesis
    using s checkout_ok_total by (auto simp: checkout_ins_def Let_def split: option.splits dest: checkout_ok_total)
qed

section \<open>Check-in as a bounded queue\<close>

definition checkin_push :: "checkin_pts_size \<Rightarrow> ptsserver_ins \<Rightarrow> ptsserver_ins option" where
  "checkin_push ci ins =
    (case checkin_make_room ins of
       None \<Rightarrow> None
     | Some ins1 \<Rightarrow> if fst (checkin_store ci ins1) = 0 then Some (snd (checkin_store ci ins1)) else None)"

definition stamps :: "ptsserver_ins \<Rightarrow> (u32 \<times> u64) list" where
  "stamps ins = map (\<lambda>n. (node_pts n, node_pts_64 n)) (pts_view ins)"

definition stamp_of :: "checkin_pts_size \<Rightarrow> u32 \<times> u64" where
  "stamp_of ci = (ci_pts ci, ci_pts_64 ci)"

primrec push_all :: "('x \<Rightarrow> 's \<Rightarrow> 's option) \<Rightarrow> 'x list \<Rightarrow> 's \<Rightarrow> 's option" where
  "push_all push [] s = Some s"
| "push_all push (x # xs) s = do { s' \<leftarrow> push x s; push_all push xs s' }"

text \<open>The interface: pushing never fails on a valid state, and drops the oldest element of a
  full queue.\<close>

locale bounded_queue =
  fixes push :: "'x \<Rightarrow> 's \<Rightarrow> 's option"
    and view :: "'s \<Rightarrow> 'a list"
    and item :: "'x \<Rightarrow> 'a"
    and cap :: "'s \<Rightarrow> nat"
    and valid :: "'s \<Rightarrow> bool"
  assumes push_ok: "valid s \<Longrightarrow> \<exists>s'. push x s = Some s' \<and> valid s' \<and> cap s' = cap s \<and>
      view s' = (if length (view s) \<ge> cap s then tl (view s) else view s) @ [item x]"
    and cap_pos: "valid s \<Longrightarrow> 0 < cap s"
    and fits: "valid s \<Longrightarrow> length (view s) \<le> cap s"
begin

lemma push_all_view:
  "valid s \<Longrightarrow> \<exists>s'. push_all push xs s = Some s' \<and> valid s' \<and> cap s' = cap s \<and>
     view s' = drop (length (view s) + length xs - cap s) (view s @ map item xs)"
proof (induction xs arbitrary: s)
  case Nil
  then show ?case
    using fits by simp
next
  case (Cons x xs)
  from push_ok [OF Cons.prems, of x] obtain s1 where s1: "push x s = Some s1" "valid s1" "cap s1 = cap s"
    and v1: "view s1 = (if length (view s) \<ge> cap s then tl (view s) else view s) @ [item x]"
    by blast
  from Cons.IH [OF s1(2)] obtain s' where s': "push_all push xs s1 = Some s'" "valid s'"
    "cap s' = cap s1" "view s' = drop (length (view s1) + length xs - cap s1) (view s1 @ map item xs)"
    by blast
  have "view s' = drop (length (view s) + length (x # xs) - cap s) (view s @ map item (x # xs))"
  proof (cases "length (view s) \<ge> cap s")
    case True
    then have len: "length (view s) = cap s" and pos: "view s \<noteq> []"
      using fits [OF Cons.prems] cap_pos [OF Cons.prems] by auto
    then have "view s @ map item (x # xs) = hd (view s) # (view s1 @ map item xs)"
      using v1 True by simp
    moreover have "length (view s1) = cap s"
      using v1 True len pos cap_pos [OF Cons.prems] by simp
    moreover from this have "view s' = drop (length xs) (view s1 @ map item xs)"
      using s'(4) s1(3) by (simp del: drop_append)
    ultimately show ?thesis
      using len by (simp del: drop_append append_Cons map_append list.map)
  next
    case False
    then show ?thesis
      using s'(4) s1(3) v1 by simp
  qed
  then show ?case
    using s1 s' by simp
qed

lemma push_all_length:
  assumes "valid s"
  shows "\<exists>s'. push_all push xs s = Some s' \<and> length (view s') = min (cap s) (length (view s) + length xs)"
  using push_all_view [OF assms, of xs] fits [OF assms] by fastforce

end

lemma view_store:
  assumes "distinct (pts_list ins @ ptn # free)" "ptn < length (all_free_ptn ins)"
  shows "map ((!) ((all_free_ptn ins)[ptn := n])) (pts_list ins @ [ptn]) = pts_view ins @ [n]"
  using assms by (auto simp: pts_view_def nth_list_update)

lemma pts_view_length [simp]: "length (pts_view ins) = length (pts_list ins)"
  by (simp add: pts_view_def)

lemma usable_cap: "pts_usable ins \<Longrightarrow> pool_size ins = unat (mMaxCount ins)"
  by (auto simp: pts_usable_def pool_size_def)

definition checkin_node :: "checkin_pts_size \<Rightarrow> ptsserver_ins \<Rightarrow> pts_node" where
  "checkin_node ci ins = \<lparr>node_offset = mLastCheckinOffset ins + mLastCheckinSize ins,
     node_pts = ci_pts ci, node_pts_64 = ci_pts_64 ci\<rparr>"

lemma make_room_offsets:
  "checkin_make_room ins = Some ins' \<Longrightarrow> mLastCheckinOffset ins' = mLastCheckinOffset ins
     \<and> mLastCheckinSize ins' = mLastCheckinSize ins"
  by (auto simp: checkin_make_room_def split: if_splits list.splits)

lemma checkin_total:
  assumes "pts_usable ins"
  shows "\<exists>ins1 ins'. checkin_make_room ins = Some ins1 \<and> checkin_store ci ins1 = (0, ins') \<and>
     pts_usable ins' \<and> pool_size ins' = pool_size ins \<and>
     pts_view ins' = (if length (pts_view ins) \<ge> pool_size ins then tl (pts_view ins) else pts_view ins)
        @ [checkin_node ci ins]"
proof -
  have wf: "pts_wf ins"
    using assms by (simp add: pts_usable_def)
  obtain ins1 where room: "checkin_make_room ins = Some ins1" and free: "pts_free_list ins1 \<noteq> []"
    using make_room_total [OF assms] .
  note shape = make_room_shape [OF room wf]
  have p1: "pool_size ins1 = pool_size ins"
    using shape by (simp add: pool_size_def)
  obtain ptn rest where f: "pts_free_list ins1 = ptn # rest"
    using free by (auto simp: neq_Nil_conv)
  obtain ins' where st: "checkin_store ci ins1 = (0, ins')"
    and l: "pts_list ins' = pts_list ins1 @ [ptn]"
    and pool: "all_free_ptn ins' = (all_free_ptn ins1)[ptn := checkin_node ci ins]"
    using store_shape [OF f, of ci] make_room_offsets [OF room] by (auto simp: checkin_node_def)
  note wf' = store_wf [OF st shape(1)]
  have "distinct (pts_list ins1 @ ptn # rest)" "ptn < length (all_free_ptn ins1)"
    using pts_wf_distinct [OF shape(1)] pts_wf_set [OF shape(1)] f shape(1)
    by (auto simp: pts_wf_def)
  then have v: "pts_view ins' = pts_view ins1 @ [checkin_node ci ins]"
    unfolding pts_view_def l pool using view_store [of ins1 ptn rest] by (simp add: pts_view_def)
  have "mListSize ins \<ge> mMaxCount ins \<longleftrightarrow> length (pts_view ins) \<ge> pool_size ins"
    using wf usable_cap [OF assms] by (simp add: pts_wf_def word_le_nat_alt)
  then have "pts_view ins1 = (if length (pts_view ins) \<ge> pool_size ins then tl (pts_view ins) else pts_view ins)"
    using shape by (simp add: pts_view_def map_tl)
  then show ?thesis
    using room st v wf' p1 assms by (auto simp: pts_usable_def)
qed

interpretation checkin_queue: bounded_queue checkin_push stamps stamp_of pool_size pts_usable
proof unfold_locales
  fix ins ci
  assume u: "pts_usable ins"
  from checkin_total [OF u, of ci] show "\<exists>s'. checkin_push ci ins = Some s' \<and> pts_usable s'
     \<and> pool_size s' = pool_size ins \<and> stamps s' =
     (if pool_size ins \<le> length (stamps ins) then tl (stamps ins) else stamps ins) @ [stamp_of ci]"
    by (auto simp: checkin_push_def stamps_def stamp_of_def checkin_node_def map_tl)
next
  fix ins
  assume u: "pts_usable ins"
  then show "0 < pool_size ins"
    by (simp add: pts_usable_def)
  show "length (stamps ins) \<le> pool_size ins"
    using u pts_wf_size_eq [of ins] by (simp add: pts_usable_def stamps_def)
qed

section \<open>Peek and check-out\<close>

lemma sint_eq_min: "sint (x :: u32) = - (2 ^ 31) \<Longrightarrow> x = 0x80000000"
  by (rule signed_word_eqI) simp

lemma kabs32_minus: "kabs32 (- x) = kabs32 x"
proof (cases "sint x = - (2 ^ 31)")
  case True
  then show ?thesis
    by (simp add: sint_eq_min [OF True] kabs32_def)
next
  case False
  moreover have "- (2 ^ 31) \<le> sint x" "sint x < 2 ^ 31"
    using sint_ge [of x] sint_lt [of x] by simp_all
  ultimately have "sint (- x) = - sint x"
    by (simp add: sint_word_ariths signed_take_bit_int_eq_self)
  moreover have "sint x = 0 \<Longrightarrow> x = 0"
    by (rule signed_word_eqI) simp
  ultimately show ?thesis
    by (auto simp: kabs32_def)
qed

lemma kabs32_diff_comm: "kabs32 (x - y) = kabs32 (y - x)"
  using kabs32_minus [of "x - y"] by simp

text \<open>Without stale nodes the two loops are the same loop.\<close>

lemma peek_scan_eq:
  "(\<And>q. q \<in> set ptns \<Longrightarrow> stale pool cur q \<Longrightarrow> dist pool cur q \<le> thr) \<Longrightarrow>
   peek_scan pool thr cur ptns s = checkout_scan pool thr cur ptns s"
proof (induction pool thr cur ptns s rule: checkout_scan.induct)
  case (2 pool thr cur ptn ptns s)
  have "\<not> kabs32 (cur - node_offset (pool ! ptn)) \<le> thr \<Longrightarrow>
      \<not> sint (kabs32 (cur - node_offset (pool ! ptn))) > 251658240"
    using "2.prems" [of ptn] by (auto simp: stale_def dist_def)
  then show ?case
    using "2.IH"(1) [OF refl refl] "2.IH"(3) [OF refl refl] "2.prems"
    by (simp add: Let_def kabs32_diff_comm [of "node_offset (pool ! ptn)" cur])
qed simp

lemma peek_search_eq:
  assumes "mLookupThreshold ins = 2500" "mTrickMode ins \<noteq> 1"
    and "\<And>q. q \<in> set (pts_list ins) \<Longrightarrow> \<not> stale (all_free_ptn ins) cur q"
  shows "peek_search cur ins = fst (checkout_search cur ins)"
  using assms peek_scan_eq [of "pts_list ins" "all_free_ptn ins" cur 2500 "scan_start 2500 ins"]
  by (simp add: peek_search_def checkout_search_def checkout_candidate_def Let_def split: option.split)

section \<open>The manager: reachable states\<close>

lemma find_ins_Some:
  "find_ins sid L = Some (i, ins) \<longleftrightarrow>
     0 \<le> sid \<and> sid < int MAX_INSTANCE_NUM \<and> i = nat sid \<and> L ! i = Some ins"
  by (auto simp: find_ins_def)

text \<open>All states the entry points can produce, whatever the callers pass; a successful vmalloc
  returns 500 nodes.\<close>

inductive pts_reach :: "pts_manager \<Rightarrow> bool" where
  init: "pts_reach ptsserver_init"
| alloc: "pts_reach L \<Longrightarrow> (\<forall>pool. mem = Some pool \<longrightarrow> length pool = 500) \<Longrightarrow>
     ptsserver_ins_alloc ok mem para L = Some (r, i, L') \<Longrightarrow> pts_reach L'"
| release: "pts_reach L \<Longrightarrow> ptsserver_ins_release sid L = (r, L') \<Longrightarrow> pts_reach L'"
| first_offset: "pts_reach L \<Longrightarrow> ptsserver_set_first_checkin_offset sid so L = (r, L') \<Longrightarrow> pts_reach L'"
| trick_mode: "pts_reach L \<Longrightarrow> ptsserver_set_trick_mode sid mode L = (r, L') \<Longrightarrow> pts_reach L'"
| checkin: "pts_reach L \<Longrightarrow> ptsserver_checkin_pts_size sid ci L = Some (r, L') \<Longrightarrow> pts_reach L'"
| checkout: "pts_reach L \<Longrightarrow> ptsserver_checkout_pts_offset sid co L = Some (r, co', L') \<Longrightarrow> pts_reach L'"

definition all_wf :: "pts_manager \<Rightarrow> bool" where
  "all_wf L \<longleftrightarrow> length L = MAX_INSTANCE_NUM \<and> (\<forall>ins. Some ins \<in> set L \<longrightarrow> pts_wf ins)"

lemma all_wf_update: "all_wf L \<Longrightarrow> pts_wf ins \<Longrightarrow> all_wf (L[i := Some ins])"
  using set_update_subset_insert [of L i "Some ins"] by (auto simp: all_wf_def)

lemma all_wf_clear: "all_wf L \<Longrightarrow> all_wf (L[i := None])"
  using set_update_subset_insert [of L i None] by (auto simp: all_wf_def)

lemma all_wf_nth: "all_wf L \<Longrightarrow> i < MAX_INSTANCE_NUM \<Longrightarrow> L ! i = Some ins \<Longrightarrow> pts_wf ins"
  unfolding all_wf_def by (metis nth_mem)

lemma all_wf_find: "all_wf L \<Longrightarrow> find_ins sid L = Some (i, ins) \<Longrightarrow> pts_wf ins"
  by (rule all_wf_nth [of L i]) (auto simp: find_ins_Some)

lemma alloc_wf:
  assumes "ptsserver_ins_alloc ok mem para L = Some (r, i, L')" "all_wf L"
    and "\<forall>pool. mem = Some pool \<longrightarrow> length pool = 500"
  shows "all_wf L'"
  using assms init_syncinfo_wf [of mem para]
  by (auto simp: ptsserver_ins_alloc_def Let_def bind_eq_Some_conv intro!: all_wf_update split: if_splits)

lemma checkin_wf:
  assumes "ptsserver_checkin_pts_size sid ci L = Some (r, L')" "all_wf L"
  shows "all_wf L'"
proof (cases "find_ins sid L")
  case None
  then show ?thesis
    using assms by (simp add: ptsserver_checkin_pts_size_def)
next
  case (Some a)
  obtain i ins where f: "find_ins sid L = Some (i, ins)"
    using Some by (cases a) auto
  obtain ins1 where room: "checkin_make_room ins = Some ins1"
    and L': "L' = L[i := Some (snd (checkin_store ci ins1))]"
    using assms(1) f
    by (cases "checkin_make_room ins") (auto simp: ptsserver_checkin_pts_size_def case_prod_beta)
  have "pts_wf (snd (checkin_store ci ins1))"
    using store_wf(1) [OF prod.collapse [symmetric] make_room_shape(1) [OF room all_wf_find [OF assms(2) f]]] .
  then show ?thesis
    using L' all_wf_update [OF assms(2)] by simp
qed

lemma checkout_wf:
  assumes "ptsserver_checkout_pts_offset sid co L = Some (r, co', L')" "all_wf L"
  shows "all_wf L'"
  using assms all_wf_find [OF assms(2), of sid]
  by (auto simp: ptsserver_checkout_pts_offset_def bind_eq_Some_conv split: option.splits prod.splits
      dest: checkout_ins_wf(1) intro!: all_wf_update)

lemma setters_wf:
  "ptsserver_ins_release sid L = (r, L') \<Longrightarrow> all_wf L \<Longrightarrow> all_wf L'"
  "ptsserver_set_first_checkin_offset sid so L = (r, L') \<Longrightarrow> all_wf L \<Longrightarrow> all_wf L'"
  "ptsserver_set_trick_mode sid mode L = (r, L') \<Longrightarrow> all_wf L \<Longrightarrow> all_wf L'"
proof -
  have frame: "pts_wf (ins\<lparr>mLastCheckinOffset := x, mAlignmentOffset := y\<rparr>) = pts_wf ins"
    "pts_wf (ins\<lparr>mTrickMode := m\<rparr>) = pts_wf ins" for ins x y m
    by (simp_all add: pts_wf_def pool_size_def)
  show "ptsserver_ins_release sid L = (r, L') \<Longrightarrow> all_wf L \<Longrightarrow> all_wf L'"
    by (auto simp: ptsserver_ins_release_def all_wf_clear split: option.splits)
  show "ptsserver_set_first_checkin_offset sid so L = (r, L') \<Longrightarrow> all_wf L \<Longrightarrow> all_wf L'"
    using all_wf_find [of L sid]
    by (auto simp: ptsserver_set_first_checkin_offset_def frame split: option.splits intro!: all_wf_update)
  show "ptsserver_set_trick_mode sid mode L = (r, L') \<Longrightarrow> all_wf L \<Longrightarrow> all_wf L'"
    using all_wf_find [of L sid]
    by (auto simp: ptsserver_set_trick_mode_def frame split: option.splits intro!: all_wf_update)
qed

lemma reach_all_wf: "pts_reach L \<Longrightarrow> all_wf L"
proof (induction rule: pts_reach.induct)
  case init
  show ?case
    by (simp add: all_wf_def ptsserver_init_def)
qed (blast intro: alloc_wf setters_wf checkin_wf checkout_wf)+

section \<open>Properties\<close>

text \<open>Concrete states for the witnesses: a manager with one instance of capacity 2, before and
  after the check-in of a stamp.\<close>

definition wit_pool :: "pts_node list" where
  "wit_pool = replicate 500 \<lparr>node_offset = 0, node_pts = 0, node_pts_64 = 0\<rparr>"

definition wit_ins :: ptsserver_ins where
  "wit_ins = kzalloc_ptsserver_ins\<lparr>mMaxCount := 2, mLookupThreshold := 2500,
     kDoubleCheckThreshold := 5, all_free_ptn := wit_pool, pts_free_list := [0, 1]\<rparr>"

definition wit_para :: ptsserver_alloc_para where
  "wit_para = \<lparr>ap_mMaxCount = 2, ap_mLookupThreshold = 2500, ap_kDoubleCheckThreshold = 5\<rparr>"

definition wit_ci :: checkin_pts_size where
  "wit_ci = \<lparr>ci_size = 100, ci_pts = 90, ci_pts_64 = 1000\<rparr>"

lemma wit_pool_length: "length wit_pool = 500"
  by (simp add: wit_pool_def)

lemma upt_2: "[0..<2] = [0, 1]"
  by (simp add: upt_rec)

lemma wit_scan: "ins_alloc_scan ptsserver_init 0 = 0"
  by (subst ins_alloc_scan.simps) (simp add: ptsserver_init_def MAX_INSTANCE_NUM_def)

lemma wit_alloc:
  "ptsserver_ins_alloc True (Some wit_pool) (Some wit_para) ptsserver_init
     = Some (0, Some 0, ptsserver_init[0 := Some wit_ins])"
  by (simp add: ptsserver_ins_alloc_def wit_scan MAX_INSTANCE_NUM_def upt_2
      ptsserver_ins_init_syncinfo_def wit_para_def wit_ins_def kzalloc_ptsserver_ins_def
      add_free_nodes_eq del: upt_rec_numeral)

lemma wit_usable: "pts_usable wit_ins"
proof -
  have "pool_size wit_ins = 2"
    using wit_pool_length by (auto simp: pool_size_def wit_ins_def)
  then show ?thesis
    using wit_pool_length
    by (simp add: pts_usable_def pts_wf_def upt_2 wit_ins_def kzalloc_ptsserver_ins_def
        del: mset_upt upt_rec_numeral)
qed

lemma wit_find: "find_ins 0 (ptsserver_init[0 := Some wit_ins]) = Some (0, wit_ins)"
  by (simp add: find_ins_def MAX_INSTANCE_NUM_def ptsserver_init_def)

text \<open>C1. In every state the entry points can reach, whatever their arguments, the busy and
  the free list of each instance partition the node pool (no node is lost, linked twice or
  outside the allocation), and the counter is the length of the busy list.\<close>

theorem pts_reachable_wf:
  assumes "pts_reach L" "i < MAX_INSTANCE_NUM" "L ! i = Some ins"
  shows "distinct (pts_list ins @ pts_free_list ins)
     \<and> set (pts_list ins @ pts_free_list ins) = {0..<pool_size ins}
     \<and> pool_size ins \<le> length (all_free_ptn ins)
     \<and> unat (mListSize ins) = length (pts_list ins)"
proof -
  have "pts_wf ins"
    using reach_all_wf [OF assms(1)] assms(2,3) by (rule all_wf_nth)
  then show ?thesis
    using pts_wf_distinct pts_wf_set by (auto simp: pts_wf_def)
qed

lemma pts_reachable_wf_witness:
  "pts_reach (ptsserver_init[0 := Some wit_ins]) \<and> distinct (pts_list wit_ins @ pts_free_list wit_ins)"
proof -
  have r: "pts_reach (ptsserver_init[0 := Some wit_ins])"
    using pts_reach.alloc [OF pts_reach.init _ wit_alloc] wit_pool_length by simp
  have "0 < MAX_INSTANCE_NUM" "(ptsserver_init[0 := Some wit_ins]) ! 0 = Some wit_ins"
    by (simp_all add: MAX_INSTANCE_NUM_def ptsserver_init_def)
  from pts_reachable_wf [OF r this] show ?thesis
    using r by blast
qed

primrec checkin_seq :: "int \<Rightarrow> checkin_pts_size list \<Rightarrow> pts_manager \<Rightarrow> pts_manager option" where
  "checkin_seq sid [] L = Some L"
| "checkin_seq sid (ci # cis) L =
     do { (r, L') \<leftarrow> ptsserver_checkin_pts_size sid ci L;
          if r = 0 then checkin_seq sid cis L' else None }"

lemma checkin_seq_push:
  assumes "find_ins sid L = Some (i, ins)" "i < length L" "push_all checkin_push cis ins = Some ins'"
  shows "checkin_seq sid cis L = Some (L[i := Some ins'])"
  using assms
proof (induction cis arbitrary: L ins)
  case Nil
  then show ?case
    by (simp add: find_ins_Some) (metis list_update_id)
next
  case (Cons ci cis)
  from Cons.prems(3) obtain ins1 where p: "checkin_push ci ins = Some ins1"
    "push_all checkin_push cis ins1 = Some ins'"
    by (auto simp: bind_eq_Some_conv)
  have "ptsserver_checkin_pts_size sid ci L = Some (0, L[i := Some ins1])"
    using Cons.prems(1) p(1)
    by (cases "checkin_make_room ins")
       (auto simp: checkin_push_def ptsserver_checkin_pts_size_def case_prod_beta split: if_splits)
  moreover have "find_ins sid (L[i := Some ins1]) = Some (i, ins1)"
    using Cons.prems(1,2) by (simp add: find_ins_Some)
  ultimately show ?case
    using Cons.IH [of "L[i := Some ins1]" ins1] Cons.prems(2) p(2) by simp
qed

text \<open>C2. A sequence of check-ins into an initialised instance never fails, and afterwards the
  busy list holds the stamps of the newest \<open>mMaxCount\<close> of the old entries followed by the
  new ones, in order.\<close>

theorem checkin_keeps_newest:
  assumes "find_ins sid L = Some (i, ins)" "i < length L" "pts_usable ins"
  shows "\<exists>ins'. checkin_seq sid cis L = Some (L[i := Some ins']) \<and> pts_usable ins' \<and>
    stamps ins' = drop (length (stamps ins) + length cis - unat (mMaxCount ins))
                       (stamps ins @ map stamp_of cis)"
  using checkin_queue.push_all_view [OF assms(3), of cis] checkin_seq_push [OF assms(1,2)]
    usable_cap [OF assms(3)] by auto

lemma checkin_keeps_newest_witness:
  "\<exists>ins'. checkin_seq 0 [wit_ci, wit_ci\<lparr>ci_pts := 91\<rparr>, wit_ci\<lparr>ci_pts := 92\<rparr>]
       (ptsserver_init[0 := Some wit_ins]) = Some (ptsserver_init[0 := Some ins'])
     \<and> stamps ins' = [(91, 1000), (92, 1000)]"
proof -
  have "0 < length (ptsserver_init[0 := Some wit_ins])"
    by (simp add: ptsserver_init_def MAX_INSTANCE_NUM_def)
  moreover have "stamps wit_ins = []" "unat (mMaxCount wit_ins) = 2"
    by (simp_all add: stamps_def pts_view_def wit_ins_def kzalloc_ptsserver_ins_def)
  ultimately show ?thesis
    using checkin_keeps_newest [OF wit_find _ wit_usable,
        of "[wit_ci, wit_ci\<lparr>ci_pts := 91\<rparr>, wit_ci\<lparr>ci_pts := 92\<rparr>]"]
    by (auto simp: stamp_of_def wit_ci_def simp del: checkin_seq.simps)
qed

text \<open>C3. In a well-formed instance, let some busy node lie before the requested offset and within the lookup threshold of
  it (a candidate), and let no node outside the threshold that is not stale stand between two
  candidates of the busy list, which holds when the offsets were checked in in ascending order
  (\<open>ascending_grouped\<close>). Then, when the offset is not \<open>0xFFFFFFFF\<close> and the failure counter is
  not about to wrap, a check-out returns the stamp of the nearest candidate, and unlinks that
  node.\<close>

theorem checkout_returns_nearest:
  assumes "find_ins sid L = Some (i, ins)" "i < length L" "pts_wf ins"
    and "cur = cur_offset_of (co_offset co)" "cur \<noteq> 0xFFFFFFFF"
    and "grouped (all_free_ptn ins) (mLookupThreshold ins) cur (pts_list ins)"
    and "q0 \<in> set (pts_list ins)" "before (all_free_ptn ins) cur q0"
    and "dist (all_free_ptn ins) cur q0 \<le> mLookupThreshold ins"
    and "mPtsCheckoutFailCount ins + 1 \<noteq> 0"
  shows "\<exists>p ins' co'. ptsserver_checkout_pts_offset sid co L = Some (0, co', L[i := Some ins'])
     \<and> p \<in> set (pts_list ins) \<and> p \<notin> set (pts_list ins') \<and> before (all_free_ptn ins) cur p
     \<and> co_pts co' = node_pts (all_free_ptn ins ! p) \<and> co_pts_64 co' = node_pts_64 (all_free_ptn ins ! p)
     \<and> (\<forall>q. q \<in> set (pts_list ins) \<longrightarrow> before (all_free_ptn ins) cur q \<longrightarrow>
          dist (all_free_ptn ins) cur q \<le> mLookupThreshold ins \<longrightarrow>
          dist (all_free_ptn ins) cur p \<le> dist (all_free_ptn ins) cur q)"
proof -
  obtain p ins1 where s: "checkout_search cur ins = (Some p, ins1)"
    using search_best [OF assms(3,5,6,7,8,9)] .
  note found = search_found [OF assms(3) s] and frame = search_frame [OF s]
  have opt: "dist (all_free_ptn ins) cur p \<le> dist (all_free_ptn ins) cur q"
    if q: "q \<in> set (pts_list ins)" "before (all_free_ptn ins) cur q"
      "dist (all_free_ptn ins) cur q \<le> mLookupThreshold ins" for q
  proof -
    obtain p' ins2 where "checkout_search cur ins = (Some p', ins2)"
      "dist (all_free_ptn ins) cur p' \<le> dist (all_free_ptn ins) cur q"
      using search_best [OF assms(3,5,6) q] .
    then show ?thesis
      using s by simp
  qed
  let ?n = "all_free_ptn ins ! p"
  let ?co = "co\<lparr>co_pts := node_pts ?n, co_pts_64 := node_pts_64 ?n\<rparr>"
  obtain ins' where ok: "checkout_ok cur (cur_duration_of (co_offset co)) ?co ins1 = Some ins'"
    using checkout_ok_total [of ins1] frame assms(10) by fastforce
  have "ptsserver_checkout_pts_offset sid co L = Some (0, ?co, L[i := Some ins'])"
    using s ok frame assms(1,4)
    by (simp add: ptsserver_checkout_pts_offset_def checkout_ins_def Let_def)
  moreover have "p \<notin> set (pts_list ins')"
    using found checkout_ok_frame [OF ok] by simp
  ultimately show ?thesis
    using found opt by (intro exI [of _ p] exI [of _ ins'] exI [of _ ?co]) auto
qed


text \<open>A state with one node checked in at offset 0.\<close>

definition wit_busy :: ptsserver_ins where
  "wit_busy = wit_ins\<lparr>pts_list := [0], pts_free_list := [1], mListSize := 1\<rparr>"

definition wit_co :: checkout_pts_offset where
  "wit_co = \<lparr>co_offset = 50, co_pts = 0, co_pts_64 = 0\<rparr>"

lemma wit_busy_wf: "pts_wf wit_busy"
proof -
  have "pool_size wit_busy = 2"
    using wit_pool_length by (auto simp: pool_size_def wit_busy_def wit_ins_def)
  then show ?thesis
    using wit_pool_length
    by (simp add: pts_wf_def upt_2 wit_busy_def wit_ins_def kzalloc_ptsserver_ins_def
        del: mset_upt upt_rec_numeral)
qed

lemma wit_dist: "dist wit_pool 50 0 = 50" "before wit_pool 50 0"
  by (simp_all add: dist_def before_def wit_pool_def kabs32_def)

text \<open>Three nodes in ascending order, of which the first and the last are outside the
  threshold: the check-out at 10000 answers with the middle one.\<close>

definition wit_three :: ptsserver_ins where
  "wit_three = wit_ins\<lparr>mMaxCount := 3, pts_list := [0, 1, 2], pts_free_list := [], mListSize := 3,
     all_free_ptn := wit_pool[1 := \<lparr>node_offset = 9000, node_pts = 77, node_pts_64 = 7700\<rparr>,
                              2 := \<lparr>node_offset = 20000, node_pts = 88, node_pts_64 = 8800\<rparr>]\<rparr>"

lemma wit_three_wf: "pts_wf wit_three"
proof -
  have "pool_size wit_three = 3"
    using wit_pool_length by (auto simp: pool_size_def wit_three_def wit_ins_def)
  moreover have "[0..<3] = [0, 1, 2]"
    by (simp add: upt_rec)
  ultimately show ?thesis
    by (simp add: pts_wf_def wit_three_def wit_ins_def kzalloc_ptsserver_ins_def wit_pool_length
        del: mset_upt upt_rec_numeral)
qed

lemma wit_three_nodes:
  "node_offset (all_free_ptn wit_three ! 0) = 0" "node_offset (all_free_ptn wit_three ! 1) = 9000"
  "node_offset (all_free_ptn wit_three ! Suc 0) = 9000"
  "node_offset (all_free_ptn wit_three ! 2) = 20000"
  using wit_pool_length by (simp_all add: wit_three_def) (simp add: wit_pool_def)

lemma checkout_returns_nearest_witness:
  "\<exists>p ins' co'. ptsserver_checkout_pts_offset 0 (wit_co\<lparr>co_offset := 10000\<rparr>)
       (ptsserver_init[0 := Some wit_three]) = Some (0, co', ptsserver_init[0 := Some ins'])
     \<and> before (all_free_ptn wit_three) 10000 p \<and> dist (all_free_ptn wit_three) 10000 p \<le> 1000"
proof -
  let ?co = "wit_co\<lparr>co_offset := 10000\<rparr>" and ?pool = "all_free_ptn wit_three"
  have c: "cur_offset_of (co_offset ?co) = 10000"
    by (simp add: cur_offset_of_def)
  have f: "find_ins 0 (ptsserver_init[0 := Some wit_three]) = Some (0, wit_three)"
    "0 < length (ptsserver_init[0 := Some wit_three])"
    by (simp_all add: find_ins_def MAX_INSTANCE_NUM_def ptsserver_init_def)
  have p: "pts_list wit_three = [0, 1, 2]" "mLookupThreshold wit_three = 2500"
    "mPtsCheckoutFailCount wit_three = 0"
    by (simp_all add: wit_three_def wit_ins_def kzalloc_ptsserver_ins_def)
  have g: "grouped ?pool (mLookupThreshold wit_three) 10000 (pts_list wit_three)"
    by (rule ascending_grouped) (simp_all add: p wit_three_nodes)
  have d: "dist ?pool 10000 1 = 1000" "before ?pool 10000 1"
    by (simp_all add: dist_def before_def wit_three_nodes kabs32_def)
  show ?thesis
    using checkout_returns_nearest [OF f wit_three_wf c [symmetric] _ g, of 1] d
    by (fastforce simp: p)
qed

lemma ucast_div_96: "(ucast (x :: u32) :: u64) div 96 = ucast (x div 96)"
proof -
  have up: "unat (ucast (y :: u32) :: u64) = unat y" for y
    using unsigned_less [of y, where ?'a = nat]
    by (simp add: unsigned_ucast_eq take_bit_nat_eq_self)
  show ?thesis
    by (rule word_unat_eq_iff [THEN iffD2]) (simp add: unat_div up)
qed

text \<open>C4. In a well-formed instance, for the default threshold 2500, outside trick mode and when no node is stale, peeking
  answers what the check-out that follows it answers, except where no node is found, the decoder
  gave no duration and no frame duration is known: then peeking answers 0 for the stamp
  whose duration is missing, where the check-out repeats its last answer.\<close>

theorem peek_agrees_with_checkout:
  assumes "find_ins sid L = Some (i, ins)" "pts_wf ins"
    and "mLookupThreshold ins = 2500" "mTrickMode ins \<noteq> 1"
    and "\<And>q. q \<in> set (pts_list ins) \<Longrightarrow> \<not> stale (all_free_ptn ins) (cur_offset_of (co_offset co)) q"
    and "ptsserver_checkout_pts_offset sid co L = Some (r, co', L')"
  shows "ptsserver_peek_pts_offset sid co L =
    (0, if peek_search (cur_offset_of (co_offset co)) ins \<noteq> None \<or> mDecoderDuration ins \<noteq> 0 then co'
        else co'\<lparr>co_pts := if mFrameDuration ins = 0 then 0 else co_pts co',
                 co_pts_64 := if mFrameDuration64 ins = 0 then 0 else co_pts_64 co'\<rparr>)"
proof -
  let ?cur = "cur_offset_of (co_offset co)"
  obtain f ins1 where s: "checkout_search ?cur ins = (f, ins1)"
    by fastforce
  have p: "peek_search ?cur ins = f"
    using peek_search_eq [OF assms(3,4,5)] s by simp
  show ?thesis
  proof (cases f)
    case (Some ptn)
    then show ?thesis
      using assms(1,6) s p search_frame [OF s]
      by (auto simp: ptsserver_peek_pts_offset_def ptsserver_checkout_pts_offset_def
          checkout_ins_def Let_def bind_eq_Some_conv)
  next
    case None
    have fields: "mDecoderDuration ins1 = mDecoderDuration ins" "mFrameDuration ins1 = mFrameDuration ins"
      "mFrameDuration64 ins1 = mFrameDuration64 ins" "mLastCheckoutPts ins1 = mLastCheckoutPts ins"
      "mLastCheckoutPts64 ins1 = mLastCheckoutPts64 ins"
      using s by (auto simp: checkout_search_def Let_def split: if_splits option.splits)
    have "co' = fst (checkout_fail ?cur co ins1)"
      using assms(1,6) s None
      by (auto simp: ptsserver_checkout_pts_offset_def checkout_ins_def Let_def bind_eq_Some_conv
          split: prod.splits)
    then show ?thesis
      using assms(1) p None fields
      by (auto simp: ptsserver_peek_pts_offset_def checkout_fail_def peek_calculated_def Let_def ucast_div_96)
  qed
qed

lemma peek_agrees_with_checkout_witness:
  "\<exists>co' L'. ptsserver_checkout_pts_offset 0 wit_co (ptsserver_init[0 := Some wit_busy]) = Some (0, co', L')
     \<and> ptsserver_peek_pts_offset 0 wit_co (ptsserver_init[0 := Some wit_busy]) = (0, co')"
proof -
  have c: "cur_offset_of (co_offset wit_co) = 50"
    by (simp add: wit_co_def cur_offset_of_def)
  have f: "find_ins 0 (ptsserver_init[0 := Some wit_busy]) = Some (0, wit_busy)"
    by (simp add: find_ins_def MAX_INSTANCE_NUM_def ptsserver_init_def)
  have p: "all_free_ptn wit_busy = wit_pool" "pts_list wit_busy = [0]" "mTrickMode wit_busy = 0"
    "mLookupThreshold wit_busy = 2500" "mPtsCheckoutFailCount wit_busy = 0"
    by (simp_all add: wit_busy_def wit_ins_def kzalloc_ptsserver_ins_def)
  have off: "node_offset (wit_pool ! 0) = 0"
    by (simp add: wit_pool_def)
  have "peek_search 50 wit_busy = Some 0"
    by (simp add: peek_search_def p scan_start_def take_candidate_def count_if_found_def Let_def
        kabs32_def off)
  moreover have "\<not> stale wit_pool 50 0"
    by (simp add: stale_def wit_dist)
  moreover have "checkout_ins wit_co wit_busy \<noteq> None"
    by (rule checkout_ins_total) (simp add: p)
  then obtain co' L' where o: "ptsserver_checkout_pts_offset 0 wit_co (ptsserver_init[0 := Some wit_busy])
      = Some (0, co', L')"
    using f by (auto simp: ptsserver_checkout_pts_offset_def)
  ultimately show ?thesis
    using peek_agrees_with_checkout [OF f wit_busy_wf _ _ _ o] by (auto simp: p c)
qed

text \<open>After a check-in, the last checked-in stamp read back is the one given, but its
  64-bit part survives exactly when it fits 32 bits (the field is declared u32).\<close>

theorem last_checkin_roundtrip:
  assumes "find_ins sid L = Some (i, ins)" "i < length L" "pts_usable ins"
  shows "\<exists>L'. ptsserver_checkin_pts_size sid ci L = Some (0, L') \<and>
     ptsserver_get_last_checkin_pts sid L' = (0, Some (ci_pts ci, take_bit 32 (ci_pts_64 ci))) \<and>
     (take_bit 32 (ci_pts_64 ci) = ci_pts_64 ci \<longleftrightarrow> unat (ci_pts_64 ci) < 2 ^ 32)"
proof -
  obtain ins1 ins' where *: "checkin_make_room ins = Some ins1" "checkin_store ci ins1 = (0, ins')"
    using checkin_total [OF assms(3), of ci] by blast
  then have "mLastCheckinPts ins' = ci_pts ci \<and> mLastCheckinPts64 ins' = ucast (ci_pts_64 ci)"
    by (auto simp: checkin_store_def Let_def split: list.splits)
  moreover have "ucast (ucast w :: u32) = take_bit 32 w" for w :: u64
    by (rule bit_word_eqI) (auto simp: bit_ucast_iff bit_take_bit_iff)
  moreover have "take_bit 32 w = w \<longleftrightarrow> unat w < 2 ^ 32" for w :: u64
    by (metis take_bit_nat_eq_self_iff unsigned_take_bit_eq unsigned_word_eqI)
  moreover have "ptsserver_checkin_pts_size sid ci L = Some (0, L[i := Some ins'])"
    using * assms(1) by (simp add: ptsserver_checkin_pts_size_def)
  moreover have "find_ins sid (L[i := Some ins']) = Some (i, ins')"
    using assms(1,2) by (simp add: find_ins_Some)
  ultimately show ?thesis
    by (simp add: ptsserver_get_last_checkin_pts_def)
qed

lemma last_checkin_roundtrip_witness:
  "\<exists>L'. ptsserver_checkin_pts_size 0 (wit_ci\<lparr>ci_pts_64 := 0x100000001\<rparr>) (ptsserver_init[0 := Some wit_ins])
       = Some (0, L') \<and> ptsserver_get_last_checkin_pts 0 L' = (0, Some (90, 1))"
proof -
  have "0 < length (ptsserver_init[0 := Some wit_ins])"
    by (simp add: ptsserver_init_def MAX_INSTANCE_NUM_def)
  from last_checkin_roundtrip [OF wit_find this wit_usable, of "wit_ci\<lparr>ci_pts_64 := 0x100000001\<rparr>"]
  show ?thesis
    by (auto simp: wit_ci_def)
qed

text \<open>The search of \<open>ptsserver_ins_alloc\<close> stops at the last slot but one: when the first
  nine slots are taken it reports success although nothing was registered and no identifier
  was stored, for any state of the tenth slot.\<close>

theorem alloc_exhausted_reports_success:
  assumes "\<And>i. i < MAX_INSTANCE_NUM - 1 \<Longrightarrow> L ! i \<noteq> None"
  shows "ptsserver_ins_alloc True mem para L = Some (0, None, L)"
proof -
  have "ins_alloc_scan L k = MAX_INSTANCE_NUM - 1" if "k \<le> MAX_INSTANCE_NUM - 1" for k
    using that
  proof (induction "MAX_INSTANCE_NUM - 1 - k" arbitrary: k)
    case 0
    then have "k = MAX_INSTANCE_NUM - 1"
      by simp
    then show ?case
      by (subst ins_alloc_scan.simps) simp
  next
    case (Suc n)
    then have k: "k < MAX_INSTANCE_NUM - 1"
      by simp
    then obtain x where "L ! k = Some x"
      using assms by blast
    moreover have "ins_alloc_scan L (Suc k) = MAX_INSTANCE_NUM - 1"
      using Suc.hyps(2) k by (intro Suc.hyps(1)) simp_all
    ultimately show ?case
      using k by (subst ins_alloc_scan.simps) simp
  qed
  then show ?thesis
    by (simp add: ptsserver_ins_alloc_def MAX_INSTANCE_NUM_def)
qed

lemma alloc_exhausted_reports_success_witness:
  "ptsserver_ins_alloc True (Some wit_pool) None (replicate 10 (Some wit_ins))
     = Some (0, None, replicate 10 (Some wit_ins))"
  by (rule alloc_exhausted_reports_success) (simp add: MAX_INSTANCE_NUM_def)

text \<open>C5. Creating an instance on a slot below the tenth faults (links nodes outside the
  500-node pool) exactly when the requested node count exceeds 500.\<close>

theorem alloc_faults_iff_too_many:
  assumes "ins_alloc_scan L 0 < MAX_INSTANCE_NUM - 1"
  shows "ptsserver_ins_alloc True (Some pool) (Some para) L = None \<longleftrightarrow> unat (ap_mMaxCount para) > 500"
  using assms
  by (simp add: ptsserver_ins_alloc_def ptsserver_ins_init_syncinfo_def add_free_nodes_eq Let_def)

lemma alloc_faults_iff_too_many_witness:
  "ptsserver_ins_alloc True (Some wit_pool) (Some (wit_para\<lparr>ap_mMaxCount := 501\<rparr>)) ptsserver_init = None"
  using alloc_faults_iff_too_many [of ptsserver_init wit_pool "wit_para\<lparr>ap_mMaxCount := 501\<rparr>"]
  by (simp add: wit_scan MAX_INSTANCE_NUM_def)

end
