(* ===== verification/Bit_Reader.thy ===== *)
theory Bit_Reader
  imports Prelude
begin

text \<open>
  The bit reader of the software parsers: \<open>drivers/amvdec_ports/utils/get_bits.h\<close>, the
  Exp-Golomb readers of \<open>golomb.h\<close> with their tables (\<open>golomb.c\<close>), and the
  bit and byte stream helpers of \<open>common.c\<close>.

  A context holds the bytes that may be read at \<open>buffer\<close> (payload and padding: the
  code never compares the position with the end of the buffer), the bit position and the size
  in bits. Every reading operation returns its value and the updated context, and
  \<open>None\<close> when the C code would read a byte outside the buffer or shift by the
  width of the type. \<open>BITSTREAM_READER_LE\<close> is not defined in the build, so the
  big-endian macros are the ones modelled. The values are mathematical integers in the range
  of the C type. The tables of plain \<open>char\<close> depend on whether the compiler's
  \<open>char\<close> is signed; that is a parameter of the readers that use them.
\<close>

section \<open>Contexts\<close>

record get_bits_context =
  buffer :: "u8 list"
  buffer_end :: int
  index :: int
  size_in_bits :: int
  size_in_bits_plus8 :: int

definition AV_INPUT_BUFFER_PADDING_SIZE :: int where
  "AV_INPUT_BUFFER_PADDING_SIZE = 64"

definition MIN_CACHE_BITS :: int where
  "MIN_CACHE_BITS = 64"

definition byte_at :: "u8 list \<Rightarrow> int \<Rightarrow> u8 option" where
  "byte_at b i = (if 0 \<le> i \<and> i < int (length b) then Some (b ! nat i) else None)"

definition AV_RB32 :: "u8 list \<Rightarrow> int \<Rightarrow> u32 option" where
  "AV_RB32 b i = do {
     b0 \<leftarrow> byte_at b i;
     b1 \<leftarrow> byte_at b (i + 1);
     b2 \<leftarrow> byte_at b (i + 2);
     b3 \<leftarrow> byte_at b (i + 3);
     Some (push_bit 24 (ucast b0) OR push_bit 16 (ucast b1) OR push_bit 8 (ucast b2) OR ucast b3)
   }"

text \<open>\<open>UPDATE_CACHE\<close> at a position, and the shifts of \<open>SHOW_UBITS\<close> and
  \<open>SHOW_SBITS\<close> (a shift by 32 or more is undefined, so it faults).\<close>

definition UPDATE_CACHE :: "get_bits_context \<Rightarrow> int \<Rightarrow> u32 option" where
  "UPDATE_CACHE s i = map_option (push_bit (nat (i mod 8))) (AV_RB32 (buffer s) (i div 8))"

definition NEG_USR32 :: "u32 \<Rightarrow> int \<Rightarrow> int option" where
  "NEG_USR32 a s = (if s < 32 then if 0 < s then Some (uint (drop_bit (nat (32 - s)) a)) else None
     else Some (uint a))"

definition NEG_SSR32 :: "u32 \<Rightarrow> int \<Rightarrow> int option" where
  "NEG_SSR32 a s = (if s < 32 then if 0 < s then Some (drop_bit (nat (32 - s)) (sint a)) else None
     else Some (sint a))"

definition LAST_SKIP_BITS :: "get_bits_context \<Rightarrow> int \<Rightarrow> get_bits_context" where
  "LAST_SKIP_BITS s n = s\<lparr>index := u32 (index s + n)\<rparr>"

definition sign_extend :: "int \<Rightarrow> int \<Rightarrow> int option" where
  "sign_extend val bits = (if 0 < bits \<and> bits \<le> 32
     then Some (drop_bit (nat (32 - bits)) (s32 (push_bit (nat (32 - bits)) (u32 val)))) else None)"

definition get_bits_count :: "get_bits_context \<Rightarrow> int" where
  "get_bits_count s = s32 (index s)"

definition skip_bits_long :: "get_bits_context \<Rightarrow> int \<Rightarrow> get_bits_context" where
  "skip_bits_long s n = s\<lparr>index := u32 (index s + n)\<rparr>"

section \<open>Fixed-length fields\<close>

definition get_sbits :: "get_bits_context \<Rightarrow> int \<Rightarrow> (int \<times> get_bits_context) option" where
  "get_sbits s n = do {
     cache \<leftarrow> UPDATE_CACHE s (index s);
     tmp \<leftarrow> NEG_SSR32 cache n;
     Some (tmp, LAST_SKIP_BITS s n)
   }"

definition get_bits :: "get_bits_context \<Rightarrow> int \<Rightarrow> (int \<times> get_bits_context) option" where
  "get_bits s n = do {
     cache \<leftarrow> UPDATE_CACHE s (index s);
     tmp \<leftarrow> NEG_USR32 cache n;
     Some (tmp, LAST_SKIP_BITS s n)
   }"

definition get_bitsz :: "get_bits_context \<Rightarrow> int \<Rightarrow> (int \<times> get_bits_context) option" where
  "get_bitsz s n = (if n \<noteq> 0 then get_bits s n else Some (0, s))"

definition show_bits :: "get_bits_context \<Rightarrow> int \<Rightarrow> int option" where
  "show_bits s n = do { cache \<leftarrow> UPDATE_CACHE s (index s); NEG_USR32 cache n }"

definition skip_bits :: "get_bits_context \<Rightarrow> int \<Rightarrow> get_bits_context" where
  "skip_bits s n = LAST_SKIP_BITS s n"

definition get_bits1 :: "get_bits_context \<Rightarrow> (int \<times> get_bits_context) option" where
  "get_bits1 s = do {
     result \<leftarrow> byte_at (buffer s) (index s div 8);
     Some (uint (drop_bit (8 - 1) (push_bit (nat (index s mod 8)) result)),
       s\<lparr>index := u32 (index s + 1)\<rparr>)
   }"

definition show_bits1 :: "get_bits_context \<Rightarrow> int option" where
  "show_bits1 s = show_bits s 1"

definition skip_bits1 :: "get_bits_context \<Rightarrow> get_bits_context" where
  "skip_bits1 s = skip_bits s 1"

definition get_bits_long :: "get_bits_context \<Rightarrow> int \<Rightarrow> (int \<times> get_bits_context) option" where
  "get_bits_long s n =
     (if n = 0 then Some (0, s)
      else if n \<le> MIN_CACHE_BITS then get_bits s n
      else do {
        (hi, s) \<leftarrow> get_bits s 16;
        (lo, s) \<leftarrow> get_bits s (n - 16);
        Some (u32 (push_bit (nat (n - 16)) hi) OR lo, s)
      })"

definition get_bits64 :: "get_bits_context \<Rightarrow> int \<Rightarrow> (int \<times> get_bits_context) option" where
  "get_bits64 s n =
     (if n \<le> 32 then get_bits_long s n
      else do {
        (hi, s) \<leftarrow> get_bits_long s (n - 32);
        (lo, s) \<leftarrow> get_bits_long s 32;
        Some (push_bit 32 hi OR lo, s)
      })"

definition get_sbits_long :: "get_bits_context \<Rightarrow> int \<Rightarrow> (int \<times> get_bits_context) option" where
  "get_sbits_long s n =
     (if n = 0 then Some (0, s)
      else do { (v, s) \<leftarrow> get_bits_long s n; v \<leftarrow> sign_extend v n; Some (v, s) })"

definition show_bits_long :: "get_bits_context \<Rightarrow> int \<Rightarrow> int option" where
  "show_bits_long s n =
     (if n \<le> MIN_CACHE_BITS then show_bits s n else map_option fst (get_bits_long s n))"

definition check_marker :: "get_bits_context \<Rightarrow> (int \<times> get_bits_context) option" where
  "check_marker s = get_bits1 s"

text \<open>\<open>buffer = None\<close> is the null pointer.\<close>

definition init_get_bits_xe :: "u8 list option \<Rightarrow> int \<Rightarrow> int \<times> get_bits_context" where
  "init_get_bits_xe buf bit_size =
     (if bit_size \<ge> 2147483647 - max 7 (AV_INPUT_BUFFER_PADDING_SIZE * 8) \<or> bit_size < 0 \<or> buf = None
      then (- 1, \<lparr>buffer = [], buffer_end = 0, index = 0, size_in_bits = 0, size_in_bits_plus8 = 8\<rparr>)
      else (0, \<lparr>buffer = the buf, buffer_end = (bit_size + 7) div 8, index = 0,
        size_in_bits = bit_size, size_in_bits_plus8 = bit_size + 8\<rparr>))"

definition init_get_bits :: "u8 list option \<Rightarrow> int \<Rightarrow> int \<times> get_bits_context" where
  "init_get_bits buf bit_size = init_get_bits_xe buf bit_size"

definition init_get_bits8 :: "u8 list option \<Rightarrow> int \<Rightarrow> int \<times> get_bits_context" where
  "init_get_bits8 buf byte_size =
     init_get_bits buf ((if byte_size > 2147483647 div 8 \<or> byte_size < 0 then - 1 else byte_size) * 8)"

text \<open>The position \<open>align_get_bits\<close> returns is the byte offset from the start of
  the buffer.\<close>

definition align_get_bits :: "get_bits_context \<Rightarrow> int \<times> get_bits_context" where
  "align_get_bits s =
     (let n = (- get_bits_count s) mod 8;
          s = (if n \<noteq> 0 then skip_bits s n else s)
      in (s32 (index s) div 8, s))"

definition decode012 :: "get_bits_context \<Rightarrow> (int \<times> get_bits_context) option" where
  "decode012 gb = do {
     (n, gb) \<leftarrow> get_bits1 gb;
     if n = 0 then Some (0, gb)
     else do { (m, gb) \<leftarrow> get_bits1 gb; Some (m + 1, gb) }
   }"

definition decode210 :: "get_bits_context \<Rightarrow> (int \<times> get_bits_context) option" where
  "decode210 gb = do {
     (n, gb) \<leftarrow> get_bits1 gb;
     if n \<noteq> 0 then Some (0, gb)
     else do { (m, gb) \<leftarrow> get_bits1 gb; Some (2 - m, gb) }
   }"

definition get_bits_left :: "get_bits_context \<Rightarrow> int" where
  "get_bits_left gb = s32 (size_in_bits gb - get_bits_count gb)"

section \<open>Logarithm\<close>

definition ff_log2_tab :: "int list" where
  "ff_log2_tab = [
    0, 0, 1, 1, 2, 2, 2, 2, 3, 3, 3, 3, 3, 3, 3, 3, 4, 4, 4, 4, 4, 4, 4, 4, 4, 4, 4, 4, 4, 4, 4, 4,
    5, 5, 5, 5, 5, 5, 5, 5, 5, 5, 5, 5, 5, 5, 5, 5, 5, 5, 5, 5, 5, 5, 5, 5, 5, 5, 5, 5, 5, 5, 5, 5,
    6, 6, 6, 6, 6, 6, 6, 6, 6, 6, 6, 6, 6, 6, 6, 6, 6, 6, 6, 6, 6, 6, 6, 6, 6, 6, 6, 6, 6, 6, 6, 6,
    6, 6, 6, 6, 6, 6, 6, 6, 6, 6, 6, 6, 6, 6, 6, 6, 6, 6, 6, 6, 6, 6, 6, 6, 6, 6, 6, 6, 6, 6, 6, 6,
    7, 7, 7, 7, 7, 7, 7, 7, 7, 7, 7, 7, 7, 7, 7, 7, 7, 7, 7, 7, 7, 7, 7, 7, 7, 7, 7, 7, 7, 7, 7, 7,
    7, 7, 7, 7, 7, 7, 7, 7, 7, 7, 7, 7, 7, 7, 7, 7, 7, 7, 7, 7, 7, 7, 7, 7, 7, 7, 7, 7, 7, 7, 7, 7,
    7, 7, 7, 7, 7, 7, 7, 7, 7, 7, 7, 7, 7, 7, 7, 7, 7, 7, 7, 7, 7, 7, 7, 7, 7, 7, 7, 7, 7, 7, 7, 7,
    7, 7, 7, 7, 7, 7, 7, 7, 7, 7, 7, 7, 7, 7, 7, 7, 7, 7, 7, 7, 7, 7, 7, 7, 7, 7, 7, 7, 7, 7, 7, 7]"

definition av_log2 :: "u32 \<Rightarrow> int" where
  "av_log2 v =
     (let (v, n) = (if v AND 0xffff0000 \<noteq> 0 then (drop_bit 16 v, 16) else (v, 0));
          (v, n) = (if v AND 0xff00 \<noteq> 0 then (drop_bit 8 v, n + 8) else (v, n))
      in n + ff_log2_tab ! unat v)"

section \<open>Exp-Golomb codes\<close>

definition ff_golomb_vlc_len :: "int list" where
  "ff_golomb_vlc_len = [
    19, 17, 15, 15, 13, 13, 13, 13, 11, 11, 11, 11, 11, 11, 11, 11, 9, 9, 9, 9, 9, 9, 9, 9, 9, 9, 9, 9, 9, 9, 9, 9,
    7, 7, 7, 7, 7, 7, 7, 7, 7, 7, 7, 7, 7, 7, 7, 7, 7, 7, 7, 7, 7, 7, 7, 7, 7, 7, 7, 7, 7, 7, 7, 7,
    5, 5, 5, 5, 5, 5, 5, 5, 5, 5, 5, 5, 5, 5, 5, 5, 5, 5, 5, 5, 5, 5, 5, 5, 5, 5, 5, 5, 5, 5, 5, 5,
    5, 5, 5, 5, 5, 5, 5, 5, 5, 5, 5, 5, 5, 5, 5, 5, 5, 5, 5, 5, 5, 5, 5, 5, 5, 5, 5, 5, 5, 5, 5, 5,
    3, 3, 3, 3, 3, 3, 3, 3, 3, 3, 3, 3, 3, 3, 3, 3, 3, 3, 3, 3, 3, 3, 3, 3, 3, 3, 3, 3, 3, 3, 3, 3,
    3, 3, 3, 3, 3, 3, 3, 3, 3, 3, 3, 3, 3, 3, 3, 3, 3, 3, 3, 3, 3, 3, 3, 3, 3, 3, 3, 3, 3, 3, 3, 3,
    3, 3, 3, 3, 3, 3, 3, 3, 3, 3, 3, 3, 3, 3, 3, 3, 3, 3, 3, 3, 3, 3, 3, 3, 3, 3, 3, 3, 3, 3, 3, 3,
    3, 3, 3, 3, 3, 3, 3, 3, 3, 3, 3, 3, 3, 3, 3, 3, 3, 3, 3, 3, 3, 3, 3, 3, 3, 3, 3, 3, 3, 3, 3, 3,
    1, 1, 1, 1, 1, 1, 1, 1, 1, 1, 1, 1, 1, 1, 1, 1, 1, 1, 1, 1, 1, 1, 1, 1, 1, 1, 1, 1, 1, 1, 1, 1,
    1, 1, 1, 1, 1, 1, 1, 1, 1, 1, 1, 1, 1, 1, 1, 1, 1, 1, 1, 1, 1, 1, 1, 1, 1, 1, 1, 1, 1, 1, 1, 1,
    1, 1, 1, 1, 1, 1, 1, 1, 1, 1, 1, 1, 1, 1, 1, 1, 1, 1, 1, 1, 1, 1, 1, 1, 1, 1, 1, 1, 1, 1, 1, 1,
    1, 1, 1, 1, 1, 1, 1, 1, 1, 1, 1, 1, 1, 1, 1, 1, 1, 1, 1, 1, 1, 1, 1, 1, 1, 1, 1, 1, 1, 1, 1, 1,
    1, 1, 1, 1, 1, 1, 1, 1, 1, 1, 1, 1, 1, 1, 1, 1, 1, 1, 1, 1, 1, 1, 1, 1, 1, 1, 1, 1, 1, 1, 1, 1,
    1, 1, 1, 1, 1, 1, 1, 1, 1, 1, 1, 1, 1, 1, 1, 1, 1, 1, 1, 1, 1, 1, 1, 1, 1, 1, 1, 1, 1, 1, 1, 1,
    1, 1, 1, 1, 1, 1, 1, 1, 1, 1, 1, 1, 1, 1, 1, 1, 1, 1, 1, 1, 1, 1, 1, 1, 1, 1, 1, 1, 1, 1, 1, 1,
    1, 1, 1, 1, 1, 1, 1, 1, 1, 1, 1, 1, 1, 1, 1, 1, 1, 1, 1, 1, 1, 1, 1, 1, 1, 1, 1, 1, 1, 1, 1, 1]"

definition ff_ue_golomb_vlc_code :: "int list" where
  "ff_ue_golomb_vlc_code = [
    32, 32, 32, 32, 32, 32, 32, 32, 31, 32, 32, 32, 32, 32, 32, 32, 15, 16, 17, 18, 19, 20, 21, 22, 23, 24, 25, 26, 27, 28, 29, 30,
    7, 7, 7, 7, 8, 8, 8, 8, 9, 9, 9, 9, 10, 10, 10, 10, 11, 11, 11, 11, 12, 12, 12, 12, 13, 13, 13, 13, 14, 14, 14, 14,
    3, 3, 3, 3, 3, 3, 3, 3, 3, 3, 3, 3, 3, 3, 3, 3, 4, 4, 4, 4, 4, 4, 4, 4, 4, 4, 4, 4, 4, 4, 4, 4,
    5, 5, 5, 5, 5, 5, 5, 5, 5, 5, 5, 5, 5, 5, 5, 5, 6, 6, 6, 6, 6, 6, 6, 6, 6, 6, 6, 6, 6, 6, 6, 6,
    1, 1, 1, 1, 1, 1, 1, 1, 1, 1, 1, 1, 1, 1, 1, 1, 1, 1, 1, 1, 1, 1, 1, 1, 1, 1, 1, 1, 1, 1, 1, 1,
    1, 1, 1, 1, 1, 1, 1, 1, 1, 1, 1, 1, 1, 1, 1, 1, 1, 1, 1, 1, 1, 1, 1, 1, 1, 1, 1, 1, 1, 1, 1, 1,
    2, 2, 2, 2, 2, 2, 2, 2, 2, 2, 2, 2, 2, 2, 2, 2, 2, 2, 2, 2, 2, 2, 2, 2, 2, 2, 2, 2, 2, 2, 2, 2,
    2, 2, 2, 2, 2, 2, 2, 2, 2, 2, 2, 2, 2, 2, 2, 2, 2, 2, 2, 2, 2, 2, 2, 2, 2, 2, 2, 2, 2, 2, 2, 2,
    0, 0, 0, 0, 0, 0, 0, 0, 0, 0, 0, 0, 0, 0, 0, 0, 0, 0, 0, 0, 0, 0, 0, 0, 0, 0, 0, 0, 0, 0, 0, 0,
    0, 0, 0, 0, 0, 0, 0, 0, 0, 0, 0, 0, 0, 0, 0, 0, 0, 0, 0, 0, 0, 0, 0, 0, 0, 0, 0, 0, 0, 0, 0, 0,
    0, 0, 0, 0, 0, 0, 0, 0, 0, 0, 0, 0, 0, 0, 0, 0, 0, 0, 0, 0, 0, 0, 0, 0, 0, 0, 0, 0, 0, 0, 0, 0,
    0, 0, 0, 0, 0, 0, 0, 0, 0, 0, 0, 0, 0, 0, 0, 0, 0, 0, 0, 0, 0, 0, 0, 0, 0, 0, 0, 0, 0, 0, 0, 0,
    0, 0, 0, 0, 0, 0, 0, 0, 0, 0, 0, 0, 0, 0, 0, 0, 0, 0, 0, 0, 0, 0, 0, 0, 0, 0, 0, 0, 0, 0, 0, 0,
    0, 0, 0, 0, 0, 0, 0, 0, 0, 0, 0, 0, 0, 0, 0, 0, 0, 0, 0, 0, 0, 0, 0, 0, 0, 0, 0, 0, 0, 0, 0, 0,
    0, 0, 0, 0, 0, 0, 0, 0, 0, 0, 0, 0, 0, 0, 0, 0, 0, 0, 0, 0, 0, 0, 0, 0, 0, 0, 0, 0, 0, 0, 0, 0,
    0, 0, 0, 0, 0, 0, 0, 0, 0, 0, 0, 0, 0, 0, 0, 0, 0, 0, 0, 0, 0, 0, 0, 0, 0, 0, 0, 0, 0, 0, 0, 0]"

text \<open>The initialisers of the table of plain \<open>char\<close>, and the value of an element
  when it is read back.\<close>

definition ff_se_golomb_vlc_code :: "int list" where
  "ff_se_golomb_vlc_code = [
    17, 17, 17, 17, 17, 17, 17, 17, 16, 17, 17, 17, 17, 17, 17, 17, 8, -8, 9, -9, 10, -10, 11, -11, 12, -12, 13, -13, 14, -14, 15, -15,
    4, 4, 4, 4, -4, -4, -4, -4, 5, 5, 5, 5, -5, -5, -5, -5, 6, 6, 6, 6, -6, -6, -6, -6, 7, 7, 7, 7, -7, -7, -7, -7,
    2, 2, 2, 2, 2, 2, 2, 2, 2, 2, 2, 2, 2, 2, 2, 2, -2, -2, -2, -2, -2, -2, -2, -2, -2, -2, -2, -2, -2, -2, -2, -2,
    3, 3, 3, 3, 3, 3, 3, 3, 3, 3, 3, 3, 3, 3, 3, 3, -3, -3, -3, -3, -3, -3, -3, -3, -3, -3, -3, -3, -3, -3, -3, -3,
    1, 1, 1, 1, 1, 1, 1, 1, 1, 1, 1, 1, 1, 1, 1, 1, 1, 1, 1, 1, 1, 1, 1, 1, 1, 1, 1, 1, 1, 1, 1, 1,
    1, 1, 1, 1, 1, 1, 1, 1, 1, 1, 1, 1, 1, 1, 1, 1, 1, 1, 1, 1, 1, 1, 1, 1, 1, 1, 1, 1, 1, 1, 1, 1,
    -1, -1, -1, -1, -1, -1, -1, -1, -1, -1, -1, -1, -1, -1, -1, -1, -1, -1, -1, -1, -1, -1, -1, -1, -1, -1, -1, -1, -1, -1, -1, -1,
    -1, -1, -1, -1, -1, -1, -1, -1, -1, -1, -1, -1, -1, -1, -1, -1, -1, -1, -1, -1, -1, -1, -1, -1, -1, -1, -1, -1, -1, -1, -1, -1,
    0, 0, 0, 0, 0, 0, 0, 0, 0, 0, 0, 0, 0, 0, 0, 0, 0, 0, 0, 0, 0, 0, 0, 0, 0, 0, 0, 0, 0, 0, 0, 0,
    0, 0, 0, 0, 0, 0, 0, 0, 0, 0, 0, 0, 0, 0, 0, 0, 0, 0, 0, 0, 0, 0, 0, 0, 0, 0, 0, 0, 0, 0, 0, 0,
    0, 0, 0, 0, 0, 0, 0, 0, 0, 0, 0, 0, 0, 0, 0, 0, 0, 0, 0, 0, 0, 0, 0, 0, 0, 0, 0, 0, 0, 0, 0, 0,
    0, 0, 0, 0, 0, 0, 0, 0, 0, 0, 0, 0, 0, 0, 0, 0, 0, 0, 0, 0, 0, 0, 0, 0, 0, 0, 0, 0, 0, 0, 0, 0,
    0, 0, 0, 0, 0, 0, 0, 0, 0, 0, 0, 0, 0, 0, 0, 0, 0, 0, 0, 0, 0, 0, 0, 0, 0, 0, 0, 0, 0, 0, 0, 0,
    0, 0, 0, 0, 0, 0, 0, 0, 0, 0, 0, 0, 0, 0, 0, 0, 0, 0, 0, 0, 0, 0, 0, 0, 0, 0, 0, 0, 0, 0, 0, 0,
    0, 0, 0, 0, 0, 0, 0, 0, 0, 0, 0, 0, 0, 0, 0, 0, 0, 0, 0, 0, 0, 0, 0, 0, 0, 0, 0, 0, 0, 0, 0, 0,
    0, 0, 0, 0, 0, 0, 0, 0, 0, 0, 0, 0, 0, 0, 0, 0, 0, 0, 0, 0, 0, 0, 0, 0, 0, 0, 0, 0, 0, 0, 0, 0]"

definition plain_char :: "bool \<Rightarrow> int \<Rightarrow> int" where
  "plain_char char_signed v = (if char_signed then (v + 128) mod 256 - 128 else v mod 256)"

definition get_ue_golomb :: "get_bits_context \<Rightarrow> (int \<times> get_bits_context) option" where
  "get_ue_golomb gb = do {
     buf \<leftarrow> UPDATE_CACHE gb (index gb);
     if buf \<ge> push_bit 27 1 then
       let b = unat (drop_bit (32 - 9) buf)
       in Some (ff_ue_golomb_vlc_code ! b, LAST_SKIP_BITS gb (ff_golomb_vlc_len ! b))
     else
       let log = 2 * av_log2 buf - 31;
           gb = LAST_SKIP_BITS gb (32 - log)
       in if log < 7 then Some (- 1, gb)
          else Some (sint (drop_bit (nat log) buf - 1), gb)
   }"

definition get_ue_golomb_long :: "get_bits_context \<Rightarrow> (int \<times> get_bits_context) option" where
  "get_ue_golomb_long gb = do {
     buf \<leftarrow> show_bits_long gb 32;
     let log = 31 - av_log2 (word_of_int buf);
     let gb = skip_bits_long gb log;
     (v, gb) \<leftarrow> get_bits_long gb (log + 1);
     Some (u32 (v - 1), gb)
   }"

definition get_ue_golomb_31 :: "get_bits_context \<Rightarrow> (int \<times> get_bits_context) option" where
  "get_ue_golomb_31 gb = do {
     buf \<leftarrow> UPDATE_CACHE gb (index gb);
     let b = unat (drop_bit (32 - 9) buf);
     Some (ff_ue_golomb_vlc_code ! b, LAST_SKIP_BITS gb (ff_golomb_vlc_len ! b))
   }"

definition get_te0_golomb :: "get_bits_context \<Rightarrow> int \<Rightarrow> (int \<times> get_bits_context) option" where
  "get_te0_golomb gb rng =
     (if rng = 1 then Some (0, gb)
      else if rng = 2 then do { (b, gb) \<leftarrow> get_bits1 gb; Some (b XOR 1, gb) }
      else get_ue_golomb gb)"

definition get_te_golomb :: "get_bits_context \<Rightarrow> int \<Rightarrow> (int \<times> get_bits_context) option" where
  "get_te_golomb gb rng =
     (if rng = 2 then do { (b, gb) \<leftarrow> get_bits1 gb; Some (b XOR 1, gb) }
      else get_ue_golomb gb)"

definition get_se_golomb :: "bool \<Rightarrow> get_bits_context \<Rightarrow> (int \<times> get_bits_context) option" where
  "get_se_golomb char_signed gb = do {
     buf \<leftarrow> UPDATE_CACHE gb (index gb);
     if buf \<ge> push_bit 27 1 then
       let b = unat (drop_bit (32 - 9) buf)
       in Some (plain_char char_signed (ff_se_golomb_vlc_code ! b), LAST_SKIP_BITS gb (ff_golomb_vlc_len ! b))
     else do {
       let log = av_log2 buf;
       let gb = LAST_SKIP_BITS gb (31 - log);
       buf \<leftarrow> UPDATE_CACHE gb (index gb);
       let buf = drop_bit (nat log) buf;
       let gb = LAST_SKIP_BITS gb (32 - log);
       let sign = - (buf AND 1);
       Some (sint ((drop_bit 1 buf XOR sign) - sign), gb)
     }
   }"

definition get_se_golomb_long :: "get_bits_context \<Rightarrow> (int \<times> get_bits_context) option" where
  "get_se_golomb_long gb = do {
     (buf, gb) \<leftarrow> get_ue_golomb_long gb;
     let buf = (word_of_int buf :: u32);
     let sign = (buf AND 1) - 1;
     Some (sint ((drop_bit 1 buf XOR sign) + 1), gb)
   }"

text \<open>A loop that reads a number of codes in a row.\<close>

fun read_list :: "('s \<Rightarrow> ('v \<times> 's) option) \<Rightarrow> nat \<Rightarrow> 's \<Rightarrow> ('v list \<times> 's) option" where
  "read_list rd 0 s = Some ([], s)"
| "read_list rd (Suc n) s = do {
     (v, s) \<leftarrow> rd s;
     (vs, s) \<leftarrow> read_list rd n s;
     Some (v # vs, s)
   }"

section \<open>Start codes and raw byte sequences\<close>

text \<open>The bytes are read in the order of the short-circuit conditions.\<close>

definition find_start_code :: "u8 list \<Rightarrow> int \<Rightarrow> int option" where
  "find_start_code dat data_sz =
     (if data_sz > 3 then do {
        d0 \<leftarrow> byte_at dat 0;
        if d0 \<noteq> 0 then Some (- 1) else do {
        d1 \<leftarrow> byte_at dat 1;
        if d1 \<noteq> 0 then Some (- 1) else do {
        d2 \<leftarrow> byte_at dat 2;
        if d2 = 1 then Some 3
        else if data_sz > 4 \<and> d2 = 0 then do {
          d3 \<leftarrow> byte_at dat 3;
          Some (if d3 = 1 then 4 else - 1)
        }
        else Some (- 1) } }
      }
      else Some (- 1))"

text \<open>The loop of \<open>calc_nal_len\<close> from index \<open>i\<close>.\<close>

definition start_code_at :: "u8 list \<Rightarrow> nat \<Rightarrow> bool option" where
  "start_code_at dat i = do {
     d0 \<leftarrow> byte_at dat (int i);
     if d0 \<noteq> 0 then Some False else do {
     d1 \<leftarrow> byte_at dat (int i + 1);
     if d1 \<noteq> 0 then Some False else do {
     d2 \<leftarrow> byte_at dat (int i + 2);
     if d2 = 1 then Some True
     else if d2 = 0 then do {
       d3 \<leftarrow> byte_at dat (int i + 3);
       Some (d3 = 1)
     }
     else Some False } }
   }"

function calc_nal_len_from :: "u8 list \<Rightarrow> int \<Rightarrow> nat \<Rightarrow> int option" where
  "calc_nal_len_from dat len i =
     (if int i < len - 4 then do {
        found \<leftarrow> start_code_at dat i;
        if found then Some (int i) else calc_nal_len_from dat len (i + 1)
      }
      else Some len)"
  by pat_completeness auto
termination
  by (relation "measure (\<lambda>(dat, len, i). nat (len - int i))") auto

definition calc_nal_len :: "u8 list \<Rightarrow> int \<Rightarrow> int option" where
  "calc_nal_len dat len = calc_nal_len_from dat len 0"

text \<open>\<open>nal_unit_extract_rbsp\<close> on the bytes of the unit: the copy of the two header
  bytes, the loop that drops the emulation prevention bytes, and the zero padding behind the
  result. \<open>vmalloc\<close> failing is the argument \<open>mem = False\<close>.\<close>

fun remove_emulation :: "u8 list \<Rightarrow> u8 list" where
  "remove_emulation (a # b # c # src) =
     (if a = 0 \<and> b = 0 \<and> c = 3 then a # b # remove_emulation src
      else a # remove_emulation (b # c # src))"
| "remove_emulation src = src"

definition nal_unit_extract_rbsp :: "bool \<Rightarrow> u8 list \<Rightarrow> (u8 list \<times> nat) option" where
  "nal_unit_extract_rbsp mem src =
     (if \<not> mem then None
      else let dst = take 2 src @ remove_emulation (drop 2 src)
           in Some (dst @ replicate (nat AV_INPUT_BUFFER_PADDING_SIZE) 0, length dst))"

definition is_over_size :: "int \<Rightarrow> int \<Rightarrow> int \<Rightarrow> bool" where
  "is_over_size w h sz = (h \<noteq> 0 \<and> w > cdiv sz h)"

end
