(* ===== verification/Bit_Reader_Correct.thy ===== *)
theory Bit_Reader_Correct
  imports Bit_Reader
begin

text \<open>
  The bit reader against the bit stream its buffer holds. \<open>stream_bits\<close> is the
  buffer as a list of bits, most significant first, and \<open>be_bits\<close> reads a list of
  bits as a number. The reads are stated against these two functions, the Exp-Golomb readers
  against the code words of the standard.
\<close>

section \<open>The bit stream a buffer holds\<close>

definition byte_bits :: "u8 \<Rightarrow> bool list" where
  "byte_bits b = map (bit b) (rev [0..<8])"

definition stream_bits :: "u8 list \<Rightarrow> bool list" where
  "stream_bits bs = concat (map byte_bits bs)"

definition be_bits :: "bool list \<Rightarrow> int" where
  "be_bits bs = foldl (\<lambda>v b. 2 * v + of_bool b) 0 bs"

lemma length_byte_bits [simp]: "length (byte_bits b) = 8"
  by (simp add: byte_bits_def)

lemma nth_byte_bits: "j < 8 \<Longrightarrow> byte_bits b ! j = bit b (7 - j)"
  by (simp add: byte_bits_def rev_nth del: upt_rec_numeral)

lemma stream_bits_Nil [simp]: "stream_bits [] = []"
  by (simp add: stream_bits_def)

lemma stream_bits_Cons: "stream_bits (b # bs) = byte_bits b @ stream_bits bs"
  by (simp add: stream_bits_def)

lemma length_stream_bits [simp]: "length (stream_bits bs) = 8 * length bs"
  by (induction bs) (simp_all add: stream_bits_Cons)

lemma nth_stream_bits:
  "p < 8 * length bs \<Longrightarrow> stream_bits bs ! p = bit (bs ! (p div 8)) (7 - p mod 8)"
proof (induction bs arbitrary: p)
  case (Cons b bs)
  show ?case
  proof (cases "p < 8")
    case True
    then show ?thesis
      by (simp add: stream_bits_Cons nth_append nth_byte_bits)
  next
    case False
    then obtain q where p: "p = q + 8"
      by (metis le_add_diff_inverse2 not_less)
    have "(q + 8) div 8 = Suc (q div 8)"
      by simp
    then show ?thesis
      using Cons by (simp add: p stream_bits_Cons nth_append)
  qed
qed simp

lemma be_bits_horner: "be_bits bs = horner_sum of_bool 2 (rev bs)"
  by (induction bs rule: rev_induct) (simp_all add: be_bits_def)

lemma bit_be_bits: "bit (be_bits bs) j \<longleftrightarrow> j < length bs \<and> bs ! (length bs - Suc j)"
  by (auto simp: be_bits_horner bit_horner_sum_bit_iff rev_nth)

lemma be_bits_nonneg [simp]: "0 \<le> be_bits bs"
  by (induction bs rule: rev_induct) (simp_all add: be_bits_def)

lemma be_bits_snoc: "be_bits (bs @ [b]) = 2 * be_bits bs + of_bool b"
  by (simp add: be_bits_def)

lemma be_bits_less: "be_bits bs < 2 ^ length bs"
  by (induction bs rule: rev_induct) (simp_all add: be_bits_snoc, simp add: be_bits_def)

lemma be_bits_append: "be_bits (xs @ ys) = be_bits xs * 2 ^ length ys + be_bits ys"
  by (induction ys rule: rev_induct)
    (simp_all flip: append_assoc add: be_bits_snoc, simp add: be_bits_def)

lemma be_bits_zeros [simp]: "be_bits (replicate n False) = 0"
  by (induction n) (simp_all flip: replicate_append_same add: be_bits_snoc, simp add: be_bits_def)

section \<open>The cache\<close>

lemma byte_at_eq_Some: "byte_at b i = Some x \<longleftrightarrow> 0 \<le> i \<and> i < int (length b) \<and> x = b ! nat i"
  by (auto simp: byte_at_def)

lemma AV_RB32_eq_Some:
  "AV_RB32 b i = Some w \<longleftrightarrow> 0 \<le> i \<and> i + 4 \<le> int (length b) \<and>
     w = (push_bit 24 (ucast (b ! nat i)) OR push_bit 16 (ucast (b ! nat (i + 1)))
       OR push_bit 8 (ucast (b ! nat (i + 2))) OR ucast (b ! nat (i + 3)))"
  by (auto simp: AV_RB32_def byte_at_eq_Some bind_eq_Some_conv)

lemma u8_bit_high: "8 \<le> n \<Longrightarrow> bit (b :: u8) n \<longleftrightarrow> False"
  using bit_imp_le_length [of b n] by auto
lemma bit_be_word:
  fixes b0 b1 b2 b3 :: u8
  assumes "j < 32"
  shows "bit (push_bit 24 (ucast b0) OR push_bit 16 (ucast b1) OR push_bit 8 (ucast b2) OR ucast b3 :: u32) j
    \<longleftrightarrow> 24 \<le> j \<and> bit b0 (j - 24) \<or> 16 \<le> j \<and> bit b1 (j - 16) \<or> 8 \<le> j \<and> bit b2 (j - 8) \<or> bit b3 j"
  using assms by (simp add: bit_or_iff bit_push_bit_iff bit_unsigned_iff less_imp_diff_less)

lemma bit_be_word_parts:
  fixes b0 b1 b2 b3 :: u8
  defines "w \<equiv> push_bit 24 (ucast b0) OR push_bit 16 (ucast b1) OR push_bit 8 (ucast b2) OR ucast b3 :: u32"
  assumes r: "r < 8"
  shows "bit w r = bit b3 r" "bit w (8 + r) = bit b2 r" "bit w (16 + r) = bit b1 r" "bit w (24 + r) = bit b0 r"
proof -
  have le: "\<not> 24 \<le> r" "\<not> 16 \<le> r" "\<not> 8 \<le> r" "r < 32"
    using r by linarith+
  show "bit w r = bit b3 r"
    unfolding w_def bit_be_word [OF le(4)] by (simp only: le simp_thms)
  have le: "\<not> 24 \<le> 8 + r" "\<not> 16 \<le> 8 + r" "8 \<le> 8 + r" "8 + r < 32" "8 + r - 8 = r"
    using r by linarith+
  show "bit w (8 + r) = bit b2 r"
    unfolding w_def bit_be_word [OF le(4)] by (simp only: le simp_thms u8_bit_high)
  have le: "\<not> 24 \<le> 16 + r" "16 \<le> 16 + r" "8 \<le> 16 + r" "16 + r < 32" "16 + r - 16 = r" "8 \<le> 16 + r - 8"
    using r by linarith+
  show "bit w (16 + r) = bit b1 r"
    unfolding w_def bit_be_word [OF le(4)] by (simp only: le simp_thms u8_bit_high)
  have le: "24 \<le> 24 + r" "16 \<le> 24 + r" "8 \<le> 24 + r" "24 + r < 32" "24 + r - 24 = r" "8 \<le> 24 + r - 8" "8 \<le> 24 + r - 16"
    using r by linarith+
  show "bit w (24 + r) = bit b0 r"
    unfolding w_def bit_be_word [OF le(4)] by (simp only: le simp_thms u8_bit_high)
qed
lemma nat_int_add: "nat (int i) = i" "nat (int i + 1) = i + 1" "nat (int i + 2) = i + 2" "nat (int i + 3) = i + 3"
  by simp_all

lemma bit_AV_RB32:
  assumes "AV_RB32 b (int i) = Some w" "j < 32"
  shows "bit w j = stream_bits b ! (8 * i + (31 - j))"
proof -
  have len: "i + 4 \<le> length b"
    and w: "w = (push_bit 24 (ucast (b ! i)) OR push_bit 16 (ucast (b ! (i + 1)))
       OR push_bit 8 (ucast (b ! (i + 2))) OR ucast (b ! (i + 3)))"
    using iffD1 [OF AV_RB32_eq_Some assms(1)] by (simp_all add: nat_int_add)
  have at: "stream_bits b ! (8 * i + (31 - j)) = bit (b ! (i + (31 - j) div 8)) (7 - (31 - j) mod 8)"
  proof -
    have "8 * i + (31 - j) < 8 * length b"
      using len by arith
    moreover have "(8 * i + m) div 8 = i + m div 8" "(8 * i + m) mod 8 = m mod 8" for m
      by simp_all
    ultimately show ?thesis
      by (simp only: nth_stream_bits)
  qed
  obtain r where r: "r < 8" "j = r \<or> j = 8 + r \<or> j = 16 + r \<or> j = 24 + r"
  proof
    show "j mod 8 < 8"
      by simp
    show "j = j mod 8 \<or> j = 8 + j mod 8 \<or> j = 16 + j mod 8 \<or> j = 24 + j mod 8"
    proof -
      have "j = 8 * (j div 8) + j mod 8" "j div 8 < 4"
        using assms(2) by simp_all
      moreover from this(2) have "j div 8 = 0 \<or> j div 8 = 1 \<or> j div 8 = 2 \<or> j div 8 = 3"
        by linarith
      ultimately show ?thesis
        by linarith
    qed
  qed
  have d: "(31 - r) div 8 = 3" "(23 - r) div 8 = 2" "(15 - r) div 8 = 1" "(7 - r) div 8 = 0"
    "7 - (31 - r) mod 8 = r" "7 - (23 - r) mod 8 = r" "7 - (15 - r) mod 8 = r" "7 - (7 - r) mod 8 = r"
  proof -
    have "r = 0 \<or> r = 1 \<or> r = 2 \<or> r = 3 \<or> r = 4 \<or> r = 5 \<or> r = 6 \<or> r = 7"
      using r(1) by linarith
    then show "(31 - r) div 8 = 3" "(23 - r) div 8 = 2" "(15 - r) div 8 = 1" "(7 - r) div 8 = 0"
      "7 - (31 - r) mod 8 = r" "7 - (23 - r) mod 8 = r" "7 - (15 - r) mod 8 = r" "7 - (7 - r) mod 8 = r"
      by (elim disjE; simp)+
  qed
  have e: "31 - (8 + r) = 23 - r" "31 - (16 + r) = 15 - r" "31 - (24 + r) = 7 - r"
    by simp_all
  have h0: "bit w j = bit (b ! (i + (31 - j) div 8)) (7 - (31 - j) mod 8)" if "j = r"
    unfolding w that bit_be_word_parts [OF r(1)] d ..
  have h1: "bit w j = bit (b ! (i + (31 - j) div 8)) (7 - (31 - j) mod 8)" if "j = 8 + r"
    unfolding w that bit_be_word_parts [OF r(1)] e d ..
  have h2: "bit w j = bit (b ! (i + (31 - j) div 8)) (7 - (31 - j) mod 8)" if "j = 16 + r"
    unfolding w that bit_be_word_parts [OF r(1)] e d ..
  have h3: "bit w j = bit (b ! (i + (31 - j) div 8)) (7 - (31 - j) mod 8)" if "j = 24 + r"
    unfolding w that bit_be_word_parts [OF r(1)] e d add_0_right ..
  from r(2) show ?thesis
    unfolding at by (elim disjE) (erule h0 h1 h2 h3)+
qed


definition cache_ready :: "get_bits_context \<Rightarrow> nat \<Rightarrow> bool" where
  "cache_ready s i \<longleftrightarrow> i div 8 + 4 \<le> length (buffer s)"

lemma UPDATE_CACHE_defined: "(\<exists>c. UPDATE_CACHE s (int i) = Some c) \<longleftrightarrow> cache_ready s i"
  by (auto simp: UPDATE_CACHE_def cache_ready_def AV_RB32_eq_Some zdiv_int)

lemma bit_UPDATE_CACHE:
  assumes "UPDATE_CACHE s (int i) = Some c" "j < 32"
  shows "bit c j \<longleftrightarrow> i mod 8 \<le> j \<and> stream_bits (buffer s) ! (i + (31 - j))"
proof -
  have "int i div 8 = int (i div 8)" "nat (int i mod 8) = i mod 8"
    by (simp_all add: zdiv_int nat_mod_distrib)
  then have "map_option (push_bit (i mod 8)) (AV_RB32 (buffer s) (int (i div 8))) = Some c"
    using assms(1) unfolding UPDATE_CACHE_def by simp
  then obtain w where w: "AV_RB32 (buffer s) (int (i div 8)) = Some w"
    and c: "c = push_bit (i mod 8) w"
    by (cases "AV_RB32 (buffer s) (int (i div 8))") simp_all
  show ?thesis
  proof (cases "i mod 8 \<le> j")
    case True
    have p: "8 * (i div 8) + (31 - (j - i mod 8)) = i + (31 - j)"
    proof -
      have "8 * (i div 8) + i mod 8 = i"
        by simp
      then show ?thesis
        using True assms(2) by linarith
    qed
    have "bit c j = bit w (j - i mod 8)"
      using True assms(2) by (simp add: c bit_push_bit_iff)
    also have "\<dots> = stream_bits (buffer s) ! (i + (31 - j))"
      using assms(2) by (simp add: bit_AV_RB32 [OF w] p)
    finally show ?thesis
      using True by simp
  next
    case False
    then show ?thesis
      by (simp add: c bit_push_bit_iff)
  qed
qed

text \<open>The top \<open>n\<close> bits of the cache are the next \<open>n\<close> bits of the stream,
  as long as the bit offset inside the first byte leaves room for them.\<close>

lemma drop_bit_cache:
  assumes c: "UPDATE_CACHE s (int i) = Some c" and n: "n + i mod 8 \<le> 32"
  shows "uint (drop_bit (32 - n) c) = be_bits (take n (drop i (stream_bits (buffer s))))"
proof -
  have len: "i div 8 + 4 \<le> length (buffer s)"
    using c UPDATE_CACHE_defined [of s i] by (simp add: cache_ready_def)
  then have le: "i + n \<le> 8 * length (buffer s)"
    using n mult_div_mod_eq [of 8 i] by linarith
  show ?thesis
  proof (rule bit_eqI)
    fix j
    have "bit (uint (drop_bit (32 - n) c)) j \<longleftrightarrow> j < n \<and> bit c (j + (32 - n))"
      using n by (auto simp: bit_simps ac_simps dest: bit_imp_le_length)
    also have "\<dots> \<longleftrightarrow> j < n \<and> stream_bits (buffer s) ! (i + (n - Suc j))"
      using bit_UPDATE_CACHE [OF c, of "j + (32 - n)"] n by (auto simp: Suc_diff_le)
    also have "\<dots> \<longleftrightarrow> bit (be_bits (take n (drop i (stream_bits (buffer s))))) j"
    proof -
      have l: "length (take n (drop i (stream_bits (buffer s)))) = n"
        using le by simp
      show ?thesis
        using le by (simp only: bit_be_bits l) (auto simp: add.commute)
    qed
    finally show "bit (uint (drop_bit (32 - n) c)) j
      = bit (be_bits (take n (drop i (stream_bits (buffer s))))) j" .
  qed
qed

section \<open>Fixed-length reads\<close>

text \<open>A context at bit \<open>i\<close> of a buffer small enough for positions to fit an int.\<close>

definition reader_at :: "get_bits_context \<Rightarrow> nat \<Rightarrow> bool" where
  "reader_at s i \<longleftrightarrow> index s = int i \<and> 8 * length (buffer s) < 2 ^ 31 - 100"

definition next_bits :: "get_bits_context \<Rightarrow> nat \<Rightarrow> bool list" where
  "next_bits s n = take n (drop (nat (index s)) (stream_bits (buffer s)))"

definition advance :: "get_bits_context \<Rightarrow> nat \<Rightarrow> get_bits_context" where
  "advance s n = s\<lparr>index := index s + int n\<rparr>"

lemma advance_simps [simp]:
  "buffer (advance s n) = buffer s" "index (advance s n) = index s + int n"
  "size_in_bits (advance s n) = size_in_bits s"
  by (simp_all add: advance_def)

lemma advance_add: "advance (advance s m) n = advance s (m + n)"
  by (simp add: advance_def)

lemma reader_at_index: "reader_at s i \<Longrightarrow> nat (index s) = i"
  by (simp add: reader_at_def)

lemma cache_ready_bound: "cache_ready s i \<Longrightarrow> reader_at s i \<Longrightarrow> i < 2 ^ 31 - 100"
  using mult_div_mod_eq [of 8 i] mod_less_divisor [of 8 i]
  unfolding cache_ready_def reader_at_def by linarith

lemma LAST_SKIP_BITS_advance:
  "reader_at s i \<Longrightarrow> cache_ready s i \<Longrightarrow> n \<le> 100 \<Longrightarrow> LAST_SKIP_BITS s (int n) = advance s n"
  using cache_ready_bound [of s i]
  by (simp add: LAST_SKIP_BITS_def advance_def reader_at_def u32_def)

text \<open>A 32-bit cache holds the next \<open>32 - k\<close> bits when the position is
  \<open>k\<close> bits into a byte, and \<open>k\<close> zero bits below them.\<close>

lemma cache_parts:
  assumes s: "reader_at s i" and c: "UPDATE_CACHE s (int i) = Some c" and n: "n \<le> 32"
  shows "uint (drop_bit (32 - n) c)
    = be_bits (next_bits s (n - (i mod 8 + n - 32))) * 2 ^ (i mod 8 + n - 32)"
proof (cases "n + i mod 8 \<le> 32")
  case True
  then show ?thesis
    using drop_bit_cache [OF c True] by (simp add: next_bits_def reader_at_index [OF s])
next
  case False
  define k where "k = i mod 8"
  have k: "k < 8" "32 - n < k"
    using False n unfolding k_def by (simp, linarith)
  have low: "\<not> bit c j" if "j < k" for j
    using bit_UPDATE_CACHE [OF c, of j] that k by (simp add: k_def)
  have "uint (drop_bit (32 - n) c) = push_bit (k + n - 32) (uint (drop_bit k c))"
  proof (rule bit_eqI)
    fix j
    have "bit (uint (drop_bit (32 - n) c)) j \<longleftrightarrow> bit c (j + (32 - n))"
      by (auto simp: bit_simps ac_simps dest: bit_imp_le_length)
    also have "\<dots> \<longleftrightarrow> k + n - 32 \<le> j \<and> bit c (j - (k + n - 32) + k)"
      using low [of "j + (32 - n)"] k n by (cases "j + (32 - n) < k") (auto simp: algebra_simps)
    also have "\<dots> \<longleftrightarrow> bit (push_bit (k + n - 32) (uint (drop_bit k c))) j"
      by (auto simp: bit_simps ac_simps dest: bit_imp_le_length)
    finally show "bit (uint (drop_bit (32 - n) c)) j = bit (push_bit (k + n - 32) (uint (drop_bit k c))) j" .
  qed
  also have "uint (drop_bit k c) = be_bits (next_bits s (32 - k))"
    using drop_bit_cache [OF c, of "32 - k"] k by (simp add: next_bits_def reader_at_index [OF s] k_def)
  finally show ?thesis
    using k n by (simp add: push_bit_eq_mult k_def)
qed

lemma NEG_USR32_nat: "0 < n \<Longrightarrow> n \<le> 32 \<Longrightarrow> NEG_USR32 a (int n) = Some (uint (drop_bit (32 - n) a))"
  by (auto simp: NEG_USR32_def nat_diff_distrib)

lemma get_bits_eval:
  assumes "reader_at s i" "cache_ready s i" "0 < n" "n \<le> 32"
  shows "get_bits s (int n)
    = Some (be_bits (next_bits s (n - (i mod 8 + n - 32))) * 2 ^ (i mod 8 + n - 32), advance s n)"
proof -
  obtain c where c: "UPDATE_CACHE s (int i) = Some c"
    using assms(2) UPDATE_CACHE_defined by blast
  have i: "index s = int i"
    using assms(1) by (simp add: reader_at_def)
  show ?thesis
    using c cache_parts [OF assms(1) c assms(4)] LAST_SKIP_BITS_advance [OF assms(1,2), of n] assms(3,4)
    by (simp add: get_bits_def i NEG_USR32_nat)
qed

lemma get_bits_reads_aux:
  assumes "reader_at s i" "cache_ready s i" "0 < n" "n + i mod 8 \<le> 32"
  shows "get_bits s (int n) = Some (be_bits (next_bits s n), advance s n)"
  using get_bits_eval [OF assms(1,2,3)] assms(4) by (simp add: add.commute)

lemma show_bits_eval:
  assumes "reader_at s i" "cache_ready s i" "0 < n" "n \<le> 32"
  shows "show_bits s (int n)
    = Some (be_bits (next_bits s (n - (i mod 8 + n - 32))) * 2 ^ (i mod 8 + n - 32))"
proof -
  obtain c where c: "UPDATE_CACHE s (int i) = Some c"
    using assms(2) UPDATE_CACHE_defined by blast
  have i: "index s = int i"
    using assms(1) by (simp add: reader_at_def)
  show ?thesis
    using c cache_parts [OF assms(1) c assms(4)] assms(3,4)
    by (simp add: show_bits_def i NEG_USR32_nat)
qed

lemma get_bits_long_eval:
  assumes "reader_at s i" "cache_ready s i" "n \<le> 32"
  shows "get_bits_long s (int n)
    = Some (be_bits (next_bits s (n - (i mod 8 + n - 32))) * 2 ^ (i mod 8 + n - 32), advance s n)"
proof (cases "n = 0")
  case True
  have "i mod 8 \<le> 32"
    using mod_less_divisor [of 8 i] by linarith
  with True show ?thesis
    by (simp add: get_bits_long_def advance_def next_bits_def be_bits_def)
next
  case False
  then show ?thesis
    using get_bits_eval [OF assms(1,2)] assms(3) by (simp add: get_bits_long_def MIN_CACHE_BITS_def)
qed

lemma get_bits1_eval:
  assumes "reader_at s i" "i < 8 * length (buffer s)"
  shows "get_bits1 s = Some (be_bits (next_bits s 1), advance s 1)"
proof -
  have i: "index s = int i" "i div 8 < length (buffer s)" "i < 2 ^ 31 - 100"
    using assms by (auto simp: reader_at_def)
  have d: "int i div 8 = int (i div 8)" "nat (int i mod 8) = i mod 8"
    by (simp_all add: zdiv_int nat_mod_distrib)
  have "uint (drop_bit 7 (push_bit (i mod 8) (buffer s ! (i div 8)))) = of_bool (stream_bits (buffer s) ! i)"
  proof (rule bit_eqI)
    fix j
    have "bit (uint (drop_bit 7 (push_bit (i mod 8) (buffer s ! (i div 8))))) j
      \<longleftrightarrow> j = 0 \<and> bit (buffer s ! (i div 8)) (7 - i mod 8)"
      by (auto simp: bit_simps dest: bit_imp_le_length)
    then show "bit (uint (drop_bit 7 (push_bit (i mod 8) (buffer s ! (i div 8))))) j
      = bit (of_bool (stream_bits (buffer s) ! i) :: int) j"
      using assms(2) by (auto simp: nth_stream_bits bit_simps)
  qed
  moreover have "next_bits s 1 = [stream_bits (buffer s) ! i]"
    using assms(2) by (simp add: next_bits_def i(1) take_Suc hd_drop_conv_nth)
  ultimately show ?thesis
    using i d by (simp add: get_bits1_def byte_at_def be_bits_def advance_def u32_def)
qed

section \<open>Logarithm and the code tables\<close>

fun nlog2 :: "nat \<Rightarrow> nat" where
  "nlog2 n = (if n < 2 then 0 else Suc (nlog2 (n div 2)))"

declare nlog2.simps [simp del]

lemma nlog2_bounds: "0 < n \<Longrightarrow> 2 ^ nlog2 n \<le> n \<and> n < 2 ^ Suc (nlog2 n)"
proof (induction n rule: nlog2.induct)
  case (1 n)
  show ?case
  proof (cases "n < 2")
    case True
    then show ?thesis
      using 1(2) by (simp add: nlog2.simps)
  next
    case False
    then have "2 ^ nlog2 (n div 2) \<le> n div 2 \<and> n div 2 < 2 ^ Suc (nlog2 (n div 2))"
      using 1(1) by simp
    then show ?thesis
      using False by (subst (1 2) nlog2.simps) auto
  qed
qed

lemma nlog2_unique:
  assumes "2 ^ z \<le> n" "n < 2 ^ Suc z"
  shows "nlog2 n = z"
proof -
  have "0 < n"
    using assms(1) by (rule less_le_trans [rotated]) simp
  then have "2 ^ nlog2 n \<le> n" "n < 2 ^ Suc (nlog2 n)"
    using nlog2_bounds by simp_all
  then have "(2::nat) ^ nlog2 n < 2 ^ Suc z" "(2::nat) ^ z < 2 ^ Suc (nlog2 n)"
    using assms by linarith+
  then show ?thesis
    by (simp add: less_Suc_eq_le del: power_Suc)
qed

text \<open>The logarithm of the numbers the tables range over.\<close>

definition ilog_tab :: "int \<Rightarrow> int" where
  "ilog_tab b = (if b < 2 then 0 else if b < 4 then 1 else if b < 8 then 2 else if b < 16 then 3
     else if b < 32 then 4 else if b < 64 then 5 else if b < 128 then 6 else if b < 256 then 7 else 8)"

lemma ilog_tab_nlog2: "0 < b \<Longrightarrow> b < 512 \<Longrightarrow> ilog_tab (int b) = int (nlog2 b)"
  by (simp add: ilog_tab_def nlog2_unique)

definition se_value :: "int \<Rightarrow> int" where
  "se_value k = (if k mod 2 = 1 then (k + 1) div 2 else - (k div 2))"

lemma ff_log2_tab_eq: "ff_log2_tab = map ilog_tab [0..255]"
  by code_simp

lemma ff_golomb_vlc_len_eq: "drop 16 ff_golomb_vlc_len = map (\<lambda>b. 17 - 2 * ilog_tab b) [16..511]"
  by code_simp

lemma ff_ue_golomb_vlc_code_eq:
  "drop 16 ff_ue_golomb_vlc_code = map (\<lambda>b. b div 2 ^ nat (2 * ilog_tab b - 8) - 1) [16..511]"
  by code_simp

lemma ff_se_golomb_vlc_code_eq:
  "drop 16 ff_se_golomb_vlc_code
   = map (\<lambda>b. se_value (b div 2 ^ nat (2 * ilog_tab b - 8) - 1)) [16..511]"
  by code_simp

lemma table_nth:
  assumes "drop n t = map f [int n..m]" "n \<le> b" "int b \<le> m"
  shows "t ! b = f (int b)"
proof -
  have l: "length (drop n t) = nat (m - int n + 1)"
    by (simp only: assms(1) length_map length_upto)
  then have "b < length t"
    using assms(2,3) by auto
  then have "t ! b = drop n t ! (b - n)"
    using assms(2) by simp
  also have "\<dots> = map f [int n..m] ! (b - n)"
    by (simp only: assms(1))
  also have "\<dots> = f ([int n..m] ! (b - n))"
    by (rule nth_map) (use assms(2,3) in simp)
  also have "[int n..m] ! (b - n) = int b"
    using assms(2,3) by (subst nth_upto) auto
  finally show ?thesis .
qed

lemma ff_log2_tab_nth:
  assumes "0 < b" "b < 256"
  shows "ff_log2_tab ! b = int (nlog2 b)"
proof -
  have "ff_log2_tab ! b = ilog_tab (int b)"
    by (rule table_nth [of 0 _ _ 255]) (use assms ff_log2_tab_eq in \<open>simp_all del: upto_rec_numeral\<close>)
  then show ?thesis
    using assms by (simp add: ilog_tab_nlog2)
qed

lemma golomb_tables_nth:
  assumes "16 \<le> b" "b < 512"
  shows "ff_golomb_vlc_len ! b = 17 - 2 * int (nlog2 b)"
    and "ff_ue_golomb_vlc_code ! b = int (b div 2 ^ (2 * nlog2 b - 8)) - 1"
    and "ff_se_golomb_vlc_code ! b = se_value (int (b div 2 ^ (2 * nlog2 b - 8)) - 1)"
proof -
  have i: "ilog_tab (int b) = int (nlog2 b)"
    using assms by (simp add: ilog_tab_nlog2)
  have n: "nat (2 * int (nlog2 b) - 8) = 2 * nlog2 b - 8"
    by simp
  have b: "int b \<le> 511"
    using assms(2) by simp
  show "ff_golomb_vlc_len ! b = 17 - 2 * int (nlog2 b)"
    using table_nth [of 16, unfolded of_nat_numeral, OF ff_golomb_vlc_len_eq assms(1) b] i by simp
  show "ff_ue_golomb_vlc_code ! b = int (b div 2 ^ (2 * nlog2 b - 8)) - 1"
    using table_nth [of 16, unfolded of_nat_numeral, OF ff_ue_golomb_vlc_code_eq assms(1) b]
    by (simp only: i n zdiv_int of_nat_power of_nat_numeral)
  show "ff_se_golomb_vlc_code ! b = se_value (int (b div 2 ^ (2 * nlog2 b - 8)) - 1)"
    using table_nth [of 16, unfolded of_nat_numeral, OF ff_se_golomb_vlc_code_eq assms(1) b]
    by (simp only: i n zdiv_int of_nat_power of_nat_numeral)
qed

lemma high_bits_zero:
  fixes v :: u32
  shows "v AND NOT (mask k) = 0 \<longleftrightarrow> drop_bit k v = 0"
proof
  assume z: "v AND NOT (mask k) = 0"
  show "drop_bit k v = 0"
  proof (rule bit_eqI)
    fix n
    have "\<not> bit (v AND NOT (mask k)) (k + n)"
      by (simp only: z bit_0_eq bot_fun_def bot_bool_def not_False_eq_True)
    then have "\<not> bit v (k + n)"
      using bit_imp_le_length [of v "k + n"] by (auto simp: bit_and_iff bit_not_iff bit_mask_iff)
    then show "bit (drop_bit k v) n = bit 0 n"
      by (simp add: bit_drop_bit_eq)
  qed
next
  assume z: "drop_bit k v = 0"
  show "v AND NOT (mask k) = 0"
  proof (rule bit_eqI)
    fix n
    have "\<not> bit (drop_bit k v) (n - k)"
      by (simp only: z bit_0_eq bot_fun_def bot_bool_def not_False_eq_True)
    then show "bit (v AND NOT (mask k)) n = bit 0 n"
      by (cases "n < k") (auto simp: bit_and_iff bit_not_iff bit_mask_iff bit_drop_bit_eq)
  qed
qed

lemma unat_drop_bit32: "unat (drop_bit k (v :: u32)) = unat v div 2 ^ k"
  by (subst unat_drop_bit_eq) (rule drop_bit_eq_div)

lemma drop_bit_zero_unat:
  fixes v :: u32
  shows "drop_bit k v = 0 \<longleftrightarrow> unat v < 2 ^ k"
proof -
  have "drop_bit k v = 0 \<longleftrightarrow> unat (drop_bit k v) = 0"
    by (simp add: unat_eq_0)
  also have "unat (drop_bit k v) = unat v div 2 ^ k"
    by (rule unat_drop_bit32)
  finally show ?thesis
    by (simp add: div_eq_0_iff)
qed

lemma mask_test_16: "(v :: u32) AND 0xffff0000 = 0 \<longleftrightarrow> unat v < 2 ^ 16"
proof -
  have "(0xffff0000 :: u32) = NOT (mask 16)"
    by (simp add: mask_eq_exp_minus_1 not_eq_complement)
  then show ?thesis
    using high_bits_zero [of v 16] drop_bit_zero_unat [of 16 v] by simp
qed

lemma mask_test_8:
  assumes "unat (v :: u32) < 2 ^ 16"
  shows "v AND 0xff00 = 0 \<longleftrightarrow> unat v < 2 ^ 8"
proof -
  have m: "(0xff00 :: u32) = mask 16 AND NOT (mask 8)"
    by (simp add: mask_eq_exp_minus_1 not_eq_complement)
  have "take_bit 16 v = v"
    using assms by (simp add: word_unat_eq_iff unsigned_take_bit_eq take_bit_nat_eq_self)
  then have "v AND mask 16 = v"
    by (simp add: take_bit_eq_mask)
  then have "v AND 0xff00 = v AND NOT (mask 8)"
    by (metis m and.assoc)
  then show ?thesis
    using high_bits_zero [of v 8] drop_bit_zero_unat [of 8 v] by simp
qed

lemma nlog2_div: "2 ^ k \<le> n \<Longrightarrow> nlog2 (n div 2 ^ k) + k = nlog2 n"
proof -
  assume n: "2 ^ k \<le> n"
  let ?m = "n div 2 ^ k"
  have "0 < ?m"
    using n by (simp add: div_greater_zero_iff)
  then have b: "2 ^ nlog2 ?m \<le> ?m" "?m < 2 ^ Suc (nlog2 ?m)"
    using nlog2_bounds by blast+
  have "2 ^ (nlog2 ?m + k) \<le> n"
    using b(1) by (simp add: power_add less_eq_div_iff_mult_less_eq)
  moreover have "n < 2 ^ Suc (nlog2 ?m + k)"
    using b(2) by (simp add: power_add div_less_iff_less_mult algebra_simps)
  ultimately show ?thesis
    by (rule nlog2_unique [symmetric])
qed

lemma av_log2_eq:
  assumes "0 < unat v"
  shows "av_log2 v = int (nlog2 (unat v))"
proof -
  define w where "w = (if v AND 0xffff0000 \<noteq> 0 then drop_bit 16 v else v)"
  define x where "x = (if w AND 0xff00 \<noteq> 0 then drop_bit 8 w else w)"
  have "unat v < 2 ^ LENGTH(32)"
    by (rule unsigned_less)
  then have v: "unat v < 2 ^ 32"
    by simp
  have w: "unat w < 2 ^ 16" "0 < unat w"
    "int (nlog2 (unat v)) = int (nlog2 (unat w)) + (if v AND 0xffff0000 \<noteq> 0 then 16 else 0)"
    using v assms nlog2_div [of 16 "unat v"]
    by (auto simp: w_def mask_test_16 unat_drop_bit32 div_less_iff_less_mult div_greater_zero_iff)
  have x: "unat x < 2 ^ 8" "0 < unat x"
    "int (nlog2 (unat w)) = int (nlog2 (unat x)) + (if w AND 0xff00 \<noteq> 0 then 8 else 0)"
    using w(1,2) nlog2_div [of 8 "unat w"]
    by (auto simp: x_def mask_test_8 unat_drop_bit32 div_less_iff_less_mult div_greater_zero_iff)
  have "av_log2 v = (if v AND 0xffff0000 \<noteq> 0 then 16 else 0) + (if w AND 0xff00 \<noteq> 0 then 8 else 0)
    + ff_log2_tab ! unat x"
    by (auto simp: av_log2_def w_def x_def)
  then show ?thesis
    using x w(3) ff_log2_tab_nth [of "unat x"] by simp
qed

lemma av_log2_0: "av_log2 0 = 0"
  by (simp add: av_log2_def ff_log2_tab_def)

section \<open>Exp-Golomb codes\<close>

text \<open>The code word of the standard: as many zeros as the number has bits after its
  first, then the number.\<close>

definition num_bits :: "nat \<Rightarrow> nat \<Rightarrow> bool list" where
  "num_bits n k = map (\<lambda>j. bit n j) (rev [0..<k])"

definition ue_code :: "nat \<Rightarrow> bool list" where
  "ue_code v = replicate (nlog2 (v + 1)) False @ num_bits (v + 1) (Suc (nlog2 (v + 1)))"

lemma length_num_bits [simp]: "length (num_bits n k) = k"
  by (simp add: num_bits_def)

lemma length_ue_code: "length (ue_code v) = 2 * nlog2 (v + 1) + 1"
  by (simp add: ue_code_def)

lemma be_num_bits: "be_bits (num_bits n k) = int (take_bit k n)"
proof (rule bit_eqI)
  fix j
  show "bit (be_bits (num_bits n k)) j = bit (int (take_bit k n)) j"
    by (auto simp: bit_be_bits num_bits_def rev_nth bit_take_bit_iff bit_of_nat_iff simp del: upt_Suc)
qed

lemma be_num_bits_id: "n < 2 ^ k \<Longrightarrow> be_bits (num_bits n k) = int n"
  by (simp add: be_num_bits take_bit_nat_eq_self)

lemma ue_number: "2 ^ nlog2 (v + 1) \<le> v + 1" "v + 1 < 2 ^ Suc (nlog2 (v + 1))"
  using nlog2_bounds [of "v + 1"] by simp_all

lemma be_ue_code: "be_bits (ue_code v) = int (v + 1)"
  using ue_number(2) [of v]
  by (simp add: ue_code_def be_bits_append be_num_bits_id del: power_Suc of_nat_add)

text \<open>The stream continues with the given bits.\<close>

definition starts_with :: "get_bits_context \<Rightarrow> bool list \<Rightarrow> bool" where
  "starts_with s xs \<longleftrightarrow> next_bits s (length xs) = xs"

lemma next_bits_le: "starts_with s xs \<Longrightarrow> n \<le> length xs \<Longrightarrow> next_bits s n = take n xs"
  by (metis next_bits_def starts_with_def take_take min.absorb1)

lemma next_bits_add:
  assumes "0 \<le> index s"
  shows "next_bits s (m + n) = next_bits s m @ next_bits (advance s m) n"
proof -
  have "nat (index s + int m) = m + nat (index s)"
    using assms by (simp add: nat_add_distrib)
  then show ?thesis
    by (simp only: next_bits_def take_add advance_simps drop_drop)
qed

lemma starts_with_append:
  assumes "0 \<le> index s"
  shows "starts_with s (xs @ ys) \<longleftrightarrow> starts_with s xs \<and> starts_with (advance s (length xs)) ys"
proof
  assume sw: "starts_with s (xs @ ys)"
  have x: "next_bits s (length xs) = xs"
    using next_bits_le [OF sw, of "length xs"] by simp
  with sw show "starts_with s xs \<and> starts_with (advance s (length xs)) ys"
    by (simp add: starts_with_def next_bits_add [OF assms])
qed (simp add: starts_with_def next_bits_add [OF assms])

text \<open>The cache after a code word of \<open>2 z + 1\<close> bits.\<close>

lemma nlog2_mono_bound: "n < 2 ^ Suc k \<Longrightarrow> 0 < n \<Longrightarrow> nlog2 n \<le> k"
proof (rule ccontr)
  assume n: "n < 2 ^ Suc k" "0 < n" "\<not> nlog2 n \<le> k"
  then have "(2::nat) ^ Suc k \<le> 2 ^ nlog2 n"
    by (intro power_increasing) simp_all
  with n nlog2_bounds [of n] show False
    by linarith
qed

lemma div_power_bounds:
  assumes "n div 2 ^ d = (N :: nat)" "2 ^ z \<le> N" "N < 2 ^ Suc z"
  shows "nlog2 n = z + d"
proof (rule nlog2_unique)
  have "2 ^ z * 2 ^ d \<le> n"
    using assms(1,2) by (metis div_times_less_eq_dividend mult_le_mono1 order_trans)
  then show "2 ^ (z + d) \<le> n"
    by (simp add: power_add)
  have "n < (N + 1) * 2 ^ d"
    using assms(1) by (metis dividend_less_div_times zero_less_numeral zero_less_power Suc_eq_plus1 mult_Suc add.commute)
  also have "\<dots> \<le> 2 ^ Suc z * 2 ^ d"
    by (rule mult_le_mono1) (use assms(3) in simp)
  finally show "n < 2 ^ Suc (z + d)"
    by (simp add: power_add)
qed

lemma ue_cache:
  assumes s: "reader_at s i" and c: "UPDATE_CACHE s (int i) = Some c"
    and sw: "starts_with s (ue_code v)" and z: "z = nlog2 (v + 1)" "2 * z + 1 + i mod 8 \<le> 32"
  shows "unat c div 2 ^ (31 - 2 * z) = v + 1" "nlog2 (unat c) = 31 - z"
proof -
  have "uint (drop_bit (32 - (2 * z + 1)) c) = be_bits (next_bits s (2 * z + 1))"
    using drop_bit_cache [OF c, of "2 * z + 1"] z(2) by (simp add: next_bits_def reader_at_index [OF s])
  also have "next_bits s (2 * z + 1) = ue_code v"
    using sw by (simp add: starts_with_def length_ue_code z(1))
  also have "be_bits (ue_code v) = int (v + 1)"
    by (rule be_ue_code)
  finally have "int (unat (drop_bit (31 - 2 * z) c)) = int (v + 1)"
    by simp
  then have "unat (drop_bit (31 - 2 * z) c) = v + 1"
    by (simp only: of_nat_eq_iff)
  then show d: "unat c div 2 ^ (31 - 2 * z) = v + 1"
    by (simp only: unat_drop_bit32)
  have "nlog2 (unat c) = z + (31 - 2 * z)"
    by (rule div_power_bounds [OF d]) (use ue_number [of v] z(1) in simp_all)
  then show "nlog2 (unat c) = 31 - z"
    using z(2) by simp
qed

lemma push27_le: "(push_bit 27 1 :: u32) \<le> c \<longleftrightarrow> 2 ^ 27 \<le> unat c"
  by (simp add: word_le_nat_alt push_bit_eq_mult)

lemma nlog2_ge: "2 ^ k \<le> n \<Longrightarrow> k \<le> nlog2 n"
proof (rule ccontr)
  assume n: "2 ^ k \<le> n" "\<not> k \<le> nlog2 n"
  then have "(2::nat) ^ Suc (nlog2 n) \<le> 2 ^ k"
    by (intro power_increasing) simp_all
  moreover have "0 < n"
    using n(1) by (rule less_le_trans [rotated]) simp
  ultimately show False
    using n(1) nlog2_bounds [of n] by linarith
qed

lemma unat_u32_less: "unat (c :: u32) < 2 ^ 32"
proof -
  have "unat c < 2 ^ LENGTH(32)"
    by (rule unsigned_less)
  then show ?thesis
    by simp
qed

text \<open>The two branches of the short readers, by the length of the code word.\<close>

lemma ue_branch:
  fixes c :: u32
  assumes c: "unat c div 2 ^ (31 - 2 * z) = v + 1" "nlog2 (unat c) = 31 - z"
    and z: "z = nlog2 (v + 1)" "2 * z \<le> 31"
  shows "push_bit 27 1 \<le> c \<longleftrightarrow> z \<le> 4"
proof -
  have pos: "0 < unat c"
    using c(1) by (metis add_is_0 div_0 gr0I one_neq_zero)
  show ?thesis
  proof
    assume "push_bit 27 1 \<le> c"
    then have "27 \<le> nlog2 (unat c)"
      unfolding push27_le by (rule nlog2_ge)
    with c(2) show "z \<le> 4"
      by simp
  next
    assume "z \<le> 4"
    then have "(2::nat) ^ 27 \<le> 2 ^ nlog2 (unat c)"
      using c(2) by (intro power_increasing) simp_all
    then show "push_bit 27 1 \<le> c"
      using nlog2_bounds [OF pos] unfolding push27_le by linarith
  qed
qed

lemma ue_table:
  fixes c :: u32
  assumes c: "unat c div 2 ^ (31 - 2 * z) = v + 1" "nlog2 (unat c) = 31 - z"
    and z: "z = nlog2 (v + 1)" "z \<le> 4"
  defines "b \<equiv> unat (drop_bit 23 c)"
  shows "ff_golomb_vlc_len ! b = int (2 * z + 1)"
    and "ff_ue_golomb_vlc_code ! b = int v"
    and "ff_se_golomb_vlc_code ! b = se_value (int v)"
proof -
  have b: "b = unat c div 2 ^ 23"
    by (simp only: b_def unat_drop_bit32)
  have pos: "0 < unat c"
    using c(1) by (metis add_is_0 div_0 gr0I one_neq_zero)
  have "(2::nat) ^ 23 \<le> 2 ^ nlog2 (unat c)"
    using c(2) z(2) by (intro power_increasing) simp_all
  then have "2 ^ 23 \<le> unat c"
    using nlog2_bounds [OF pos] by linarith
  then have n: "nlog2 b = 8 - z"
    using nlog2_div [of 23 "unat c"] c(2) z(2) by (simp add: b)
  have pb: "0 < b"
    using \<open>2 ^ 23 \<le> unat c\<close> by (simp add: b div_greater_zero_iff)
  have "(2::nat) ^ 4 \<le> 2 ^ nlog2 b" "(2::nat) ^ Suc (nlog2 b) \<le> 2 ^ 9"
    by (rule power_increasing; use n z(2) in simp)+
  moreover have "(2::nat) ^ 4 = 16" "(2::nat) ^ 9 = 512"
    by simp_all
  ultimately have r: "16 \<le> b" "b < 512"
    using nlog2_bounds [OF pb] by linarith+
  have e: "2 * nlog2 b - 8 = 8 - 2 * z"
    using n z(2) by simp
  have "b div 2 ^ (8 - 2 * z) = unat c div 2 ^ (23 + (8 - 2 * z))"
    by (simp add: b div_mult2_eq power_add)
  also have "23 + (8 - 2 * z) = 31 - 2 * z"
    using z(2) by simp
  finally have d: "b div 2 ^ (2 * nlog2 b - 8) = v + 1"
    by (simp only: e c(1))
  show "ff_golomb_vlc_len ! b = int (2 * z + 1)" "ff_ue_golomb_vlc_code ! b = int v"
    "ff_se_golomb_vlc_code ! b = se_value (int v)"
    using golomb_tables_nth [OF r] d n z(2) by simp_all
qed

lemma sint_small: "unat (w :: u32) < 2 ^ 31 \<Longrightarrow> sint w = int (unat w)"
proof -
  assume w: "unat w < 2 ^ 31"
  have "sint w = signed_take_bit 31 (uint w)"
    by (simp add: sint_uint)
  also have "\<dots> = uint w"
    using uint_less_if_unat [OF w] by (intro signed_take_bit_int_eq_self) (auto intro: order_trans [of _ 0])
  finally show ?thesis
    by simp
qed

lemma unat_dec: "unat (w :: u32) = Suc n \<Longrightarrow> unat (w - 1) = n"
  by (subst unat_sub) (simp_all add: word_le_nat_alt)

lemma get_ue_golomb_eval:
  assumes s: "reader_at s i" "cache_ready s i" and sw: "starts_with s (ue_code v)" and v: "v \<le> 8190"
  shows "get_ue_golomb s = Some (int v, advance s (length (ue_code v)))"
proof -
  define z where "z = nlog2 (v + 1)"
  have z: "z \<le> 12"
    unfolding z_def by (rule nlog2_mono_bound) (use v in simp_all)
  have k: "2 * z + 1 + i mod 8 \<le> 32"
    using z mod_less_divisor [of 8 i] by linarith
  obtain c where c: "UPDATE_CACHE s (int i) = Some c"
    using s(2) UPDATE_CACHE_defined by blast
  note u = ue_cache [OF s(1) c sw z_def k]
  have i: "index s = int i"
    using s(1) by (simp add: reader_at_def)
  have len: "length (ue_code v) = 2 * z + 1"
    by (simp add: length_ue_code z_def)
  have skip: "LAST_SKIP_BITS s (int (2 * z + 1)) = advance s (2 * z + 1)"
    by (rule LAST_SKIP_BITS_advance [OF s]) (use z in simp)
  have "2 * z \<le> 31"
    using z by simp
  note br = ue_branch [OF u z_def this]
  show ?thesis
  proof (cases "z \<le> 4")
    case True
    note t = ue_table [OF u z_def True]
    show ?thesis
      using True br t skip by (simp add: get_ue_golomb_def i c len Let_def)
  next
    case False
    have pos: "0 < unat c"
      using u(1) by (metis add_is_0 div_0 gr0I one_neq_zero)
    have log: "2 * av_log2 c - 31 = int (31 - 2 * z)"
      using av_log2_eq [OF pos] u(2) z by simp
    have "32 - int (31 - 2 * z) = int (2 * z + 1)"
      using z by simp
    moreover have "\<not> int (31 - 2 * z) < 7"
      using z by simp
    moreover have "sint (drop_bit (31 - 2 * z) c - 1) = int v"
    proof -
      have "unat (drop_bit (31 - 2 * z) c - 1) = v"
        by (rule unat_dec) (use u(1) in \<open>simp add: unat_drop_bit32\<close>)
      then show ?thesis
        using v by (subst sint_small) simp_all
    qed
    ultimately show ?thesis
      using False br skip by (simp only: get_ue_golomb_def i c len Let_def log bind.bind_lunit if_False nat_int)
  qed
qed

lemma get_ue_golomb_31_eval:
  assumes s: "reader_at s i" "cache_ready s i" and sw: "starts_with s (ue_code v)" and v: "v \<le> 30"
  shows "get_ue_golomb_31 s = Some (int v, advance s (length (ue_code v)))"
proof -
  define z where "z = nlog2 (v + 1)"
  have z: "z \<le> 4"
    unfolding z_def by (rule nlog2_mono_bound) (use v in simp_all)
  have k: "2 * z + 1 + i mod 8 \<le> 32"
    using z mod_less_divisor [of 8 i] by linarith
  obtain c where c: "UPDATE_CACHE s (int i) = Some c"
    using s(2) UPDATE_CACHE_defined by blast
  note t = ue_table [OF ue_cache [OF s(1) c sw z_def k] z_def z]
  have skip: "LAST_SKIP_BITS s (int (2 * z + 1)) = advance s (2 * z + 1)"
    by (rule LAST_SKIP_BITS_advance [OF s]) (use z in simp)
  have len: "length (ue_code v) = 2 * z + 1"
    by (simp add: length_ue_code z_def)
  have i: "index s = int i"
    using s(1) by (simp add: reader_at_def)
  show ?thesis
    using t skip by (simp add: get_ue_golomb_31_def i c len Let_def)
qed

lemma cache_ready_mono: "cache_ready s j \<Longrightarrow> i \<le> j \<Longrightarrow> cache_ready s i"
  unfolding cache_ready_def using div_le_mono [of i j 8] by linarith

lemma cache_ready_advance [simp]: "cache_ready (advance s n) i = cache_ready s i"
  by (simp add: cache_ready_def)

lemma reader_at_advance: "reader_at s i \<Longrightarrow> reader_at (advance s n) (i + n)"
  by (simp add: reader_at_def)

lemma ue_code_split:
  assumes "z = nlog2 (v + 1)"
  shows "ue_code v = replicate z False @ num_bits (v + 1) (Suc z)"
  by (simp add: ue_code_def assms)

lemma ue_prefix_one:
  assumes z: "z = nlog2 (v + 1)"
  shows "be_bits (take (Suc z) (ue_code v)) = 1"
proof -
  have "(v + 1) div 2 ^ z = 1"
  proof (rule div_nat_eqI)
    show "2 ^ z * 1 \<le> v + 1" "v + 1 < 2 ^ z * Suc 1"
      using ue_number [of v] z by simp_all
  qed
  then have "bit (v + 1) z"
    by (simp only: bit_iff_odd) simp
  then have "take (Suc z) (ue_code v) = replicate z False @ [True]"
    by (simp add: ue_code_split [OF z] num_bits_def)
  then show ?thesis
    by (simp add: be_bits_append) (simp add: be_bits_def)
qed

lemma ue_cache_log:
  assumes s: "reader_at s i" and c: "UPDATE_CACHE s (int i) = Some c"
    and sw: "starts_with s (ue_code v)" and z: "z = nlog2 (v + 1)" "z \<le> 24"
  shows "av_log2 c = int (31 - z)"
proof -
  have k: "Suc z + i mod 8 \<le> 32"
    using z(2) mod_less_divisor [of 8 i] by linarith
  have "uint (drop_bit (32 - Suc z) c) = be_bits (next_bits s (Suc z))"
    using drop_bit_cache [OF c k] by (simp add: next_bits_def reader_at_index [OF s])
  also have "next_bits s (Suc z) = take (Suc z) (ue_code v)"
    by (rule next_bits_le [OF sw]) (simp add: length_ue_code z(1))
  finally have "int (unat (drop_bit (32 - Suc z) c)) = int 1"
    using ue_prefix_one [OF z(1)] by simp
  then have d: "unat c div 2 ^ (32 - Suc z) = 1"
    by (simp only: of_nat_eq_iff unat_drop_bit32)
  have "nlog2 (unat c) = 0 + (32 - Suc z)"
    by (rule div_power_bounds [OF d]) simp_all
  moreover have "0 < unat c"
    using d by (metis div_0 gr0I zero_neq_one)
  ultimately show ?thesis
    by (simp add: av_log2_eq)
qed

lemma number_bits_after:
  assumes s: "reader_at s i" and sw: "starts_with s (ue_code v)" and z: "z = nlog2 (v + 1)"
  shows "be_bits (next_bits (advance s z) (Suc z)) = int (v + 1)"
proof -
  have "0 \<le> index s"
    using s by (simp add: reader_at_def)
  then have "starts_with (advance s z) (num_bits (v + 1) (Suc z))"
    using sw starts_with_append [of s "replicate z False" "num_bits (v + 1) (Suc z)"]
    by (simp add: ue_code_split [OF z])
  then show ?thesis
    using be_num_bits_id ue_number(2) [of v] z by (simp add: starts_with_def del: power_Suc of_nat_add)
qed

lemma get_ue_golomb_long_eval:
  assumes s: "reader_at s i" "cache_ready s (i + nlog2 (v + 1))" and sw: "starts_with s (ue_code v)"
    and v: "v + 1 < 2 ^ 25"
  shows "get_ue_golomb_long s = Some (int v, advance s (length (ue_code v)))"
proof -
  define z where "z = nlog2 (v + 1)"
  have z: "z \<le> 24"
    unfolding z_def by (rule nlog2_mono_bound) (use v in simp_all)
  have r: "cache_ready s i"
    by (rule cache_ready_mono [OF s(2)]) simp
  obtain c where c: "UPDATE_CACHE s (int i) = Some c"
    using r UPDATE_CACHE_defined by blast
  have i: "index s = int i"
    using s(1) by (simp add: reader_at_def)
  have shown: "show_bits_long s 32 = Some (uint c)"
    by (simp add: show_bits_long_def MIN_CACHE_BITS_def show_bits_def i c NEG_USR32_def)
  have log: "av_log2 c = 31 - int z"
    using ue_cache_log [OF s(1) c sw z_def z] z by simp
  have log': "31 - av_log2 c = int z"
    using log by simp
  have skip: "skip_bits_long s (int z) = advance s z"
    using LAST_SKIP_BITS_advance [OF s(1) r, of z] z by (simp add: skip_bits_long_def LAST_SKIP_BITS_def)
  have k: "Suc z + (i + z) mod 8 \<le> 32"
    using z mod_less_divisor [of 8 "i + z"] by linarith
  have "get_bits (advance s z) (int (Suc z)) = Some (be_bits (next_bits (advance s z) (Suc z)), advance (advance s z) (Suc z))"
    by (rule get_bits_reads_aux [OF reader_at_advance [OF s(1)]]) (use s(2) k z_def in simp_all)
  then have get: "get_bits_long (advance s z) (int z + 1) = Some (int (v + 1), advance s (2 * z + 1))"
    using number_bits_after [OF s(1) sw z_def] z
    by (simp add: get_bits_long_def MIN_CACHE_BITS_def advance_add add.commute mult_2)
  have len: "length (ue_code v) = 2 * z + 1"
    by (simp add: length_ue_code z_def)
  have "get_ue_golomb_long s = Some (u32 (int (v + 1) - 1), advance s (2 * z + 1))"
    by (simp only: get_ue_golomb_long_def shown bind.bind_lunit Let_def word_of_int_uint log' skip get case_prod_conv)
  then show ?thesis
    using v len by (simp add: u32_def)
qed

text \<open>The signed codes number 0, 1, -1, 2, -2 and so on.\<close>

definition se_index :: "int \<Rightarrow> nat" where
  "se_index n = nat (if n > 0 then 2 * n - 1 else - 2 * n)"

definition se_code :: "int \<Rightarrow> bool list" where
  "se_code n = ue_code (se_index n)"

lemma se_value_index: "se_value (int (se_index n)) = n"
  by (simp add: se_value_def se_index_def) presburger

lemma sint_neg_small:
  assumes "unat (w :: u32) < 2 ^ 31"
  shows "sint (- w) = - int (unat w)"
proof (cases "w = 0")
  case False
  have l: "LENGTH(32) = 32"
    by simp
  have u: "uint w = int (unat w)"
    by simp
  have "sint (- w) = signed_take_bit 31 (uint (- w))"
    by (simp add: sint_uint)
  also have "uint (- w) = (- int (unat w)) mod 2 ^ 32"
    by (simp add: uint_word_ariths)
  also have "signed_take_bit 31 ((- int (unat w)) mod 2 ^ 32) = signed_take_bit 31 (- int (unat w))"
    by (subst signed_take_bit_eq_iff_take_bit_eq) (simp add: take_bit_eq_mod)
  also have "\<dots> = - int (unat w)"
  proof -
    have "int (unat w) < 2 ^ 31"
      using uint_less_if_unat [OF assms] by simp
    then show ?thesis
      by (intro signed_take_bit_int_eq_self) linarith+
  qed
  finally show ?thesis .
qed simp

lemma unat_even_odd: "odd (unat (w :: u32)) \<longleftrightarrow> odd w"
  using bit_unsigned_iff [where ?'a = nat, of w 0] by (simp add: bit_0)

lemma fold_sign:
  assumes w: "unat (w :: u32) = v + 1" "v + 1 < 2 ^ 31"
  shows "sint ((drop_bit 1 w XOR - (w AND 1)) - - (w AND 1)) = se_value (int v)"
proof -
  have h: "unat (drop_bit 1 w) = (v + 1) div 2"
    using w(1) by (simp only: unat_drop_bit32 power_one_right)
  have small: "(v + 1) div 2 < 2 ^ 31"
    using w(2) by (meson div_le_dividend le_less_trans)
  show ?thesis
  proof (cases "odd (v + 1)")
    case True
    then have a: "w AND 1 = 1"
      using unat_even_odd [of w] by (simp only: w(1) and_one_eq) (simp add: mod_2_eq_odd)
    have "(drop_bit 1 w XOR - (w AND 1)) - - (w AND 1) = NOT (drop_bit 1 w) + 1"
      by (simp add: a)
    also have "\<dots> = - drop_bit 1 w"
      by (simp add: not_eq_complement)
    finally have e: "(drop_bit 1 w XOR - (w AND 1)) - - (w AND 1) = - drop_bit 1 w" .
    have "sint (- drop_bit 1 w) = - int ((v + 1) div 2)"
      by (subst sint_neg_small) (use small in \<open>simp_all only: h\<close>)
    moreover have "se_value (int v) = - int ((v + 1) div 2)"
      using True by (auto simp: se_value_def zdiv_int elim: evenE)
    ultimately show ?thesis
      by (simp only: e)
  next
    case False
    then have a: "w AND 1 = 0"
      using unat_even_odd [of w] by (simp only: w(1) and_one_eq) (simp add: mod_2_eq_odd)
    have e: "(drop_bit 1 w XOR - (w AND 1)) - - (w AND 1) = drop_bit 1 w"
      by (simp add: a)
    have "sint (drop_bit 1 w) = int ((v + 1) div 2)"
      by (subst sint_small) (use small in \<open>simp_all only: h\<close>)
    moreover have "se_value (int v) = int ((v + 1) div 2)"
      using False by (auto simp: se_value_def zdiv_int elim: oddE)
    ultimately show ?thesis
      by (simp only: e)
  qed
qed

lemma fold_sign_long:
  assumes w: "unat (w :: u32) < 2 ^ 30"
  shows "sint ((drop_bit 1 w XOR ((w AND 1) - 1)) + 1) = se_value (int (unat w))"
proof -
  have h: "unat (drop_bit 1 w) = unat w div 2"
    by (simp only: unat_drop_bit32 power_one_right)
  have small: "unat w div 2 < 2 ^ 30"
    using w by (meson div_le_dividend le_less_trans)
  show ?thesis
  proof (cases "odd (unat w)")
    case True
    then have a: "w AND 1 = 1"
      using unat_even_odd [of w] by (simp only: and_one_eq) (simp add: mod_2_eq_odd)
    have e: "(drop_bit 1 w XOR ((w AND 1) - 1)) + 1 = drop_bit 1 w + 1"
      by (simp add: a)
    have u: "unat (drop_bit 1 w + 1) = unat w div 2 + 1"
      using small by (subst unat_word_ariths) (simp add: h [unfolded One_nat_def])
    have "sint (drop_bit 1 w + 1) = int (unat w div 2 + 1)"
      using small by (subst sint_small) (simp_all only: u, simp)
    moreover have "se_value (int (unat w)) = int (unat w div 2 + 1)"
      using True by (auto simp: se_value_def zdiv_int simp del: of_nat_unat elim: oddE)
    ultimately show ?thesis
      by (simp only: e)
  next
    case False
    then have a: "w AND 1 = 0"
      using unat_even_odd [of w] by (simp only: and_one_eq) (simp add: mod_2_eq_odd)
    have e: "(drop_bit 1 w XOR ((w AND 1) - 1)) + 1 = - drop_bit 1 w"
      by (simp add: a not_eq_complement)
    have "sint (- drop_bit 1 w) = - int (unat w div 2)"
      by (subst sint_neg_small) (use small h in simp_all)
    moreover have "se_value (int (unat w)) = - int (unat w div 2)"
      using False by (auto simp: se_value_def zdiv_int simp del: of_nat_unat elim: evenE)
    ultimately show ?thesis
      by (simp only: e)
  qed
qed

lemma se_index_bound: "\<bar>n\<bar> < 2 ^ k \<Longrightarrow> se_index n + 1 < 2 ^ Suc k"
proof -
  assume n: "\<bar>n\<bar> < 2 ^ k"
  have "int (se_index n) + 1 \<le> 2 * \<bar>n\<bar> + 1"
    by (simp add: se_index_def)
  also have "\<dots> < 2 * 2 ^ k"
    using n by linarith
  finally have "int (se_index n + 1) < int (2 ^ Suc k)"
    by simp
  then show ?thesis
    by (simp only: of_nat_less_iff)
qed

lemma get_se_golomb_long_eval:
  assumes s: "reader_at s i" "cache_ready s (i + nlog2 (se_index n + 1))"
    and sw: "starts_with s (se_code n)" and n: "\<bar>n\<bar> < 2 ^ 24"
  shows "get_se_golomb_long s = Some (n, advance s (length (se_code n)))"
proof -
  have b: "se_index n + 1 < 2 ^ 25"
    using se_index_bound [of n 24] n by simp
  have ue: "get_ue_golomb_long s = Some (int (se_index n), advance s (length (se_code n)))"
    unfolding se_code_def
    by (rule get_ue_golomb_long_eval [OF s sw [unfolded se_code_def] b])
  have u: "unat (word_of_int (int (se_index n)) :: u32) = se_index n"
    using b by (simp add: unsigned_of_nat take_bit_nat_eq_self)
  then have "sint ((drop_bit 1 (word_of_int (int (se_index n)) :: u32) XOR ((word_of_int (int (se_index n)) AND 1) - 1)) + 1) = n"
    using fold_sign_long [of "word_of_int (int (se_index n))"] b se_value_index [of n] by (simp only: u) simp
  then show ?thesis
    by (simp only: get_se_golomb_long_def ue bind.bind_lunit Let_def case_prod_conv)
qed

text \<open>The short signed reader takes values of up to nine bits from a table of plain
  \<open>char\<close>, so a negative table value comes out as its unsigned byte where
  \<open>char\<close> is unsigned.\<close>

definition short_se_value :: "bool \<Rightarrow> int \<Rightarrow> int" where
  "short_se_value char_signed n = (if \<bar>n\<bar> \<le> 15 \<and> \<not> char_signed then n mod 256 else n)"

lemma nlog2_small: "nlog2 (se_index n + 1) \<le> 4 \<longleftrightarrow> \<bar>n\<bar> \<le> 15"
proof
  assume "nlog2 (se_index n + 1) \<le> 4"
  then have "(2::nat) ^ Suc (nlog2 (se_index n + 1)) \<le> 2 ^ 5"
    by (intro power_increasing) simp_all
  then have "se_index n + 1 < 2 ^ 5"
    using ue_number(2) [of "se_index n"] by linarith
  then show "\<bar>n\<bar> \<le> 15"
    by (simp add: se_index_def split: if_splits)
next
  assume "\<bar>n\<bar> \<le> 15"
  then show "nlog2 (se_index n + 1) \<le> 4"
    by (intro nlog2_mono_bound) (auto simp: se_index_def nat_less_iff)
qed

lemma get_se_golomb_eval:
  assumes s: "reader_at s i" "cache_ready s (i + nlog2 (se_index n + 1))"
    and sw: "starts_with s (se_code n)" and n: "\<bar>n\<bar> \<le> 4095"
  shows "get_se_golomb char_signed s = Some (short_se_value char_signed n, advance s (length (se_code n)))"
proof -
  define v where "v = se_index n"
  define z where "z = nlog2 (v + 1)"
  have v: "v + 1 < 2 ^ 13"
    using se_index_bound [of n 12] n by (simp add: v_def)
  have z: "z \<le> 12"
    unfolding z_def by (rule nlog2_mono_bound) (use v in simp_all)
  have sw': "starts_with s (ue_code v)"
    using sw by (simp add: se_code_def v_def)
  have k: "2 * z + 1 + i mod 8 \<le> 32"
    using z mod_less_divisor [of 8 i] by linarith
  have r: "cache_ready s i"
    by (rule cache_ready_mono [OF s(2)]) simp
  obtain c where c: "UPDATE_CACHE s (int i) = Some c"
    using r UPDATE_CACHE_defined by blast
  note u = ue_cache [OF s(1) c sw' z_def k]
  have i: "index s = int i"
    using s(1) by (simp add: reader_at_def)
  have len: "length (se_code n) = 2 * z + 1"
    by (simp add: se_code_def length_ue_code z_def v_def)
  have sv: "se_value (int v) = n"
    by (simp add: v_def se_value_index)
  have "2 * z \<le> 31"
    using z by simp
  note br = ue_branch [OF u z_def this]
  show ?thesis
  proof (cases "z \<le> 4")
    case True
    note t = ue_table [OF u z_def True]
    have small: "\<bar>n\<bar> \<le> 15"
      using True nlog2_small [of n] by (simp add: z_def v_def)
    then have "plain_char char_signed n = short_se_value char_signed n"
      by (auto simp: plain_char_def short_se_value_def)
    moreover have "LAST_SKIP_BITS s (int (2 * z + 1)) = advance s (2 * z + 1)"
      by (rule LAST_SKIP_BITS_advance [OF s(1) r]) (use z in simp)
    ultimately show ?thesis
      using True br t sv by (simp add: get_se_golomb_def i c len Let_def)
  next
    case False
    have val: "short_se_value char_signed n = n"
      using False nlog2_small [of n] by (simp add: short_se_value_def z_def v_def)
    have log: "av_log2 c = int (31 - z)"
      using ue_cache_log [OF s(1) c sw' z_def] z by simp
    have a1: "LAST_SKIP_BITS s (31 - int (31 - z)) = advance s z"
      using LAST_SKIP_BITS_advance [OF s(1) r, of z] z by simp
    have r2: "cache_ready (advance s z) (i + z)"
      using s(2) by (simp add: z_def v_def)
    then obtain d where d: "UPDATE_CACHE (advance s z) (int (i + z)) = Some d"
      using UPDATE_CACHE_defined by blast
    have a2: "LAST_SKIP_BITS (advance s z) (32 - int (31 - z)) = advance s (2 * z + 1)"
      using LAST_SKIP_BITS_advance [OF reader_at_advance [OF s(1)] r2, of "Suc z"] z
      by (simp add: advance_add mult_2 add.commute)
    have k2: "Suc z + (i + z) mod 8 \<le> 32"
      using z mod_less_divisor [of 8 "i + z"] by linarith
    have "uint (drop_bit (32 - Suc z) d) = be_bits (next_bits (advance s z) (Suc z))"
      using drop_bit_cache [OF d k2] i by (simp add: next_bits_def nat_add_distrib)
    then have "int (unat (drop_bit (31 - z) d)) = int (v + 1)"
      using number_bits_after [OF s(1) sw' z_def] by simp
    then have "unat (drop_bit (31 - z) d) = v + 1"
      by (simp only: of_nat_eq_iff)
    then have f: "sint ((drop_bit 1 (drop_bit (31 - z) d) XOR - (drop_bit (31 - z) d AND 1)) - - (drop_bit (31 - z) d AND 1)) = n"
      using v sv by (subst fold_sign [of _ v]) simp_all
    have nb: "\<not> (push_bit 27 1 :: u32) \<le> c"
      using False br by simp
    have ix: "index (advance s z) = int (i + z)"
      by (simp add: i)
    show ?thesis
      by (simp only: get_se_golomb_def i c nb bind.bind_lunit if_False Let_def log a1 ix d nat_int f a2 len val)
  qed
qed

section \<open>Reading sequences of codes\<close>

text \<open>What the parsers rely on: a source of bits, and a reader that takes one code word
  from it. The client lemma reads a sequence of code words.\<close>

locale code_source =
  fixes ready :: "'s \<Rightarrow> nat \<Rightarrow> bool"
    and bits :: "'s \<Rightarrow> nat \<Rightarrow> bool list"
    and step :: "'s \<Rightarrow> nat \<Rightarrow> 's"
    and code :: "'v \<Rightarrow> bool list"
    and ok :: "'v \<Rightarrow> bool"
    and rd :: "'s \<Rightarrow> ('v \<times> 's) option"
  assumes rd_code: "ok v \<Longrightarrow> ready s (length (code v)) \<Longrightarrow> bits s (length (code v)) = code v
      \<Longrightarrow> rd s = Some (v, step s (length (code v)))"
    and ready_step: "ready s (m + n) \<Longrightarrow> ready s m \<and> ready (step s m) n"
    and bits_add: "ready s (m + n) \<Longrightarrow> bits s (m + n) = bits s m @ bits (step s m) n"
    and length_bits: "ready s n \<Longrightarrow> length (bits s n) = n"
    and step_step: "step (step s m) n = step s (m + n)"
    and step_0: "step s 0 = s"
begin

lemma rd_list:
  "list_all ok vs \<Longrightarrow> ready s (length (concat (map code vs)))
   \<Longrightarrow> bits s (length (concat (map code vs))) = concat (map code vs)
   \<Longrightarrow> read_list rd (length vs) s = Some (vs, step s (length (concat (map code vs))))"
proof (induction vs arbitrary: s)
  case Nil
  then show ?case
    by (simp add: step_0)
next
  case (Cons v vs)
  let ?m = "length (code v)" and ?n = "length (concat (map code vs))"
  have r: "ready s (?m + ?n)"
    using Cons.prems(2) by simp
  have b: "bits s ?m @ bits (step s ?m) ?n = code v @ concat (map code vs)"
    using Cons.prems(3) bits_add [OF r] by simp
  then have "bits s ?m = code v" "bits (step s ?m) ?n = concat (map code vs)"
    using length_bits ready_step [OF r] by (simp_all add: append_eq_append_conv)
  then show ?case
    using Cons.IH [of "step s ?m"] Cons.prems(1) ready_step [OF r] rd_code [of v s]
    by (simp add: step_step)
qed

end

definition reader_ready :: "get_bits_context \<Rightarrow> nat \<Rightarrow> bool" where
  "reader_ready s n \<longleftrightarrow> 0 \<le> index s \<and> reader_at s (nat (index s)) \<and> cache_ready s (nat (index s) + n)"

lemma reader_ready_index: "reader_ready s n \<Longrightarrow> 0 \<le> index s"
  by (simp add: reader_ready_def)

lemma reader_ready_step: "reader_ready s (m + n) \<Longrightarrow> reader_ready s m \<and> reader_ready (advance s m) n"
  using cache_ready_mono [of s "nat (index s) + (m + n)" "nat (index s) + m"]
  by (auto simp: reader_ready_def reader_at_def nat_add_distrib add.assoc)

lemma length_next_bits: "reader_ready s n \<Longrightarrow> length (next_bits s n) = n"
proof -
  assume r: "reader_ready s n"
  have "nat (index s) + n \<le> 8 * length (buffer s)"
    using r mult_div_mod_eq [of 8 "nat (index s) + n"] mod_less_divisor [of 8 "nat (index s) + n"]
    unfolding reader_ready_def cache_ready_def by linarith
  then show ?thesis
    by (simp add: next_bits_def)
qed

lemma advance_0 [simp]: "advance s 0 = s"
  by (simp add: advance_def)

lemma reader_ready_simps:
  assumes "reader_ready s n"
  shows "reader_at s (nat (index s))" "cache_ready s (nat (index s))" "m \<le> n \<Longrightarrow> cache_ready s (nat (index s) + m)"
  using assms cache_ready_mono [of s "nat (index s) + n"] by (auto simp: reader_ready_def)

lemmas reader_laws = reader_ready_step next_bits_add [OF reader_ready_index] length_next_bits advance_add advance_0

interpretation ue: code_source reader_ready next_bits advance
  "\<lambda>v. ue_code (nat v)" "\<lambda>v. 0 \<le> v \<and> v \<le> 8190" get_ue_golomb
proof
  fix v :: int and s
  assume v: "0 \<le> v \<and> v \<le> 8190" and r: "reader_ready s (length (ue_code (nat v)))"
    and b: "next_bits s (length (ue_code (nat v))) = ue_code (nat v)"
  show "get_ue_golomb s = Some (v, advance s (length (ue_code (nat v))))"
    using get_ue_golomb_eval [OF reader_ready_simps(1,2) [OF r], of "nat v"] v b
    by (simp add: starts_with_def nat_le_iff)
qed (rule reader_laws; assumption)+

interpretation ue_long: code_source reader_ready next_bits advance
  "\<lambda>v. ue_code (nat v)" "\<lambda>v. 0 \<le> v \<and> v < 2 ^ 25 - 1" get_ue_golomb_long
proof
  fix v :: int and s
  assume v: "0 \<le> v \<and> v < 2 ^ 25 - 1" and r: "reader_ready s (length (ue_code (nat v)))"
    and b: "next_bits s (length (ue_code (nat v))) = ue_code (nat v)"
  have "cache_ready s (nat (index s) + nlog2 (nat v + 1))"
    by (rule reader_ready_simps(3) [OF r]) (simp add: length_ue_code)
  then show "get_ue_golomb_long s = Some (v, advance s (length (ue_code (nat v))))"
    using get_ue_golomb_long_eval [OF reader_ready_simps(1) [OF r], of "nat v"] v b
    by (simp add: starts_with_def nat_less_iff)
qed (rule reader_laws; assumption)+

interpretation se_long: code_source reader_ready next_bits advance
  se_code "\<lambda>n. \<bar>n\<bar> < 2 ^ 24" get_se_golomb_long
proof
  fix n :: int and s
  assume n: "\<bar>n\<bar> < 2 ^ 24" and r: "reader_ready s (length (se_code n))"
    and b: "next_bits s (length (se_code n)) = se_code n"
  have "cache_ready s (nat (index s) + nlog2 (se_index n + 1))"
    by (rule reader_ready_simps(3) [OF r]) (simp add: se_code_def length_ue_code)
  then show "get_se_golomb_long s = Some (n, advance s (length (se_code n)))"
    using get_se_golomb_long_eval [OF reader_ready_simps(1) [OF r]] n b by (simp add: starts_with_def)
qed (rule reader_laws; assumption)+

section \<open>Emulation prevention\<close>

text \<open>The writer's side: a byte 3 goes in front of every byte of at most 3 that follows
  two zero bytes. \<open>z\<close> counts the zero bytes before the current one.\<close>

fun escape :: "nat \<Rightarrow> u8 list \<Rightarrow> u8 list" where
  "escape z [] = []"
| "escape z (b # bs) =
     (if z = 2 \<and> b \<le> 3 then 3 # b # escape (if b = 0 then 1 else 0) bs
      else b # escape (if b = 0 then Suc z else 0) bs)"

lemma remove_emulation_short: "length bs \<le> 2 \<Longrightarrow> remove_emulation bs = bs"
  by (cases bs rule: remove_emulation.cases) auto

lemma remove_emulation_nz: "b \<noteq> 0 \<Longrightarrow> remove_emulation (b # bs) = b # remove_emulation bs"
  by (cases bs rule: remove_emulation.cases) simp_all

lemma remove_emulation_0nz: "b \<noteq> 0 \<Longrightarrow> remove_emulation (a # b # bs) = a # b # remove_emulation bs"
  by (cases bs) (simp_all add: remove_emulation_nz)

lemma remove_emulation_003: "remove_emulation (0 # 0 # 3 # bs) = 0 # 0 # remove_emulation bs"
  by simp

lemma remove_emulation_00nz:
  "b \<noteq> 0 \<Longrightarrow> b \<noteq> 3 \<Longrightarrow> remove_emulation (0 # 0 # b # bs) = 0 # 0 # b # remove_emulation bs"
  by (simp add: remove_emulation_0nz)

lemma remove_escape:
  "z \<le> 2 \<Longrightarrow> remove_emulation (replicate z 0 @ escape z bs) = replicate z 0 @ bs"
proof (induction bs arbitrary: z)
  case Nil
  then show ?case
    by (simp add: remove_emulation_short)
next
  case (Cons b bs)
  have ih: "remove_emulation (escape 0 bs) = bs" "remove_emulation (0 # escape 1 bs) = 0 # bs"
    "remove_emulation (0 # 0 # escape 2 bs) = 0 # 0 # bs"
    using Cons.IH [of 0] Cons.IH [of 1] Cons.IH [of 2] by (simp_all add: numeral_2_eq_2)
  consider "z = 0" | "z = 1" | "z = 2"
    using Cons.prems by linarith
  then show ?case
  proof cases
    case 1
    then show ?thesis
      using ih by (cases "b = 0") (simp_all add: remove_emulation_nz)
  next
    case 2
    then show ?thesis
      using ih by (cases "b = 0") (simp_all add: remove_emulation_0nz numeral_2_eq_2)
  next
    case 3
    have b3: "b \<noteq> 3" if "\<not> b \<le> 3"
      using that by auto
    show ?thesis
    proof (cases "b \<le> 3")
      case True
      then show ?thesis
        using 3 ih by (cases "b = 0") (simp_all add: numeral_2_eq_2 remove_emulation_nz)
    next
      case False
      then have "b \<noteq> 0"
        by auto
      then show ?thesis
        using 3 ih False b3 by (simp add: numeral_2_eq_2 remove_emulation_00nz del: remove_emulation.simps)
    qed
  qed
qed

section \<open>Start codes\<close>

definition starts_here :: "u8 list \<Rightarrow> nat \<Rightarrow> bool" where
  "starts_here dat i \<longleftrightarrow> dat ! i = 0 \<and> dat ! (i + 1) = 0 \<and>
     (dat ! (i + 2) = 1 \<or> dat ! (i + 2) = 0 \<and> dat ! (i + 3) = 1)"

lemma start_code_at_eq: "i + 3 < length dat \<Longrightarrow> start_code_at dat i = Some (starts_here dat i)"
  by (simp add: start_code_at_def starts_here_def byte_at_def nat_int_add)

lemma calc_nal_len_from_spec:
  assumes "i \<le> length dat"
  shows "\<exists>r\<ge>i. calc_nal_len_from dat (int (length dat)) i = Some (int r) \<and> r \<le> length dat \<and>
    (r = length dat \<or> r + 4 < length dat \<and> starts_here dat r) \<and>
    (\<forall>j. i \<le> j \<and> j < r \<and> j + 4 < length dat \<longrightarrow> \<not> starts_here dat j)"
  using assms
proof (induction "length dat - i" arbitrary: i rule: less_induct)
  case less
  show ?case
  proof (cases "i + 4 < length dat")
    case True
    then have s: "start_code_at dat i = Some (starts_here dat i)" "int i < int (length dat) - 4"
      by (simp_all add: start_code_at_eq)
    show ?thesis
    proof (cases "starts_here dat i")
      case here: True
      have "calc_nal_len_from dat (int (length dat)) i = Some (int i)"
        using s here by (subst calc_nal_len_from.simps) simp
      with True here show ?thesis
        by (intro exI [of _ i]) (auto simp del: calc_nal_len_from.simps)
    next
      case False
      have e: "calc_nal_len_from dat (int (length dat)) i = calc_nal_len_from dat (int (length dat)) (i + 1)"
        using s False by (subst calc_nal_len_from.simps) simp
      have "\<exists>r\<ge>i + 1. calc_nal_len_from dat (int (length dat)) (i + 1) = Some (int r) \<and> r \<le> length dat \<and>
        (r = length dat \<or> r + 4 < length dat \<and> starts_here dat r) \<and>
        (\<forall>j. i + 1 \<le> j \<and> j < r \<and> j + 4 < length dat \<longrightarrow> \<not> starts_here dat j)"
        by (rule less.hyps) (use True in simp_all)
      then obtain r where r: "i + 1 \<le> r" "calc_nal_len_from dat (int (length dat)) (i + 1) = Some (int r)"
        "r \<le> length dat" "r = length dat \<or> r + 4 < length dat \<and> starts_here dat r"
        "\<forall>j. i + 1 \<le> j \<and> j < r \<and> j + 4 < length dat \<longrightarrow> \<not> starts_here dat j"
        by blast
      have "\<not> starts_here dat j" if "i \<le> j" "j < r" "j + 4 < length dat" for j
        using that False r(5) by (cases "j = i") auto
      with r e show ?thesis
        by (intro exI [of _ r]) (auto simp del: calc_nal_len_from.simps)
    qed
  next
    case False
    then have "calc_nal_len_from dat (int (length dat)) i = Some (int (length dat))"
      by (subst calc_nal_len_from.simps) simp
    with less.prems False show ?thesis
      by (intro exI [of _ "length dat"]) (auto simp del: calc_nal_len_from.simps)
  qed
qed

section \<open>Properties\<close>

text \<open>C6. Reading up to 25 bits returns the next bits of the stream as a big-endian number
  and advances the position by as many bits, at every position that four bytes can be read
  from.\<close>

theorem get_bits_big_endian:
  assumes "reader_at s i" "cache_ready s i" "0 < n" "n \<le> 25"
  shows "get_bits s (int n) = Some (be_bits (next_bits s n), advance s n)"
  by (rule get_bits_reads_aux [OF assms(1,2,3)])
    (use assms(4) mod_less_divisor [of 8 i] in linarith)

definition demo_reader :: get_bits_context where
  "demo_reader = \<lparr>buffer = [0x27, 0x64, 0x00, 0x1f, 0xac, 0x2c, 0xa8, 0x05], buffer_end = 8, index = 3,
     size_in_bits = 64, size_in_bits_plus8 = 72\<rparr>"

lemma demo_reader_ready: "reader_at demo_reader 3" "cache_ready demo_reader 3"
  by (simp_all add: reader_at_def cache_ready_def demo_reader_def)

theorem get_bits_big_endian_witness: "\<exists>s'. get_bits demo_reader 7 = Some (be_bits [False, False, True, True, True, False, True], s')"
proof -
  have "next_bits demo_reader 7 = [False, False, True, True, True, False, True]"
    by code_simp
  then show ?thesis
    using get_bits_big_endian [OF demo_reader_ready, of 7] by simp
qed

text \<open>C7. A long read is exact only while the bits fit in the four cached bytes. At bit offset
  \<open>k\<close> of a byte a read of more than \<open>32 - k\<close> bits returns the first
  \<open>32 - k\<close> of them followed by zero bits, although the position moves by all of
  them: \<open>MIN_CACHE_BITS\<close> is 64, so the two-step branch for long reads is never
  taken.\<close>

theorem get_bits_long_loses_low_bits:
  assumes "reader_at s i" "cache_ready s i" "n \<le> 32"
  shows "get_bits_long s (int n)
    = Some (be_bits (next_bits s (n - (i mod 8 + n - 32))) * 2 ^ (i mod 8 + n - 32), advance s n)"
  by (rule get_bits_long_eval [OF assms])

theorem get_bits_long_loses_low_bits_witness:
  "\<exists>s'. get_bits_long demo_reader 32 = Some (991953144, s') \<and> be_bits (next_bits demo_reader 32) = 991953149"
proof -
  have "be_bits (next_bits demo_reader 29) = 123994143" "be_bits (next_bits demo_reader 32) = 991953149"
    by code_simp+
  then show ?thesis
    using get_bits_long_loses_low_bits [OF demo_reader_ready, of 32] by simp
qed

text \<open>C8. The table-driven \<open>get_ue_golomb\<close> reads back every sequence of unsigned
  Exp-Golomb codes of values up to 8190, leaving the position behind the last code.\<close>

theorem get_ue_golomb_roundtrip:
  assumes "list_all (\<lambda>v. 0 \<le> v \<and> v \<le> 8190) vs"
    and "reader_ready s (length (concat (map (\<lambda>v. ue_code (nat v)) vs)))"
    and "next_bits s (length (concat (map (\<lambda>v. ue_code (nat v)) vs))) = concat (map (\<lambda>v. ue_code (nat v)) vs)"
  shows "read_list get_ue_golomb (length vs) s
    = Some (vs, advance s (length (concat (map (\<lambda>v. ue_code (nat v)) vs))))"
  using assms by (rule ue.rd_list)

definition codes_reader :: "u8 list \<Rightarrow> get_bits_context" where
  "codes_reader bs = \<lparr>buffer = bs @ [0, 0, 0, 0, 0, 0, 0, 0], buffer_end = int (length bs), index = 0,
     size_in_bits = 8 * int (length bs), size_in_bits_plus8 = 8 * int (length bs) + 8\<rparr>"

theorem get_ue_golomb_roundtrip_witness:
  "\<exists>s'. read_list get_ue_golomb (length [5, 0, 300 :: int]) (codes_reader [0x34, 0x02, 0x5a]) = Some ([5, 0, 300], s')"
proof
  let ?c = "concat (map (\<lambda>v. ue_code (nat v)) [5, 0, 300])"
  show "read_list get_ue_golomb (length [5, 0, 300 :: int]) (codes_reader [0x34, 0x02, 0x5a])
    = Some ([5, 0, 300], advance (codes_reader [0x34, 0x02, 0x5a]) (length ?c))"
  proof (rule get_ue_golomb_roundtrip)
    show "list_all (\<lambda>v. 0 \<le> v \<and> v \<le> 8190) [5, 0, 300 :: int]"
      by simp
    show "next_bits (codes_reader [0x34, 0x02, 0x5a]) (length ?c) = ?c"
      by code_simp
    have "length ?c = 23"
      by code_simp
    then show "reader_ready (codes_reader [0x34, 0x02, 0x5a]) (length ?c)"
      by (simp only:) (simp add: reader_ready_def reader_at_def cache_ready_def codes_reader_def)
  qed
qed

text \<open>C9. The long signed reader reads back every sequence of signed Exp-Golomb codes of
  magnitude below \<open>2 ^ 24\<close>: both of its partial reads then fit in the cache.\<close>

theorem get_se_golomb_long_roundtrip:
  assumes "list_all (\<lambda>n. \<bar>n\<bar> < 2 ^ 24) ns"
    and "reader_ready s (length (concat (map se_code ns)))"
    and "next_bits s (length (concat (map se_code ns))) = concat (map se_code ns)"
  shows "read_list get_se_golomb_long (length ns) s = Some (ns, advance s (length (concat (map se_code ns))))"
  using assms by (rule se_long.rd_list)

theorem get_se_golomb_long_roundtrip_witness:
  "\<exists>s'. read_list get_se_golomb_long (length [- 1, 1, - 3, 20 :: int]) (codes_reader [0x68, 0xe0, 0xa0])
    = Some ([- 1, 1, - 3, 20], s')"
proof
  let ?s = "codes_reader [0x68, 0xe0, 0xa0]" and ?c = "concat (map se_code [- 1, 1, - 3, 20])"
  show "read_list get_se_golomb_long (length [- 1, 1, - 3, 20 :: int]) ?s
    = Some ([- 1, 1, - 3, 20], advance ?s (length ?c))"
  proof (rule get_se_golomb_long_roundtrip)
    show "list_all (\<lambda>n. \<bar>n\<bar> < 2 ^ 24) [- 1, 1, - 3, 20 :: int]"
      by simp
    show "next_bits ?s (length ?c) = ?c"
      by code_simp
    have "length ?c = 22"
      by code_simp
    then show "reader_ready ?s (length ?c)"
      by (simp only:) (simp add: reader_ready_def reader_at_def cache_ready_def codes_reader_def)
  qed
qed

text \<open>\<open>get_se_golomb\<close> returns the coded value for magnitudes from 16 to 4095 on every
  platform. Smaller ones come from a table of plain \<open>char\<close>: where \<open>char\<close> is
  unsigned, as on Arm, a negative value comes back as its unsigned byte.\<close>

theorem get_se_golomb_plain_char:
  assumes "reader_ready s (length (se_code n))" "next_bits s (length (se_code n)) = se_code n" "\<bar>n\<bar> \<le> 4095"
  shows "get_se_golomb char_signed s
    = Some (if \<bar>n\<bar> \<le> 15 \<and> \<not> char_signed then n mod 256 else n, advance s (length (se_code n)))"
proof -
  have "cache_ready s (nat (index s) + nlog2 (se_index n + 1))"
    by (rule reader_ready_simps(3) [OF assms(1)]) (simp add: se_code_def length_ue_code)
  then show ?thesis
    using get_se_golomb_eval [OF reader_ready_simps(1) [OF assms(1)], of n char_signed] assms
    by (simp add: starts_with_def short_se_value_def)
qed

theorem get_se_golomb_plain_char_witness:
  "\<exists>s' s''. get_se_golomb True (codes_reader [0x60]) = Some (- 1, s')
    \<and> get_se_golomb False (codes_reader [0x60]) = Some (255, s'')"
proof -
  have b: "next_bits (codes_reader [0x60]) (length (se_code (- 1))) = se_code (- 1)"
    by code_simp
  have "length (se_code (- 1)) = 3"
    by code_simp
  then have r: "reader_ready (codes_reader [0x60]) (length (se_code (- 1)))"
    by (simp only:) (simp add: reader_ready_def reader_at_def cache_ready_def codes_reader_def)
  show ?thesis
    using get_se_golomb_plain_char [OF r b, of True] get_se_golomb_plain_char [OF r b, of False] by simp
qed

text \<open>C10. Extracting the payload of a NAL unit removes exactly the emulation prevention
  bytes the writer put in: header and payload come back, followed by the padding.\<close>

theorem nal_unit_extract_rbsp_roundtrip:
  "nal_unit_extract_rbsp True (h0 # h1 # escape 0 payload)
   = Some (h0 # h1 # payload @ replicate 64 0, length payload + 2)"
  using remove_escape [of 0 payload]
  by (simp add: nal_unit_extract_rbsp_def AV_INPUT_BUFFER_PADDING_SIZE_def)

text \<open>C11. \<open>calc_nal_len\<close> never reads outside the data and returns the position of the
  first start code, or the whole length. A start code in the last four bytes is not
  found.\<close>

theorem calc_nal_len_first_start_code:
  "\<exists>r. calc_nal_len dat (int (length dat)) = Some (int r) \<and> r \<le> length dat \<and>
    (r = length dat \<or> r + 4 < length dat \<and> starts_here dat r) \<and>
    (\<forall>j. j < r \<and> j + 4 < length dat \<longrightarrow> \<not> starts_here dat j)"
  using calc_nal_len_from_spec [of 0 dat] unfolding calc_nal_len_def by auto

theorem calc_nal_len_first_start_code_witness:
  "calc_nal_len [9, 0, 0, 1, 5, 6] 6 = Some 1"
proof -
  have s: "starts_here [9, 0, 0, 1, 5, 6] 1" "\<not> starts_here [9, 0, 0, 1, 5, 6] 0"
    by (simp_all add: starts_here_def)
  obtain r where r: "calc_nal_len [9, 0, 0, 1, 5, 6] (int (length [9, 0, 0, 1, 5, 6 :: u8])) = Some (int r)"
    "r = 6 \<or> r + 4 < 6 \<and> starts_here [9, 0, 0, 1, 5, 6] r"
    "\<forall>j. j < r \<and> j + 4 < 6 \<longrightarrow> \<not> starts_here [9, 0, 0, 1, 5, 6] j"
    using calc_nal_len_first_start_code [of "[9, 0, 0, 1, 5, 6]"] by auto
  have "\<not> 1 < r"
    using r(3) [rule_format, of 1] s(1) by auto
  moreover have "r \<noteq> 0"
    by (rule notI) (use r(2) s(2) in simp)
  ultimately have "r = 1"
    by simp
  with r(1) show ?thesis
    by simp
qed

end
