(* ===== verification/H264_Poc.thy ===== *)
theory H264_Poc
  imports Prelude
begin

text \<open>
  Picture order counts of the H.264 decoder (\<open>decode_poc\<close> in
  \<open>drivers/frame_provider/decoder/h264_multi/h264_dpb.c\<close>), with the slice, sequence and
  video parameters of \<open>h264_dpb.h\<close> that the decoded picture buffer uses.

  Values are mathematical integers; every assignment to a C int wraps with \<open>s32\<close>.
  Flags that the code only tests for zero are booleans. A read behind the end of
  \<open>offset_for_ref_frame\<close> and a division by zero are \<open>None\<close>.
\<close>

section \<open>Parameters\<close>

datatype PictureStructure = FRAME | TOP_FIELD | BOTTOM_FIELD

record DecRefPicMarking =
  memory_management_control_operation :: int
  difference_of_pic_nums_minus1 :: int
  long_term_pic_num :: int
  long_term_frame_idx :: int
  max_long_term_frame_idx_plus1 :: int

record SPSParameters =
  pic_order_cnt_type :: int
  log2_max_pic_order_cnt_lsb_minus4 :: int
  num_ref_frames_in_pic_order_cnt_cycle :: int
  offset_for_ref_frame :: "int list"
  offset_for_non_ref_pic :: int
  offset_for_top_to_bottom_field :: int
  frame_mbs_only_flag :: bool
  num_ref_frames :: int
  log2_max_frame_num_minus4 :: int

record Slice =
  sl_frame_num :: int
  sl_idr_flag :: bool
  toppoc :: int
  bottompoc :: int
  framepoc :: int
  pic_order_cnt_lsb :: int
  PicOrderCntMsb :: int
  field_pic_flag :: bool
  bottom_field_flag :: bool
  ThisPOC :: int
  nal_reference_idc :: int
  AbsFrameNum :: int
  delta_pic_order_cnt_bottom :: int
  delta_pic_order_cnt_0 :: int
  delta_pic_order_cnt_1 :: int
  sl_structure :: PictureStructure
  sl_slice_type :: int

record VideoParameters =
  PrevPicOrderCntMsb :: int
  PrevPicOrderCntLsb :: int
  last_has_mmco_5 :: bool
  last_pic_bottom_field :: bool
  vid_ThisPOC :: int
  PreviousFrameNum :: int
  FrameNumOffset :: int
  PreviousFrameNumOffset :: int
  max_frame_num :: int
  pre_frame_num :: int
  ExpectedDeltaPerPicOrderCntCycle :: int
  PicOrderCntCycleCnt :: int
  FrameNumInPicOrderCntCycle :: int
  ExpectedPicOrderCnt :: int
  conceal_mode :: int
  earlier_missing_poc :: int

definition imin :: "int \<Rightarrow> int \<Rightarrow> int" where
  "imin a b = (if a < b then a else b)"

definition imax :: "int \<Rightarrow> int \<Rightarrow> int" where
  "imax a b = (if a > b then a else b)"

section \<open>Type 0\<close>

definition poc0_prev :: "VideoParameters \<Rightarrow> Slice \<Rightarrow> VideoParameters" where
  "poc0_prev v sl =
     (if sl_idr_flag sl then v\<lparr>PrevPicOrderCntMsb := 0, PrevPicOrderCntLsb := 0\<rparr>
      else if last_has_mmco_5 v then
        (if last_pic_bottom_field v then v\<lparr>PrevPicOrderCntMsb := 0, PrevPicOrderCntLsb := 0\<rparr>
         else v\<lparr>PrevPicOrderCntMsb := 0, PrevPicOrderCntLsb := toppoc sl\<rparr>)
      else v)"

definition poc0_msb :: "int \<Rightarrow> VideoParameters \<Rightarrow> Slice \<Rightarrow> int" where
  "poc0_msb max_lsb v sl =
     (if pic_order_cnt_lsb sl < PrevPicOrderCntLsb v \<and>
         u32 (PrevPicOrderCntLsb v - pic_order_cnt_lsb sl) \<ge> max_lsb div 2
      then s32 (PrevPicOrderCntMsb v + max_lsb)
      else if pic_order_cnt_lsb sl > PrevPicOrderCntLsb v \<and>
         u32 (pic_order_cnt_lsb sl - PrevPicOrderCntLsb v) > max_lsb div 2
      then s32 (PrevPicOrderCntMsb v - max_lsb)
      else PrevPicOrderCntMsb v)"

text \<open>The top and bottom counts of a frame or field from its base value.\<close>

definition poc0_fields :: "Slice \<Rightarrow> Slice" where
  "poc0_fields sl =
     (let base = s32 (PicOrderCntMsb sl + pic_order_cnt_lsb sl);
          sl = (if \<not> field_pic_flag sl then
                  let bottom = s32 (base + delta_pic_order_cnt_bottom sl);
                      this = (if base < bottom then base else bottom)
                  in sl\<lparr>toppoc := base, bottompoc := bottom, framepoc := this, ThisPOC := this\<rparr>
                else if \<not> bottom_field_flag sl then sl\<lparr>toppoc := base, ThisPOC := base\<rparr>
                else sl\<lparr>bottompoc := base, ThisPOC := base\<rparr>)
      in sl\<lparr>framepoc := ThisPOC sl\<rparr>)"

definition decode_poc_0 :: "SPSParameters \<Rightarrow> VideoParameters \<times> Slice \<Rightarrow> VideoParameters \<times> Slice" where
  "decode_poc_0 sps vs =
     (case vs of (v, sl) \<Rightarrow>
      let max_lsb = 2 ^ nat (log2_max_pic_order_cnt_lsb_minus4 sps + 4);
          v = poc0_prev v sl;
          sl = sl\<lparr>PicOrderCntMsb := poc0_msb max_lsb v sl\<rparr>;
          sl = poc0_fields sl;
          v = v\<lparr>vid_ThisPOC := ThisPOC sl, PreviousFrameNum := sl_frame_num sl\<rparr>;
          v = (if nal_reference_idc sl \<noteq> 0
               then v\<lparr>PrevPicOrderCntLsb := pic_order_cnt_lsb sl, PrevPicOrderCntMsb := PicOrderCntMsb sl\<rparr>
               else v)
      in (v, sl))"

section \<open>Types 1 and 2\<close>

text \<open>The frame number offset of both types.\<close>

definition poc12_offset :: "VideoParameters \<Rightarrow> Slice \<Rightarrow> VideoParameters" where
  "poc12_offset v sl =
     (if sl_idr_flag sl then v\<lparr>FrameNumOffset := 0\<rparr>
      else
        let v = (if last_has_mmco_5 v then v\<lparr>PreviousFrameNumOffset := 0, PreviousFrameNum := 0\<rparr> else v)
        in if sl_frame_num sl < PreviousFrameNum v
           then v\<lparr>FrameNumOffset := s32 (PreviousFrameNumOffset v + max_frame_num v)\<rparr>
           else v\<lparr>FrameNumOffset := PreviousFrameNumOffset v\<rparr>)"

text \<open>The sum of the first \<open>n\<close> offsets of the cycle, added to \<open>acc\<close>.\<close>

fun sum_offsets :: "int list \<Rightarrow> nat \<Rightarrow> int \<Rightarrow> int option" where
  "sum_offsets os 0 acc = Some acc"
| "sum_offsets [] (Suc n) acc = None"
| "sum_offsets (x # os) (Suc n) acc = sum_offsets os n (s32 (acc + x))"

definition poc1_abs :: "SPSParameters \<Rightarrow> VideoParameters \<Rightarrow> Slice \<Rightarrow> Slice" where
  "poc1_abs sps v sl =
     (let a = (if num_ref_frames_in_pic_order_cnt_cycle sps \<noteq> 0
               then s32 (FrameNumOffset v + sl_frame_num sl) else 0)
      in sl\<lparr>AbsFrameNum := (if nal_reference_idc sl = 0 \<and> a > 0 then a - 1 else a)\<rparr>)"

definition poc1_expected :: "SPSParameters \<Rightarrow> VideoParameters \<Rightarrow> Slice \<Rightarrow> VideoParameters option" where
  "poc1_expected sps v sl = do {
     let n = num_ref_frames_in_pic_order_cnt_cycle sps;
     delta \<leftarrow> (if n \<noteq> 0 then sum_offsets (offset_for_ref_frame sps) (nat n) 0 else Some 0);
     let v = v\<lparr>ExpectedDeltaPerPicOrderCntCycle := delta\<rparr>;
     v \<leftarrow> (if AbsFrameNum sl \<noteq> 0 then do {
             let cnt = cdiv (AbsFrameNum sl - 1) n;
             let pos = (AbsFrameNum sl - 1) - n * cnt;
             e \<leftarrow> sum_offsets (offset_for_ref_frame sps) (nat (pos + 1)) (s32 (cnt * delta));
             Some (v\<lparr>PicOrderCntCycleCnt := cnt, FrameNumInPicOrderCntCycle := pos, ExpectedPicOrderCnt := e\<rparr>)
           }
           else Some (v\<lparr>ExpectedPicOrderCnt := 0\<rparr>));
     Some (if nal_reference_idc sl = 0
           then v\<lparr>ExpectedPicOrderCnt := s32 (ExpectedPicOrderCnt v + offset_for_non_ref_pic sps)\<rparr> else v)
   }"

definition poc1_fields :: "SPSParameters \<Rightarrow> VideoParameters \<Rightarrow> Slice \<Rightarrow> Slice" where
  "poc1_fields sps v sl =
     (let top = s32 (ExpectedPicOrderCnt v + delta_pic_order_cnt_0 sl);
          sl = (if \<not> field_pic_flag sl then
                  let bottom = s32 (top + offset_for_top_to_bottom_field sps + delta_pic_order_cnt_1 sl);
                      this = (if top < bottom then top else bottom)
                  in sl\<lparr>toppoc := top, bottompoc := bottom, framepoc := this, ThisPOC := this\<rparr>
                else if \<not> bottom_field_flag sl then sl\<lparr>toppoc := top, ThisPOC := top\<rparr>
                else
                  let bottom = s32 (ExpectedPicOrderCnt v + offset_for_top_to_bottom_field sps + delta_pic_order_cnt_0 sl)
                  in sl\<lparr>bottompoc := bottom, ThisPOC := bottom\<rparr>)
      in sl\<lparr>framepoc := ThisPOC sl\<rparr>)"

definition decode_poc_1 :: "SPSParameters \<Rightarrow> VideoParameters \<times> Slice \<Rightarrow> (VideoParameters \<times> Slice) option" where
  "decode_poc_1 sps vs =
     (case vs of (v, sl) \<Rightarrow> do {
      let v = poc12_offset v sl;
      let sl = poc1_abs sps v sl;
      v \<leftarrow> poc1_expected sps v sl;
      let sl = poc1_fields sps v sl;
      Some (v\<lparr>PreviousFrameNum := sl_frame_num sl, PreviousFrameNumOffset := FrameNumOffset v\<rparr>, sl)
     })"

definition poc2_slice :: "VideoParameters \<Rightarrow> Slice \<Rightarrow> Slice" where
  "poc2_slice v sl =
     (if sl_idr_flag sl then sl\<lparr>ThisPOC := 0, framepoc := 0, toppoc := 0, bottompoc := 0\<rparr>
      else
        let a = s32 (FrameNumOffset v + sl_frame_num sl);
            this = (if nal_reference_idc sl = 0 then s32 (2 * a - 1) else s32 (2 * a));
            sl = sl\<lparr>AbsFrameNum := a, ThisPOC := this\<rparr>
        in if \<not> field_pic_flag sl then sl\<lparr>toppoc := this, bottompoc := this, framepoc := this\<rparr>
           else if \<not> bottom_field_flag sl then sl\<lparr>toppoc := this, framepoc := this\<rparr>
           else sl\<lparr>bottompoc := this, framepoc := this\<rparr>)"

definition decode_poc_2 :: "VideoParameters \<times> Slice \<Rightarrow> VideoParameters \<times> Slice" where
  "decode_poc_2 vs =
     (case vs of (v, sl) \<Rightarrow>
      let v = poc12_offset v sl;
          sl = poc2_slice v sl
      in (v\<lparr>PreviousFrameNum := sl_frame_num sl, PreviousFrameNumOffset := FrameNumOffset v\<rparr>, sl))"

definition decode_poc :: "SPSParameters \<Rightarrow> VideoParameters \<times> Slice \<Rightarrow> (VideoParameters \<times> Slice) option" where
  "decode_poc sps vs =
     (if pic_order_cnt_type sps = 0 then Some (decode_poc_0 sps vs)
      else if pic_order_cnt_type sps = 1 then decode_poc_1 sps vs
      else if pic_order_cnt_type sps = 2 then Some (decode_poc_2 vs)
      else Some vs)"

end
