(* ===== verification/H264_Dpb.thy ===== *)
theory H264_Dpb
  imports H264_Poc
begin

text \<open>
  The decoded picture buffer of the H.264 decoder
  (\<open>drivers/frame_provider/decoder/h264_multi/h264_dpb.c\<close>): the picture pool, the frame
  stores, the reference lists, the memory management operations, and the output of pictures.
  \<open>ERROR_CHECK\<close> and \<open>OUTPUT_BUFFER_IN_C\<close> are defined in the header and
  \<open>MVC_EXTENSION_ENABLE\<close> is 0, and the model follows that configuration.

  Pointers are numbers: pictures 0 to 127 are \<open>m_PIC\<close> and 128 is
  \<open>dummy_pic\<close>, frame stores 0 to 31 are \<open>mFrameStore\<close> and 32 is
  \<open>dummy_fs\<close>, and the null pointer is \<open>None\<close>. An operation is \<open>None\<close>
  when it dereferences a null pointer or leaves an array, and also when a loop of it never
  ends. Calls into the rest of the driver are recorded in \<open>vdec_calls\<close>; what
  \<open>prepare_display_buf\<close> answers is an argument. Time stamps, sizes and quality
  figures of a picture, which the buffer only copies, and the debug output are left out.
\<close>

section \<open>Pictures and frame stores\<close>

record StorablePicture =
  pic_index :: int
  pic_is_used :: bool
  pic_structure :: PictureStructure
  pic_poc :: int
  pic_top_poc :: int
  pic_bottom_poc :: int
  pic_frame_poc :: int
  pic_frame_num :: int
  pic_pic_num :: int
  pic_buf_spec_num :: int
  pic_buf_spec_is_alloced :: bool
  pic_col_buf_is_alloced :: bool
  pic_colocated_buf_index :: int
  pic_long_term_pic_num :: int
  pic_long_term_frame_idx :: int
  pic_is_long_term :: bool
  pic_used_for_reference :: bool
  pic_is_output :: bool
  pic_pre_output :: bool
  pic_non_existing :: bool
  pic_coded_frame :: bool
  pic_mb_aff_frame_flag :: bool
  pic_top_field :: "nat option"
  pic_bottom_field :: "nat option"
  pic_frame :: "nat option"
  pic_slice_type :: int
  pic_idr_flag :: bool
  pic_no_output_of_prior_pics_flag :: bool
  pic_long_term_reference_flag :: bool
  pic_adaptive_ref_pic_buffering_flag :: bool
  pic_frame_mbs_only_flag :: bool
  pic_dec_ref_pic_marking_buffer :: "DecRefPicMarking list"
  pic_data_flag :: int

record FrameStore =
  fs_buf_spec_num :: int
  fs_colocated_buf_index :: int
  fs_is_used :: int
  fs_is_reference :: int
  fs_is_long_term :: int
  fs_is_orig_reference :: int
  fs_frame_num :: int
  fs_frame_num_wrap :: int
  fs_long_term_frame_idx :: int
  fs_is_output :: bool
  fs_pre_output :: bool
  fs_index :: int
  fs_data_flag :: int
  fs_poc :: int
  fs_concealment_reference :: bool
  fs_frame :: "nat option"
  fs_top_field :: "nat option"
  fs_bottom_field :: "nat option"
  fs_dpb_frame_count :: int
  fs_show_frame :: bool

datatype FirstInsertFrm_State = FirstInsertFrm_IDLE | FirstInsertFrm_OUT | FirstInsertFrm_RESET | FirstInsertFrm_SKIPDONE

datatype vdec_call = Release_Buf_Spec int | Prepare_Display nat int

record h264_dpb =
  m_PIC :: "nat \<Rightarrow> StorablePicture"
  mFrameStore :: "nat \<Rightarrow> FrameStore"
  dpb_fs :: "nat list"
  dpb_fs_ref :: "nat option list"
  dpb_fs_ltref :: "nat option list"
  dpb_size :: nat
  used_size :: nat
  ref_frames_in_buffer :: nat
  ltref_frames_in_buffer :: nat
  last_output_poc :: int
  max_long_term_pic_idx :: int
  init_done :: bool
  first_pic_done :: bool
  dpb_num_ref_frames :: int
  last_picture :: "nat option"
  mSlice :: Slice
  mVideo :: VideoParameters
  mSPS :: SPSParameters
  no_reference_picture :: "nat option"
  max_reference_size :: int
  colocated_buf_map :: int
  colocated_buf_count :: int
  reorder_output :: int
  fast_output_enable :: int
  poc_even_odd_flag :: int
  decode_pic_count :: int
  first_insert_frame :: FirstInsertFrm_State
  first_output_poc :: int
  without_display_mode :: bool
  dpb_error_flag :: int
  buf_alloc_fail :: bool
  dpb_frame_count :: int
  vdec_calls :: "vdec_call list"

definition MAX_PIC_BUF_NUM :: nat where
  "MAX_PIC_BUF_NUM = 128"

definition DPB_SIZE_MAX :: nat where
  "DPB_SIZE_MAX = 32"

definition dummy_fs :: nat where
  "dummy_fs = 32"

definition INT_MIN :: int where
  "INT_MIN = - (2 ^ 31)"

definition INT_MAX :: int where
  "INT_MAX = 2 ^ 31 - 1"

definition ERROR_FLAG :: int where "ERROR_FLAG = 0x10"
definition NULL_FLAG :: int where "NULL_FLAG = 0x20"
definition IDR_FLAG :: int where "IDR_FLAG = 0x02"
definition NODISP_FLAG :: int where "NODISP_FLAG = 0x80"

text \<open>Assignments through a pointer to a picture or a frame store.\<close>

definition upd_pic :: "nat \<Rightarrow> (StorablePicture \<Rightarrow> StorablePicture) \<Rightarrow> h264_dpb \<Rightarrow> h264_dpb" where
  "upd_pic i f s = s\<lparr>m_PIC := (m_PIC s)(i := f (m_PIC s i))\<rparr>"

definition upd_fs :: "nat \<Rightarrow> (FrameStore \<Rightarrow> FrameStore) \<Rightarrow> h264_dpb \<Rightarrow> h264_dpb" where
  "upd_fs i f s = s\<lparr>mFrameStore := (mFrameStore s)(i := f (mFrameStore s i))\<rparr>"

definition upd_pic_if :: "nat option \<Rightarrow> (StorablePicture \<Rightarrow> StorablePicture) \<Rightarrow> h264_dpb \<Rightarrow> h264_dpb" where
  "upd_pic_if p f s = (case p of None \<Rightarrow> s | Some i \<Rightarrow> upd_pic i f s)"

text \<open>The frame store at a position of the buffer, and the stores in use.\<close>

definition fs_at :: "h264_dpb \<Rightarrow> nat \<Rightarrow> nat option" where
  "fs_at s i = (if i < length (dpb_fs s) then Some (dpb_fs s ! i) else None)"

definition used_fs :: "h264_dpb \<Rightarrow> nat list" where
  "used_fs s = take (used_size s) (dpb_fs s)"

section \<open>The picture pool\<close>

definition free_picture :: "nat option \<Rightarrow> h264_dpb \<Rightarrow> h264_dpb" where
  "free_picture pic s =
     (case pic of None \<Rightarrow> s
      | Some i \<Rightarrow>
          let ix = pic_index (m_PIC s i)
          in if ix < 0 \<or> ix \<ge> int MAX_PIC_BUF_NUM then s
             else upd_pic (nat ix) (\<lambda>p. p\<lparr>pic_is_used := False\<rparr>) s)"

definition find_free_pic :: "h264_dpb \<Rightarrow> nat option" where
  "find_free_pic s = find (\<lambda>i. \<not> pic_is_used (m_PIC s i)) [0..<MAX_PIC_BUF_NUM]"

definition reset_new_pic :: "PictureStructure \<Rightarrow> bool \<Rightarrow> StorablePicture \<Rightarrow> StorablePicture" where
  "reset_new_pic structure mbs_only p =
     p\<lparr>pic_is_used := True, pic_buf_spec_is_alloced := False, pic_col_buf_is_alloced := False, pic_pic_num := 0,
       pic_frame_num := 0, pic_long_term_frame_idx := 0, pic_long_term_pic_num := 0,
       pic_used_for_reference := False, pic_is_long_term := False, pic_non_existing := False,
       pic_is_output := False, pic_pre_output := False,
       pic_data_flag := pic_data_flag p AND NOT (ERROR_FLAG OR NODISP_FLAG),
       pic_structure := structure, pic_coded_frame := False, pic_mb_aff_frame_flag := False,
       pic_top_poc := 0, pic_bottom_poc := 0, pic_poc := 0,
       pic_frame_mbs_only_flag := mbs_only\<rparr>"

definition get_new_pic :: "PictureStructure \<Rightarrow> h264_dpb \<Rightarrow> nat option \<times> h264_dpb" where
  "get_new_pic structure s =
     (case find_free_pic s of
        None \<Rightarrow> (None, s\<lparr>buf_alloc_fail := True\<rparr>)
      | Some i \<Rightarrow> (Some i, upd_pic i (reset_new_pic structure (frame_mbs_only_flag (mSPS s))) s))"

section \<open>Co-located buffers\<close>

text \<open>\<open>colocated_buf_map\<close> is an unsigned 32-bit map of the buffers in use. Shifting
  by 32 or more is undefined, which \<open>colocated_buf_count \<le> 32\<close> rules out.\<close>

definition init_colocate_buf :: "int \<Rightarrow> h264_dpb \<Rightarrow> h264_dpb" where
  "init_colocate_buf cnt s = s\<lparr>colocated_buf_map := 0, colocated_buf_count := cnt\<rparr>"

definition allocate_colocate_buf :: "h264_dpb \<Rightarrow> int \<times> h264_dpb" where
  "allocate_colocate_buf s =
     (case find (\<lambda>i. drop_bit i (colocated_buf_map s) AND 1 = 0) [0..<nat (colocated_buf_count s)] of
        None \<Rightarrow> (- 1, s)
      | Some i \<Rightarrow> (int i, s\<lparr>colocated_buf_map := colocated_buf_map s OR push_bit i 1\<rparr>))"

definition release_colocate_buf :: "int \<Rightarrow> h264_dpb \<Rightarrow> h264_dpb" where
  "release_colocate_buf index s =
     (if index \<ge> 0 \<and> index < colocated_buf_count s \<and> drop_bit (nat index) (colocated_buf_map s) AND 1 = 1
      then s\<lparr>colocated_buf_map := colocated_buf_map s AND NOT (push_bit (nat index) 1)\<rparr>
      else s)"

section \<open>Fields and frames\<close>

text \<open>\<open>dpb_split_field\<close>: the field views of a frame. \<open>fr\<close> is the frame of the
  store.\<close>

definition split_top :: "StorablePicture \<Rightarrow> nat \<Rightarrow> nat \<Rightarrow> nat \<Rightarrow> StorablePicture \<Rightarrow> StorablePicture" where
  "split_top f fr tp btm p =
     p\<lparr>pic_buf_spec_num := pic_buf_spec_num f, pic_colocated_buf_index := pic_colocated_buf_index f,
       pic_data_flag := pic_data_flag f, pic_poc := pic_top_poc f, pic_frame_poc := pic_frame_poc f,
       pic_bottom_poc := pic_bottom_poc f, pic_top_poc := pic_top_poc f,
       pic_used_for_reference := pic_used_for_reference f, pic_is_long_term := pic_is_long_term f,
       pic_long_term_frame_idx := pic_long_term_frame_idx f, pic_coded_frame := True,
       pic_mb_aff_frame_flag := pic_mb_aff_frame_flag f,
       pic_bottom_field := Some btm, pic_frame := Some fr, pic_top_field := Some tp\<rparr>"

definition split_bottom :: "StorablePicture \<Rightarrow> nat \<Rightarrow> nat \<Rightarrow> nat \<Rightarrow> StorablePicture \<Rightarrow> StorablePicture" where
  "split_bottom f fr tp btm p =
     p\<lparr>pic_buf_spec_num := pic_buf_spec_num f, pic_colocated_buf_index := pic_colocated_buf_index f,
       pic_data_flag := pic_data_flag f, pic_poc := pic_bottom_poc f, pic_frame_poc := pic_frame_poc f,
       pic_bottom_poc := pic_bottom_poc f, pic_top_poc := pic_top_poc f,
       pic_used_for_reference := pic_used_for_reference f, pic_is_long_term := pic_is_long_term f,
       pic_long_term_frame_idx := pic_long_term_frame_idx f, pic_coded_frame := True,
       pic_mb_aff_frame_flag := pic_mb_aff_frame_flag f,
       pic_top_field := Some tp, pic_frame := Some fr, pic_bottom_field := Some btm\<rparr>"

definition dpb_split_field :: "nat \<Rightarrow> h264_dpb \<Rightarrow> h264_dpb option" where
  "dpb_split_field i s = do {
     fr \<leftarrow> fs_frame (mFrameStore s i);
     let s = upd_fs i (\<lambda>f. f\<lparr>fs_poc := pic_poc (m_PIC s fr)\<rparr>) s;
     if \<not> pic_frame_mbs_only_flag (m_PIC s fr) then do {
       let (tp, s) = get_new_pic TOP_FIELD s;
       let s = upd_fs i (\<lambda>f. f\<lparr>fs_top_field := tp\<rparr>) s;
       let (btm, s) = get_new_pic BOTTOM_FIELD s;
       let s = upd_fs i (\<lambda>f. f\<lparr>fs_bottom_field := btm\<rparr>) s;
       case (tp, btm) of
         (Some t, Some b) \<Rightarrow> do {
           let f = m_PIC s fr;
           let s = upd_pic t (split_top f fr t b) s;
           let s = upd_pic b (split_bottom f fr t b) s;
           let s = upd_fs i (\<lambda>x. x\<lparr>fs_long_term_frame_idx := pic_long_term_frame_idx f\<rparr>) s;
           Some (upd_pic fr (\<lambda>p. p\<lparr>pic_top_field := Some t, pic_bottom_field := Some b, pic_frame := Some fr\<rparr>) s)
         }
       | _ \<Rightarrow> Some s
     }
     else do {
       let s = upd_fs i (\<lambda>f. f\<lparr>fs_top_field := None, fs_bottom_field := None\<rparr>) s;
       Some (upd_pic fr (\<lambda>p. p\<lparr>pic_top_field := None, pic_bottom_field := None, pic_frame := Some fr\<rparr>) s)
     }
   }"

text \<open>\<open>dpb_combine_field\<close>. A store with a bottom field and no top field
  faults.\<close>

definition combine_frame :: "StorablePicture \<Rightarrow> nat \<Rightarrow> StorablePicture option \<Rightarrow> int \<Rightarrow> nat \<Rightarrow> nat option
    \<Rightarrow> StorablePicture \<Rightarrow> StorablePicture" where
  "combine_frame t fr b lt_idx tp btm p =
     (let p = p\<lparr>pic_buf_spec_num := pic_buf_spec_num t, pic_colocated_buf_index := pic_colocated_buf_index t,
            pic_data_flag := pic_data_flag t, pic_slice_type := pic_slice_type t\<rparr>;
          p = (case b of None \<Rightarrow> p
               | Some b \<Rightarrow>
                   let poc = imin (pic_poc t) (pic_poc b)
                   in p\<lparr>pic_data_flag := pic_data_flag t OR (pic_data_flag b AND 0xf0),
                        pic_poc := poc, pic_frame_poc := poc,
                        pic_top_poc := pic_poc t, pic_bottom_poc := pic_poc b,
                        pic_used_for_reference := pic_used_for_reference t \<and> pic_used_for_reference b,
                        pic_is_long_term := pic_is_long_term t \<and> pic_is_long_term b\<rparr>);
          p = (if pic_is_long_term p then p\<lparr>pic_long_term_frame_idx := lt_idx\<rparr> else p);
          p = p\<lparr>pic_top_field := Some tp\<rparr>;
          p = (if btm \<noteq> None then p\<lparr>pic_bottom_field := btm\<rparr> else p)
      in p\<lparr>pic_frame := Some fr, pic_coded_frame := False\<rparr>)"

definition dpb_combine_field :: "nat \<Rightarrow> h264_dpb \<Rightarrow> h264_dpb option" where
  "dpb_combine_field i s = do {
     let (fro, s) = (case fs_frame (mFrameStore s i) of
         Some fr \<Rightarrow> (Some fr, s)
       | None \<Rightarrow> (case get_new_pic FRAME s of (fr, s) \<Rightarrow> (fr, upd_fs i (\<lambda>f. f\<lparr>fs_frame := fr\<rparr>) s)));
     case fro of
       None \<Rightarrow> Some s
     | Some fr \<Rightarrow> do {
         tp \<leftarrow> fs_top_field (mFrameStore s i);
         let btm = fs_bottom_field (mFrameStore s i);
         let t = m_PIC s tp;
         let b = map_option (m_PIC s) btm;
         let s = upd_pic fr (combine_frame t fr b (fs_long_term_frame_idx (mFrameStore s i)) tp btm) s;
         let poc = pic_poc (m_PIC s fr);
         (case btm of None \<Rightarrow> Some s
          | Some bt \<Rightarrow> do {
              let s = upd_fs i (\<lambda>f. f\<lparr>fs_poc := poc\<rparr>) s;
              let s = upd_pic bt (\<lambda>p. p\<lparr>pic_frame_poc := poc, pic_top_poc := pic_poc t, pic_frame := Some fr,
                   pic_top_field := Some tp, pic_bottom_field := Some bt\<rparr>) s;
              Some (upd_pic tp (\<lambda>p. p\<lparr>pic_frame_poc := poc, pic_bottom_poc := pic_poc (m_PIC s bt), pic_frame := Some fr,
                   pic_top_field := Some tp, pic_bottom_field := Some bt\<rparr>) s)
            })
       }
   }"

text \<open>The reference marks a picture brings to its store: \<open>m\<close> is 3 for a frame, 1
  for a top and 2 for a bottom field.\<close>

definition insert_marks :: "int \<Rightarrow> StorablePicture \<Rightarrow> FrameStore \<Rightarrow> FrameStore" where
  "insert_marks m p f =
     (if pic_used_for_reference p then
        let f = f\<lparr>fs_is_reference := fs_is_reference f OR m, fs_is_orig_reference := fs_is_orig_reference f OR m\<rparr>
        in if pic_is_long_term p
           then f\<lparr>fs_is_long_term := fs_is_long_term f OR m, fs_long_term_frame_idx := pic_long_term_frame_idx p\<rparr>
           else f
      else f)"

definition insert_marks_frame :: "StorablePicture \<Rightarrow> FrameStore \<Rightarrow> FrameStore" where
  "insert_marks_frame p f =
     (if pic_used_for_reference p then
        let f = f\<lparr>fs_is_reference := 3, fs_is_orig_reference := 3\<rparr>
        in if pic_is_long_term p
           then f\<lparr>fs_is_long_term := 3, fs_long_term_frame_idx := pic_long_term_frame_idx p\<rparr>
           else f
      else f)"

definition combine_or_poc :: "nat \<Rightarrow> nat \<Rightarrow> h264_dpb \<Rightarrow> h264_dpb option" where
  "combine_or_poc i p s =
     (if fs_is_used (mFrameStore s i) = 3 then dpb_combine_field i s
      else Some (upd_fs i (\<lambda>f. f\<lparr>fs_poc := pic_poc (m_PIC s p)\<rparr>) s))"

definition insert_picture_in_dpb :: "nat \<Rightarrow> nat \<Rightarrow> int \<Rightarrow> h264_dpb \<Rightarrow> h264_dpb option" where
  "insert_picture_in_dpb i p data_flag s = do {
     let s = s\<lparr>dpb_frame_count := s32 (dpb_frame_count s + 1)\<rparr>;
     let s = upd_pic p (\<lambda>x. x\<lparr>pic_data_flag := data_flag\<rparr>) s;
     let s = upd_fs i (\<lambda>f. f\<lparr>fs_dpb_frame_count := dpb_frame_count s, fs_data_flag := fs_data_flag f OR data_flag,
          fs_buf_spec_num := pic_buf_spec_num (m_PIC s p),
          fs_colocated_buf_index := pic_colocated_buf_index (m_PIC s p)\<rparr>) s;
     let s = upd_pic p (\<lambda>x. x\<lparr>pic_slice_type := sl_slice_type (mSlice s)\<rparr>) s;
     let x = m_PIC s p;
     s \<leftarrow> (case pic_structure x of
         FRAME \<Rightarrow> dpb_split_field i (upd_fs i (\<lambda>f. insert_marks_frame x
           (f\<lparr>fs_frame := Some p, fs_is_used := 3\<rparr>)) s)
       | TOP_FIELD \<Rightarrow> combine_or_poc i p (upd_fs i (\<lambda>f. insert_marks 1 x
           (f\<lparr>fs_top_field := Some p, fs_is_used := fs_is_used f OR 1\<rparr>)) s)
       | BOTTOM_FIELD \<Rightarrow> combine_or_poc i p (upd_fs i (\<lambda>f. insert_marks 2 x
           (f\<lparr>fs_bottom_field := Some p, fs_is_used := fs_is_used f OR 2\<rparr>)) s));
     let x = m_PIC s p;
     Some (upd_fs i (\<lambda>f. f\<lparr>fs_frame_num := u32 (pic_pic_num x), fs_is_output := pic_is_output x,
          fs_pre_output := pic_pre_output x\<rparr>) s)
   }"

section \<open>Marking\<close>

definition reset_frame_store :: "nat \<Rightarrow> h264_dpb \<Rightarrow> h264_dpb" where
  "reset_frame_store i s =
     (let f = mFrameStore s i;
          s = free_picture (fs_bottom_field f) (free_picture (fs_top_field f) (free_picture (fs_frame f) s))
      in upd_fs i (\<lambda>f. f\<lparr>fs_is_used := 0, fs_is_reference := 0, fs_is_long_term := 0, fs_is_orig_reference := 0,
           fs_is_output := False, fs_pre_output := False, fs_show_frame := False,
           fs_frame := None, fs_top_field := None, fs_bottom_field := None\<rparr>) s)"

definition pic_unref :: "StorablePicture \<Rightarrow> StorablePicture" where
  "pic_unref p = p\<lparr>pic_used_for_reference := False\<rparr>"

definition pic_unref_lt :: "StorablePicture \<Rightarrow> StorablePicture" where
  "pic_unref_lt p = p\<lparr>pic_used_for_reference := False, pic_is_long_term := False\<rparr>"

text \<open>The common walk of the two unmarking functions over the pictures of a store.\<close>

definition unmark_pics :: "(StorablePicture \<Rightarrow> StorablePicture) \<Rightarrow> nat \<Rightarrow> h264_dpb \<Rightarrow> h264_dpb option" where
  "unmark_pics g i s =
     (let f = mFrameStore s i;
          s = (if fs_is_used f AND 1 \<noteq> 0 then upd_pic_if (fs_top_field f) g s else s);
          s = (if fs_is_used f AND 2 \<noteq> 0 then upd_pic_if (fs_bottom_field f) g s else s)
      in if fs_is_used f = 3 then do {
           fr \<leftarrow> fs_frame f;
           let s = (if fs_top_field f \<noteq> None \<and> fs_bottom_field f \<noteq> None
                    then upd_pic_if (fs_bottom_field f) g (upd_pic_if (fs_top_field f) g s) else s);
           Some (upd_pic fr g s)
         }
         else Some s)"

definition unmark_for_reference :: "nat \<Rightarrow> h264_dpb \<Rightarrow> h264_dpb option" where
  "unmark_for_reference i s =
     map_option (upd_fs i (\<lambda>f. f\<lparr>fs_is_reference := 0\<rparr>)) (unmark_pics pic_unref i s)"

definition unmark_for_long_term_reference :: "nat \<Rightarrow> h264_dpb \<Rightarrow> h264_dpb option" where
  "unmark_for_long_term_reference i s =
     map_option (upd_fs i (\<lambda>f. f\<lparr>fs_is_reference := 0, fs_is_long_term := 0\<rparr>)) (unmark_pics pic_unref_lt i s)"

definition get_long_term_flag_by_buf_spec_num :: "h264_dpb \<Rightarrow> int \<Rightarrow> int" where
  "get_long_term_flag_by_buf_spec_num s buf_spec_num =
     (case find (\<lambda>i. fs_buf_spec_num (mFrameStore s i) = buf_spec_num) (used_fs s) of
        None \<Rightarrow> - 1 | Some i \<Rightarrow> fs_is_long_term (mFrameStore s i))"

section \<open>Reference queries and lists\<close>

definition opt_pic :: "h264_dpb \<Rightarrow> nat option \<Rightarrow> (StorablePicture \<Rightarrow> bool) \<Rightarrow> bool" where
  "opt_pic s p Q = (case p of None \<Rightarrow> False | Some i \<Rightarrow> Q (m_PIC s i))"

text \<open>The frame, the top field or the bottom field of a store has the property.\<close>

definition any_pic :: "h264_dpb \<Rightarrow> nat \<Rightarrow> (StorablePicture \<Rightarrow> bool) \<Rightarrow> bool option" where
  "any_pic s i Q =
     (let f = mFrameStore s i in do {
        b \<leftarrow> (if fs_is_used f = 3 then do { fr \<leftarrow> fs_frame f; Some (Q (m_PIC s fr)) } else Some False);
        if b then Some True
        else if fs_is_used f AND 1 \<noteq> 0 \<and> opt_pic s (fs_top_field f) Q then Some True
        else Some (fs_is_used f AND 2 \<noteq> 0 \<and> opt_pic s (fs_bottom_field f) Q)
      })"

definition is_used_for_reference :: "h264_dpb \<Rightarrow> nat \<Rightarrow> bool option" where
  "is_used_for_reference s i =
     (if fs_is_reference (mFrameStore s i) \<noteq> 0 then Some True else any_pic s i pic_used_for_reference)"

definition is_short_term_reference :: "h264_dpb \<Rightarrow> nat \<Rightarrow> bool option" where
  "is_short_term_reference s i = any_pic s i (\<lambda>p. pic_used_for_reference p \<and> \<not> pic_is_long_term p)"

definition is_long_term_reference :: "h264_dpb \<Rightarrow> nat \<Rightarrow> bool option" where
  "is_long_term_reference s i = any_pic s i (\<lambda>p. pic_used_for_reference p \<and> pic_is_long_term p)"

text \<open>The reference array after an update: the stores found, null up to the size of the
  buffer, and then every null entry replaced by the dummy store.\<close>

definition fill_list :: "nat \<Rightarrow> nat list \<Rightarrow> nat option list \<Rightarrow> nat option list" where
  "fill_list sz ids old =
     map (\<lambda>r. case r of None \<Rightarrow> Some dummy_fs | Some i \<Rightarrow> Some i)
       (map Some ids @ replicate (sz - length ids) None @ drop (max (length ids) sz) old)"

definition update_ref_list :: "h264_dpb \<Rightarrow> h264_dpb option" where
  "update_ref_list s = do {
     ids \<leftarrow> filter_opt (is_short_term_reference s) (used_fs s);
     Some (s\<lparr>dpb_fs_ref := fill_list (dpb_size s) ids (dpb_fs_ref s), ref_frames_in_buffer := length ids\<rparr>)
   }"

definition update_ltref_list :: "h264_dpb \<Rightarrow> h264_dpb option" where
  "update_ltref_list s = do {
     ids \<leftarrow> filter_opt (is_long_term_reference s) (used_fs s);
     Some (s\<lparr>dpb_fs_ltref := fill_list (dpb_size s) ids (dpb_fs_ltref s), ltref_frames_in_buffer := length ids\<rparr>)
   }"

definition ref_list :: "h264_dpb \<Rightarrow> nat option list" where
  "ref_list s = take (ref_frames_in_buffer s) (dpb_fs_ref s)"

definition ltref_list :: "h264_dpb \<Rightarrow> nat option list" where
  "ltref_list s = take (ltref_frames_in_buffer s) (dpb_fs_ltref s)"

section \<open>Picture numbers\<close>

definition dpb_error :: "int \<Rightarrow> h264_dpb \<Rightarrow> h264_dpb" where
  "dpb_error line s = s\<lparr>dpb_error_flag := line\<rparr>"

definition wrapped_frame_num :: "h264_dpb \<Rightarrow> FrameStore \<Rightarrow> int" where
  "wrapped_frame_num s f =
     (let max_num = 2 ^ nat (log2_max_frame_num_minus4 (mSPS s) + 4)
      in if fs_frame_num f > u32 (sl_frame_num (mSlice s)) then s32 (fs_frame_num f - max_num)
         else s32 (fs_frame_num f))"

definition frame_num_step :: "nat option \<Rightarrow> h264_dpb \<Rightarrow> h264_dpb" where
  "frame_num_step r s =
     (case r of None \<Rightarrow> dpb_error 1914 s
      | Some i \<Rightarrow> (case fs_frame (mFrameStore s i) of None \<Rightarrow> dpb_error 1914 s
        | Some fr \<Rightarrow>
            if fs_is_used (mFrameStore s i) = 3 \<and> pic_used_for_reference (m_PIC s fr) \<and> \<not> pic_is_long_term (m_PIC s fr)
            then let w = wrapped_frame_num s (mFrameStore s i)
                 in upd_pic fr (\<lambda>p. p\<lparr>pic_pic_num := w\<rparr>) (upd_fs i (\<lambda>f. f\<lparr>fs_frame_num_wrap := w\<rparr>) s)
            else s))"

definition frame_lt_num_step :: "nat option \<Rightarrow> h264_dpb \<Rightarrow> h264_dpb" where
  "frame_lt_num_step r s =
     (case r of None \<Rightarrow> dpb_error 1944 s
      | Some i \<Rightarrow> (case fs_frame (mFrameStore s i) of None \<Rightarrow> dpb_error 1944 s
        | Some fr \<Rightarrow>
            if fs_is_used (mFrameStore s i) = 3 \<and> pic_is_long_term (m_PIC s fr)
            then upd_pic fr (\<lambda>p. p\<lparr>pic_long_term_pic_num := pic_long_term_frame_idx p\<rparr>) s
            else s))"

definition field_num_step :: "int \<Rightarrow> int \<Rightarrow> nat option \<Rightarrow> h264_dpb \<Rightarrow> h264_dpb" where
  "field_num_step add_top add_bottom r s =
     (case r of None \<Rightarrow> dpb_error 1969 s
      | Some i \<Rightarrow>
          let f = mFrameStore s i; w = wrapped_frame_num s f
          in if fs_is_reference f = 0 then s
             else
               let s = upd_fs i (\<lambda>f. f\<lparr>fs_frame_num_wrap := w\<rparr>) s
               in if fs_is_reference f AND 1 \<noteq> 0 \<and> fs_top_field f = None then dpb_error 1987 s
                  else
                    let s = (if fs_is_reference f AND 1 \<noteq> 0
                             then upd_pic_if (fs_top_field f) (\<lambda>p. p\<lparr>pic_pic_num := s32 (2 * w + add_top)\<rparr>) s else s)
                    in if fs_is_reference f AND 2 \<noteq> 0 then
                         (if fs_bottom_field f = None then dpb_error 2000 s
                          else upd_pic_if (fs_bottom_field f) (\<lambda>p. p\<lparr>pic_pic_num := s32 (2 * w + add_bottom)\<rparr>) s)
                       else s)"

definition field_lt_num_step :: "int \<Rightarrow> int \<Rightarrow> nat option \<Rightarrow> h264_dpb \<Rightarrow> h264_dpb" where
  "field_lt_num_step add_top add_bottom r s =
     (case r of None \<Rightarrow> dpb_error 2015 s
      | Some i \<Rightarrow>
          let f = mFrameStore s i
          in if fs_is_long_term f AND 1 \<noteq> 0 \<and> fs_top_field f = None then dpb_error 2022 s
             else
               let s = (if fs_is_long_term f AND 1 \<noteq> 0
                        then upd_pic_if (fs_top_field f)
                          (\<lambda>p. p\<lparr>pic_long_term_pic_num := s32 (2 * pic_long_term_frame_idx p + add_top)\<rparr>) s else s)
               in if fs_is_long_term f AND 2 \<noteq> 0 then
                    (if fs_bottom_field f = None then dpb_error 2034 s
                     else upd_pic_if (fs_bottom_field f)
                       (\<lambda>p. p\<lparr>pic_long_term_pic_num := s32 (2 * pic_long_term_frame_idx p + add_bottom)\<rparr>) s)
                  else s)"

definition update_pic_num :: "h264_dpb \<Rightarrow> h264_dpb" where
  "update_pic_num s =
     (if sl_structure (mSlice s) = FRAME
      then fold frame_lt_num_step (ltref_list s) (fold frame_num_step (ref_list s) s)
      else
        let add_top = (if sl_structure (mSlice s) = TOP_FIELD then 1 else 0);
            add_bottom = (if sl_structure (mSlice s) = TOP_FIELD then 0 else 1)
        in fold (field_lt_num_step add_top add_bottom) (ltref_list s)
             (fold (field_num_step add_top add_bottom) (ref_list s) s))"

section \<open>Removing frames\<close>

text \<open>The pointers after the store at \<open>pos\<close> has moved to the end of the used
  part.\<close>

definition move_to_end :: "nat \<Rightarrow> nat \<Rightarrow> nat list \<Rightarrow> nat list" where
  "move_to_end used pos fs =
     (map (\<lambda>i. if pos \<le> i \<and> i < used - 1 then fs ! (i + 1) else fs ! i) [0..<length fs]) [used - 1 := fs ! pos]"

definition remove_frame_from_dpb :: "nat \<Rightarrow> h264_dpb \<Rightarrow> h264_dpb option" where
  "remove_frame_from_dpb pos s = do {
     i \<leftarrow> fs_at s pos;
     let f = mFrameStore s i;
     let s = (if fs_is_used f = 3 then
                upd_fs i (\<lambda>f. f\<lparr>fs_frame := None, fs_top_field := None, fs_bottom_field := None\<rparr>)
                  (free_picture (fs_bottom_field f) (free_picture (fs_top_field f) (free_picture (fs_frame f) s)))
              else if fs_is_used f = 2 then
                upd_fs i (\<lambda>f. f\<lparr>fs_bottom_field := None\<rparr>) (free_picture (fs_bottom_field f) s)
              else if fs_is_used f = 1 then
                upd_fs i (\<lambda>f. f\<lparr>fs_top_field := None\<rparr>) (free_picture (fs_top_field f) s)
              else s);
     let s = upd_fs i (\<lambda>f. f\<lparr>fs_data_flag := 0, fs_is_used := 0, fs_is_long_term := 0, fs_is_reference := 0,
          fs_is_orig_reference := 0\<rparr>) s;
     if used_size s = 0 \<or> used_size s > length (dpb_fs s) then None
     else Some (s\<lparr>dpb_fs := move_to_end (used_size s) pos (dpb_fs s), used_size := used_size s - 1\<rparr>)
   }"

definition release_col_step :: "nat \<Rightarrow> h264_dpb \<Rightarrow> h264_dpb option" where
  "release_col_step i s = do {
     r \<leftarrow> is_used_for_reference s i;
     Some (if \<not> r \<and> fs_colocated_buf_index (mFrameStore s i) \<ge> 0
           then upd_fs i (\<lambda>f. f\<lparr>fs_colocated_buf_index := - 1\<rparr>)
                  (release_colocate_buf (fs_colocated_buf_index (mFrameStore s i)) s)
           else s)
   }"

definition unused_at :: "h264_dpb \<Rightarrow> nat \<Rightarrow> bool option" where
  "unused_at s pos = do {
     i \<leftarrow> fs_at s pos;
     if fs_is_output (mFrameStore s i) then map_option Not (is_used_for_reference s i) else Some False
   }"

definition release_buf_spec_num :: "int \<Rightarrow> h264_dpb \<Rightarrow> h264_dpb" where
  "release_buf_spec_num n s = s\<lparr>vdec_calls := vdec_calls s @ [Release_Buf_Spec n]\<rparr>"

definition remove_unused_frame_from_dpb :: "h264_dpb \<Rightarrow> (bool \<times> h264_dpb) option" where
  "remove_unused_frame_from_dpb s = do {
     s \<leftarrow> fold_opt release_col_step (used_fs s) s;
     r \<leftarrow> find_opt (unused_at s) [0..<used_size s];
     case r of
       None \<Rightarrow> Some (False, s)
     | Some pos \<Rightarrow> do {
         i \<leftarrow> fs_at s pos;
         let s = release_buf_spec_num (fs_buf_spec_num (mFrameStore s i)) s;
         let s = upd_fs i (\<lambda>f. f\<lparr>fs_buf_spec_num := - 1\<rparr>) s;
         s \<leftarrow> remove_frame_from_dpb pos s;
         Some (True, s)
       }
   }"

partial_function (option) remove_all_unused :: "h264_dpb \<Rightarrow> h264_dpb option" where
  "remove_all_unused s = do {
     (ret, s) \<leftarrow> remove_unused_frame_from_dpb s;
     if ret then remove_all_unused s else Some s
   }"

definition unmark_one_error_out_frame :: "h264_dpb \<Rightarrow> (bool \<times> h264_dpb) option" where
  "unmark_one_error_out_frame s =
     (case find (\<lambda>i. fs_is_output (mFrameStore s i) \<and>
         (fs_data_flag (mFrameStore s i) AND ERROR_FLAG \<noteq> 0 \<or> fs_data_flag (mFrameStore s i) AND NULL_FLAG \<noteq> 0))
         (used_fs s) of
        None \<Rightarrow> Some (False, s)
      | Some i \<Rightarrow> map_option (Pair True) (unmark_for_reference i s))"

definition unmark_if_output :: "nat \<Rightarrow> bool \<times> h264_dpb \<Rightarrow> (bool \<times> h264_dpb) option" where
  "unmark_if_output i rs =
     (case rs of (r, s) \<Rightarrow>
        if fs_is_output (mFrameStore s i) then map_option (Pair True) (unmark_for_reference i s) else Some (r, s))"

definition unmark_one_out_frame :: "h264_dpb \<Rightarrow> (bool \<times> h264_dpb) option" where
  "unmark_one_out_frame s = fold_opt unmark_if_output (used_fs s) (False, s)"

definition bufmgr_h264_remove_unused_frame :: "int \<Rightarrow> h264_dpb \<Rightarrow> h264_dpb option" where
  "bufmgr_h264_remove_unused_frame force_flag s = do {
     (ret, s) \<leftarrow> remove_unused_frame_from_dpb s;
     if ret then remove_all_unused s
     else if force_flag = 2 \<or> force_flag = 1 then do {
       (ret, s) \<leftarrow> (if force_flag = 2 then unmark_one_out_frame s else unmark_one_error_out_frame s);
       if ret then do {
         s \<leftarrow> update_ref_list s;
         (ret, s) \<leftarrow> remove_unused_frame_from_dpb s;
         Some s
       }
       else Some s
     }
     else Some s
   }"

definition is_there_unused_frame_from_dpb :: "h264_dpb \<Rightarrow> bool option" where
  "is_there_unused_frame_from_dpb s = map_option (\<lambda>r. r \<noteq> None) (find_opt (unused_at s) [0..<used_size s])"

section \<open>Output\<close>

definition waiting :: "FrameStore \<Rightarrow> bool" where
  "waiting f \<longleftrightarrow> \<not> fs_is_output f \<and> \<not> fs_pre_output f"

text \<open>The loop of \<open>get_smallest_poc\<close> from position \<open>i\<close>.\<close>

fun smallest_poc :: "FrameStore list \<Rightarrow> nat \<Rightarrow> int \<times> nat option \<Rightarrow> int \<times> nat option" where
  "smallest_poc [] i acc = acc"
| "smallest_poc (f # fs) i (poc, pos) =
     smallest_poc fs (i + 1) (if poc > fs_poc f \<and> waiting f then (fs_poc f, Some i) else (poc, pos))"

text \<open>The lock of the buffer specifications exists: the early return for a decoder without one is
  left out.\<close>

definition get_smallest_poc :: "h264_dpb \<Rightarrow> int \<times> nat option" where
  "get_smallest_poc s = smallest_poc (map (mFrameStore s) (used_fs s)) 0 (INT_MAX, None)"

text \<open>One store in the loop of \<open>output_frames\<close>: the number of frames not yet
  displayed, the fast output flag, and the fields of the buffer the loop sets.\<close>

definition count_step :: "nat \<Rightarrow> int \<times> bool \<times> h264_dpb \<Rightarrow> int \<times> bool \<times> h264_dpb" where
  "count_step i a =
     (case a of (n, fast, s) \<Rightarrow>
      let f = mFrameStore s i
      in if waiting f \<and> (fs_is_used f = 3 \<or> fs_data_flag f AND ERROR_FLAG \<noteq> 0) then
           let first = (first_insert_frame s = FirstInsertFrm_IDLE \<or> first_insert_frame s = FirstInsertFrm_RESET) \<and>
                 fs_is_used f = 3 \<and> last_output_poc s = INT_MIN;
               fast = (fast \<or> first \<and> first_insert_frame s = FirstInsertFrm_IDLE);
               s = (if first then s\<lparr>first_insert_frame := FirstInsertFrm_OUT, first_output_poc := fs_poc f\<rparr> else s);
               s = (if poc_even_odd_flag s = 0 \<and> decode_pic_count s \<ge> 3 then s\<lparr>poc_even_odd_flag := 2\<rparr> else s);
               s = (if fs_poc f AND 1 \<noteq> 0 then s\<lparr>poc_even_odd_flag := 1\<rparr> else s);
               diff = s32 (fs_poc f - last_output_poc s);
               fast = (fast \<or> fast_output_enable s AND 1 \<noteq> 0 \<and> fs_data_flag f AND IDR_FLAG \<noteq> 0);
               fast = (fast \<or> fast_output_enable s AND 2 \<noteq> 0 \<and> diff = 1);
               fast = (fast \<or> fast_output_enable s AND 4 \<noteq> 0 \<and> poc_even_odd_flag s = 2 \<and> fs_is_used f = 3 \<and> diff = 2)
           in (n + 1, fast, s)
         else (n, fast, s))"

definition first_out_step :: "nat \<Rightarrow> h264_dpb \<Rightarrow> h264_dpb" where
  "first_out_step i s =
     (if first_insert_frame s = FirstInsertFrm_OUT then
        (if fs_poc (mFrameStore s i) < first_output_poc s
         then upd_fs i (\<lambda>f. f\<lparr>fs_data_flag := fs_data_flag f OR NODISP_FLAG\<rparr>) s
         else if last_output_poc s \<noteq> INT_MIN then s\<lparr>first_insert_frame := FirstInsertFrm_SKIPDONE\<rparr>
         else s)
      else s)"

text \<open>\<open>disp\<close> stands for \<open>prepare_display_buf\<close> of the driver: its return code
  and the frame store it leaves.\<close>

definition output_one :: "(h264_dpb \<Rightarrow> nat \<Rightarrow> int \<times> FrameStore) \<Rightarrow> h264_dpb \<Rightarrow> (bool \<times> h264_dpb) option" where
  "output_one disp s =
     (case get_smallest_poc s of
        (poc, None) \<Rightarrow> Some (False, s)
      | (poc, Some pos) \<Rightarrow> do {
          i \<leftarrow> fs_at s pos;
          let s = first_out_step i s;
          let (ret, f) = disp s i;
          let s = upd_fs i (\<lambda>_. f) (s\<lparr>vdec_calls := vdec_calls s @ [Prepare_Display i poc]\<rparr>);
          if ret \<ge> 0 then do {
            let s = (if \<not> without_display_mode s \<and> fs_show_frame f
                     then upd_fs i (\<lambda>f. f\<lparr>fs_pre_output := True\<rparr>) s else s);
            Some (True, s\<lparr>last_output_poc := poc\<rparr>)
          }
          else Some (False, s)
        })"

definition output_frames :: "(h264_dpb \<Rightarrow> nat \<Rightarrow> int \<times> FrameStore) \<Rightarrow> bool \<Rightarrow> h264_dpb \<Rightarrow> (bool \<times> h264_dpb) option" where
  "output_frames disp flush_flag s =
     (if flush_flag then output_one disp s
      else
        let (n, fast, s) = fold count_step (used_fs s) (0, False, s)
        in if \<not> fast \<and> n < reorder_output s then Some (False, s) else output_one disp s)"

partial_function (option) output_all :: "(h264_dpb \<Rightarrow> nat \<Rightarrow> int \<times> FrameStore) \<Rightarrow> bool \<Rightarrow> h264_dpb \<Rightarrow> h264_dpb option" where
  "output_all disp flush_flag s = do {
     (ret, s) \<leftarrow> output_frames disp flush_flag s;
     if ret then output_all disp flush_flag s else Some s
   }"

definition flush_dpb :: "(h264_dpb \<Rightarrow> nat \<Rightarrow> int \<times> FrameStore) \<Rightarrow> h264_dpb \<Rightarrow> h264_dpb option" where
  "flush_dpb disp s =
     (if \<not> init_done s then Some s
      else do {
        s \<leftarrow> fold_opt unmark_for_reference (used_fs s) s;
        s \<leftarrow> remove_all_unused s;
        s \<leftarrow> output_all disp True s;
        Some (s\<lparr>last_output_poc := INT_MIN\<rparr>)
      })"

definition set_frame_output_flag :: "nat \<Rightarrow> h264_dpb \<Rightarrow> h264_dpb" where
  "set_frame_output_flag index s =
     upd_fs index (\<lambda>f. f\<lparr>fs_is_output := True, fs_pre_output := False, fs_show_frame := False\<rparr>) s"

section \<open>Memory management operations\<close>

definition idr_drop_step :: "nat \<Rightarrow> h264_dpb \<Rightarrow> h264_dpb option" where
  "idr_drop_step pos s = do {
     i \<leftarrow> fs_at s pos;
     s \<leftarrow> unmark_for_reference i s;
     s \<leftarrow> (if fs_is_long_term (mFrameStore s i) \<noteq> 0 then unmark_for_long_term_reference i s else Some s);
     Some (if waiting (mFrameStore s i) then set_frame_output_flag pos s else s)
   }"

definition idr_memory_management :: "(h264_dpb \<Rightarrow> nat \<Rightarrow> int \<times> FrameStore) \<Rightarrow> nat \<Rightarrow> h264_dpb \<Rightarrow> h264_dpb option" where
  "idr_memory_management disp p s = do {
     s \<leftarrow> (if pic_no_output_of_prior_pics_flag (m_PIC s p) then fold_opt idr_drop_step [0..<used_size s] s
          else flush_dpb disp s);
     let s = s\<lparr>last_picture := None\<rparr>;
     s \<leftarrow> update_ref_list s;
     s \<leftarrow> update_ltref_list s;
     let s = s\<lparr>last_output_poc := INT_MIN\<rparr>;
     Some (if pic_long_term_reference_flag (m_PIC s p)
           then upd_pic p (\<lambda>x. x\<lparr>pic_is_long_term := True, pic_long_term_frame_idx := 0\<rparr>) (s\<lparr>max_long_term_pic_idx := 0\<rparr>)
           else upd_pic p (\<lambda>x. x\<lparr>pic_is_long_term := False\<rparr>) (s\<lparr>max_long_term_pic_idx := - 1\<rparr>))
   }"

definition sliding_window_memory_management :: "nat \<Rightarrow> h264_dpb \<Rightarrow> h264_dpb option" where
  "sliding_window_memory_management p s = do {
     let sliding_margin = u32 (imax 1 (dpb_num_ref_frames s) - int (ltref_frames_in_buffer s));
     s \<leftarrow> (if int (ref_frames_in_buffer s) = sliding_margin then
            (case find (\<lambda>i. fs_is_reference (mFrameStore s i) \<noteq> 0 \<and> fs_is_long_term (mFrameStore s i) = 0) (used_fs s) of
               None \<Rightarrow> Some s
             | Some i \<Rightarrow> do { s \<leftarrow> unmark_for_reference i s; update_ref_list s })
          else Some s);
     Some (upd_pic p (\<lambda>x. x\<lparr>pic_is_long_term := False\<rparr>) s)
   }"

definition get_pic_num_x :: "StorablePicture \<Rightarrow> int \<Rightarrow> int" where
  "get_pic_num_x p difference =
     (let curr = (if pic_structure p = FRAME then s32 (pic_frame_num p) else s32 (2 * pic_frame_num p + 1))
      in s32 (curr - (difference + 1)))"

text \<open>One field of a store loses its mark: \<open>keep\<close> is the mask of the other
  field.\<close>

definition unmark_field :: "nat \<Rightarrow> int \<Rightarrow> nat \<Rightarrow> h264_dpb \<Rightarrow> h264_dpb" where
  "unmark_field fld keep i s =
     (let s = upd_pic fld pic_unref s;
          s = upd_fs i (\<lambda>f. f\<lparr>fs_is_reference := fs_is_reference f AND keep\<rparr>) s
      in if fs_is_used (mFrameStore s i) = 3 then upd_pic_if (fs_frame (mFrameStore s i)) pic_unref s else s)"

definition mm_unmark_short_bottom :: "bool \<Rightarrow> int \<Rightarrow> nat \<Rightarrow> h264_dpb \<Rightarrow> (bool \<times> h264_dpb) option" where
  "mm_unmark_short_bottom cand picNumX i s =
     (if \<not> cand then Some (False, s)
      else case fs_bottom_field (mFrameStore s i) of
             None \<Rightarrow> Some (False, dpb_error 2891 s)
           | Some b \<Rightarrow> if pic_pic_num (m_PIC s b) = picNumX then Some (True, unmark_field b 1 i s) else Some (False, s))"

definition mm_unmark_short_step :: "PictureStructure \<Rightarrow> int \<Rightarrow> nat option \<Rightarrow> h264_dpb \<Rightarrow> (bool \<times> h264_dpb) option" where
  "mm_unmark_short_step structure picNumX r s =
     (case r of None \<Rightarrow> Some (False, dpb_error 2842 s)
      | Some i \<Rightarrow>
        let f = mFrameStore s i
        in if structure = FRAME then
             (if fs_is_reference f = 3 \<and> fs_is_long_term f = 0 then
                (case fs_frame f of None \<Rightarrow> Some (False, dpb_error 2851 s)
                 | Some fr \<Rightarrow> if pic_pic_num (m_PIC s fr) = picNumX
                              then map_option (Pair True) (unmark_for_reference i s) else Some (False, s))
              else Some (False, s))
           else
             let top_cand = fs_is_reference f AND 1 \<noteq> 0 \<and> fs_is_long_term f AND 1 = 0;
                 btm_cand = fs_is_reference f AND 2 \<noteq> 0 \<and> fs_is_long_term f AND 2 = 0
             in case fs_top_field f of
                  None \<Rightarrow> if top_cand then Some (False, dpb_error 2867 s)
                          else mm_unmark_short_bottom btm_cand picNumX i s
                | Some t \<Rightarrow> if top_cand \<and> pic_pic_num (m_PIC s t) = picNumX then Some (True, unmark_field t 2 i s)
                            else mm_unmark_short_bottom btm_cand picNumX i s)"

definition mm_unmark_short_term_for_reference :: "nat \<Rightarrow> int \<Rightarrow> h264_dpb \<Rightarrow> h264_dpb option" where
  "mm_unmark_short_term_for_reference p difference s =
     loop_until (mm_unmark_short_step (pic_structure (m_PIC s p)) (get_pic_num_x (m_PIC s p) difference))
       (ref_list s) s"

text \<open>One field of a long-term store loses both marks.\<close>

definition unmark_field_lt :: "nat \<Rightarrow> int \<Rightarrow> nat \<Rightarrow> h264_dpb \<Rightarrow> h264_dpb option" where
  "unmark_field_lt fld keep i s = do {
     let s = upd_pic fld pic_unref_lt s;
     let s = upd_fs i (\<lambda>f. f\<lparr>fs_is_reference := fs_is_reference f AND keep, fs_is_long_term := fs_is_long_term f AND keep\<rparr>) s;
     if fs_is_used (mFrameStore s i) = 3 then do {
       fr \<leftarrow> fs_frame (mFrameStore s i);
       Some (upd_pic fr pic_unref_lt s)
     }
     else Some s
   }"

definition mm_unmark_long_bottom :: "int \<Rightarrow> nat \<Rightarrow> h264_dpb \<Rightarrow> (bool \<times> h264_dpb) option" where
  "mm_unmark_long_bottom num i s =
     (if fs_is_reference (mFrameStore s i) AND 2 \<noteq> 0 \<and> fs_is_long_term (mFrameStore s i) AND 2 \<noteq> 0 then do {
        b \<leftarrow> fs_bottom_field (mFrameStore s i);
        if pic_long_term_pic_num (m_PIC s b) = num then map_option (Pair True) (unmark_field_lt b 1 i s)
        else Some (False, s)
      }
      else Some (False, s))"

definition mm_unmark_long_step :: "PictureStructure \<Rightarrow> int \<Rightarrow> nat option \<Rightarrow> h264_dpb \<Rightarrow> (bool \<times> h264_dpb) option" where
  "mm_unmark_long_step structure num r s = do {
     i \<leftarrow> r;
     let f = mFrameStore s i;
     if structure = FRAME then
       (if fs_is_reference f = 3 \<and> fs_is_long_term f = 3 then do {
          fr \<leftarrow> fs_frame f;
          if pic_long_term_pic_num (m_PIC s fr) = num
          then map_option (Pair False) (unmark_for_long_term_reference i s) else Some (False, s)
        }
        else Some (False, s))
     else if fs_is_reference f AND 1 \<noteq> 0 \<and> fs_is_long_term f AND 1 \<noteq> 0 then do {
       t \<leftarrow> fs_top_field f;
       if pic_long_term_pic_num (m_PIC s t) = num then map_option (Pair True) (unmark_field_lt t 2 i s)
       else mm_unmark_long_bottom num i s
     }
     else mm_unmark_long_bottom num i s
   }"

definition mm_unmark_long_term_for_reference :: "nat \<Rightarrow> int \<Rightarrow> h264_dpb \<Rightarrow> h264_dpb option" where
  "mm_unmark_long_term_for_reference p num s =
     loop_until (mm_unmark_long_step (pic_structure (m_PIC s p)) num) (ltref_list s) s"

text \<open>\<open>unmark_long_term_frame_for_reference_by_frame_idx\<close>, one entry.\<close>

definition unmark_lt_frame_step :: "int \<Rightarrow> nat option \<Rightarrow> h264_dpb \<Rightarrow> h264_dpb option" where
  "unmark_lt_frame_step idx r s = do {
     i \<leftarrow> r;
     if fs_long_term_frame_idx (mFrameStore s i) = idx then unmark_for_long_term_reference i s else Some s
   }"

definition unmark1 :: "nat \<Rightarrow> h264_dpb \<Rightarrow> h264_dpb option" where
  "unmark1 i s = (if last_picture s \<noteq> None then unmark_for_long_term_reference i s else Some s)"

definition unmark2 :: "int \<Rightarrow> nat \<Rightarrow> h264_dpb \<Rightarrow> h264_dpb option" where
  "unmark2 curr_pic_num i s =
     (if fs_frame_num (mFrameStore s i) \<noteq> u32 (drop_bit 1 curr_pic_num) then unmark_for_long_term_reference i s
      else Some s)"

definition unmark3_top :: "int \<Rightarrow> bool \<Rightarrow> nat \<Rightarrow> h264_dpb \<Rightarrow> h264_dpb option" where
  "unmark3_top curr_pic_num mark_current i s =
     (if fs_is_long_term (mFrameStore s i) = 3 then unmark_for_long_term_reference i s
      else if fs_is_long_term (mFrameStore s i) = 1 then unmark_for_long_term_reference i s
      else if mark_current then unmark1 i s
      else unmark2 curr_pic_num i s)"

definition unmark3_bottom :: "int \<Rightarrow> bool \<Rightarrow> nat \<Rightarrow> h264_dpb \<Rightarrow> h264_dpb option" where
  "unmark3_bottom curr_pic_num mark_current i s =
     (if fs_is_long_term (mFrameStore s i) = 2 then unmark_for_long_term_reference i s
      else if mark_current then unmark1 i s
      else unmark2 curr_pic_num i s)"

definition unmark_lt_field_step :: "PictureStructure \<Rightarrow> int \<Rightarrow> bool \<Rightarrow> int \<Rightarrow> nat option \<Rightarrow> h264_dpb \<Rightarrow> h264_dpb option" where
  "unmark_lt_field_step structure idx mark_current curr_pic_num r s = do {
     i \<leftarrow> r;
     if fs_long_term_frame_idx (mFrameStore s i) = idx then
       (case structure of
          TOP_FIELD \<Rightarrow> unmark3_top curr_pic_num mark_current i s
        | BOTTOM_FIELD \<Rightarrow> unmark3_bottom curr_pic_num mark_current i s
        | FRAME \<Rightarrow> Some s)
     else Some s
   }"

definition unmark_long_term_frame_for_reference_by_frame_idx :: "int \<Rightarrow> h264_dpb \<Rightarrow> h264_dpb option" where
  "unmark_long_term_frame_for_reference_by_frame_idx idx s = fold_opt (unmark_lt_frame_step idx) (ltref_list s) s"

definition unmark_long_term_field_for_reference_by_frame_idx
  :: "PictureStructure \<Rightarrow> int \<Rightarrow> bool \<Rightarrow> int \<Rightarrow> h264_dpb \<Rightarrow> h264_dpb option" where
  "unmark_long_term_field_for_reference_by_frame_idx structure idx mark_current curr_pic_num s =
     (let num = (if curr_pic_num < 0 then s32 (curr_pic_num + 2 * max_frame_num (mVideo s)) else curr_pic_num)
      in fold_opt (unmark_lt_field_step structure idx mark_current num) (ltref_list s) s)"

definition lt_mark :: "int \<Rightarrow> int \<Rightarrow> StorablePicture \<Rightarrow> StorablePicture" where
  "lt_mark idx num p = p\<lparr>pic_long_term_frame_idx := idx, pic_long_term_pic_num := num, pic_is_long_term := True\<rparr>"

text \<open>\<open>mark_pic_long_term\<close>, one entry of the list, for a frame and for a field.\<close>

definition mark_frame_step :: "int \<Rightarrow> int \<Rightarrow> nat option \<Rightarrow> h264_dpb \<Rightarrow> (bool \<times> h264_dpb) option" where
  "mark_frame_step idx picNumX r s =
     (case r of None \<Rightarrow> Some (False, dpb_error 3099 s)
      | Some i \<Rightarrow>
        let f = mFrameStore s i
        in if fs_is_reference f = 3 then
             (case fs_frame f of None \<Rightarrow> Some (False, dpb_error 3106 s)
              | Some fr \<Rightarrow>
                  if \<not> pic_is_long_term (m_PIC s fr) \<and> pic_pic_num (m_PIC s fr) = picNumX then
                    let s = upd_fs i (\<lambda>f. f\<lparr>fs_long_term_frame_idx := idx\<rparr>) s;
                        s = upd_pic fr (lt_mark idx idx) s;
                        s = (if fs_top_field f \<noteq> None \<and> fs_bottom_field f \<noteq> None
                             then upd_pic_if (fs_bottom_field f) (lt_mark idx idx) (upd_pic_if (fs_top_field f) (lt_mark idx idx) s)
                             else s)
                    in Some (True, upd_fs i (\<lambda>f. f\<lparr>fs_is_long_term := 3\<rparr>) s)
                  else Some (False, s))
           else Some (False, s))"

definition mark_field :: "int \<Rightarrow> int \<Rightarrow> int \<Rightarrow> nat \<Rightarrow> nat \<Rightarrow> h264_dpb \<Rightarrow> h264_dpb" where
  "mark_field idx add m fld i s =
     (let s = upd_fs i (\<lambda>f. f\<lparr>fs_long_term_frame_idx := idx, fs_is_long_term := fs_is_long_term f OR m\<rparr>) s;
          s = upd_pic fld (lt_mark idx (s32 (2 * idx + add))) s
      in if fs_is_long_term (mFrameStore s i) = 3 then upd_pic_if (fs_frame (mFrameStore s i)) (lt_mark idx idx) s
         else s)"

definition mark_bottom_step :: "int \<Rightarrow> int \<Rightarrow> int \<Rightarrow> nat \<Rightarrow> h264_dpb \<Rightarrow> bool \<times> h264_dpb" where
  "mark_bottom_step idx picNumX add_bottom i s =
     (if fs_is_reference (mFrameStore s i) AND 2 \<noteq> 0 then
        (case fs_bottom_field (mFrameStore s i) of None \<Rightarrow> (False, dpb_error 3226 s)
         | Some b \<Rightarrow> if \<not> pic_is_long_term (m_PIC s b) \<and> pic_pic_num (m_PIC s b) = picNumX
                      then (True, mark_field idx add_bottom 2 b i s) else (False, s))
      else (False, s))"

definition mark_field_step :: "PictureStructure \<Rightarrow> int \<Rightarrow> int \<Rightarrow> nat option \<Rightarrow> h264_dpb \<Rightarrow> (bool \<times> h264_dpb) option" where
  "mark_field_step structure idx picNumX r s =
     (case r of None \<Rightarrow> Some (False, dpb_error 3167 s)
      | Some i \<Rightarrow>
        let add_top = (if structure = TOP_FIELD then 1 else 0);
            add_bottom = (if structure = TOP_FIELD then 0 else 1)
        in if fs_is_reference (mFrameStore s i) AND 1 \<noteq> 0 then
             (case fs_top_field (mFrameStore s i) of None \<Rightarrow> Some (False, dpb_error 3174 s)
              | Some t \<Rightarrow> if \<not> pic_is_long_term (m_PIC s t) \<and> pic_pic_num (m_PIC s t) = picNumX
                           then Some (True, mark_field idx add_top 1 t i s)
                           else Some (mark_bottom_step idx picNumX add_bottom i s))
           else Some (mark_bottom_step idx picNumX add_bottom i s))"

definition mark_pic_long_term :: "nat \<Rightarrow> int \<Rightarrow> int \<Rightarrow> h264_dpb \<Rightarrow> h264_dpb option" where
  "mark_pic_long_term p idx picNumX s =
     (if pic_structure (m_PIC s p) = FRAME then loop_until (mark_frame_step idx picNumX) (ref_list s) s
      else loop_until (mark_field_step (pic_structure (m_PIC s p)) idx picNumX) (ref_list s) s)"

text \<open>The search of \<open>mm_assign_long_term_frame_idx\<close> for the parity of the field
  with the given number; the structure stays \<open>FRAME\<close> when there is none.\<close>

fun find_field_structure :: "int \<Rightarrow> nat option list \<Rightarrow> h264_dpb \<Rightarrow> PictureStructure \<times> h264_dpb" where
  "find_field_structure num [] s = (FRAME, s)"
| "find_field_structure num (None # rs) s = find_field_structure num rs (dpb_error 3307 s)"
| "find_field_structure num (Some i # rs) s =
     (let f = mFrameStore s i
      in if fs_is_reference f AND 1 \<noteq> 0 \<and> fs_top_field f = None then find_field_structure num rs (dpb_error 3314 s)
         else if fs_is_reference f AND 1 \<noteq> 0 \<and> opt_pic s (fs_top_field f) (\<lambda>p. pic_pic_num p = num) then (TOP_FIELD, s)
         else if fs_is_reference f AND 2 \<noteq> 0 \<and> fs_bottom_field f = None then find_field_structure num rs (dpb_error 3327 s)
         else if fs_is_reference f AND 2 \<noteq> 0 \<and> opt_pic s (fs_bottom_field f) (\<lambda>p. pic_pic_num p = num) then (BOTTOM_FIELD, s)
         else find_field_structure num rs s)"

definition mm_assign_long_term_frame_idx :: "nat \<Rightarrow> int \<Rightarrow> int \<Rightarrow> h264_dpb \<Rightarrow> h264_dpb option" where
  "mm_assign_long_term_frame_idx p difference idx s = do {
     let picNumX = get_pic_num_x (m_PIC s p) difference;
     s \<leftarrow> (if pic_structure (m_PIC s p) = FRAME then unmark_long_term_frame_for_reference_by_frame_idx idx s
          else do {
            let (structure, s) = find_field_structure picNumX (ref_list s) s;
            unmark_long_term_field_for_reference_by_frame_idx structure idx False picNumX s
          });
     mark_pic_long_term p idx picNumX s
   }"

definition unmark_above_step :: "nat option \<Rightarrow> h264_dpb \<Rightarrow> h264_dpb option" where
  "unmark_above_step r s = do {
     i \<leftarrow> r;
     if fs_long_term_frame_idx (mFrameStore s i) > max_long_term_pic_idx s then unmark_for_long_term_reference i s
     else Some s
   }"

definition mm_update_max_long_term_frame_idx :: "int \<Rightarrow> h264_dpb \<Rightarrow> h264_dpb option" where
  "mm_update_max_long_term_frame_idx max_plus1 s =
     (let s = s\<lparr>max_long_term_pic_idx := s32 (max_plus1 - 1)\<rparr>
      in fold_opt unmark_above_step (ltref_list s) s)"

definition mm_unmark_all_long_term_for_reference :: "h264_dpb \<Rightarrow> h264_dpb option" where
  "mm_unmark_all_long_term_for_reference s = mm_update_max_long_term_frame_idx 0 s"

definition unmark_entry :: "nat option \<Rightarrow> h264_dpb \<Rightarrow> h264_dpb option" where
  "unmark_entry r s = do { i \<leftarrow> r; unmark_for_reference i s }"

definition mm_unmark_all_short_term_for_reference :: "h264_dpb \<Rightarrow> h264_dpb option" where
  "mm_unmark_all_short_term_for_reference s = do {
     s \<leftarrow> fold_opt unmark_entry (ref_list s) s;
     update_ref_list s
   }"

definition mm_mark_current_picture_long_term :: "nat \<Rightarrow> int \<Rightarrow> h264_dpb \<Rightarrow> h264_dpb option" where
  "mm_mark_current_picture_long_term p idx s = do {
     s \<leftarrow> (if pic_structure (m_PIC s p) = FRAME then unmark_long_term_frame_for_reference_by_frame_idx idx s
          else unmark_long_term_field_for_reference_by_frame_idx (pic_structure (m_PIC s p)) idx True 0 s);
     Some (upd_pic p (\<lambda>x. x\<lparr>pic_is_long_term := True, pic_long_term_frame_idx := idx\<rparr>) s)
   }"

definition adaptive_op :: "nat \<Rightarrow> DecRefPicMarking \<Rightarrow> h264_dpb \<Rightarrow> h264_dpb option" where
  "adaptive_op p d s =
     (let op = memory_management_control_operation d
      in if op = 1 then do {
           s \<leftarrow> mm_unmark_short_term_for_reference p (difference_of_pic_nums_minus1 d) s;
           update_ref_list s
         }
         else if op = 2 then do {
           s \<leftarrow> mm_unmark_long_term_for_reference p (long_term_pic_num d) s;
           update_ltref_list s
         }
         else if op = 3 then do {
           s \<leftarrow> mm_assign_long_term_frame_idx p (difference_of_pic_nums_minus1 d) (long_term_frame_idx d) s;
           s \<leftarrow> update_ref_list s;
           update_ltref_list s
         }
         else if op = 4 then do {
           s \<leftarrow> mm_update_max_long_term_frame_idx (max_long_term_frame_idx_plus1 d) s;
           update_ltref_list s
         }
         else if op = 5 then do {
           s \<leftarrow> mm_unmark_all_short_term_for_reference s;
           s \<leftarrow> mm_unmark_all_long_term_for_reference s;
           Some (s\<lparr>mVideo := (mVideo s)\<lparr>last_has_mmco_5 := True\<rparr>\<rparr>)
         }
         else if op = 6 then mm_mark_current_picture_long_term p (long_term_frame_idx d) s
         else Some s)"

fun adaptive_ops :: "nat \<Rightarrow> DecRefPicMarking list \<Rightarrow> h264_dpb \<Rightarrow> h264_dpb option" where
  "adaptive_ops p [] s = Some s"
| "adaptive_ops p (d # ds) s = do {
     s \<leftarrow> adaptive_op p d s;
     adaptive_ops p ds (upd_pic p (\<lambda>x. x\<lparr>pic_dec_ref_pic_marking_buffer := ds\<rparr>) s)
   }"

definition mmco5_pic :: "StorablePicture \<Rightarrow> StorablePicture" where
  "mmco5_pic x =
     (let x = x\<lparr>pic_pic_num := 0, pic_frame_num := 0\<rparr>
      in case pic_structure x of
           TOP_FIELD \<Rightarrow> x\<lparr>pic_poc := 0, pic_top_poc := 0\<rparr>
         | BOTTOM_FIELD \<Rightarrow> x\<lparr>pic_poc := 0, pic_bottom_poc := 0\<rparr>
         | FRAME \<Rightarrow>
             let tp = s32 (pic_top_poc x - pic_poc x); btm = s32 (pic_bottom_poc x - pic_poc x)
             in x\<lparr>pic_top_poc := tp, pic_bottom_poc := btm, pic_poc := imin tp btm\<rparr>)"

definition adaptive_memory_management :: "(h264_dpb \<Rightarrow> nat \<Rightarrow> int \<times> FrameStore) \<Rightarrow> nat \<Rightarrow> h264_dpb \<Rightarrow> h264_dpb option" where
  "adaptive_memory_management disp p s = do {
     let s = s\<lparr>mVideo := (mVideo s)\<lparr>last_has_mmco_5 := False\<rparr>\<rparr>;
     s \<leftarrow> adaptive_ops p (pic_dec_ref_pic_marking_buffer (m_PIC s p)) s;
     if last_has_mmco_5 (mVideo s) then flush_dpb disp (upd_pic p mmco5_pic s) else Some s
   }"

section \<open>Storing a picture\<close>

text \<open>The first field of the frame is in \<open>last_picture\<close> and this picture is its
  second field.\<close>

definition second_field_of_last :: "nat \<Rightarrow> h264_dpb \<Rightarrow> nat option" where
  "second_field_of_last p s =
     (case last_picture s of None \<Rightarrow> None
      | Some l \<Rightarrow>
          let x = m_PIC s p; f = mFrameStore s l
          in if pic_structure x \<noteq> FRAME \<and> s32 (fs_frame_num f) = pic_pic_num x \<and>
                (pic_structure x = TOP_FIELD \<and> fs_is_used f = 2 \<or> pic_structure x = BOTTOM_FIELD \<and> fs_is_used f = 1) \<and>
                (pic_used_for_reference x \<and> fs_is_orig_reference f \<noteq> 0 \<or>
                 \<not> pic_used_for_reference x \<and> fs_is_orig_reference f = 0)
             then Some l else None)"

definition store_second_field
  :: "(h264_dpb \<Rightarrow> nat \<Rightarrow> int \<times> FrameStore) \<Rightarrow> nat \<Rightarrow> nat \<Rightarrow> int \<Rightarrow> h264_dpb \<Rightarrow> (int \<times> h264_dpb) option" where
  "store_second_field disp l p data_flag s = do {
     s \<leftarrow> insert_picture_in_dpb l p data_flag s;
     s \<leftarrow> update_ref_list s;
     s \<leftarrow> update_ltref_list s;
     let s = s\<lparr>last_picture := None\<rparr>;
     s \<leftarrow> (if first_insert_frame s = FirstInsertFrm_IDLE then output_all disp False s else Some s);
     Some (0, s)
   }"

text \<open>The search for a duplicate frame number. The list is the loop index; the bound of
  the loop is read anew, because unmarking a duplicate updates the reference list.\<close>

fun duplicate_scan :: "nat \<Rightarrow> nat list \<Rightarrow> h264_dpb \<Rightarrow> (bool \<times> h264_dpb) option" where
  "duplicate_scan p [] s = (if ref_frames_in_buffer s \<le> DPB_SIZE_MAX then Some (False, s) else None)"
| "duplicate_scan p (i # is) s =
     (if i \<ge> ref_frames_in_buffer s then Some (False, s)
      else if i \<ge> length (dpb_fs_ref s) then None
      else case dpb_fs_ref s ! i of
             None \<Rightarrow> duplicate_scan p is s
           | Some j \<Rightarrow>
               if fs_frame_num (mFrameStore s j) = pic_frame_num (m_PIC s p) then
                 (if fs_dpb_frame_count (mFrameStore s j) = dpb_frame_count s then Some (True, s)
                  else do {
                    s \<leftarrow> unmark_for_reference j s;
                    s \<leftarrow> update_ref_list s;
                    duplicate_scan p is s
                  })
               else duplicate_scan p is s)"

definition conceal_step :: "nat \<Rightarrow> h264_dpb \<Rightarrow> h264_dpb option" where
  "conceal_step pos s = do {
     i \<leftarrow> fs_at s pos;
     Some (if fs_is_reference (mFrameStore s i) \<noteq> 0 then upd_fs i (\<lambda>f. f\<lparr>fs_concealment_reference := True\<rparr>) s else s)
   }"

text \<open>The part of \<open>store_picture_in_dpb\<close> that puts the picture into a new
  store.\<close>

definition store_at_end
  :: "(h264_dpb \<Rightarrow> nat \<Rightarrow> int \<times> FrameStore) \<Rightarrow> nat \<Rightarrow> int \<Rightarrow> h264_dpb \<Rightarrow> (int \<times> h264_dpb) option" where
  "store_at_end disp p data_flag s =
     (if used_size s \<ge> dpb_size s then Some (- 1, s)
      else do {
        i \<leftarrow> fs_at s (used_size s);
        s \<leftarrow> insert_picture_in_dpb i p data_flag s;
        let s = (if pic_idr_flag (m_PIC s p) then s\<lparr>mVideo := (mVideo s)\<lparr>earlier_missing_poc := 0\<rparr>\<rparr> else s);
        let s = s\<lparr>last_picture := (if pic_structure (m_PIC s p) \<noteq> FRAME then Some i else None),
             used_size := used_size s + 1\<rparr>;
        s \<leftarrow> update_ref_list s;
        s \<leftarrow> update_ltref_list s;
        let fast = (fast_output_enable s = 8);
        s \<leftarrow> (if fast \<or> first_insert_frame s \<noteq> FirstInsertFrm_SKIPDONE then output_all disp fast s else Some s);
        Some (0, s\<lparr>first_pic_done := True\<rparr>)
      })"

definition store_new
  :: "(h264_dpb \<Rightarrow> nat \<Rightarrow> int \<times> FrameStore) \<Rightarrow> nat \<Rightarrow> int \<Rightarrow> h264_dpb \<Rightarrow> (int \<times> h264_dpb) option" where
  "store_new disp p data_flag s = do {
     s \<leftarrow> (if \<not> pic_idr_flag (m_PIC s p) \<and> pic_used_for_reference (m_PIC s p) \<and>
             \<not> pic_adaptive_ref_pic_buffering_flag (m_PIC s p)
          then sliding_window_memory_management p s else Some s);
     s \<leftarrow> (if conceal_mode (mVideo s) \<noteq> 0 then fold_opt conceal_step [0..<dpb_size s] s else Some s);
     s \<leftarrow> remove_all_unused s;
     s \<leftarrow> output_all disp False s;
     (dup, s) \<leftarrow> (if pic_used_for_reference (m_PIC s p) \<and> \<not> pic_is_long_term (m_PIC s p)
        then duplicate_scan p [0..<DPB_SIZE_MAX] s else Some (False, s));
     if dup then Some (- 2, s) else store_at_end disp p data_flag s
   }"

definition store_mark
  :: "(h264_dpb \<Rightarrow> nat \<Rightarrow> int \<times> FrameStore) \<Rightarrow> nat \<Rightarrow> h264_dpb \<Rightarrow> h264_dpb option" where
  "store_mark disp p s =
     (let s = s\<lparr>mVideo := (mVideo s)\<lparr>last_has_mmco_5 := False,
            last_pic_bottom_field := (pic_structure (m_PIC s p) = BOTTOM_FIELD)\<rparr>\<rparr>
      in if pic_idr_flag (m_PIC s p) then do {
           s \<leftarrow> idr_memory_management disp p s;
           Some (if first_insert_frame s = FirstInsertFrm_OUT then s\<lparr>first_insert_frame := FirstInsertFrm_SKIPDONE\<rparr> else s)
         }
         else if pic_used_for_reference (m_PIC s p) \<and> pic_adaptive_ref_pic_buffering_flag (m_PIC s p)
         then adaptive_memory_management disp p s
         else Some s)"

definition store_picture_in_dpb
  :: "(h264_dpb \<Rightarrow> nat \<Rightarrow> int \<times> FrameStore) \<Rightarrow> nat \<Rightarrow> int \<Rightarrow> h264_dpb \<Rightarrow> (int \<times> h264_dpb) option" where
  "store_picture_in_dpb disp p data_flag s = do {
     s \<leftarrow> store_mark disp p s;
     case second_field_of_last p s of
       Some l \<Rightarrow> store_second_field disp l p data_flag s
     | None \<Rightarrow> store_new disp p data_flag s
   }"

definition bufmgr_post :: "h264_dpb \<Rightarrow> h264_dpb" where
  "bufmgr_post s = (if last_has_mmco_5 (mVideo s) then s\<lparr>mVideo := (mVideo s)\<lparr>pre_frame_num := 0\<rparr>\<rparr> else s)"

section \<open>Pictures of the current slice\<close>

definition release_picture :: "nat \<Rightarrow> h264_dpb \<Rightarrow> h264_dpb" where
  "release_picture p s =
     (let x = m_PIC s p;
          s = (if last_picture s = None then
                 let s = (if pic_colocated_buf_index x \<ge> 0
                          then upd_pic p (\<lambda>x. x\<lparr>pic_colocated_buf_index := - 1\<rparr>)
                                 (release_colocate_buf (pic_colocated_buf_index x) s)
                          else s)
                 in release_buf_spec_num (pic_buf_spec_num x) s
               else
                 let s = (if pic_buf_spec_is_alloced x then release_buf_spec_num (pic_buf_spec_num x) s else s)
                 in if pic_col_buf_is_alloced x
                    then upd_pic p (\<lambda>x. x\<lparr>pic_colocated_buf_index := - 1\<rparr>)
                           (release_colocate_buf (pic_colocated_buf_index x) s)
                    else s)
      in free_picture (Some p) s)"

text \<open>A field whose first field is in the buffer takes over its buffers.\<close>

definition check_frame_store_same_pic_num :: "nat \<Rightarrow> h264_dpb \<Rightarrow> h264_dpb option" where
  "check_frame_store_same_pic_num p s =
     (case second_field_of_last p s of None \<Rightarrow> Some s
      | Some l \<Rightarrow> do {
          let f = mFrameStore s l;
          let s = upd_pic p (\<lambda>x. x\<lparr>pic_buf_spec_num := fs_buf_spec_num f, pic_buf_spec_is_alloced := False,
               pic_col_buf_is_alloced := False, pic_colocated_buf_index := fs_colocated_buf_index f\<rparr>) s;
          s \<leftarrow> (if sl_structure (mSlice s) = TOP_FIELD then do {
                 b \<leftarrow> fs_bottom_field f;
                 Some (upd_pic p (\<lambda>x. x\<lparr>pic_bottom_poc := pic_poc (m_PIC s b)\<rparr>) s)
               }
               else do {
                 t \<leftarrow> fs_top_field f;
                 Some (upd_pic p (\<lambda>x. x\<lparr>pic_top_poc := pic_poc (m_PIC s t)\<rparr>) s)
               });
          Some (upd_pic p (\<lambda>x. x\<lparr>pic_frame_poc := imin (pic_bottom_poc x) (pic_top_poc x)\<rparr>) s)
        })"

section \<open>Initialisation\<close>

definition init_fs_step :: "nat \<Rightarrow> h264_dpb \<Rightarrow> h264_dpb" where
  "init_fs_step i s =
     upd_fs i (\<lambda>f. f\<lparr>fs_index := int i\<rparr>)
       (s\<lparr>dpb_fs_ref := (dpb_fs_ref s)[i := None], dpb_fs_ltref := (dpb_fs_ltref s)[i := None]\<rparr>)"

text \<open>\<open>init_dpb\<close>. The buffer size was set before and is at most
  \<open>DPB_SIZE_MAX\<close>; a larger one writes outside the arrays. When no picture is free the
  null result of \<open>get_new_pic\<close> is written through.\<close>

definition init_dpb :: "h264_dpb \<Rightarrow> h264_dpb option" where
  "init_dpb s = do {
     let s = (if init_done s then
                (case no_reference_picture s of None \<Rightarrow> s
                 | Some q \<Rightarrow> (free_picture (Some q) s)\<lparr>no_reference_picture := None\<rparr>)
              else s);
     let s = s\<lparr>init_done := False, dpb_num_ref_frames := num_ref_frames (mSPS s), used_size := 0,
          last_picture := None, ref_frames_in_buffer := 0, ltref_frames_in_buffer := 0\<rparr>;
     if dpb_size s > DPB_SIZE_MAX then None
     else do {
       let s = fold init_fs_step [0..<dpb_size s] (s\<lparr>dpb_fs := [0..<dpb_size s]\<rparr>);
       s \<leftarrow> (case no_reference_picture s of Some q \<Rightarrow> Some s
            | None \<Rightarrow> (case get_new_pic FRAME s of (q, s) \<Rightarrow> do {
                 i \<leftarrow> q;
                 Some (upd_pic i (\<lambda>p. p\<lparr>pic_top_field := Some i, pic_bottom_field := Some i, pic_frame := Some i\<rparr>)
                   (s\<lparr>no_reference_picture := Some i\<rparr>))
               }));
       let s = s\<lparr>last_output_poc := INT_MIN, mVideo := (mVideo s)\<lparr>last_has_mmco_5 := False\<rparr>\<rparr>;
       let s = init_colocate_buf (max_reference_size s) s;
       Some (s\<lparr>init_done := True\<rparr>)
     }
   }"

text \<open>\<open>init_picture\<close>: the current picture from the slice. \<open>mmco\<close> is the mmco
  part of \<open>picture_structure_mmco\<close> and \<open>ops\<close> the marking commands of the
  slice.\<close>

definition init_picture :: "Slice \<Rightarrow> bool \<Rightarrow> bool \<Rightarrow> bool \<Rightarrow> int \<Rightarrow> DecRefPicMarking list \<Rightarrow> StorablePicture \<Rightarrow> StorablePicture" where
  "init_picture sl no_output long_term adaptive mmco ops x =
     (let x = x\<lparr>pic_top_poc := toppoc sl, pic_bottom_poc := bottompoc sl, pic_frame_poc := framepoc sl,
            pic_poc := (case sl_structure sl of TOP_FIELD \<Rightarrow> toppoc sl | BOTTOM_FIELD \<Rightarrow> bottompoc sl | FRAME \<Rightarrow> framepoc sl),
            pic_used_for_reference := (nal_reference_idc sl \<noteq> 0), pic_idr_flag := sl_idr_flag sl,
            pic_no_output_of_prior_pics_flag := no_output, pic_long_term_reference_flag := long_term,
            pic_adaptive_ref_pic_buffering_flag := adaptive, pic_dec_ref_pic_marking_buffer := ops,
            pic_pic_num := sl_frame_num sl, pic_frame_num := u32 (sl_frame_num sl),
            pic_coded_frame := (sl_structure sl = FRAME)\<rparr>
      in if mmco AND 3 = 3 then x\<lparr>pic_mb_aff_frame_flag := True\<rparr> else x)"

end
