(* ===== verification/H264_Poc_Correct.thy ===== *)
theory H264_Poc_Correct
  imports H264_Poc
begin

text \<open>
  Picture order counts of type 0 against their definition: the encoder sends the low bits of
  a count, and the decoder recovers the count as long as it stays within half a period of the
  previous reference picture. Counts of type 2 against the decoding order.
\<close>

section \<open>Type 0\<close>

text \<open>The count a state of the decoder stands for.\<close>

definition prev_poc :: "VideoParameters \<Rightarrow> int" where
  "prev_poc v = PrevPicOrderCntMsb v + PrevPicOrderCntLsb v"

definition poc0_wf :: "int \<Rightarrow> VideoParameters \<Rightarrow> bool" where
  "poc0_wf m v \<longleftrightarrow> m dvd PrevPicOrderCntMsb v \<and> 0 \<le> PrevPicOrderCntLsb v \<and> PrevPicOrderCntLsb v < m \<and>
     \<bar>PrevPicOrderCntMsb v\<bar> \<le> 2 ^ 30 \<and> \<not> last_has_mmco_5 v"

definition near :: "int \<Rightarrow> int \<Rightarrow> int \<Rightarrow> bool" where
  "near m a b \<longleftrightarrow> - (m div 2) < b - a \<and> b - a \<le> m div 2"

lemma msb_cases:
  fixes m p l M t :: int
  assumes m: "0 < m" "even m" and M: "m dvd M" and p: "0 \<le> p" "p < m" and l: "l = t mod m"
    and near: "- (m div 2) < t - (M + p)" "t - (M + p) \<le> m div 2"
  shows "(if l < p \<and> p - l \<ge> m div 2 then M + m else if l > p \<and> l - p > m div 2 then M - m else M) = t - l"
proof -
  obtain k where k: "M = m * k"
    using M by blast
  obtain h where h: "m = 2 * h"
    using m(2) by blast
  have h0: "0 < h"
    using m(1) h by simp
  define q where "q = t div m - k"
  have t: "t = m * (k + q) + l"
    using mult_div_mod_eq [of m t] by (simp add: q_def l)
  have lb: "0 \<le> l" "l < m"
    using m(1) by (simp_all add: l)
  have d: "t - (M + p) = m * q + (l - p)"
    by (simp add: t k algebra_simps)
  have n: "- h < m * q + (l - p)" "m * q + (l - p) \<le> h"
    using near d h by simp_all
  have "- 2 < q" "q < 2"
  proof -
    have "m * (- 2) < m * q"
      using n(1) lb p h h0 by linarith
    then show "- 2 < q"
      using m(1) by (simp only: mult_less_cancel_left_pos)
    have "m * q < m * 2"
      using n(2) lb p h h0 by linarith
    then show "q < 2"
      using m(1) by (simp only: mult_less_cancel_left_pos)
  qed
  then consider "q = - 1" | "q = 0" | "q = 1"
    by linarith
  then show ?thesis
    by cases (use n lb p h t k in \<open>auto simp: algebra_simps\<close>)
qed

lemma poc0_msb_exact:
  assumes m: "0 < m" "even m" "m \<le> 2 ^ 16" and v: "poc0_wf m v" and l: "pic_order_cnt_lsb sl = t mod m"
    and near: "near m (prev_poc v) t"
  shows "poc0_msb m v sl = t - pic_order_cnt_lsb sl"
proof -
  let ?l = "pic_order_cnt_lsb sl" and ?p = "PrevPicOrderCntLsb v" and ?M = "PrevPicOrderCntMsb v"
  have lb: "0 \<le> ?l" "?l < m"
    using m(1) by (simp_all add: l)
  have p: "0 \<le> ?p" "?p < m" "m dvd ?M" "\<bar>?M\<bar> \<le> 2 ^ 30"
    using v by (simp_all add: poc0_wf_def)
  have u: "?l < ?p \<Longrightarrow> u32 (?p - ?l) = ?p - ?l" "?p < ?l \<Longrightarrow> u32 (?l - ?p) = ?l - ?p"
    using lb p m(3) by (auto simp: u32_id)
  have s: "s32 (?M + m) = ?M + m" "s32 (?M - m) = ?M - m"
    using p m by (auto simp: s32_id)
  have "poc0_msb m v sl
    = (if ?l < ?p \<and> ?p - ?l \<ge> m div 2 then ?M + m else if ?l > ?p \<and> ?l - ?p > m div 2 then ?M - m else ?M)"
    by (auto simp: poc0_msb_def u s)
  also have "\<dots> = t - ?l"
    by (rule msb_cases) (use m p l near in \<open>simp_all add: near_def prev_poc_def\<close>)
  finally show ?thesis .
qed

text \<open>A frame as the encoder sends it: the low bits of its count, no second count.\<close>

definition poc0_frame :: "int \<Rightarrow> int \<times> bool \<Rightarrow> Slice \<Rightarrow> Slice" where
  "poc0_frame m tr sl = sl\<lparr>sl_idr_flag := False, field_pic_flag := False, delta_pic_order_cnt_bottom := 0,
     pic_order_cnt_lsb := fst tr mod m, nal_reference_idc := (if snd tr then 1 else 0)\<rparr>"

fun poc0_decode :: "SPSParameters \<Rightarrow> int \<Rightarrow> (int \<times> bool) list \<Rightarrow> VideoParameters \<times> Slice \<Rightarrow> int list" where
  "poc0_decode sps m [] vs = []"
| "poc0_decode sps m (tr # trs) (v, sl) =
     (let vs = decode_poc_0 sps (v, poc0_frame m tr sl)
      in framepoc (snd vs) # poc0_decode sps m trs vs)"

text \<open>Every frame is within half a period of the last reference frame before it.\<close>

fun poc0_stream :: "int \<Rightarrow> int \<Rightarrow> (int \<times> bool) list \<Rightarrow> bool" where
  "poc0_stream m prev [] = True"
| "poc0_stream m prev ((t, r) # trs) = (near m prev t \<and> \<bar>t\<bar> < 2 ^ 29 \<and> poc0_stream m (if r then t else prev) trs)"

lemma poc0_one:
  assumes m: "m = 2 ^ nat (log2_max_pic_order_cnt_lsb_minus4 sps + 4)" "even m" "m \<le> 2 ^ 16"
    and v: "poc0_wf m v" and near: "near m (prev_poc v) t" and t: "\<bar>t\<bar> < 2 ^ 29"
    and d: "decode_poc_0 sps (v, poc0_frame m (t, r) sl) = (v', sl')"
  shows "framepoc sl' = t" "poc0_wf m v'" "prev_poc v' = (if r then t else prev_poc v)"
proof -
  let ?sl = "poc0_frame m (t, r) sl"
  have m0: "0 < m"
    by (simp add: m(1))
  have l: "pic_order_cnt_lsb (poc0_frame m (t, b) sl) = t mod m" "\<not> sl_idr_flag (poc0_frame m (t, b) sl)" for b
    by (simp_all add: poc0_frame_def)
  have prev: "poc0_prev v (poc0_frame m (t, b) sl) = v" for b
    using v l by (simp add: poc0_prev_def poc0_wf_def)
  have msb: "poc0_msb m v (poc0_frame m (t, b) sl) = t - t mod m" for b
    using poc0_msb_exact [OF m0 m(2,3) v l(1) near] l(1) by simp
  have bd: "0 \<le> t mod m" "t mod m < m"
    using m0 by simp_all
  have s: "s32 t = t"
    using t by (intro s32_id) auto
  have f: "framepoc (poc0_fields (?sl\<lparr>PicOrderCntMsb := t - t mod m\<rparr>)) = t"
    by (simp add: poc0_fields_def poc0_frame_def s Let_def)
  have keep: "PicOrderCntMsb (poc0_fields x) = PicOrderCntMsb x"
    "pic_order_cnt_lsb (poc0_fields x) = pic_order_cnt_lsb x"
    "nal_reference_idc (poc0_fields x) = nal_reference_idc x" for x
    by (simp_all add: poc0_fields_def Let_def)
  have nal: "nal_reference_idc (poc0_frame m (t, b) sl) = (if b then 1 else 0)" for b
    by (simp add: poc0_frame_def)
  have e: "v' = (let w = v\<lparr>vid_ThisPOC := ThisPOC sl', PreviousFrameNum := sl_frame_num sl'\<rparr>
      in if r then w\<lparr>PrevPicOrderCntLsb := t mod m, PrevPicOrderCntMsb := t - t mod m\<rparr> else w)"
    "sl' = poc0_fields (?sl\<lparr>PicOrderCntMsb := t - t mod m\<rparr>)"
    using d by (auto simp: decode_poc_0_def Let_def m(1) [symmetric] prev msb keep nal l)
  show "framepoc sl' = t"
    by (simp add: e(2) f)
  have dvd: "m dvd t - t mod m"
    by (simp add: minus_mod_eq_mult_div)
  have bound: "\<bar>t - t mod m\<bar> \<le> 2 ^ 30"
  proof -
    have "(2::int) ^ 29 + 2 ^ 16 \<le> 2 ^ 30"
      by simp
    then show ?thesis
      using t bd m(3) by linarith
  qed
  show "poc0_wf m v'"
    using v dvd bound bd by (auto simp: e(1) Let_def poc0_wf_def)
  show "prev_poc v' = (if r then t else prev_poc v)"
    by (simp add: e(1) Let_def prev_poc_def)
qed

section \<open>Type 2\<close>

text \<open>A picture of a stream is given by its frame number counted without wrapping and its slice
  header, which carries that number modulo \<open>max_frame_num\<close>. The state after a picture
  holds the wrapped number and the multiple of \<open>max_frame_num\<close> below.\<close>

definition poc2_wf :: "int \<Rightarrow> int \<Rightarrow> VideoParameters \<Rightarrow> bool" where
  "poc2_wf m a v \<longleftrightarrow> 0 \<le> a \<and> max_frame_num v = m \<and> PreviousFrameNum v = a mod m \<and>
     PreviousFrameNumOffset v = a - a mod m \<and> \<not> last_has_mmco_5 v"

fun poc2_decode :: "(int \<times> Slice) list \<Rightarrow> VideoParameters \<Rightarrow> int list" where
  "poc2_decode [] v = []"
| "poc2_decode ((a, sl) # ps) v =
     (let vs = decode_poc_2 (v, sl) in ThisPOC (snd vs) # poc2_decode ps (fst vs))"

text \<open>The frame number grows by less than \<open>max_frame_num\<close> from each picture to the next, or
  stays when a reference picture follows one that is not a reference.\<close>

fun poc2_stream :: "int \<Rightarrow> int \<Rightarrow> bool \<Rightarrow> (int \<times> Slice) list \<Rightarrow> bool" where
  "poc2_stream m prev prev_ref [] = True"
| "poc2_stream m prev prev_ref ((a, sl) # ps) =
     (\<not> sl_idr_flag sl \<and> sl_frame_num sl = a mod m \<and> 2 * a < 2 ^ 31 \<and>
      (prev < a \<and> a - prev < m \<or> a = prev \<and> \<not> prev_ref \<and> nal_reference_idc sl \<noteq> 0) \<and>
      poc2_stream m a (nal_reference_idc sl \<noteq> 0) ps)"

definition poc2_count :: "int \<Rightarrow> bool \<Rightarrow> int" where
  "poc2_count a ref = (if ref then 2 * a else 2 * a - 1)"

lemma wrap_offset:
  fixes a b m :: int
  assumes "1 < m" "a \<le> b" "b - a < m"
  shows "(if b mod m < a mod m then a - a mod m + m else a - a mod m) = b - b mod m"
proof -
  have m: "0 \<le> a mod m" "a mod m < m" "0 \<le> b mod m" "b mod m < m"
    using assms(1) by simp_all
  have q: "a - a mod m = m * (a div m)" "b - b mod m = m * (b div m)"
    by (simp_all add: minus_mod_eq_mult_div)
  define k where "k = b div m - a div m"
  have k: "b - b mod m = a - a mod m + m * k"
    unfolding q k_def by (simp add: algebra_simps)
  have "m * (- 1) < m * k" "m * k < m * 2"
    using m assms k by linarith+
  then have "k = 0 \<or> k = 1"
    using assms(1) by (auto simp only: mult_less_cancel_left_pos)
  then show ?thesis
    using k m assms by auto
qed

lemma poc2_one:
  assumes m: "1 < m" "m \<le> 2 ^ 16" and v: "poc2_wf m prev v"
    and sl: "\<not> sl_idr_flag sl" "sl_frame_num sl = a mod m"
    and a: "prev \<le> a" "a - prev < m" "2 * a < 2 ^ 31"
  shows "ThisPOC (snd (decode_poc_2 (v, sl))) = poc2_count a (nal_reference_idc sl \<noteq> 0)"
    and "poc2_wf m a (fst (decode_poc_2 (v, sl)))"
proof -
  have b: "0 \<le> a" "0 \<le> prev mod m" "prev mod m \<le> prev" "0 \<le> a mod m" "a mod m \<le> a"
    using v a m by (simp_all add: poc2_wf_def zmod_le_nonneg_dividend)
  have off: "(if a mod m < prev mod m then prev - prev mod m + m else prev - prev mod m) = a - a mod m"
    using m(1) a(1,2) by (rule wrap_offset)
  have "s32 (a - a mod m) = a - a mod m"
    using b a by (intro s32_id) linarith+
  then have f: "FrameNumOffset (poc12_offset v sl) = a - a mod m" "max_frame_num (poc12_offset v sl) = m"
    "\<not> last_has_mmco_5 (poc12_offset v sl)"
    using v sl off by (auto simp: poc12_offset_def poc2_wf_def split: if_splits)
  have s: "s32 a = a" "s32 (2 * a) = 2 * a" "s32 (2 * a - 1) = 2 * a - 1"
    using b(1) a(3) by (simp_all add: s32_id)
  show "ThisPOC (snd (decode_poc_2 (v, sl))) = poc2_count a (nal_reference_idc sl \<noteq> 0)"
    using sl f s by (simp add: decode_poc_2_def poc2_slice_def poc2_count_def Let_def)
  have "sl_frame_num (poc2_slice w sl) = a mod m" for w
    using sl by (simp add: poc2_slice_def Let_def)
  then show "poc2_wf m a (fst (decode_poc_2 (v, sl)))"
    using b f by (simp add: decode_poc_2_def poc2_wf_def Let_def)
qed

lemma poc2_decode_counts:
  assumes "1 < m" "m \<le> 2 ^ 16" "poc2_wf m prev v" "poc2_stream m prev r ps"
  shows "poc2_decode ps v = map (\<lambda>(a, sl). poc2_count a (nal_reference_idc sl \<noteq> 0)) ps"
  using assms(3,4)
proof (induction ps arbitrary: prev r v)
  case (Cons p ps)
  obtain a sl where p: "p = (a, sl)"
    by (cases p)
  then have o: "\<not> sl_idr_flag sl" "sl_frame_num sl = a mod m" "prev \<le> a" "a - prev < m" "2 * a < 2 ^ 31"
    using Cons.prems(2) assms(1) by auto
  note one = poc2_one [OF assms(1,2) Cons.prems(1) o]
  show ?case
    using Cons.IH [OF one(2), of "nal_reference_idc sl \<noteq> 0"] Cons.prems(2) one(1) by (simp add: p Let_def)
qed simp

lemma poc2_stream_above:
  "poc2_stream m prev r ps \<Longrightarrow> (a, sl) \<in> set ps \<Longrightarrow>
   poc2_count prev r < poc2_count a (nal_reference_idc sl \<noteq> 0)"
proof (induction ps arbitrary: prev r)
  case (Cons p ps)
  obtain b sb where p: "p = (b, sb)"
    by (cases p)
  have "poc2_count prev r < poc2_count b (nal_reference_idc sb \<noteq> 0)"
    using Cons.prems(1) by (auto simp: p poc2_count_def)
  then show ?case
    using Cons.IH [of b "nal_reference_idc sb \<noteq> 0"] Cons.prems by (auto simp: p)
qed simp

lemma poc2_stream_sorted:
  "poc2_stream m prev r ps \<Longrightarrow>
   sorted_wrt (<) (map (\<lambda>(a, sl). poc2_count a (nal_reference_idc sl \<noteq> 0)) ps)"
  by (induction ps arbitrary: prev r) (auto dest: poc2_stream_above)

section \<open>Properties\<close>

text \<open>C12. Type 0 picture order counts: decoding the low bits an encoder sends recovers the
  count of every frame of a stream, whatever the number of frames and the wraps of the low
  bits, as long as every frame is within half a period of the last reference frame.\<close>

theorem decode_poc_0_recovers_counts:
  assumes "m = 2 ^ nat (log2_max_pic_order_cnt_lsb_minus4 sps + 4)" "even m" "m \<le> 2 ^ 16"
    and "poc0_wf m v" and "poc0_stream m (prev_poc v) trs"
  shows "poc0_decode sps m trs (v, sl) = map fst trs"
  using assms(4,5)
proof (induction trs arbitrary: v sl)
  case (Cons tr trs)
  obtain t r where tr: "tr = (t, r)"
    by (cases tr)
  obtain v' sl' where d: "decode_poc_0 sps (v, poc0_frame m (t, r) sl) = (v', sl')"
    by (cases "decode_poc_0 sps (v, poc0_frame m (t, r) sl)")
  have near: "near m (prev_poc v) t" "\<bar>t\<bar> < 2 ^ 29"
    using Cons.prems(2) by (simp_all add: tr)
  note one = poc0_one [OF assms(1-3) Cons.prems(1) near d]
  have "poc0_decode sps m trs (v', sl') = map fst trs"
    by (rule Cons.IH [OF one(2)]) (use Cons.prems(2) one(3) tr in simp)
  then show ?case
    using one(1) by (simp add: tr d Let_def)
qed simp

definition demo_sps :: SPSParameters where
  "demo_sps = \<lparr>pic_order_cnt_type = 0, log2_max_pic_order_cnt_lsb_minus4 = 0,
     num_ref_frames_in_pic_order_cnt_cycle = 0, offset_for_ref_frame = [], offset_for_non_ref_pic = 0,
     offset_for_top_to_bottom_field = 0, frame_mbs_only_flag = True, num_ref_frames = 2,
     log2_max_frame_num_minus4 = 0\<rparr>"

definition demo_video :: VideoParameters where
  "demo_video = \<lparr>PrevPicOrderCntMsb = 0, PrevPicOrderCntLsb = 0, last_has_mmco_5 = False,
     last_pic_bottom_field = False, vid_ThisPOC = 0, PreviousFrameNum = 0, FrameNumOffset = 0,
     PreviousFrameNumOffset = 0, max_frame_num = 16, pre_frame_num = 0,
     ExpectedDeltaPerPicOrderCntCycle = 0, PicOrderCntCycleCnt = 0, FrameNumInPicOrderCntCycle = 0,
     ExpectedPicOrderCnt = 0, conceal_mode = 0, earlier_missing_poc = 0\<rparr>"

definition demo_slice :: Slice where
  "demo_slice = \<lparr>sl_frame_num = 0, sl_idr_flag = False, toppoc = 0, bottompoc = 0, framepoc = 0,
     pic_order_cnt_lsb = 0, PicOrderCntMsb = 0, field_pic_flag = False, bottom_field_flag = False, ThisPOC = 0,
     nal_reference_idc = 1, AbsFrameNum = 0, delta_pic_order_cnt_bottom = 0, delta_pic_order_cnt_0 = 0,
     delta_pic_order_cnt_1 = 0, sl_structure = FRAME, sl_slice_type = 0\<rparr>"

theorem decode_poc_0_recovers_counts_witness:
  "poc0_decode demo_sps 16 [(8, True), (4, False), (6, False), (16, True), (20, True), (18, False)] (demo_video, demo_slice)
   = [8, 4, 6, 16, 20, 18]"
  by (subst decode_poc_0_recovers_counts)
    (simp_all add: demo_sps_def demo_video_def poc0_wf_def near_def prev_poc_def)

text \<open>C17. Type 2 counts follow the decoding order, for a stream of any length of pictures that
  are not IDR and not second fields: while the frame number, counted without wrapping, grows by
  less than \<open>max_frame_num\<close> from each picture to the next, or stays when a reference picture
  follows one that is not a reference, each count is twice that number, less one for a picture
  that is not a reference, and the counts grow strictly with the decoding order. The counts stay
  below \<open>2 ^ 31\<close>, and the state is one without memory management operation 5 before.\<close>

theorem decode_poc_2_follows_decoding_order:
  assumes "1 < m" "m \<le> 2 ^ 16" "poc2_wf m prev v" "poc2_stream m prev prev_ref ps"
  shows "poc2_decode ps v = map (\<lambda>(a, sl). if nal_reference_idc sl \<noteq> 0 then 2 * a else 2 * a - 1) ps \<and>
    sorted_wrt (<) (poc2_decode ps v)"
  using poc2_decode_counts [OF assms] poc2_stream_sorted [OF assms(4)]
  by (simp add: poc2_count_def)

text \<open>A gap, a picture that is not a reference before the reference picture with its frame
  number, and the wrap at 16.\<close>

theorem decode_poc_2_follows_decoding_order_witness:
  "poc2_decode [(9, demo_slice\<lparr>sl_frame_num := 9\<rparr>), (15, demo_slice\<lparr>sl_frame_num := 15, nal_reference_idc := 0\<rparr>),
      (15, demo_slice\<lparr>sl_frame_num := 15\<rparr>), (16, demo_slice), (18, demo_slice\<lparr>sl_frame_num := 2\<rparr>)] demo_video
   = [18, 29, 30, 32, 36]"
  by (subst decode_poc_2_follows_decoding_order [of 16 0 _ True, THEN conjunct1])
    (simp_all add: demo_slice_def demo_video_def poc2_wf_def)

end
