(* ===== verification/H264_Dpb_Correct.thy ===== *)
theory H264_Dpb_Correct
  imports H264_Dpb H264_Poc_Correct
begin

text \<open>
  The decoded picture buffer: its pointers stay a permutation of the frame stores under every
  operation, removal and output do what they promise, and the marking operations are compared
  with the reference marking they implement.
\<close>

section \<open>What an operation leaves alone\<close>

text \<open>The pointers of the buffer and how many are in use.\<close>

definition keeps :: "h264_dpb \<Rightarrow> h264_dpb \<Rightarrow> bool" where
  "keeps s s' \<longleftrightarrow> dpb_fs s' = dpb_fs s \<and> dpb_size s' = dpb_size s \<and> used_size s' = used_size s"

named_theorems keeps_rules \<open>operations that keep the pointers of the buffer\<close>

lemma keeps_refl [simp]: "keeps s s"
  by (simp add: keeps_def)

lemma keeps_trans: "keeps s t \<Longrightarrow> keeps t u \<Longrightarrow> keeps s u"
  by (simp add: keeps_def)

lemma keeps_used_fs: "keeps s s' \<Longrightarrow> used_fs s' = used_fs s"
  by (simp add: keeps_def used_fs_def)

lemma keeps_upd [simp]:
  "keeps s (upd_pic i f t) = keeps s t" "keeps s (upd_fs i g t) = keeps s t"
  "keeps s (upd_pic_if p f t) = keeps s t" "keeps s (dpb_error ln t) = keeps s t"
  "keeps s (free_picture q t) = keeps s t" "keeps s (release_colocate_buf c t) = keeps s t"
  "keeps s (release_buf_spec_num b t) = keeps s t" "keeps s (snd (get_new_pic st t)) = keeps s t"
  "keeps s (t\<lparr>vdec_calls := cs\<rparr>) = keeps s t" "keeps s (t\<lparr>last_output_poc := poc\<rparr>) = keeps s t"
  "keeps s (t\<lparr>last_picture := lp\<rparr>) = keeps s t" "keeps s (t\<lparr>mVideo := v\<rparr>) = keeps s t"
  "keeps s (t\<lparr>max_long_term_pic_idx := mx\<rparr>) = keeps s t" "keeps s (t\<lparr>first_insert_frame := fi\<rparr>) = keeps s t"
  "keeps s (t\<lparr>first_pic_done := fd\<rparr>) = keeps s t" "keeps s (t\<lparr>dpb_frame_count := fc\<rparr>) = keeps s t"
  "keeps s (t\<lparr>dpb_fs_ref := r, ref_frames_in_buffer := n\<rparr>) = keeps s t"
  "keeps s (t\<lparr>dpb_fs_ltref := r, ltref_frames_in_buffer := n\<rparr>) = keeps s t"
  by (auto simp: keeps_def upd_pic_def upd_fs_def upd_pic_if_def dpb_error_def free_picture_def Let_def
      release_colocate_buf_def release_buf_spec_num_def get_new_pic_def split: option.splits)

lemma keeps_get_new_pic: "get_new_pic st t = (q, t') \<Longrightarrow> keeps t t'"
  using keeps_upd(8) [of t st t] by simp

lemma keeps_fold_opt:
  assumes "fold_opt f xs s = Some s'" "\<And>x s s'. f x s = Some s' \<Longrightarrow> keeps s s'"
  shows "keeps s s'"
  by (rule fold_opt_invariant [OF assms(1), of "keeps s"]) (auto intro: keeps_trans assms(2))

lemma keeps_loop_until:
  assumes "loop_until f xs s = Some s'" "\<And>x s b s'. f x s = Some (b, s') \<Longrightarrow> keeps s s'"
  shows "keeps s s'"
  by (rule loop_until_invariant [OF assms(1), of "keeps s"]) (auto intro: keeps_trans assms(2))

lemma keeps_unmark_pics: "unmark_pics g i s = Some s' \<Longrightarrow> keeps s s'"
  by (auto simp: unmark_pics_def Let_def bind_eq_Some_conv split: if_splits)

lemma keeps_unmark_for_reference [keeps_rules]: "unmark_for_reference i s = Some s' \<Longrightarrow> keeps s s'"
  by (auto simp: unmark_for_reference_def dest: keeps_unmark_pics)

lemma keeps_unmark_for_long_term_reference [keeps_rules]:
  "unmark_for_long_term_reference i s = Some s' \<Longrightarrow> keeps s s'"
  by (auto simp: unmark_for_long_term_reference_def dest: keeps_unmark_pics)

lemma keeps_update_ref_list [keeps_rules]: "update_ref_list s = Some s' \<Longrightarrow> keeps s s'"
  by (auto simp: update_ref_list_def bind_eq_Some_conv)

lemma keeps_update_ltref_list [keeps_rules]: "update_ltref_list s = Some s' \<Longrightarrow> keeps s s'"
  by (auto simp: update_ltref_list_def bind_eq_Some_conv)

lemma keeps_unmark_field [simp]: "keeps s (unmark_field fld k i t) = keeps s t"
  by (simp add: unmark_field_def Let_def)

lemma keeps_mm_unmark_short_bottom: "mm_unmark_short_bottom c n i s = Some (b, s') \<Longrightarrow> keeps s s'"
  by (auto simp: mm_unmark_short_bottom_def split: if_splits option.splits)

lemma keeps_mm_unmark_short_step: "mm_unmark_short_step st n r s = Some (b, s') \<Longrightarrow> keeps s s'"
  by (auto simp: mm_unmark_short_step_def Let_def dest: keeps_unmark_for_reference keeps_mm_unmark_short_bottom
      split: option.splits if_splits)

lemma keeps_mm_unmark_short [keeps_rules]: "mm_unmark_short_term_for_reference p d s = Some s' \<Longrightarrow> keeps s s'"
  unfolding mm_unmark_short_term_for_reference_def by (erule keeps_loop_until) (rule keeps_mm_unmark_short_step)

lemma keeps_unmark_field_lt: "unmark_field_lt fld k i s = Some s' \<Longrightarrow> keeps s s'"
  by (auto simp: unmark_field_lt_def Let_def bind_eq_Some_conv split: if_splits)

lemma keeps_mm_unmark_long_bottom: "mm_unmark_long_bottom n i s = Some (b, s') \<Longrightarrow> keeps s s'"
  by (auto simp: mm_unmark_long_bottom_def bind_eq_Some_conv dest: keeps_unmark_field_lt split: if_splits)

lemma keeps_mm_unmark_long_step: "mm_unmark_long_step st n r s = Some (b, s') \<Longrightarrow> keeps s s'"
  by (auto simp: mm_unmark_long_step_def Let_def bind_eq_Some_conv
      dest: keeps_unmark_field_lt keeps_mm_unmark_long_bottom keeps_unmark_for_long_term_reference split: if_splits)

lemma keeps_mm_unmark_long [keeps_rules]: "mm_unmark_long_term_for_reference p n s = Some s' \<Longrightarrow> keeps s s'"
  unfolding mm_unmark_long_term_for_reference_def by (erule keeps_loop_until) (rule keeps_mm_unmark_long_step)

lemma keeps_unmark12 [keeps_rules]:
  "unmark1 i s = Some s' \<Longrightarrow> keeps s s'" "unmark2 n i s = Some s' \<Longrightarrow> keeps s s'"
  by (auto simp: unmark1_def unmark2_def dest: keeps_rules split: if_splits)

lemma keeps_unmark3 [keeps_rules]:
  "unmark3_top n m i s = Some s' \<Longrightarrow> keeps s s'" "unmark3_bottom n m i s = Some s' \<Longrightarrow> keeps s s'"
  by (auto simp: unmark3_top_def unmark3_bottom_def dest: keeps_rules split: if_splits)

lemma keeps_unmark_lt_frame_step: "unmark_lt_frame_step x r s = Some s' \<Longrightarrow> keeps s s'"
  by (auto simp: unmark_lt_frame_step_def bind_eq_Some_conv dest: keeps_rules split: if_splits)

lemma keeps_unmark_lt_field_step: "unmark_lt_field_step st x m n r s = Some s' \<Longrightarrow> keeps s s'"
  by (cases st) (auto simp: unmark_lt_field_step_def bind_eq_Some_conv dest: keeps_rules split: if_splits)

lemma keeps_unmark_lt_by_idx [keeps_rules]:
  "unmark_long_term_frame_for_reference_by_frame_idx x s = Some s' \<Longrightarrow> keeps s s'"
  "unmark_long_term_field_for_reference_by_frame_idx st x m n s = Some s' \<Longrightarrow> keeps s s'"
  unfolding unmark_long_term_frame_for_reference_by_frame_idx_def unmark_long_term_field_for_reference_by_frame_idx_def Let_def
  by (erule keeps_fold_opt, erule keeps_unmark_lt_frame_step)
    (erule keeps_fold_opt, erule keeps_unmark_lt_field_step)

lemma keeps_mark_field [simp]: "keeps s (mark_field x a m fld i t) = keeps s t"
  by (simp add: mark_field_def Let_def)

lemma keeps_mark_steps:
  "mark_frame_step x n r s = Some (b, s') \<Longrightarrow> keeps s s'"
  "mark_bottom_step x n a i s = (b, s') \<Longrightarrow> keeps s s'"
  by (auto simp: mark_frame_step_def mark_bottom_step_def Let_def split: option.splits if_splits)

lemma keeps_mark_field_step: "mark_field_step st x n r s = Some (b, s') \<Longrightarrow> keeps s s'"
  by (auto simp: mark_field_step_def Let_def dest: keeps_mark_steps(2) split: option.splits if_splits)

lemma keeps_mark_pic_long_term [keeps_rules]: "mark_pic_long_term p x n s = Some s' \<Longrightarrow> keeps s s'"
  unfolding mark_pic_long_term_def
  by (auto split: if_splits elim: keeps_loop_until keeps_mark_steps(1) keeps_mark_field_step)

lemma keeps_find_field_structure: "find_field_structure n rs s = (st, s') \<Longrightarrow> keeps s s'"
proof (induction n rs s rule: find_field_structure.induct)
  case (2 n rs s)
  then have "keeps (dpb_error 3307 s) s'"
    by simp
  then show ?case
    by (rule keeps_trans [rotated]) simp
next
  case (3 n i rs s)
  have e: "keeps (dpb_error k s) s' \<Longrightarrow> keeps s s'" for k
    by (rule keeps_trans [of s "dpb_error k s"]) simp_all
  from 3 show ?case
    by (auto simp: Let_def split: if_splits intro: e)
qed simp

lemma keeps_mm_assign [keeps_rules]: "mm_assign_long_term_frame_idx p d x s = Some s' \<Longrightarrow> keeps s s'"
  by (auto simp: mm_assign_long_term_frame_idx_def Let_def bind_eq_Some_conv split: if_splits prod.splits
      dest!: keeps_rules keeps_find_field_structure intro: keeps_trans)

lemma keeps_unmark_above_step: "unmark_above_step r s = Some s' \<Longrightarrow> keeps s s'"
  by (auto simp: unmark_above_step_def bind_eq_Some_conv dest: keeps_rules split: if_splits)

lemma keeps_mm_update_max [keeps_rules]: "mm_update_max_long_term_frame_idx m s = Some s' \<Longrightarrow> keeps s s'"
proof -
  assume "mm_update_max_long_term_frame_idx m s = Some s'"
  then have "keeps (s\<lparr>max_long_term_pic_idx := s32 (m - 1)\<rparr>) s'"
    unfolding mm_update_max_long_term_frame_idx_def Let_def
    by (rule keeps_fold_opt) (rule keeps_unmark_above_step)
  then show ?thesis
    by (rule keeps_trans [rotated]) simp
qed

lemma keeps_unmark_entry: "unmark_entry r s = Some s' \<Longrightarrow> keeps s s'"
  by (auto simp: unmark_entry_def bind_eq_Some_conv dest: keeps_rules)

lemma keeps_mm_unmark_all [keeps_rules]:
  "mm_unmark_all_short_term_for_reference s = Some s' \<Longrightarrow> keeps s s'"
  "mm_unmark_all_long_term_for_reference s = Some s' \<Longrightarrow> keeps s s'"
  by (auto simp: mm_unmark_all_short_term_for_reference_def mm_unmark_all_long_term_for_reference_def bind_eq_Some_conv
      dest!: keeps_rules elim!: keeps_trans [rotated] keeps_fold_opt keeps_unmark_entry)

lemma keeps_mm_mark_current [keeps_rules]: "mm_mark_current_picture_long_term p x s = Some s' \<Longrightarrow> keeps s s'"
  by (auto simp: mm_mark_current_picture_long_term_def bind_eq_Some_conv dest: keeps_rules split: if_splits)

lemma keeps_adaptive_op [keeps_rules]: "adaptive_op p d s = Some s' \<Longrightarrow> keeps s s'"
  by (auto simp: adaptive_op_def Let_def bind_eq_Some_conv dest!: keeps_rules split: if_splits intro: keeps_trans)

lemma keeps_adaptive_ops [keeps_rules]: "adaptive_ops p ds s = Some s' \<Longrightarrow> keeps s s'"
proof (induction ds arbitrary: s)
  case (Cons d ds)
  then obtain t where t: "adaptive_op p d s = Some t"
    "adaptive_ops p ds (upd_pic p (\<lambda>x. x\<lparr>pic_dec_ref_pic_marking_buffer := ds\<rparr>) t) = Some s'"
    by (auto simp: bind_eq_Some_conv)
  then show ?case
    using Cons.IH [OF t(2)] keeps_adaptive_op [OF t(1)] keeps_upd(1) by (meson keeps_refl keeps_trans)
qed simp

lemma keeps_get_new_picD: "get_new_pic st t = (q, t') \<Longrightarrow> keeps s t' = keeps s t"
  using keeps_upd(8) [of s st t] by simp

lemma keeps_split_field [keeps_rules]: "dpb_split_field i s = Some s' \<Longrightarrow> keeps s s'"
  by (auto simp: dpb_split_field_def Let_def bind_eq_Some_conv keeps_get_new_picD
      split: if_splits prod.splits option.splits)

lemma keeps_combine_field [keeps_rules]: "dpb_combine_field i s = Some s' \<Longrightarrow> keeps s s'"
  by (auto simp: dpb_combine_field_def Let_def bind_eq_Some_conv keeps_get_new_picD
      split: if_splits prod.splits option.splits)

lemma keeps_combine_or_poc [keeps_rules]: "combine_or_poc i p s = Some s' \<Longrightarrow> keeps s s'"
  by (auto simp: combine_or_poc_def dest: keeps_rules split: if_splits)

lemma keeps_from: "keeps t s' \<Longrightarrow> keeps s t \<Longrightarrow> keeps s s'"
  by (rule keeps_trans)

lemma keeps_insert_picture [keeps_rules]: "insert_picture_in_dpb i p d s = Some s' \<Longrightarrow> keeps s s'"
  unfolding insert_picture_in_dpb_def Let_def
  by (auto simp: bind_eq_Some_conv split: PictureStructure.splits dest!: keeps_rules elim!: keeps_from)

lemma keeps_count_step: "keeps s t \<Longrightarrow> keeps s (snd (snd (count_step i (n, b, t))))"
  by (simp add: count_step_def Let_def) (simp add: keeps_def)

lemma keeps_count_fold: "keeps s t \<Longrightarrow> keeps s (snd (snd (fold count_step is (n, b, t))))"
proof (induction "is" arbitrary: n b t)
  case (Cons i "is")
  obtain n' b' t' where c: "count_step i (n, b, t) = (n', b', t')"
    by (cases "count_step i (n, b, t)") auto
  have "keeps s t'"
    using keeps_count_step [OF Cons.prems, of i n b] by (simp add: c)
  then show ?case
    using Cons.IH [of t' n' b'] by (simp add: c)
qed simp

lemma keeps_first_out_step [simp]: "keeps s (first_out_step i t) = keeps s t"
  by (simp add: first_out_step_def)

lemma output_one_Some:
  "get_smallest_poc s = (poc, Some pos) \<Longrightarrow> fs_at s pos = Some i \<Longrightarrow> output_one disp s
   = (let t = first_out_step i s; f = snd (disp t i);
          u = upd_fs i (\<lambda>_. f) (t\<lparr>vdec_calls := vdec_calls t @ [Prepare_Display i poc]\<rparr>)
      in if fst (disp t i) \<ge> 0
         then Some (True, (if \<not> without_display_mode u \<and> fs_show_frame f
                           then upd_fs i (\<lambda>f. f\<lparr>fs_pre_output := True\<rparr>) u else u)\<lparr>last_output_poc := poc\<rparr>)
         else Some (False, u))"
  by (simp add: output_one_def Let_def case_prod_beta)

lemma output_one_None: "get_smallest_poc s = (poc, None) \<Longrightarrow> output_one disp s = Some (False, s)"
  by (simp add: output_one_def)

lemma keeps_output_one:
  assumes "output_one disp s = Some (b, s')"
  shows "keeps s s'"
proof -
  obtain poc pos where g: "get_smallest_poc s = (poc, pos)"
    by (cases "get_smallest_poc s")
  show ?thesis
  proof (cases pos)
    case None
    then show ?thesis
      using assms g by (simp add: output_one_None)
  next
    case (Some j)
    then obtain i where i: "fs_at s j = Some i"
      using assms g by (cases "fs_at s j") (simp_all add: output_one_def)
    show ?thesis
      using assms unfolding output_one_Some [OF g [unfolded Some] i] Let_def
      by (auto split: if_splits)
  qed
qed

lemma keeps_output_frames: "output_frames disp fl s = Some (b, s') \<Longrightarrow> keeps s s'"
  using keeps_count_fold [of s s "used_fs s" 0 False]
  by (auto simp: output_frames_def split: if_splits prod.splits dest!: keeps_output_one intro: keeps_trans)

lemma keeps_output_all [keeps_rules]: "output_all disp fl s = Some s' \<Longrightarrow> keeps s s'"
proof (rule output_all.raw_induct [where P = "\<lambda>d f s s'. keeps s s'"])
  fix f d fl s s'
  assume ih: "\<And>d fl t t'. f d fl t = Some t' \<Longrightarrow> keeps t t'"
    and e: "output_frames d fl s \<bind> (\<lambda>(ret, s). if ret then f d fl s else Some s) = Some s'"
  obtain b t where t: "output_frames d fl s = Some (b, t)" "(if b then f d fl t else Some t) = Some s'"
    using e by (auto elim!: bind_SomeE)
  then show "keeps s s'"
    using keeps_output_frames [OF t(1)] ih [of d fl t s'] by (auto split: if_splits intro: keeps_trans)
qed

section \<open>The buffer stays a permutation of its frame stores\<close>

definition dpb_ok :: "h264_dpb \<Rightarrow> bool" where
  "dpb_ok s \<longleftrightarrow> distinct (dpb_fs s) \<and> set (dpb_fs s) = {..<dpb_size s} \<and> used_size s \<le> dpb_size s \<and>
     dpb_size s \<le> DPB_SIZE_MAX"

lemma dpb_ok_length: "dpb_ok s \<Longrightarrow> length (dpb_fs s) = dpb_size s"
  unfolding dpb_ok_def by (metis card_lessThan distinct_card)

lemma keeps_dpb_ok: "keeps s s' \<Longrightarrow> dpb_ok s \<Longrightarrow> dpb_ok s'"
  by (simp add: keeps_def dpb_ok_def)

lemma move_to_end_eq:
  assumes "pos < used" "used \<le> length xs"
  shows "move_to_end used pos xs
    = take pos xs @ take (used - Suc pos) (drop (Suc pos) xs) @ xs ! pos # drop used xs"
proof (rule nth_equalityI)
  show "length (move_to_end used pos xs)
    = length (take pos xs @ take (used - Suc pos) (drop (Suc pos) xs) @ xs ! pos # drop used xs)"
    using assms by (simp add: move_to_end_def)
next
  fix i
  assume "i < length (move_to_end used pos xs)"
  then have i: "i < length xs"
    by (simp add: move_to_end_def)
  have l: "length (take (used - Suc pos) (drop (Suc pos) xs)) = used - Suc pos"
    using assms by simp
  consider "i < pos" | "pos \<le> i" "i < used - 1" | "i = used - 1" | "used \<le> i"
    using assms by linarith
  then show "move_to_end used pos xs ! i
    = (take pos xs @ take (used - Suc pos) (drop (Suc pos) xs) @ xs ! pos # drop used xs) ! i"
    by cases (use assms i in \<open>auto simp: move_to_end_def nth_append nth_Cons' min_def\<close>)
qed

lemma split_at: "pos < used \<Longrightarrow> used \<le> length xs
  \<Longrightarrow> xs = take pos xs @ xs ! pos # take (used - Suc pos) (drop (Suc pos) xs) @ drop used xs"
proof -
  assume a: "pos < used" "used \<le> length xs"
  have "drop (Suc pos) xs = take (used - Suc pos) (drop (Suc pos) xs) @ drop used xs"
    using append_take_drop_id [of "used - Suc pos" "drop (Suc pos) xs"] a by simp
  then show ?thesis
    using a id_take_nth_drop [of pos xs] by simp
qed

lemma mset_move_to_end: "pos < used \<Longrightarrow> used \<le> length xs \<Longrightarrow> mset (move_to_end used pos xs) = mset xs"
  by (subst (2) split_at [of pos used xs]) (simp_all add: move_to_end_eq)

lemma take_move_to_end:
  assumes "pos < used" "used \<le> length xs"
  shows "take (used - 1) (move_to_end used pos xs) = take pos xs @ take (used - Suc pos) (drop (Suc pos) xs)"
proof -
  have "length (take pos xs @ take (used - Suc pos) (drop (Suc pos) xs)) = used - 1"
    using assms by simp
  then show ?thesis
    unfolding move_to_end_eq [OF assms] append_assoc [symmetric]
    by (metis append_eq_conv_conj append_assoc)
qed

text \<open>The part of the removal before the pointers move.\<close>

lemma free_picture_fields [simp]:
  "dpb_fs (free_picture q s) = dpb_fs s" "used_size (free_picture q s) = used_size s"
  "dpb_size (free_picture q s) = dpb_size s"
  using keeps_upd(5) [of s q s] by (simp_all add: keeps_def)

lemma upd_fs_fields [simp]:
  "dpb_fs (upd_fs i g s) = dpb_fs s" "used_size (upd_fs i g s) = used_size s"
  "dpb_size (upd_fs i g s) = dpb_size s"
  by (simp_all add: upd_fs_def)

lemma remove_frame_fields:
  assumes "remove_frame_from_dpb pos s = Some s'"
  shows "dpb_fs s' = move_to_end (used_size s) pos (dpb_fs s)" "used_size s' = used_size s - 1"
    "dpb_size s' = dpb_size s" "pos < length (dpb_fs s)"
proof -
  have *: "dpb_fs s' = move_to_end (used_size s) pos (dpb_fs s) \<and> used_size s' = used_size s - 1 \<and>
    dpb_size s' = dpb_size s \<and> pos < length (dpb_fs s)"
  proof (cases "fs_at s pos")
    case None
    then show ?thesis
      using assms by (simp add: remove_frame_from_dpb_def)
  next
    case (Some i)
    then have "pos < length (dpb_fs s)"
      by (simp add: fs_at_def split: if_splits)
    then show ?thesis
      using assms Some
      by (cases "fs_is_used (mFrameStore s i) = 3"; cases "fs_is_used (mFrameStore s i) = 2";
          cases "fs_is_used (mFrameStore s i) = 1")
        (simp_all add: remove_frame_from_dpb_def Let_def split: if_splits, (clarsimp+)?)
  qed
  then show "dpb_fs s' = move_to_end (used_size s) pos (dpb_fs s)" "used_size s' = used_size s - 1"
    "dpb_size s' = dpb_size s" "pos < length (dpb_fs s)"
    by simp_all
qed

lemma dpb_ok_cong:
  assumes "mset (dpb_fs t) = mset (dpb_fs s)" "dpb_size t = dpb_size s" "used_size t \<le> used_size s" "dpb_ok s"
  shows "dpb_ok t"
proof -
  have "distinct (dpb_fs t)" "set (dpb_fs t) = set (dpb_fs s)"
    using assms(1,4) mset_eq_imp_distinct_iff [OF assms(1)] mset_eq_setD [OF assms(1)]
    by (simp_all add: dpb_ok_def)
  then show ?thesis
    using assms(2-4) by (simp add: dpb_ok_def)
qed

lemma remove_frame_ok:
  assumes "remove_frame_from_dpb pos s = Some s'" "dpb_ok s" "pos < used_size s"
  shows "dpb_ok s'"
proof (rule dpb_ok_cong [OF _ _ _ assms(2)])
  note f = remove_frame_fields [OF assms(1)]
  show "mset (dpb_fs s') = mset (dpb_fs s)"
    using assms(2) dpb_ok_length [OF assms(2)] unfolding f(1)
    by (intro mset_move_to_end [OF assms(3)]) (simp add: dpb_ok_def)
  show "dpb_size s' = dpb_size s" "used_size s' \<le> used_size s"
    using f by simp_all
qed

lemma keeps_release_col: "fold_opt release_col_step is s = Some s' \<Longrightarrow> keeps s s'"
  by (erule keeps_fold_opt) (auto simp: release_col_step_def bind_eq_Some_conv)

lemma remove_unused_ok:
  assumes "remove_unused_frame_from_dpb s = Some (b, s')" "dpb_ok s"
  shows "dpb_ok s'" "dpb_size s' = dpb_size s" "b \<Longrightarrow> used_size s' < used_size s" "\<not> b \<Longrightarrow> keeps s s'"
proof -
  obtain t r where t: "fold_opt release_col_step (used_fs s) s = Some t" "find_opt (unused_at t) [0..<used_size t] = Some r"
    using assms(1) by (auto simp: remove_unused_frame_from_dpb_def elim!: bind_SomeE)
  have k: "keeps s t"
    by (rule keeps_release_col [OF t(1)])
  have "dpb_ok s' \<and> dpb_size s' = dpb_size s \<and> (b \<longrightarrow> used_size s' < used_size s) \<and> (\<not> b \<longrightarrow> keeps s s')"
  proof (cases r)
    case None
    then show ?thesis
      using assms t k keeps_dpb_ok [OF k] by (simp add: remove_unused_frame_from_dpb_def keeps_def)
  next
    case (Some pos)
    then have pos: "pos < used_size t" "unused_at t pos = Some True"
      using find_opt_Some t(2) by fastforce+
    then obtain i where i: "fs_at t pos = Some i"
      by (auto simp: unused_at_def bind_eq_Some_conv)
    define u where "u = upd_fs i (\<lambda>f. f\<lparr>fs_buf_spec_num := - 1\<rparr>)
      (release_buf_spec_num (fs_buf_spec_num (mFrameStore t i)) t)"
    have r: "remove_frame_from_dpb pos u = Some s'" "b"
      using assms(1) t Some i by (auto simp: remove_unused_frame_from_dpb_def Let_def u_def bind_eq_Some_conv)
    have ku: "keeps s u"
      using k by (simp add: u_def)
    have pu: "pos < used_size u"
      using pos ku k by (simp add: keeps_def)
    show ?thesis
      using remove_frame_ok [OF r(1) keeps_dpb_ok [OF ku assms(2)] pu] remove_frame_fields [OF r(1)] ku r(2) pu
      by (auto simp: keeps_def)
  qed
  then show "dpb_ok s'" "dpb_size s' = dpb_size s" "b \<Longrightarrow> used_size s' < used_size s" "\<not> b \<Longrightarrow> keeps s s'"
    by simp_all
qed

lemma remove_all_unused_ok:
  assumes "remove_all_unused s = Some s'" "dpb_ok s"
  shows "dpb_ok s' \<and> dpb_size s' = dpb_size s \<and> used_size s' \<le> used_size s"
  using assms
proof (induction "used_size s" arbitrary: s rule: less_induct)
  case less
  obtain b t where t: "remove_unused_frame_from_dpb s = Some (b, t)" "(if b then remove_all_unused t else Some t) = Some s'"
    using less.prems(1) by (subst (asm) remove_all_unused.simps) (auto elim!: bind_SomeE)
  note ok = remove_unused_ok [OF t(1) less.prems(2)]
  show ?case
    using less.hyps [of t] t(2) ok by (cases b) (auto simp: keeps_def)
qed

text \<open>An operation that may remove stores: the buffer stays in order and does not grow.\<close>

definition shrinks :: "h264_dpb \<Rightarrow> h264_dpb \<Rightarrow> bool" where
  "shrinks s s' \<longleftrightarrow> (dpb_ok s \<longrightarrow> dpb_ok s' \<and> dpb_size s' = dpb_size s \<and> used_size s' \<le> used_size s)"

named_theorems shrinks_rules \<open>operations that keep the buffer in order\<close>

lemma shrinks_trans: "shrinks s t \<Longrightarrow> shrinks t u \<Longrightarrow> shrinks s u"
  by (auto simp: shrinks_def)

lemma keeps_shrinks: "keeps s s' \<Longrightarrow> shrinks s s'"
  by (simp add: shrinks_def keeps_def dpb_ok_def)

lemma shrinks_refl [simp]: "shrinks s s"
  by (simp add: keeps_shrinks)

lemma shrinks_remove_all [shrinks_rules]: "remove_all_unused s = Some s' \<Longrightarrow> shrinks s s'"
  by (auto simp: shrinks_def dest: remove_all_unused_ok)

lemma shrinks_remove_unused [shrinks_rules]: "remove_unused_frame_from_dpb s = Some (b, s') \<Longrightarrow> shrinks s s'"
  using remove_unused_ok [of s b s'] by (cases b) (auto simp: shrinks_def keeps_def)

lemma shrinks_update [simp]:
  "shrinks s (t\<lparr>last_output_poc := poc\<rparr>) = shrinks s t" "shrinks s (t\<lparr>last_picture := lp\<rparr>) = shrinks s t"
  "shrinks s (t\<lparr>mVideo := v\<rparr>) = shrinks s t" "shrinks s (t\<lparr>first_insert_frame := fi\<rparr>) = shrinks s t"
  "shrinks s (t\<lparr>max_long_term_pic_idx := mx\<rparr>) = shrinks s t" "shrinks s (upd_pic i g t) = shrinks s t"
  by (simp_all add: shrinks_def dpb_ok_def upd_pic_def)

lemmas keeps_shrinks_rules [shrinks_rules] = keeps_rules [THEN keeps_shrinks]

lemma shrinks_flush [shrinks_rules]: "flush_dpb disp s = Some s' \<Longrightarrow> shrinks s s'"
proof (cases "init_done s")
  case True
  assume "flush_dpb disp s = Some s'"
  then obtain t u v where t: "fold_opt unmark_for_reference (used_fs s) s = Some t" "remove_all_unused t = Some u"
    "output_all disp True u = Some v" "s' = v\<lparr>last_output_poc := INT_MIN\<rparr>"
    using True by (auto simp: flush_dpb_def elim!: bind_SomeE)
  have "keeps s t"
    by (rule keeps_fold_opt [OF t(1)]) (rule keeps_unmark_for_reference)
  then show ?thesis
    using t by (auto dest!: shrinks_rules keeps_shrinks intro: shrinks_trans)
qed (simp add: flush_dpb_def)

lemma keeps_idr_drop_step: "idr_drop_step pos s = Some s' \<Longrightarrow> keeps s s'"
  by (auto simp: idr_drop_step_def set_frame_output_flag_def bind_eq_Some_conv split: if_splits dest!: keeps_rules
      intro: keeps_trans)

lemma shrinks_idr [shrinks_rules]: "idr_memory_management disp p s = Some s' \<Longrightarrow> shrinks s s'"
proof -
  assume "idr_memory_management disp p s = Some s'"
  then obtain t u v where t: "(if pic_no_output_of_prior_pics_flag (m_PIC s p) then fold_opt idr_drop_step [0..<used_size s] s
      else flush_dpb disp s) = Some t" "update_ref_list (t\<lparr>last_picture := None\<rparr>) = Some u" "update_ltref_list u = Some v"
    "shrinks v s'"
    unfolding idr_memory_management_def Let_def by (auto elim!: bind_SomeE)
  have "shrinks s t"
    using t(1) by (auto split: if_splits dest: shrinks_rules keeps_fold_opt intro: keeps_shrinks keeps_idr_drop_step)
  moreover have "shrinks t u"
    using keeps_trans [OF _ keeps_update_ref_list [OF t(2)], of t] by (simp add: keeps_shrinks)
  ultimately show ?thesis
    using keeps_shrinks [OF keeps_update_ltref_list [OF t(3)]] t(4) by (meson shrinks_trans)
qed

lemma keeps_sliding [keeps_rules]: "sliding_window_memory_management p s = Some s' \<Longrightarrow> keeps s s'"
  by (auto simp: sliding_window_memory_management_def Let_def bind_eq_Some_conv split: if_splits option.splits
      dest!: keeps_rules intro: keeps_trans)

lemma shrinks_adaptive [shrinks_rules]: "adaptive_memory_management disp p s = Some s' \<Longrightarrow> shrinks s s'"
proof -
  assume "adaptive_memory_management disp p s = Some s'"
  then obtain t where t: "adaptive_ops p (pic_dec_ref_pic_marking_buffer (m_PIC s p))
      (s\<lparr>mVideo := (mVideo s)\<lparr>last_has_mmco_5 := False\<rparr>\<rparr>) = Some t"
    "(if last_has_mmco_5 (mVideo t) then flush_dpb disp (upd_pic p mmco5_pic t) else Some t) = Some s'"
    unfolding adaptive_memory_management_def Let_def by (auto elim!: bind_SomeE)
  have "shrinks s t"
    using keeps_adaptive_ops [OF t(1)] keeps_upd(12) keeps_shrinks keeps_trans keeps_refl by metis
  moreover have "shrinks t s'"
    using t(2) shrinks_flush [of disp "upd_pic p mmco5_pic t" s']
    by (auto split: if_splits simp: shrinks_def dpb_ok_def upd_pic_def)
  ultimately show ?thesis
    by (rule shrinks_trans)
qed

lemma shrinks_bufmgr_remove [shrinks_rules]: "bufmgr_h264_remove_unused_frame fl s = Some s' \<Longrightarrow> shrinks s s'"
proof -
  assume a: "bufmgr_h264_remove_unused_frame fl s = Some s'"
  have one: "shrinks t t'" if "unmark_one_out_frame t = Some (b, t')" for t b t'
  proof -
    have "keeps t (snd (b, t'))"
      by (rule fold_opt_invariant [OF that [unfolded unmark_one_out_frame_def], of "\<lambda>x. keeps t (snd x)"])
        (auto simp: unmark_if_output_def split: if_splits intro: keeps_trans [OF _ keeps_unmark_for_reference])
    then show ?thesis
      by (simp add: keeps_shrinks)
  qed
  have err: "shrinks t t'" if "unmark_one_error_out_frame t = Some (b, t')" for t b t'
    using that by (auto simp: unmark_one_error_out_frame_def split: option.splits dest: keeps_rules intro: keeps_shrinks)
  show ?thesis
    using a unfolding bufmgr_h264_remove_unused_frame_def
    by (auto split: if_splits elim!: bind_SomeE dest!: shrinks_rules one err) (meson shrinks_trans)+
qed

lemma shrinks_store_mark [shrinks_rules]: "store_mark disp p s = Some s' \<Longrightarrow> shrinks s s'"
proof -
  assume a: "store_mark disp p s = Some s'"
  define t where "t = s\<lparr>mVideo := (mVideo s)\<lparr>last_has_mmco_5 := False,
            last_pic_bottom_field := (pic_structure (m_PIC s p) = BOTTOM_FIELD)\<rparr>\<rparr>"
  have "shrinks t s'"
    using a unfolding store_mark_def Let_def t_def [symmetric]
    by (auto split: if_splits elim!: bind_SomeE dest: shrinks_rules)
  then show ?thesis
    by (auto simp: t_def shrinks_def dpb_ok_def)
qed

lemma shrinks_second_field: "store_second_field disp l p d s = Some (r, s') \<Longrightarrow> shrinks s s'"
proof -
  assume "store_second_field disp l p d s = Some (r, s')"
  then obtain t u v where t: "insert_picture_in_dpb l p d s = Some t" "update_ref_list t = Some u" "update_ltref_list u = Some v"
    "(if first_insert_frame v = FirstInsertFrm_IDLE then output_all disp False (v\<lparr>last_picture := None\<rparr>)
      else Some (v\<lparr>last_picture := None\<rparr>)) = Some s'"
    unfolding store_second_field_def Let_def by (auto elim!: bind_SomeE)
  have "keeps v s'"
    using t(4) keeps_output_all keeps_upd(11) keeps_refl keeps_trans by (metis option.inject)
  then show ?thesis
    using t(1-3) by (auto dest!: keeps_rules intro: keeps_trans keeps_shrinks)
qed

lemma keeps_duplicate_scan: "duplicate_scan p is s = Some (b, s') \<Longrightarrow> keeps s s'"
proof (induction p "is" s rule: duplicate_scan.induct)
  case (2 p i "is" s)
  show ?case
  proof (cases "\<exists>j t u. dpb_fs_ref s ! i = Some j \<and> unmark_for_reference j s = Some t \<and> update_ref_list t = Some u \<and>
      duplicate_scan p is u = Some (b, s') \<and> fs_frame_num (mFrameStore s j) = pic_frame_num (m_PIC s p) \<and>
      fs_dpb_frame_count (mFrameStore s j) \<noteq> dpb_frame_count s \<and> i < ref_frames_in_buffer s \<and> i < length (dpb_fs_ref s)")
    case True
    then obtain j t u where j: "dpb_fs_ref s ! i = Some j" "unmark_for_reference j s = Some t" "update_ref_list t = Some u"
      "duplicate_scan p is u = Some (b, s')" "fs_frame_num (mFrameStore s j) = pic_frame_num (m_PIC s p)"
      "fs_dpb_frame_count (mFrameStore s j) \<noteq> dpb_frame_count s" "i < ref_frames_in_buffer s" "i < length (dpb_fs_ref s)"
      by blast
    have "keeps u s'"
      by (rule "2.IH"(2) [OF _ _ _ j(5,6,2,3,4)]) (use j in simp_all)
    then show ?thesis
      using keeps_unmark_for_reference [OF j(2)] keeps_update_ref_list [OF j(3)] by (meson keeps_trans)
  next
    case False
    then show ?thesis
      using 2 by (auto split: if_splits option.splits elim!: bind_SomeE)
  qed
qed (auto split: if_splits)

lemma keeps_conceal_step: "conceal_step pos s = Some s' \<Longrightarrow> keeps s s'"
  by (auto simp: conceal_step_def bind_eq_Some_conv)

lemma store_at_end_ok:
  assumes "store_at_end disp p d s = Some (r, s')" "dpb_ok s"
  shows "dpb_ok s' \<and> dpb_size s' = dpb_size s \<and> used_size s' \<le> used_size s + 1 \<and>
    (r = 0 \<longrightarrow> used_size s' = used_size s + 1) \<and> (r = 0 \<or> r = - 1 \<and> s' = s)"
proof (cases "used_size s \<ge> dpb_size s")
  case False
  define fld where "fld (x :: StorablePicture) = (if pic_structure x \<noteq> FRAME then Some (dpb_fs s ! used_size s) else None)" for x
  have i: "fs_at s (used_size s) = Some (dpb_fs s ! used_size s)"
    using False dpb_ok_length [OF assms(2)] by (simp add: fs_at_def)
  have eq: "store_at_end disp p d s = do {
        s \<leftarrow> insert_picture_in_dpb (dpb_fs s ! used_size s) p d s;
        let s = (if pic_idr_flag (m_PIC s p) then s\<lparr>mVideo := (mVideo s)\<lparr>earlier_missing_poc := 0\<rparr>\<rparr> else s);
        let s = s\<lparr>last_picture := fld (m_PIC s p), used_size := used_size s + 1\<rparr>;
        s \<leftarrow> update_ref_list s;
        s \<leftarrow> update_ltref_list s;
        let fast = (fast_output_enable s = 8);
        s \<leftarrow> (if fast \<or> first_insert_frame s \<noteq> FirstInsertFrm_SKIPDONE then output_all disp fast s else Some s);
        Some (0, s\<lparr>first_pic_done := True\<rparr>)
      }"
    unfolding store_at_end_def fld_def using False i by simp
  obtain t u v w where t: "insert_picture_in_dpb (dpb_fs s ! used_size s) p d s = Some t"
    and u: "update_ref_list ((if pic_idr_flag (m_PIC t p) then t\<lparr>mVideo := (mVideo t)\<lparr>earlier_missing_poc := 0\<rparr>\<rparr> else t)
       \<lparr>last_picture := fld (m_PIC t p), used_size := used_size t + 1\<rparr>) = Some u"
    and v: "update_ltref_list u = Some v"
    and w: "(if fast_output_enable v = 8 \<or> first_insert_frame v \<noteq> FirstInsertFrm_SKIPDONE
       then output_all disp (fast_output_enable v = 8) v else Some v) = Some w"
    and r: "r = 0" "s' = w\<lparr>first_pic_done := True\<rparr>"
    using assms(1) unfolding eq Let_def by (auto elim!: bind_SomeE split: if_splits)
  have kw: "keeps v w"
    using w by (auto split: if_splits dest: keeps_rules)
  have ku: "dpb_fs u = dpb_fs t" "dpb_size u = dpb_size t" "used_size u = used_size t + 1"
    using keeps_update_ref_list [OF u] by (auto simp: keeps_def)
  show ?thesis
    using keeps_insert_picture [OF t] ku keeps_update_ltref_list [OF v] kw r assms(2) False
    by (simp add: keeps_def dpb_ok_def)
qed (use assms in \<open>simp add: store_at_end_def\<close>)

lemma store_new_ok:
  assumes "store_new disp p d s = Some (r, s')" "dpb_ok s"
  shows "dpb_ok s' \<and> dpb_size s' = dpb_size s \<and> used_size s' \<le> used_size s + 1"
proof -
  define sl where "sl = (if \<not> pic_idr_flag (m_PIC s p) \<and> pic_used_for_reference (m_PIC s p) \<and>
             \<not> pic_adaptive_ref_pic_buffering_flag (m_PIC s p)
          then sliding_window_memory_management p s else Some s)"
  obtain t u v w b x where t: "sl = Some t"
    "(if conceal_mode (mVideo t) \<noteq> 0 then fold_opt conceal_step [0..<dpb_size t] t else Some t) = Some u"
    "remove_all_unused u = Some v" "output_all disp False v = Some w"
    "(if pic_used_for_reference (m_PIC w p) \<and> \<not> pic_is_long_term (m_PIC w p)
        then duplicate_scan p [0..<DPB_SIZE_MAX] w else Some (False, w)) = Some (b, x)"
    "(if b then Some (- 2, x) else store_at_end disp p d x) = Some (r, s')"
    using assms(1) unfolding store_new_def sl_def [symmetric] by (auto elim!: bind_SomeE)
  have "keeps s t"
    using t(1) by (auto simp: sl_def split: if_splits dest: keeps_rules)
  moreover have "keeps t u"
    using t(2) by (auto split: if_splits elim: keeps_fold_opt keeps_conceal_step)
  moreover have "keeps w x"
    using t(5) by (auto split: if_splits dest: keeps_duplicate_scan)
  ultimately have "shrinks s x"
    using shrinks_remove_all [OF t(3)] keeps_shrinks [OF keeps_output_all [OF t(4)]] by (meson shrinks_trans keeps_shrinks)
  then show ?thesis
    using t(6) assms(2) store_at_end_ok [of disp p d x r s'] by (auto simp: shrinks_def split: if_splits)
qed

lemma store_picture_ok:
  assumes "store_picture_in_dpb disp p d s = Some (r, s')" "dpb_ok s"
  shows "dpb_ok s' \<and> dpb_size s' = dpb_size s \<and> used_size s' \<le> used_size s + 1"
proof -
  obtain t where t: "store_mark disp p s = Some t"
    "(case second_field_of_last p t of Some l \<Rightarrow> store_second_field disp l p d t | None \<Rightarrow> store_new disp p d t) = Some (r, s')"
    using assms(1) by (auto simp: store_picture_in_dpb_def elim!: bind_SomeE)
  have m: "dpb_ok t" "dpb_size t = dpb_size s" "used_size t \<le> used_size s"
    using shrinks_store_mark [OF t(1)] assms(2) by (simp_all add: shrinks_def)
  show ?thesis
  proof (cases "second_field_of_last p t")
    case None
    then show ?thesis
      using t(2) m store_new_ok [of disp p d t r s'] by auto
  next
    case (Some l)
    then show ?thesis
      using t(2) m shrinks_second_field [of disp l p d t r s'] by (auto simp: shrinks_def)
  qed
qed


lemma init_dpb_ok:
  assumes "init_dpb s = Some s'"
  shows "dpb_ok s' \<and> used_size s' = 0 \<and> dpb_size s' = dpb_size s"
proof -
  have step: "dpb_fs (fold init_fs_step is t) = dpb_fs t \<and> used_size (fold init_fs_step is t) = used_size t \<and>
      dpb_size (fold init_fs_step is t) = dpb_size t" for "is" t
    by (induction "is" arbitrary: t) (simp_all add: init_fs_step_def)
  have new: "dpb_fs t' = dpb_fs t \<and> used_size t' = used_size t \<and> dpb_size t' = dpb_size t"
    if "get_new_pic FRAME t = (q, t')" for t q t'
    using keeps_get_new_pic [OF that] by (simp add: keeps_def)
  have p: "dpb_fs (upd_pic i g t) = dpb_fs t" "used_size (upd_pic i g t) = used_size t"
    "dpb_size (upd_pic i g t) = dpb_size t" for i g t
    by (simp_all add: upd_pic_def)
  show ?thesis
    using assms
    by (auto simp: init_dpb_def Let_def step p init_colocate_buf_def dpb_ok_def atLeast0LessThan
        split: if_splits option.splits prod.splits elim!: bind_SomeE dest!: new)
qed

text \<open>The buffer during decoding. Between the calls the driver may change everything but the
  pointers of the buffer.\<close>

inductive dpb_run :: "h264_dpb \<Rightarrow> bool" where
  run_init: "init_dpb s = Some s' \<Longrightarrow> dpb_run s'"
| run_env: "dpb_run s \<Longrightarrow> keeps s s' \<Longrightarrow> dpb_run s'"
| run_store: "dpb_run s \<Longrightarrow> store_picture_in_dpb disp p d s = Some (r, s') \<Longrightarrow> dpb_run s'"
| run_flush: "dpb_run s \<Longrightarrow> flush_dpb disp s = Some s' \<Longrightarrow> dpb_run s'"
| run_remove: "dpb_run s \<Longrightarrow> bufmgr_h264_remove_unused_frame f s = Some s' \<Longrightarrow> dpb_run s'"
| run_output: "dpb_run s \<Longrightarrow> output_frames disp fl s = Some (b, s') \<Longrightarrow> dpb_run s'"

inductive_cases dpb_runE: "dpb_run s"

lemma dpb_run_ok: "dpb_run s \<Longrightarrow> dpb_ok s"
proof (induction rule: dpb_run.induct)
  case (run_flush s disp s')
  then show ?case
    using shrinks_flush [OF run_flush(2)] by (simp add: shrinks_def)
next
  case (run_remove s f s')
  then show ?case
    using shrinks_bufmgr_remove [OF run_remove(2)] by (simp add: shrinks_def)
qed (auto dest: init_dpb_ok keeps_dpb_ok store_picture_ok intro: keeps_output_frames keeps_dpb_ok)

section \<open>A small buffer, for the examples\<close>

definition demo_pic :: StorablePicture where
  "demo_pic = \<lparr>pic_index = 0, pic_is_used = False, pic_structure = FRAME, pic_poc = 0, pic_top_poc = 0,
     pic_bottom_poc = 0, pic_frame_poc = 0, pic_frame_num = 0, pic_pic_num = 0, pic_buf_spec_num = 0,
     pic_buf_spec_is_alloced = True, pic_col_buf_is_alloced = True, pic_colocated_buf_index = 0,
     pic_long_term_pic_num = 0, pic_long_term_frame_idx = 0, pic_is_long_term = False,
     pic_used_for_reference = True, pic_is_output = False, pic_pre_output = False, pic_non_existing = False,
     pic_coded_frame = True, pic_mb_aff_frame_flag = False, pic_top_field = None, pic_bottom_field = None,
     pic_frame = None, pic_slice_type = 0, pic_idr_flag = False, pic_no_output_of_prior_pics_flag = False,
     pic_long_term_reference_flag = False, pic_adaptive_ref_pic_buffering_flag = False,
     pic_frame_mbs_only_flag = True, pic_dec_ref_pic_marking_buffer = [], pic_data_flag = 0\<rparr>"

definition demo_fs :: FrameStore where
  "demo_fs = \<lparr>fs_buf_spec_num = 0, fs_colocated_buf_index = - 1, fs_is_used = 0, fs_is_reference = 0,
     fs_is_long_term = 0, fs_is_orig_reference = 0, fs_frame_num = 0, fs_frame_num_wrap = 0,
     fs_long_term_frame_idx = 0, fs_is_output = False, fs_pre_output = False, fs_index = 0, fs_data_flag = 0,
     fs_poc = 0, fs_concealment_reference = False, fs_frame = None, fs_top_field = None, fs_bottom_field = None,
     fs_dpb_frame_count = 0, fs_show_frame = False\<rparr>"

definition demo_dpb :: h264_dpb where
  "demo_dpb = \<lparr>m_PIC = (\<lambda>i. demo_pic\<lparr>pic_index := int i\<rparr>), mFrameStore = (\<lambda>i. demo_fs), dpb_fs = [],
     dpb_fs_ref = [], dpb_fs_ltref = [], dpb_size = 3, used_size = 0, ref_frames_in_buffer = 0,
     ltref_frames_in_buffer = 0, last_output_poc = 0, max_long_term_pic_idx = 0, init_done = False,
     first_pic_done = False, dpb_num_ref_frames = 2, last_picture = None, mSlice = demo_slice,
     mVideo = demo_video, mSPS = demo_sps, no_reference_picture = None, max_reference_size = 4,
     colocated_buf_map = 0, colocated_buf_count = 0, reorder_output = 1, fast_output_enable = 0,
     poc_even_odd_flag = 0, decode_pic_count = 0, first_insert_frame = FirstInsertFrm_SKIPDONE,
     first_output_poc = 0, without_display_mode = False, dpb_error_flag = 0, buf_alloc_fail = False,
     dpb_frame_count = 0, vdec_calls = []\<rparr>"

text \<open>The driver displays the frame.\<close>

definition demo_disp :: "h264_dpb \<Rightarrow> nat \<Rightarrow> int \<times> FrameStore" where
  "demo_disp s i = (0, (mFrameStore s i)\<lparr>fs_show_frame := True\<rparr>)"

text \<open>C15. While the buffer is used, its pointers stay a permutation of the frame stores and
  no more than \<open>size\<close>, at most 32, are in use: initialisation, storing a picture, flushing,
  removal and output never lose a frame store or hold one twice, whatever the driver does to the
  other fields in between.\<close>

theorem dpb_pointers_stay_permutation:
  assumes "dpb_run s"
  shows "mset (dpb_fs s) = mset [0..<dpb_size s] \<and> used_size s \<le> dpb_size s \<and> dpb_size s \<le> 32"
proof -
  have ok: "dpb_ok s"
    using assms by (rule dpb_run_ok)
  have "mset (dpb_fs s) = mset [0..<dpb_size s]"
    using ok set_eq_iff_mset_eq_distinct [of "dpb_fs s" "[0..<dpb_size s]"]
    by (simp add: dpb_ok_def atLeast0LessThan)
  then show ?thesis
    using ok by (simp add: dpb_ok_def DPB_SIZE_MAX_def)
qed

lemma demo_run: "\<exists>s'. init_dpb demo_dpb = Some s' \<and> dpb_run s' \<and> dpb_size s' = 3"
proof -
  have f: "find_free_pic s = Some 0" if "\<not> pic_is_used (m_PIC s 0)" for s
    using that upt_conv_Cons [of 0 128] by (simp add: find_free_pic_def MAX_PIC_BUF_NUM_def)
  have "\<exists>s'. init_dpb demo_dpb = Some s' \<and> dpb_size s' = 3"
    by (simp add: init_dpb_def demo_dpb_def Let_def DPB_SIZE_MAX_def init_fs_step_def get_new_pic_def f upd_fs_def
        demo_pic_def numeral_3_eq_3 init_colocate_buf_def upd_pic_def)
  then show ?thesis
    using run_init by blast
qed

theorem dpb_pointers_stay_permutation_witness:
  "\<exists>s. dpb_run s \<and> mset (dpb_fs s) = {#0, 1, 2#} \<and> used_size s \<le> 3"
proof -
  obtain s where s: "dpb_run s" "dpb_size s = 3"
    using demo_run by blast
  have "[0..<3] = [0, 1, 2 :: nat]"
    by (simp add: upt_conv_Cons)
  then show ?thesis
    using dpb_pointers_stay_permutation [OF s(1)] s by (intro exI [of _ s]) simp
qed

section \<open>Output\<close>

text \<open>What \<open>prepare_display_buf\<close> keeps to when it does not refuse a frame (a negative code):
  a frame that goes to the display has \<open>show_frame\<close> set, so \<open>output_frames\<close> marks it
  as output beforehand, and a frame that does not (an error, a frame not to be shown, no display)
  is put back at once by \<open>vh264_vf_put\<close>, which marks it as output. It may refuse any frame
  at any time.\<close>

definition settles :: "(h264_dpb \<Rightarrow> nat \<Rightarrow> int \<times> FrameStore) \<Rightarrow> bool \<Rightarrow> bool" where
  "settles disp no_display \<longleftrightarrow> (\<forall>s i. fst (disp s i) \<ge> 0 \<longrightarrow>
     (\<not> no_display \<and> fs_show_frame (snd (disp s i))) \<or> \<not> waiting (snd (disp s i)))"

text \<open>The search looks at the waiting stores with a count below \<open>INT_MAX\<close>.\<close>

definition waiting_fs :: "h264_dpb \<Rightarrow> nat list" where
  "waiting_fs s = filter (\<lambda>i. waiting (mFrameStore s i) \<and> fs_poc (mFrameStore s i) < INT_MAX) (used_fs s)"

text \<open>The search of the smallest count finds the first of the waiting stores with the least
  count.\<close>

definition first_least :: "(nat \<Rightarrow> int) \<Rightarrow> nat list \<Rightarrow> nat \<Rightarrow> bool" where
  "first_least key xs x \<longleftrightarrow> (\<exists>as bs. xs = as @ x # bs \<and> (\<forall>a\<in>set as. key x < key a) \<and> (\<forall>b\<in>set bs. key x \<le> key b))"

lemma smallest_poc_acc:
  "smallest_poc fs k (poc, pos) = (poc', pos') \<Longrightarrow>
    (poc' = poc \<and> pos' = pos \<and> (\<forall>f\<in>set fs. waiting f \<longrightarrow> poc \<le> fs_poc f)) \<or>
    (\<exists>j. pos' = Some (k + j) \<and> j < length fs \<and> waiting (fs ! j) \<and> poc' = fs_poc (fs ! j) \<and> poc' < poc \<and>
       (\<forall>i<length fs. waiting (fs ! i) \<longrightarrow> (if i < j then poc' < fs_poc (fs ! i) else poc' \<le> fs_poc (fs ! i))))"
proof (induction fs arbitrary: k poc pos)
  case (Cons f fs)
  show ?case
  proof (cases "poc > fs_poc f \<and> waiting f")
    case True
    then have "smallest_poc fs (k + 1) (fs_poc f, Some k) = (poc', pos')"
      using Cons.prems by simp
    from Cons.IH [OF this] show ?thesis
    proof
      assume a: "poc' = fs_poc f \<and> pos' = Some k \<and> (\<forall>g\<in>set fs. waiting g \<longrightarrow> fs_poc f \<le> fs_poc g)"
      then show ?thesis
        using True by (intro disjI2 exI [of _ 0]) (auto simp: less_Suc_eq_0_disj)
    next
      assume "\<exists>j. pos' = Some (k + 1 + j) \<and> j < length fs \<and> waiting (fs ! j) \<and> poc' = fs_poc (fs ! j) \<and> poc' < fs_poc f \<and>
        (\<forall>i<length fs. waiting (fs ! i) \<longrightarrow> (if i < j then poc' < fs_poc (fs ! i) else poc' \<le> fs_poc (fs ! i)))"
      then obtain j where "pos' = Some (k + 1 + j)" "j < length fs" "waiting (fs ! j)" "poc' = fs_poc (fs ! j)" "poc' < fs_poc f"
        "\<forall>i<length fs. waiting (fs ! i) \<longrightarrow> (if i < j then poc' < fs_poc (fs ! i) else poc' \<le> fs_poc (fs ! i))"
        by blast
      then show ?thesis
        using True by (intro disjI2 exI [of _ "Suc j"]) (auto simp: less_Suc_eq_0_disj)
    qed
  next
    case False
    then have "smallest_poc fs (k + 1) (poc, pos) = (poc', pos')"
      using Cons.prems unfolding smallest_poc.simps if_not_P [OF False] by simp
    from Cons.IH [OF this] show ?thesis
    proof
      assume "poc' = poc \<and> pos' = pos \<and> (\<forall>g\<in>set fs. waiting g \<longrightarrow> poc \<le> fs_poc g)"
      then show ?thesis
        using False by (intro disjI1) auto
    next
      assume "\<exists>j. pos' = Some (k + 1 + j) \<and> j < length fs \<and> waiting (fs ! j) \<and> poc' = fs_poc (fs ! j) \<and> poc' < poc \<and>
        (\<forall>i<length fs. waiting (fs ! i) \<longrightarrow> (if i < j then poc' < fs_poc (fs ! i) else poc' \<le> fs_poc (fs ! i)))"
      then obtain j where "pos' = Some (k + 1 + j)" "j < length fs" "waiting (fs ! j)" "poc' = fs_poc (fs ! j)" "poc' < poc"
        "\<forall>i<length fs. waiting (fs ! i) \<longrightarrow> (if i < j then poc' < fs_poc (fs ! i) else poc' \<le> fs_poc (fs ! i))"
        by blast
      then show ?thesis
        using False by (intro disjI2 exI [of _ "Suc j"]) (auto simp: less_Suc_eq_0_disj)
    qed
  qed
qed simp

lemma sort_key_first_least:
  assumes "first_least key xs x"
  shows "sort_key key xs = x # sort_key key (remove1 x xs)"
proof -
  obtain as bs where x: "xs = as @ x # bs" "\<forall>a\<in>set as. key x < key a" "\<forall>b\<in>set bs. key x \<le> key b"
    using assms unfolding first_least_def by blast
  have n: "x \<notin> set as"
    using x(2) by blast
  then have r: "remove1 x xs = as @ bs"
    by (simp add: x(1) remove1_append)
  show ?thesis
    unfolding r
  proof (rule properties_for_sort_key)
    show "mset (x # sort_key key (as @ bs)) = mset xs"
      by (simp add: x(1))
    show "sorted (map key (x # sort_key key (as @ bs)))"
      using x(2,3) by auto
    fix k
    have "filter (\<lambda>y. key k = key y) as = []" if "key k = key x"
      using that x(2) by (auto simp: filter_empty_conv)
    moreover have "filter (\<lambda>y. key k = key y) (sort_key key (as @ bs)) = filter (\<lambda>y. key k = key y) (as @ bs)"
      using sort_key_stable [of key "key k" "as @ bs"] by (simp only: eq_commute [of "key k"])
    ultimately show "filter (\<lambda>y. key k = key y) (x # sort_key key (as @ bs)) = filter (\<lambda>y. key k = key y) xs"
      by (cases "key k = key x") (simp_all add: x(1))
  qed
qed

lemma used_fs_nth:
  "used_size s \<le> length (dpb_fs s) \<Longrightarrow> pos < used_size s \<Longrightarrow> fs_at s pos = Some (used_fs s ! pos) \<and> pos < length (used_fs s)"
  by (simp add: fs_at_def used_fs_def)

lemma get_smallest_poc_None:
  assumes "get_smallest_poc s = (poc, None)"
  shows "waiting_fs s = []"
  using smallest_poc_acc [OF assms [unfolded get_smallest_poc_def]]
  by (fastforce simp: waiting_fs_def filter_empty_conv)

lemma get_smallest_poc_Some:
  assumes "get_smallest_poc s = (poc, Some pos)" "used_size s \<le> length (dpb_fs s)"
  shows "\<exists>i. fs_at s pos = Some i \<and> poc = fs_poc (mFrameStore s i) \<and>
     first_least (\<lambda>i. fs_poc (mFrameStore s i)) (waiting_fs s) i"
proof -
  let ?u = "used_fs s" and ?key = "\<lambda>i. fs_poc (mFrameStore s i)"
  let ?w = "\<lambda>i. waiting (mFrameStore s i) \<and> ?key i < INT_MAX"
  have l: "length ?u = used_size s"
    using assms(2) by (simp add: used_fs_def)
  have r: "pos < length ?u" "?w (?u ! pos)" "poc = ?key (?u ! pos)"
    "\<And>i. i < length ?u \<Longrightarrow> ?w (?u ! i) \<Longrightarrow> (if i < pos then poc < ?key (?u ! i) else poc \<le> ?key (?u ! i))"
    using smallest_poc_acc [OF assms(1) [unfolded get_smallest_poc_def]] by auto
  have split: "waiting_fs s = filter ?w (take pos ?u) @ ?u ! pos # filter ?w (drop (Suc pos) ?u)"
    unfolding waiting_fs_def by (subst id_take_nth_drop [OF r(1)]) (simp add: r(2))
  have "?key (?u ! pos) < ?key a" if "a \<in> set (filter ?w (take pos ?u))" for a
  proof -
    have "a \<in> set (take pos ?u)"
      using that by simp
    then obtain k where k: "k < length (take pos ?u)" "a = take pos ?u ! k"
      by (metis in_set_conv_nth)
    then show ?thesis
      using that r(3) r(4) [of k] by simp
  qed
  moreover have "?key (?u ! pos) \<le> ?key b" if "b \<in> set (filter ?w (drop (Suc pos) ?u))" for b
  proof -
    have "b \<in> set (drop (Suc pos) ?u)"
      using that by simp
    then obtain k where k: "k < length (drop (Suc pos) ?u)" "b = drop (Suc pos) ?u ! k"
      by (metis in_set_conv_nth)
    then show ?thesis
      using that r(3) r(4) [of "Suc pos + k"] by simp
  qed
  ultimately have "first_least ?key (waiting_fs s) (?u ! pos)"
    unfolding first_least_def split by blast
  then show ?thesis
    using used_fs_nth [OF assms(2), of pos] r(1,3) l by auto
qed

lemma first_least_mem: "first_least key xs x \<Longrightarrow> x \<in> set xs"
  by (auto simp: first_least_def)

lemma first_least_cong:
  "first_least key xs x \<Longrightarrow> (\<And>y. y \<in> set xs \<Longrightarrow> key' y = key y) \<Longrightarrow> first_least key' xs x"
  unfolding first_least_def by (elim exE conjE) (intro exI conjI, assumption, auto)

text \<open>One picture is offered: the first of those with the least count. Either the driver
  refuses it, and the loop ends, or it waits no longer. The other stores stay.\<close>

lemma first_out_step_fs:
  "waiting (mFrameStore (first_out_step i s) j) = waiting (mFrameStore s j)"
  "fs_poc (mFrameStore (first_out_step i s) j) = fs_poc (mFrameStore s j)"
  "j \<noteq> i \<Longrightarrow> mFrameStore (first_out_step i s) j = mFrameStore s j"
  "vdec_calls (first_out_step i s) = vdec_calls s"
  "without_display_mode (first_out_step i s) = without_display_mode s"
  by (simp_all add: first_out_step_def upd_fs_def waiting_def)

lemma output_one_first_least:
  assumes d: "settles disp (without_display_mode s)"
    and l: "used_size s \<le> length (dpb_fs s)" and u: "distinct (used_fs s)"
    and ne: "waiting_fs s \<noteq> []"
  shows "\<exists>i t go u. output_one disp s = Some (go, t) \<and> keeps s t \<and>
     without_display_mode t = without_display_mode s \<and>
     first_least (\<lambda>i. fs_poc (mFrameStore s i)) (waiting_fs s) i \<and>
     vdec_calls t = vdec_calls s @ [Prepare_Display i (fs_poc (mFrameStore s i))] \<and>
     (\<forall>j. j \<noteq> i \<longrightarrow> mFrameStore t j = mFrameStore s j) \<and>
     (if go then fst (disp u i) \<ge> 0 \<and> \<not> waiting (mFrameStore t i) else fst (disp u i) < 0)"
proof -
  obtain poc p where p: "get_smallest_poc s = (poc, p)"
    by (cases "get_smallest_poc s")
  then obtain pos where pos: "p = Some pos"
    using get_smallest_poc_None ne by (cases p) auto
  obtain i where i: "fs_at s pos = Some i" "poc = fs_poc (mFrameStore s i)"
    "first_least (\<lambda>i. fs_poc (mFrameStore s i)) (waiting_fs s) i"
    using get_smallest_poc_Some [OF p [unfolded pos] l] by blast
  define t1 where "t1 = first_out_step i s"
  define f where "f = snd (disp t1 i)"
  define t2 where "t2 = upd_fs i (\<lambda>_. f) (t1\<lparr>vdec_calls := vdec_calls t1 @ [Prepare_Display i poc]\<rparr>)"
  have wd: "without_display_mode t2 = without_display_mode s"
    "vdec_calls t2 = vdec_calls s @ [Prepare_Display i poc]" "mFrameStore t2 i = f"
    "\<And>j. j \<noteq> i \<Longrightarrow> mFrameStore t2 j = mFrameStore s j"
    by (simp_all add: t2_def t1_def upd_fs_def first_out_step_fs)
  have one: "output_one disp s = (if fst (disp t1 i) \<ge> 0
     then Some (True, (if \<not> without_display_mode t2 \<and> fs_show_frame f
            then upd_fs i (\<lambda>f. f\<lparr>fs_pre_output := True\<rparr>) t2 else t2)\<lparr>last_output_poc := poc\<rparr>)
     else Some (False, t2))"
    unfolding output_one_Some [OF p [unfolded pos] i(1)] Let_def t1_def [symmetric] f_def [symmetric] t2_def [symmetric]
    by (simp add: case_prod_beta)
  show ?thesis
  proof (cases "fst (disp t1 i) \<ge> 0")
    case True
    define t where "t = (if \<not> without_display_mode t2 \<and> fs_show_frame f
            then upd_fs i (\<lambda>f. f\<lparr>fs_pre_output := True\<rparr>) t2 else t2)\<lparr>last_output_poc := poc\<rparr>"
    have o: "output_one disp s = Some (True, t)"
      using one True by (simp add: t_def)
    have "\<not> without_display_mode s \<and> fs_show_frame f \<or> \<not> waiting f"
      using d True by (simp add: settles_def f_def)
    then have "\<not> waiting (mFrameStore t i)"
      by (auto simp: t_def upd_fs_def wd) (simp_all add: waiting_def)
    then show ?thesis
      using o keeps_output_one [OF o] i True wd
      by (intro exI [of _ i] exI [of _ t] exI [of _ True] exI [of _ t1]) (auto simp: t_def upd_fs_def)
  next
    case False
    then have o: "output_one disp s = Some (False, t2)"
      using one by simp
    then show ?thesis
      using keeps_output_one [OF o] i False wd
      by (intro exI [of _ i] exI [of _ t2] exI [of _ False] exI [of _ t1]) auto
  qed
qed

lemma output_one_idle:
  assumes "waiting_fs s = []" "used_size s \<le> length (dpb_fs s)"
  shows "output_one disp s = Some (False, s)"
proof -
  obtain poc p where p: "get_smallest_poc s = (poc, p)"
    by (cases "get_smallest_poc s")
  have "p = None"
    using get_smallest_poc_Some [of s poc] p assms by (cases p) (auto simp: first_least_def)
  then show ?thesis
    using p by (simp add: output_one_None)
qed

text \<open>The flush, with the counts \<open>key\<close> of the state it starts from: the pictures taken, the
  rest, and what it leaves.\<close>

definition flushed
  :: "(h264_dpb \<Rightarrow> nat \<Rightarrow> int \<times> FrameStore) \<Rightarrow> (nat \<Rightarrow> int) \<Rightarrow> h264_dpb \<Rightarrow> nat list \<Rightarrow> nat list \<Rightarrow> h264_dpb \<Rightarrow> bool" where
  "flushed disp key s taken rest t \<longleftrightarrow> used_fs t = used_fs s \<and>
     sort_key key (waiting_fs s) = taken @ rest \<and>
     vdec_calls t = vdec_calls s @ map (\<lambda>i. Prepare_Display i (key i)) (taken @ take 1 rest) \<and>
     (\<forall>i\<in>set taken. \<not> waiting (mFrameStore t i) \<and> (\<exists>u. fst (disp u i) \<ge> 0)) \<and>
     (rest \<noteq> [] \<longrightarrow> (\<exists>u. fst (disp u (hd rest)) < 0)) \<and>
     (\<forall>i. i \<notin> set taken \<and> i \<notin> set (take 1 rest) \<longrightarrow> mFrameStore t i = mFrameStore s i)"

lemma flushed_step:
  assumes "flushed disp key t taken rest u" "keeps s t"
    and "first_least key (waiting_fs s) i" "distinct (waiting_fs s)"
    and "waiting_fs t = remove1 i (waiting_fs s)"
    and "vdec_calls t = vdec_calls s @ [Prepare_Display i (key i)]"
    and "\<forall>j. j \<noteq> i \<longrightarrow> mFrameStore t j = mFrameStore s j"
    and "fst (disp v i) \<ge> 0" "\<not> waiting (mFrameStore t i)"
  shows "flushed disp key s (i # taken) rest u"
proof -
  have "set (taken @ rest) = set (remove1 i (waiting_fs s))"
    using assms(1,5) unfolding flushed_def by (metis set_sort)
  then have i: "i \<notin> set taken" "i \<notin> set (take 1 rest)"
    using assms(4) by (auto dest: in_set_takeD)
  then have "mFrameStore u i = mFrameStore t i"
    using assms(1) by (simp add: flushed_def)
  then show ?thesis
    using assms i sort_key_first_least [OF assms(3)] keeps_used_fs [OF assms(2)]
    unfolding flushed_def by auto
qed

lemma output_all_flush:
  assumes "settles disp (without_display_mode s)" "used_size s \<le> length (dpb_fs s)" "distinct (used_fs s)"
    and "\<forall>i\<in>set (waiting_fs s). fs_poc (mFrameStore s i) = key i"
  shows "\<exists>t taken rest. output_all disp True s = Some t \<and> flushed disp key s taken rest t"
  using assms
proof (induction "length (waiting_fs s)" arbitrary: s)
  case 0
  then have "output_all disp True s = Some s"
    by (subst output_all.simps) (simp add: output_frames_def output_one_idle)
  then show ?case
    using 0 by (intro exI [of _ s] exI [of _ "[]"]) (simp add: flushed_def)
next
  case (Suc n)
  then have ne: "waiting_fs s \<noteq> []"
    by auto
  have dw: "distinct (waiting_fs s)"
    using Suc.prems(3) by (simp add: waiting_fs_def)
  obtain i t go u where t: "output_one disp s = Some (go, t)" "keeps s t"
    "without_display_mode t = without_display_mode s"
    "first_least (\<lambda>i. fs_poc (mFrameStore s i)) (waiting_fs s) i"
    "vdec_calls t = vdec_calls s @ [Prepare_Display i (fs_poc (mFrameStore s i))]"
    "\<forall>j. j \<noteq> i \<longrightarrow> mFrameStore t j = mFrameStore s j"
    "if go then fst (disp u i) \<ge> 0 \<and> \<not> waiting (mFrameStore t i) else fst (disp u i) < 0"
    using output_one_first_least [OF Suc.prems(1,2,3) ne] by blast
  have fl: "first_least key (waiting_fs s) i"
    using first_least_cong [OF t(4)] Suc.prems(4) by simp
  have calls: "vdec_calls t = vdec_calls s @ [Prepare_Display i (key i)]"
    using t(5) Suc.prems(4) first_least_mem [OF t(4)] by simp
  show ?case
  proof (cases go)
    case True
    have "waiting_fs t = filter (\<lambda>j. j \<noteq> i) (waiting_fs s)"
      unfolding waiting_fs_def keeps_used_fs [OF t(2)] filter_filter
      using t(6,7) True by (intro filter_cong) auto
    then have w: "waiting_fs t = remove1 i (waiting_fs s)"
      using dw by (simp add: distinct_remove1_removeAll removeAll_filter_not_eq neq_commute)
    then have len: "n = length (waiting_fs t)"
      using Suc.hyps(2) first_least_mem [OF t(4)] by (simp add: length_remove1)
    have "\<forall>j\<in>set (waiting_fs t). fs_poc (mFrameStore t j) = key j"
      using w t(6) Suc.prems(4) dw by simp
    then have "\<exists>v taken rest. output_all disp True t = Some v \<and> flushed disp key t taken rest v"
      using Suc.prems t(2,3) by (intro Suc.hyps(1) len) (auto simp: keeps_def used_fs_def)
    then obtain v taken rest where v: "output_all disp True t = Some v" "flushed disp key t taken rest v"
      by blast
    have "flushed disp key s (i # taken) rest v"
      by (rule flushed_step [OF v(2) t(2) fl dw w calls t(6)]) (use t(7) True in auto)
    moreover have "output_all disp True s = Some v"
      using t(1) v(1) True by (subst output_all.simps) (simp add: output_frames_def)
    ultimately show ?thesis
      by blast
  next
    case False
    then have "output_all disp True s = Some t"
      using t(1) by (subst output_all.simps) (simp add: output_frames_def)
    moreover have "flushed disp key s [] (sort_key key (waiting_fs s)) t"
      using t(6,7) False calls keeps_used_fs [OF t(2)] sort_key_first_least [OF fl]
      by (auto simp: flushed_def)
    ultimately show ?thesis
      by blast
  qed
qed

text \<open>C13. Flushing the output of a well-formed buffer always ends. It offers the waiting pictures with a
  count below \<open>INT_MAX\<close> to the display in ascending picture order count, stores with equal counts
  in the order of the buffer, each once, up to and including the first that the driver
  refuses: the calls made are a prefix of the stable sort of the waiting stores by their count.
  The pictures taken wait no longer, whether they were displayed or put back, and every other
  store but the refused one is left as it was.\<close>

theorem output_all_ascending_poc:
  assumes "dpb_ok s" "settles disp (without_display_mode s)"
  shows "\<exists>t taken rest. output_all disp True s = Some t \<and> used_fs t = used_fs s \<and>
     sort_key (\<lambda>i. fs_poc (mFrameStore s i))
       (filter (\<lambda>i. waiting (mFrameStore s i) \<and> fs_poc (mFrameStore s i) < INT_MAX) (used_fs s)) = taken @ rest \<and>
     vdec_calls t = vdec_calls s @ map (\<lambda>i. Prepare_Display i (fs_poc (mFrameStore s i))) (taken @ take 1 rest) \<and>
     (\<forall>i\<in>set taken. \<not> waiting (mFrameStore t i) \<and> (\<exists>u. fst (disp u i) \<ge> 0)) \<and>
     (rest \<noteq> [] \<longrightarrow> (\<exists>u. fst (disp u (hd rest)) < 0)) \<and>
     (\<forall>i. i \<notin> set taken \<and> i \<notin> set (take 1 rest) \<longrightarrow> mFrameStore t i = mFrameStore s i)"
proof -
  have "used_size s \<le> length (dpb_fs s)" "distinct (used_fs s)"
    using assms(1) dpb_ok_length [OF assms(1)] by (simp_all add: dpb_ok_def used_fs_def)
  from output_all_flush [OF assms(2) this, of "\<lambda>i. fs_poc (mFrameStore s i)"] show ?thesis
    by (simp add: flushed_def waiting_fs_def)
qed


definition demo_full :: h264_dpb where
  "demo_full = demo_dpb\<lparr>dpb_fs := [2, 0, 1], used_size := 3,
     mFrameStore := (\<lambda>i. demo_fs\<lparr>fs_is_used := 3, fs_frame := Some i, fs_buf_spec_num := int i,
       fs_poc := (if i = 0 then 4 else if i = 1 then 2 else 6)\<rparr>)\<rparr>"

lemma demo_full_used: "used_fs demo_full = [2, 0, 1]"
  by (simp add: used_fs_def demo_full_def)

lemma demo_full_ok: "dpb_ok demo_full"
  by (auto simp: dpb_ok_def demo_full_def demo_dpb_def DPB_SIZE_MAX_def)

text \<open>A driver that displays one picture, puts back the next and refuses the last.\<close>

definition demo_mixed :: "h264_dpb \<Rightarrow> nat \<Rightarrow> int \<times> FrameStore" where
  "demo_mixed s i =
     (if i = 1 then (0, (mFrameStore s i)\<lparr>fs_show_frame := True\<rparr>)
      else if i = 0 then (0, (mFrameStore s i)\<lparr>fs_show_frame := False, fs_is_output := True\<rparr>)
      else (- 1, mFrameStore s i))"

theorem output_all_ascending_poc_witness:
  "\<exists>t. output_all demo_mixed True demo_full = Some t \<and>
     vdec_calls t = [Prepare_Display 1 2, Prepare_Display 0 4, Prepare_Display 2 6] \<and>
     \<not> waiting (mFrameStore t 1) \<and> \<not> waiting (mFrameStore t 0)"
proof -
  have "settles demo_mixed (without_display_mode demo_full)"
    by (simp add: settles_def demo_mixed_def waiting_def demo_full_def demo_dpb_def)
  from output_all_ascending_poc [OF demo_full_ok this] obtain t taken rest where
    t: "output_all demo_mixed True demo_full = Some t"
    and sorted: "sort_key (\<lambda>i. fs_poc (mFrameStore demo_full i))
       (filter (\<lambda>i. waiting (mFrameStore demo_full i) \<and> fs_poc (mFrameStore demo_full i) < INT_MAX)
         (used_fs demo_full)) = taken @ rest"
    and calls: "vdec_calls t = vdec_calls demo_full @
       map (\<lambda>i. Prepare_Display i (fs_poc (mFrameStore demo_full i))) (taken @ take 1 rest)"
    and taken: "\<forall>i\<in>set taken. \<not> waiting (mFrameStore t i) \<and> (\<exists>u. fst (demo_mixed u i) \<ge> 0)"
    and rest: "rest \<noteq> [] \<longrightarrow> (\<exists>u. fst (demo_mixed u (hd rest)) < 0)"
    by (elim exE conjE) (rule that; assumption)
  have l: "taken @ rest = [1, 0, 2]"
    using sorted by (simp add: demo_full_used) (simp add: demo_full_def demo_fs_def waiting_def INT_MAX_def)
  moreover have "2 \<notin> set taken"
    using taken by (auto simp: demo_mixed_def)
  moreover have "rest = [] \<or> hd rest = 2"
  proof (cases "rest = []")
    case False
    then have "hd rest \<in> set (taken @ rest)"
      by simp
    then show ?thesis
      using rest unfolding l by (auto simp: demo_mixed_def split: if_splits)
  qed simp
  ultimately have "taken = [1, 0] \<and> rest = [2]"
    by (cases taken; cases "tl taken"; cases "tl (tl taken)") auto
  then show ?thesis
    using t calls taken by (simp add: demo_full_def demo_fs_def demo_dpb_def)
qed

section \<open>Removal of unused frames\<close>

text \<open>What removal reads of a store, and what it may change of everything else: the use marks
  of the pictures and the co-located buffers.\<close>

definition fs_view :: "FrameStore \<Rightarrow> int \<times> int \<times> bool \<times> nat option \<times> nat option \<times> nat option \<times> int" where
  "fs_view f = (fs_is_used f, fs_is_reference f, fs_is_output f, fs_frame f, fs_top_field f, fs_bottom_field f,
     fs_buf_spec_num f)"

definition same_view :: "nat set \<Rightarrow> h264_dpb \<Rightarrow> h264_dpb \<Rightarrow> bool" where
  "same_view A s t \<longleftrightarrow> (\<forall>i\<in>A. fs_view (mFrameStore t i) = fs_view (mFrameStore s i)) \<and>
     (\<forall>i. pic_used_for_reference (m_PIC t i) = pic_used_for_reference (m_PIC s i))"

definition unused_fs :: "h264_dpb \<Rightarrow> nat \<Rightarrow> bool" where
  "unused_fs s i \<longleftrightarrow> fs_is_output (mFrameStore s i) \<and> is_used_for_reference s i = Some False"

text \<open>Every store that holds a whole frame has its frame picture.\<close>

definition frames_present :: "h264_dpb \<Rightarrow> bool" where
  "frames_present s \<longleftrightarrow> (\<forall>i\<in>set (used_fs s). fs_is_used (mFrameStore s i) = 3 \<longrightarrow> fs_frame (mFrameStore s i) \<noteq> None)"

lemma same_view_refl [simp]: "same_view A s s"
  by (simp add: same_view_def)

lemma same_view_trans: "same_view A s t \<Longrightarrow> same_view A t u \<Longrightarrow> same_view A s u"
  by (simp add: same_view_def)

lemma same_view_mono: "same_view A s t \<Longrightarrow> B \<subseteq> A \<Longrightarrow> same_view B s t"
  by (auto simp: same_view_def)

lemma same_view_fields:
  assumes "same_view A s t" "i \<in> A"
  shows "fs_is_used (mFrameStore t i) = fs_is_used (mFrameStore s i)"
    "fs_is_reference (mFrameStore t i) = fs_is_reference (mFrameStore s i)"
    "fs_is_output (mFrameStore t i) = fs_is_output (mFrameStore s i)"
    "fs_frame (mFrameStore t i) = fs_frame (mFrameStore s i)"
    "fs_top_field (mFrameStore t i) = fs_top_field (mFrameStore s i)"
    "fs_bottom_field (mFrameStore t i) = fs_bottom_field (mFrameStore s i)"
    "fs_buf_spec_num (mFrameStore t i) = fs_buf_spec_num (mFrameStore s i)"
  using assms by (simp_all add: same_view_def fs_view_def)

lemma same_view_ref: "same_view A s t \<Longrightarrow> i \<in> A \<Longrightarrow> is_used_for_reference t i = is_used_for_reference s i"
  using same_view_fields [of A s t i]
  by (simp add: is_used_for_reference_def any_pic_def opt_pic_def Let_def same_view_def cong: if_cong option.case_cong)

lemma same_view_unused: "same_view A s t \<Longrightarrow> i \<in> A \<Longrightarrow> unused_fs t i = unused_fs s i"
  by (simp add: unused_fs_def same_view_ref same_view_fields(3))

lemma is_used_for_reference_total:
  "(fs_is_used (mFrameStore s i) = 3 \<longrightarrow> fs_frame (mFrameStore s i) \<noteq> None) \<Longrightarrow> is_used_for_reference s i \<noteq> None"
  by (auto simp: is_used_for_reference_def any_pic_def Let_def)

lemma frames_present_ref: "frames_present s \<Longrightarrow> i \<in> set (used_fs s) \<Longrightarrow> is_used_for_reference s i \<noteq> None"
  by (rule is_used_for_reference_total) (simp add: frames_present_def)

lemma frames_present_mono:
  assumes "frames_present s" "same_view (set (used_fs t)) s t" "set (used_fs t) \<subseteq> set (used_fs s)"
  shows "frames_present t"
  unfolding frames_present_def
proof (intro ballI)
  fix i
  assume i: "i \<in> set (used_fs t)"
  then show "fs_is_used (mFrameStore t i) = 3 \<longrightarrow> fs_frame (mFrameStore t i) \<noteq> None"
    using assms same_view_fields(1,4) [OF assms(2) i] by (auto simp: frames_present_def)
qed

lemma release_col_step_view:
  assumes "is_used_for_reference s i \<noteq> None"
  obtains t where "release_col_step i s = Some t" "same_view UNIV s t" "keeps s t" "vdec_calls t = vdec_calls s"
proof -
  obtain r where r: "is_used_for_reference s i = Some r"
    using assms by blast
  have "\<exists>t. release_col_step i s = Some t \<and> same_view UNIV s t \<and> keeps s t \<and> vdec_calls t = vdec_calls s"
    by (auto simp: release_col_step_def r same_view_def fs_view_def upd_fs_def release_colocate_buf_def keeps_def)
  then show ?thesis
    using that by blast
qed

lemma release_col_steps_view:
  "\<forall>i\<in>set is. is_used_for_reference s i \<noteq> None \<Longrightarrow>
    \<exists>t. fold_opt release_col_step is s = Some t \<and> same_view UNIV s t \<and> keeps s t \<and> vdec_calls t = vdec_calls s"
proof (induction "is" arbitrary: s)
  case (Cons i "is")
  obtain t where t: "release_col_step i s = Some t" "same_view UNIV s t" "keeps s t" "vdec_calls t = vdec_calls s"
    using release_col_step_view [of s i] Cons.prems by auto
  have "\<forall>j\<in>set is. is_used_for_reference t j \<noteq> None"
    using Cons.prems same_view_ref [OF t(2)] by simp
  then obtain u where "fold_opt release_col_step is t = Some u" "same_view UNIV t u" "keeps t u" "vdec_calls u = vdec_calls t"
    using Cons.IH by blast
  then show ?case
    using t same_view_trans [OF t(2)] keeps_trans [OF t(3)] by simp
qed simp

lemma unused_at_eq:
  assumes "fs_at s pos = Some i" "is_used_for_reference s i \<noteq> None"
  shows "unused_at s pos = Some (unused_fs s i)"
  using assms by (auto simp: unused_at_def unused_fs_def)

text \<open>Only the store at the position, and the use marks of its pictures, change.\<close>

lemma free_picture_view:
  "mFrameStore (free_picture q s) = mFrameStore s" "vdec_calls (free_picture q s) = vdec_calls s"
  "pic_used_for_reference (m_PIC (free_picture q s) j) = pic_used_for_reference (m_PIC s j)"
  by (simp_all add: free_picture_def upd_pic_def Let_def split: option.splits)

lemma upd_fs_view:
  "mFrameStore (upd_fs i g s) j = (if j = i then g (mFrameStore s i) else mFrameStore s j)"
  "vdec_calls (upd_fs i g s) = vdec_calls s" "m_PIC (upd_fs i g s) = m_PIC s"
  by (simp_all add: upd_fs_def)

lemma remove_frame_view:
  assumes "fs_at s pos = Some i" "0 < used_size s" "used_size s \<le> length (dpb_fs s)"
  obtains t where "remove_frame_from_dpb pos s = Some t" "same_view (- {i}) s t" "vdec_calls t = vdec_calls s"
proof -
  have "\<exists>t. remove_frame_from_dpb pos s = Some t \<and> same_view (- {i}) s t \<and> vdec_calls t = vdec_calls s"
    using assms
    by (cases "fs_is_used (mFrameStore s i) = 3"; cases "fs_is_used (mFrameStore s i) = 2";
        cases "fs_is_used (mFrameStore s i) = 1")
      (simp_all add: remove_frame_from_dpb_def Let_def same_view_def upd_fs_view free_picture_view)
  then show ?thesis
    using that by blast
qed

lemma take_remove_nth:
  assumes "distinct xs" "pos < n" "n \<le> length xs"
  shows "take pos xs @ take (n - Suc pos) (drop (Suc pos) xs) = remove1 (xs ! pos) (take n xs)"
proof -
  have s: "take n xs = take pos xs @ xs ! pos # take (n - Suc pos) (drop (Suc pos) xs)"
  proof -
    have "take n xs = take pos (take n xs) @ take n xs ! pos # drop (Suc pos) (take n xs)"
      using assms(2,3) by (intro id_take_nth_drop) simp
    then show ?thesis
      using assms(2,3) by (simp add: drop_take min_def)
  qed
  have "xs ! pos \<notin> set (take pos xs)"
    using assms by (metis id_take_nth_drop distinct.simps(2) distinct_append Un_iff disjoint_insert(1) list.simps(15) less_le_trans)
  then show ?thesis
    by (simp add: s remove1_append)
qed

lemma remove_unused_spec:
  assumes ok: "dpb_ok s" and fp: "frames_present s"
  shows "\<exists>b t. remove_unused_frame_from_dpb s = Some (b, t) \<and>
     (if b then \<exists>as i bs. used_fs s = as @ i # bs \<and> (\<forall>a\<in>set as. \<not> unused_fs s a) \<and> unused_fs s i \<and>
            used_fs t = as @ bs \<and> same_view (set (as @ bs)) s t \<and>
            vdec_calls t = vdec_calls s @ [Release_Buf_Spec (fs_buf_spec_num (mFrameStore s i))]
      else (\<forall>i\<in>set (used_fs s). \<not> unused_fs s i) \<and> used_fs t = used_fs s \<and> same_view UNIV s t \<and>
            vdec_calls t = vdec_calls s)"
proof -
  obtain t where t: "fold_opt release_col_step (used_fs s) s = Some t" "same_view UNIV s t" "keeps s t" "vdec_calls t = vdec_calls s"
    using release_col_steps_view [of "used_fs s" s] frames_present_ref [OF fp] by blast
  have okt: "dpb_ok t"
    by (rule keeps_dpb_ok [OF t(3) ok])
  have l: "used_size t \<le> length (dpb_fs t)" "length (used_fs s) = used_size t" "used_fs t = used_fs s"
    using okt dpb_ok_length [OF okt] t(3) keeps_used_fs [OF t(3)] by (auto simp: dpb_ok_def used_fs_def keeps_def)
  have at: "fs_at t pos = Some (used_fs s ! pos)" if "pos < used_size t" for pos
    using used_fs_nth [OF l(1) that] l(3) by simp
  have un: "unused_at t pos = Some (unused_fs s (used_fs s ! pos))" if "pos < used_size t" for pos
  proof -
    have "used_fs s ! pos \<in> set (used_fs s)"
      using that l(2) by simp
    then show ?thesis
      using unused_at_eq [OF at [OF that]] same_view_ref [OF t(2)] same_view_unused [OF t(2)] frames_present_ref [OF fp] by simp
  qed
  have f: "find_opt (unused_at t) [0..<used_size t] = Some (find (\<lambda>p. unused_fs s (used_fs s ! p)) [0..<used_size t])"
    by (rule find_opt_eq) (simp add: un)
  show ?thesis
  proof (cases "find (\<lambda>p. unused_fs s (used_fs s ! p)) [0..<used_size t]")
    case None
    then have "\<forall>i\<in>set (used_fs s). \<not> unused_fs s i"
      using l(2) by (auto simp: find_None_iff in_set_conv_nth)
    moreover have "remove_unused_frame_from_dpb s = Some (False, t)"
      using t(1) f None by (simp add: remove_unused_frame_from_dpb_def)
    ultimately show ?thesis
      using t l by (intro exI [of _ False] exI [of _ t]) simp
  next
    case (Some pos)
    then have pos: "pos < used_size t" "unused_fs s (used_fs s ! pos)" "\<forall>p<pos. \<not> unused_fs s (used_fs s ! p)"
      by (auto simp: find_Some_iff)
    define i where "i = used_fs s ! pos"
    define u where "u = upd_fs i (\<lambda>f. f\<lparr>fs_buf_spec_num := - 1\<rparr>)
      (release_buf_spec_num (fs_buf_spec_num (mFrameStore t i)) t)"
    have ku: "keeps t u"
      by (simp add: u_def)
    have ati: "fs_at t pos = Some i" "fs_at u pos = Some i"
      using at [OF pos(1)] ku by (simp_all add: i_def fs_at_def keeps_def split: if_splits)
    obtain v where v: "remove_frame_from_dpb pos u = Some v" "same_view (- {i}) u v" "vdec_calls v = vdec_calls u"
      using remove_frame_view [OF ati(2)] pos(1) l(1) ku by (auto simp: keeps_def)
    have r: "remove_unused_frame_from_dpb s = Some (True, v)"
      using t(1) f Some ati(1) v(1) by (simp add: remove_unused_frame_from_dpb_def Let_def u_def)
    have vu: "same_view (- {i}) t u" "vdec_calls u = vdec_calls s @ [Release_Buf_Spec (fs_buf_spec_num (mFrameStore s i))]"
      using t(4) same_view_fields(7) [OF t(2), of i]
      by (simp_all add: u_def same_view_def upd_fs_view release_buf_spec_num_def)
    have sv: "same_view (- {i}) s v"
      using same_view_mono [OF t(2)] vu(1) v(2) by (meson same_view_trans subset_UNIV)
    have d: "distinct (dpb_fs t)"
      using okt by (simp add: dpb_ok_def)
    have i_eq: "dpb_fs t ! pos = i"
      using ati(1) by (simp add: fs_at_def split: if_splits)
    have usv: "used_fs v = remove1 i (used_fs s)"
      using remove_frame_fields [OF v(1)] ku take_move_to_end [OF pos(1) l(1)] take_remove_nth [OF d pos(1) l(1)] l(3) i_eq
      by (simp add: used_fs_def keeps_def)
    have split: "used_fs s = take pos (used_fs s) @ i # drop (Suc pos) (used_fs s)"
      using pos(1) l(2) by (simp add: i_def id_take_nth_drop [symmetric])
    have du: "distinct (used_fs s)"
      unfolding l(3) [symmetric] using d by (simp add: used_fs_def)
    have ni: "i \<notin> set (take pos (used_fs s) @ drop (Suc pos) (used_fs s))"
      using du by (subst (asm) split) auto
    have usv': "used_fs v = take pos (used_fs s) @ drop (Suc pos) (used_fs s)"
      unfolding usv using ni by (subst split) (simp add: remove1_append)
    have before: "\<forall>a\<in>set (take pos (used_fs s)). \<not> unused_fs s a"
      using pos(1,3) l(2) by (auto simp: in_set_conv_nth)
    have svv: "same_view (set (take pos (used_fs s) @ drop (Suc pos) (used_fs s))) s v"
      using ni by (intro same_view_mono [OF sv]) auto
    show ?thesis
      by (rule exI [of _ True], rule exI [of _ v])
        (use r split before pos(2) usv' svv v(3) vu(2) i_def in \<open>auto intro!: exI [of _ "take pos (used_fs s)"]\<close>)
  qed
qed


lemma remove_all_unused_spec:
  assumes "dpb_ok s" "frames_present s"
  shows "\<exists>t. remove_all_unused s = Some t \<and> used_fs t = filter (\<lambda>i. \<not> unused_fs s i) (used_fs s) \<and>
     vdec_calls t = vdec_calls s @
       map (\<lambda>i. Release_Buf_Spec (fs_buf_spec_num (mFrameStore s i))) (filter (unused_fs s) (used_fs s))"
  using assms
proof (induction "length (used_fs s)" arbitrary: s rule: less_induct)
  case less
  obtain b t where t: "remove_unused_frame_from_dpb s = Some (b, t)"
    "if b then \<exists>as i bs. used_fs s = as @ i # bs \<and> (\<forall>a\<in>set as. \<not> unused_fs s a) \<and> unused_fs s i \<and>
            used_fs t = as @ bs \<and> same_view (set (as @ bs)) s t \<and>
            vdec_calls t = vdec_calls s @ [Release_Buf_Spec (fs_buf_spec_num (mFrameStore s i))]
      else (\<forall>i\<in>set (used_fs s). \<not> unused_fs s i) \<and> used_fs t = used_fs s \<and> same_view UNIV s t \<and>
            vdec_calls t = vdec_calls s"
    using remove_unused_spec [OF less.prems] by blast
  have unfold: "remove_all_unused s = (if b then remove_all_unused t else Some t)"
    using t(1) by (subst remove_all_unused.simps) simp
  show ?case
  proof (cases b)
    case False
    then show ?thesis
      using t(2) unfold by (auto simp: filter_id_conv filter_empty_conv)
  next
    case True
    then obtain as i bs where s: "used_fs s = as @ i # bs" "\<forall>a\<in>set as. \<not> unused_fs s a" "unused_fs s i"
        "used_fs t = as @ bs" "same_view (set (as @ bs)) s t"
        "vdec_calls t = vdec_calls s @ [Release_Buf_Spec (fs_buf_spec_num (mFrameStore s i))]"
      using t(2) by auto
    have "dpb_ok t"
      by (rule remove_unused_ok(1) [OF t(1) less.prems(1)])
    moreover have "frames_present t"
      using s by (intro frames_present_mono [OF less.prems(2)]) auto
    moreover have "length (used_fs t) < length (used_fs s)"
      by (simp add: s)
    ultimately obtain u where u: "remove_all_unused t = Some u" "used_fs u = filter (\<lambda>i. \<not> unused_fs t i) (used_fs t)"
      "vdec_calls u = vdec_calls t @
         map (\<lambda>i. Release_Buf_Spec (fs_buf_spec_num (mFrameStore t i))) (filter (unused_fs t) (used_fs t))"
      using less.hyps [of t] by blast
    have e: "unused_fs t j = unused_fs s j" "fs_buf_spec_num (mFrameStore t j) = fs_buf_spec_num (mFrameStore s j)"
      if "j \<in> set (as @ bs)" for j
      using same_view_unused [OF s(5) that] same_view_fields(7) [OF s(5) that] by simp_all
    have "used_fs u = filter (\<lambda>i. \<not> unused_fs s i) (used_fs s)"
      unfolding u(2) s(4) s(1) using e(1) s(3) by (simp cong: filter_cong)
    moreover have "filter (unused_fs t) (used_fs t) = filter (unused_fs s) (as @ bs)"
      unfolding s(4) using e(1) by (intro filter_cong) simp_all
    moreover have "filter (unused_fs s) (as @ bs) = filter (unused_fs s) bs"
      using s(2) by (simp add: filter_empty_conv)
    moreover have "filter (unused_fs s) (used_fs s) = i # filter (unused_fs s) bs"
      unfolding s(1) using s(2,3) by (simp add: filter_empty_conv)
    moreover have "map (\<lambda>i. Release_Buf_Spec (fs_buf_spec_num (mFrameStore t i))) (filter (unused_fs s) bs)
      = map (\<lambda>i. Release_Buf_Spec (fs_buf_spec_num (mFrameStore s i))) (filter (unused_fs s) bs)"
      using e(2) by (intro map_cong) simp_all
    ultimately show ?thesis
      using u True unfold s(6) by simp
  qed
qed

text \<open>C14. Removal of unused frames ends and is exact: a store leaves the buffer if and only if
  its picture was output and no part of it is marked as a reference; the others stay in their
  order, and the picture buffer of each removed store is released exactly once, in buffer
  order.\<close>

theorem remove_all_unused_exact:
  assumes "dpb_ok s" "frames_present s"
  shows "\<exists>t. remove_all_unused s = Some t \<and>
     used_fs t = filter (\<lambda>i. \<not> (fs_is_output (mFrameStore s i) \<and> is_used_for_reference s i = Some False)) (used_fs s) \<and>
     vdec_calls t = vdec_calls s @ map (\<lambda>i. Release_Buf_Spec (fs_buf_spec_num (mFrameStore s i)))
       (filter (\<lambda>i. fs_is_output (mFrameStore s i) \<and> is_used_for_reference s i = Some False) (used_fs s))"
proof -
  have "unused_fs s = (\<lambda>i. fs_is_output (mFrameStore s i) \<and> is_used_for_reference s i = Some False)"
    by (rule ext) (rule unused_fs_def)
  then show ?thesis
    using remove_all_unused_spec [OF assms] by simp
qed

definition demo_unused :: h264_dpb where
  "demo_unused = demo_full\<lparr>mFrameStore := (\<lambda>i. (mFrameStore demo_full i)\<lparr>fs_is_output := True,
     fs_is_reference := (if i = 0 then 3 else 0)\<rparr>),
     m_PIC := (\<lambda>i. demo_pic\<lparr>pic_index := int i, pic_used_for_reference := (i = 0)\<rparr>)\<rparr>"

theorem remove_all_unused_exact_witness:
  "\<exists>t. remove_all_unused demo_unused = Some t \<and> used_fs t = [0] \<and>
     vdec_calls t = [Release_Buf_Spec 2, Release_Buf_Spec 1]"
proof -
  have ok: "dpb_ok demo_unused"
    using demo_full_ok by (simp add: dpb_ok_def demo_unused_def)
  have u: "used_fs demo_unused = [2, 0, 1]"
    using demo_full_used by (simp add: used_fs_def demo_unused_def)
  have f: "frames_present demo_unused"
    by (simp add: frames_present_def u) (simp add: demo_unused_def demo_full_def)
  have r: "is_used_for_reference demo_unused i = Some (i = 0)" "fs_is_output (mFrameStore demo_unused i)"
    "fs_buf_spec_num (mFrameStore demo_unused i) = int i" for i
    by (simp_all add: is_used_for_reference_def any_pic_def opt_pic_def Let_def demo_unused_def demo_full_def
        demo_fs_def demo_pic_def)
  show ?thesis
    using remove_all_unused_exact [OF ok f] by (simp add: u r) (simp add: demo_unused_def demo_full_def demo_dpb_def)
qed

end
