(* ===== verification/H264_Marking_Correct.thy ===== *)
theory H264_Marking_Correct
  imports H264_Dpb_Correct
begin

text \<open>
  Reference marking in the decoded picture buffer: the sliding window, the forced unmarking, the
  memory management of IDR pictures and second fields, and the map of co-located buffers.
\<close>

section \<open>Marking\<close>

text \<open>Unmarking a store touches no flag of the display.\<close>

lemma unmark_pics_fs: "unmark_pics g i s = Some t \<Longrightarrow> mFrameStore t = mFrameStore s"
proof -
  have u: "mFrameStore (upd_pic_if q g u) = mFrameStore u" "mFrameStore (upd_pic k g u) = mFrameStore u" for q k u
    by (simp_all add: upd_pic_if_def upd_pic_def split: option.split)
  show "unmark_pics g i s = Some t \<Longrightarrow> mFrameStore t = mFrameStore s"
    by (cases "fs_is_used (mFrameStore s i) = 3"; cases "fs_frame (mFrameStore s i)")
      (auto simp: unmark_pics_def Let_def u if_distrib [of mFrameStore])
qed

lemma unmark_for_reference_fs:
  "unmark_for_reference i s = Some t \<Longrightarrow>
    mFrameStore t = (mFrameStore s)(i := (mFrameStore s i)\<lparr>fs_is_reference := 0\<rparr>)"
  by (auto simp: unmark_for_reference_def upd_fs_def dest!: unmark_pics_fs)

lemma unmark_for_long_term_reference_fs:
  "unmark_for_long_term_reference i s = Some t \<Longrightarrow>
    mFrameStore t = (mFrameStore s)(i := (mFrameStore s i)\<lparr>fs_is_reference := 0, fs_is_long_term := 0\<rparr>)"
  by (auto simp: unmark_for_long_term_reference_def upd_fs_def dest!: unmark_pics_fs)

text \<open>An IDR picture that forbids the output of prior pictures must mark each waiting store
  as output. The loop passes its position in the buffer to a function that takes the number of
  the store: when the two differ, the waiting store stays waiting, and another store, perhaps
  not in use, is flagged as output.\<close>

theorem idr_drop_flags_wrong_store:
  assumes "idr_drop_step pos s = Some t" "fs_at s pos = Some i" "i \<noteq> pos"
    and "\<not> fs_is_output (mFrameStore s i)" "\<not> fs_pre_output (mFrameStore s i)"
  shows "\<not> fs_is_output (mFrameStore t i) \<and> \<not> fs_pre_output (mFrameStore t i) \<and> fs_is_output (mFrameStore t pos)"
proof -
  obtain u v where u: "unmark_for_reference i s = Some u"
    "(if fs_is_long_term (mFrameStore u i) \<noteq> 0 then unmark_for_long_term_reference i u else Some u) = Some v"
    "t = (if waiting (mFrameStore v i) then set_frame_output_flag pos v else v)"
    using assms(1,2) by (auto simp: idr_drop_step_def elim!: bind_SomeE)
  have "fs_is_output (mFrameStore v i) = fs_is_output (mFrameStore s i) \<and>
    fs_pre_output (mFrameStore v i) = fs_pre_output (mFrameStore s i)"
    using unmark_for_reference_fs [OF u(1)] u(2) by (auto split: if_splits dest!: unmark_for_long_term_reference_fs)
  then show ?thesis
    using u(3) assms(3-5) by (simp add: waiting_def set_frame_output_flag_def upd_fs_def)
qed

theorem idr_drop_flags_wrong_store_witness:
  "\<exists>t. idr_drop_step 0 demo_full = Some t \<and> \<not> fs_is_output (mFrameStore t 2) \<and> fs_is_output (mFrameStore t 0)"
proof -
  have a: "fs_at demo_full 0 = Some 2"
    by (simp add: fs_at_def demo_full_def)
  have "unmark_for_reference 2 demo_full \<noteq> None"
    by (simp add: unmark_for_reference_def unmark_pics_def Let_def demo_full_def)
  then obtain u where u: "unmark_for_reference 2 demo_full = Some u"
    by blast
  have l: "fs_is_long_term (mFrameStore u 2) = 0"
    by (simp add: unmark_for_reference_fs [OF u]) (simp add: demo_full_def demo_fs_def)
  obtain t where t: "idr_drop_step 0 demo_full = Some t"
    using u l a by (simp add: idr_drop_step_def)
  show ?thesis
    using idr_drop_flags_wrong_store [OF t a] by (simp add: t) (simp add: demo_full_def demo_fs_def)
qed

lemma unmark_for_reference_total:
  "(fs_is_used (mFrameStore s i) = 3 \<longrightarrow> fs_frame (mFrameStore s i) \<noteq> None) \<Longrightarrow> unmark_for_reference i s \<noteq> None"
  by (cases "fs_is_used (mFrameStore s i) = 3"; cases "fs_frame (mFrameStore s i)")
    (simp_all add: unmark_for_reference_def unmark_pics_def Let_def)

lemma unmark_if_output_step:
  assumes "fs_is_used (mFrameStore s i) = 3 \<longrightarrow> fs_frame (mFrameStore s i) \<noteq> None"
  obtains b' t where "unmark_if_output i (b, s) = Some (b', t)"
    "\<forall>j. mFrameStore t j = (if j = i \<and> fs_is_output (mFrameStore s i) then (mFrameStore s i)\<lparr>fs_is_reference := 0\<rparr>
       else mFrameStore s j)"
proof (cases "fs_is_output (mFrameStore s i)")
  case True
  obtain t where t: "unmark_for_reference i s = Some t"
    using unmark_for_reference_total [OF assms] by blast
  show ?thesis
    by (rule that [of True t]) (simp_all add: unmark_if_output_def True t unmark_for_reference_fs [OF t])
next
  case False
  then show ?thesis
    by (intro that [of b s]) (simp_all add: unmark_if_output_def)
qed

lemma unmark_if_output_all:
  "distinct is \<Longrightarrow> \<forall>i\<in>set is. fs_is_used (mFrameStore s i) = 3 \<longrightarrow> fs_frame (mFrameStore s i) \<noteq> None \<Longrightarrow>
   \<exists>b' t. fold_opt unmark_if_output is (b, s) = Some (b', t) \<and>
     (\<forall>j. mFrameStore t j = (if j \<in> set is \<and> fs_is_output (mFrameStore s j) then (mFrameStore s j)\<lparr>fs_is_reference := 0\<rparr>
        else mFrameStore s j))"
proof (induction "is" arbitrary: b s)
  case (Cons i "is")
  obtain b' t where t: "unmark_if_output i (b, s) = Some (b', t)"
    "\<forall>j. mFrameStore t j = (if j = i \<and> fs_is_output (mFrameStore s i) then (mFrameStore s i)\<lparr>fs_is_reference := 0\<rparr>
       else mFrameStore s j)"
    using unmark_if_output_step [of s i b] Cons.prems(2) by (metis list.set_intros(1))
  have eq: "mFrameStore t j = mFrameStore s j" if "j \<in> set is" for j
    using t(2) Cons.prems(1) that by auto
  obtain b2 u where u: "fold_opt unmark_if_output is (b', t) = Some (b2, u)"
    "\<forall>j. mFrameStore u j = (if j \<in> set is \<and> fs_is_output (mFrameStore t j) then (mFrameStore t j)\<lparr>fs_is_reference := 0\<rparr>
        else mFrameStore t j)"
    using Cons.IH [of t b'] Cons.prems eq by (metis distinct.simps(2) list.set_intros(2))
  have "mFrameStore u j = (if j \<in> set (i # is) \<and> fs_is_output (mFrameStore s j) then (mFrameStore s j)\<lparr>fs_is_reference := 0\<rparr>
        else mFrameStore s j)" for j
    using u(2) t(2) eq [of j] Cons.prems(1) by (cases "j = i"; cases "j \<in> set is") auto
  then show ?case
    using t(1) u(1) by (intro exI [of _ b2] exI [of _ u]) simp
qed simp

text \<open>The forced removal, described as giving up one frame, gives up all of them: every
  store whose picture was output loses its reference mark, and no other store does.\<close>

theorem unmark_one_out_frame_unmarks_all:
  assumes "dpb_ok s" "frames_present s"
  shows "\<exists>b t. unmark_one_out_frame s = Some (b, t) \<and> (\<forall>i\<in>set (used_fs s).
     fs_is_reference (mFrameStore t i) = (if fs_is_output (mFrameStore s i) then 0 else fs_is_reference (mFrameStore s i)))"
proof -
  have "distinct (used_fs s)"
    using assms(1) by (simp add: dpb_ok_def used_fs_def)
  then show ?thesis
    using unmark_if_output_all [of "used_fs s" s False] assms(2)
    by (auto simp: unmark_one_out_frame_def frames_present_def)
qed

text \<open>Co-located buffers.\<close>

lemma bit_and1: "(drop_bit i (m :: int) AND 1 = 0) = (\<not> bit m i)"
  by (simp add: and_one_eq bit_iff_odd_drop_bit even_iff_mod_2_eq_zero)

lemma bit_and1': "(drop_bit i (m :: int) AND 1 = 1) = bit m i"
  by (simp add: and_one_eq bit_iff_odd_drop_bit odd_iff_mod_2_eq_one)

text \<open>A co-located buffer is handed out once: allocation gives the lowest free index, or -1
  when all are taken; it marks that index and no other, and releasing the index restores the map.\<close>

theorem colocate_buf_roundtrip:
  assumes "allocate_colocate_buf s = (c, t)"
  shows "if c = - 1 then t = s \<and> (\<forall>i<nat (colocated_buf_count s). bit (colocated_buf_map s) i)
    else 0 \<le> c \<and> c < colocated_buf_count s \<and> \<not> bit (colocated_buf_map s) (nat c) \<and>
      (\<forall>i<nat c. bit (colocated_buf_map s) i) \<and>
      (\<forall>i. bit (colocated_buf_map t) i = (i = nat c \<or> bit (colocated_buf_map s) i)) \<and>
      release_colocate_buf c t = s"
proof (cases "find (\<lambda>i. drop_bit i (colocated_buf_map s) AND 1 = 0) [0..<nat (colocated_buf_count s)]")
  case None
  then have "c = - 1" "t = s"
    using assms by (simp_all add: allocate_colocate_buf_def)
  then show ?thesis
    using None by (simp add: find_None_iff bit_and1)
next
  case (Some k)
  then have k: "k < nat (colocated_buf_count s)" "\<not> bit (colocated_buf_map s) k" "\<forall>i<k. bit (colocated_buf_map s) i"
    by (auto simp: find_Some_iff bit_and1)
  define m where "m = colocated_buf_map s OR push_bit k 1"
  have c: "c = int k" "t = s\<lparr>colocated_buf_map := m\<rparr>"
    using assms Some by (simp_all add: allocate_colocate_buf_def m_def)
  have p: "bit ((2 :: int) ^ k) i = (i = k)" for i
    by (auto simp: bit_exp_iff)
  have b: "bit m i = (i = k \<or> bit (colocated_buf_map s) i)" for i
    by (auto simp: m_def bit_or_iff p)
  have "m AND NOT (push_bit k 1) = colocated_buf_map s"
    by (rule bit_eqI) (use k(2) in \<open>auto simp: bit_and_iff b bit_not_iff p\<close>)
  then have "release_colocate_buf (int k) (s\<lparr>colocated_buf_map := m\<rparr>) = s"
    using k(1) b [of k] by (simp add: release_colocate_buf_def bit_and1')
  then show ?thesis
    using k b by (simp add: c)
qed


theorem colocate_buf_roundtrip_witness:
  "release_colocate_buf 1 (snd (allocate_colocate_buf (demo_dpb\<lparr>colocated_buf_map := 5, colocated_buf_count := 4\<rparr>)))
   = demo_dpb\<lparr>colocated_buf_map := 5, colocated_buf_count := 4\<rparr>"
proof -
  let ?s = "demo_dpb\<lparr>colocated_buf_map := 5, colocated_buf_count := 4\<rparr>"
  have u: "[0..<4] = [0, 1, 2, 3 :: nat]"
    by (simp add: upt_conv_Cons)
  have a: "allocate_colocate_buf ?s = (1, snd (allocate_colocate_buf ?s))"
    by (simp add: allocate_colocate_buf_def u)
  show ?thesis
    using colocate_buf_roundtrip [OF a] by simp
qed

text \<open>Unmarking for long-term reference: it is total, leaves the last picture and sets no mark.\<close>

lemma unmark_lt_total:
  assumes "fs_is_used (mFrameStore s i) = 3 \<longrightarrow> fs_frame (mFrameStore s i) \<noteq> None"
  obtains t where "unmark_for_long_term_reference i s = Some t"
  using assms
  by (cases "fs_is_used (mFrameStore s i) = 3"; cases "fs_frame (mFrameStore s i)")
    (auto simp: unmark_for_long_term_reference_def unmark_pics_def Let_def)

lemma unref_lt_pics:
  "last_picture (upd_pic_if q pic_unref_lt s) = last_picture s"
  "last_picture (upd_pic k pic_unref_lt s) = last_picture s"
  "\<not> pic_used_for_reference (m_PIC s b) \<Longrightarrow> \<not> pic_used_for_reference (m_PIC (upd_pic_if q pic_unref_lt s) b)"
  "\<not> pic_used_for_reference (m_PIC s b) \<Longrightarrow> \<not> pic_used_for_reference (m_PIC (upd_pic k pic_unref_lt s) b)"
  "\<not> pic_used_for_reference (m_PIC (upd_pic_if (Some b) pic_unref_lt s) b)"
  by (simp_all add: upd_pic_if_def upd_pic_def pic_unref_lt_def split: option.split)

lemma unmark_lt_pics:
  assumes "unmark_for_long_term_reference i s = Some t"
  shows "last_picture t = last_picture s"
    and "\<not> pic_used_for_reference (m_PIC s b) \<Longrightarrow> \<not> pic_used_for_reference (m_PIC t b)"
    and "fs_is_used (mFrameStore s i) = 2 \<Longrightarrow> fs_bottom_field (mFrameStore s i) = Some b \<Longrightarrow>
      \<not> pic_used_for_reference (m_PIC t b)"
    and "fs_is_used (mFrameStore s i) = 1 \<Longrightarrow> fs_top_field (mFrameStore s i) = Some b \<Longrightarrow>
      \<not> pic_used_for_reference (m_PIC t b)"
proof -
  have u: "last_picture (upd_fs i g w) = last_picture w" "m_PIC (upd_fs i g w) = m_PIC w" for g w
    by (simp_all add: upd_fs_def)
  have a: "(2 :: int) AND 1 = 0" "(2 :: int) AND 2 = 2" "(1 :: int) AND 2 = 0" "(1 :: int) AND 1 = 1"
    by simp_all
  note d = unmark_for_long_term_reference_def unmark_pics_def Let_def u unref_lt_pics
  show "last_picture t = last_picture s"
    using assms by (auto simp: d split: if_splits elim!: bind_SomeE)
  show "\<not> pic_used_for_reference (m_PIC s b) \<Longrightarrow> \<not> pic_used_for_reference (m_PIC t b)"
    using assms by (auto simp: d split: if_splits elim!: bind_SomeE)
  show "fs_is_used (mFrameStore s i) = 2 \<Longrightarrow> fs_bottom_field (mFrameStore s i) = Some b \<Longrightarrow>
      \<not> pic_used_for_reference (m_PIC t b)"
    using assms by (auto simp: d a)
  show "fs_is_used (mFrameStore s i) = 1 \<Longrightarrow> fs_top_field (mFrameStore s i) = Some b \<Longrightarrow>
      \<not> pic_used_for_reference (m_PIC t b)"
    using assms by (auto simp: d a)
qed

text \<open>While some first field waits, every store with the index is unmarked, whatever its
  long-term mark.\<close>

lemma lt_field_step_waiting:
  assumes "last_picture s \<noteq> None" "st \<noteq> FRAME"
  shows "unmark_lt_field_step st idx True num (Some j) s =
    (if fs_long_term_frame_idx (mFrameStore s j) = idx then unmark_for_long_term_reference j s else Some s)"
  using assms by (cases st)
    (simp_all add: unmark_lt_field_step_def unmark3_top_def unmark3_bottom_def unmark1_def)

definition lt_unmarked :: "int \<Rightarrow> nat list \<Rightarrow> h264_dpb \<Rightarrow> h264_dpb \<Rightarrow> bool" where
  "lt_unmarked idx js s t \<longleftrightarrow> (\<forall>j. mFrameStore t j =
     (if j \<in> set js \<and> fs_long_term_frame_idx (mFrameStore s j) = idx
      then (mFrameStore s j)\<lparr>fs_is_reference := 0, fs_is_long_term := 0\<rparr> else mFrameStore s j))"

lemma lt_unmarked_trans:
  "lt_unmarked idx [j] s t \<Longrightarrow> lt_unmarked idx js t u \<Longrightarrow> lt_unmarked idx (j # js) s u"
  unfolding lt_unmarked_def by auto

definition first_field :: "PictureStructure \<Rightarrow> h264_dpb \<Rightarrow> nat \<Rightarrow> nat \<Rightarrow> bool" where
  "first_field second s i b \<longleftrightarrow>
     (if second = TOP_FIELD then fs_is_used (mFrameStore s i) = 2 \<and> fs_bottom_field (mFrameStore s i) = Some b
      else second = BOTTOM_FIELD \<and> fs_is_used (mFrameStore s i) = 1 \<and> fs_top_field (mFrameStore s i) = Some b)"

lemma lt_field_fold:
  assumes "last_picture s \<noteq> None" "st \<noteq> FRAME"
    and "\<forall>j\<in>set js. fs_is_used (mFrameStore s j) = 3 \<longrightarrow> fs_frame (mFrameStore s j) \<noteq> None"
  shows "\<exists>t. fold_opt (unmark_lt_field_step st idx True num) (map Some js) s = Some t \<and>
    lt_unmarked idx js s t \<and>
    (\<forall>b. \<not> pic_used_for_reference (m_PIC s b) \<longrightarrow> \<not> pic_used_for_reference (m_PIC t b)) \<and>
    (\<forall>i b. i \<in> set js \<and> first_field st s i b \<and> fs_long_term_frame_idx (mFrameStore s i) = idx \<longrightarrow>
       \<not> pic_used_for_reference (m_PIC t b))"
  using assms
proof (induction js arbitrary: s)
  case Nil
  then show ?case
    by (simp add: lt_unmarked_def)
next
  case (Cons j js)
  obtain t where t: "unmark_lt_field_step st idx True num (Some j) s = Some t" "lt_unmarked idx [j] s t"
    "last_picture t = last_picture s"
    "\<forall>b. \<not> pic_used_for_reference (m_PIC s b) \<longrightarrow> \<not> pic_used_for_reference (m_PIC t b)"
    "\<forall>b. first_field st s j b \<and> fs_long_term_frame_idx (mFrameStore s j) = idx \<longrightarrow>
       \<not> pic_used_for_reference (m_PIC t b)"
  proof (cases "fs_long_term_frame_idx (mFrameStore s j) = idx")
    case True
    obtain t where u: "unmark_for_long_term_reference j s = Some t"
      using unmark_lt_total [of s j] Cons.prems(3) by (metis list.set_intros(1))
    show ?thesis
    proof (rule that [of t])
      show "unmark_lt_field_step st idx True num (Some j) s = Some t"
        using lt_field_step_waiting [OF Cons.prems(1,2)] True u by simp
      show "lt_unmarked idx [j] s t"
        using unmark_for_long_term_reference_fs [OF u] True by (simp add: lt_unmarked_def)
    qed (use unmark_lt_pics [OF u] in \<open>auto simp: first_field_def split: if_splits\<close>)
  next
    case False
    show ?thesis
      by (rule that [of s])
        (use lt_field_step_waiting [OF Cons.prems(1,2)] False in \<open>auto simp: lt_unmarked_def\<close>)
  qed
  have fs: "fs_is_used (mFrameStore t k) = fs_is_used (mFrameStore s k)"
    "fs_frame (mFrameStore t k) = fs_frame (mFrameStore s k)"
    "fs_long_term_frame_idx (mFrameStore t k) = fs_long_term_frame_idx (mFrameStore s k)"
    "first_field st t k b = first_field st s k b" for k b
    using t(2) by (simp_all add: lt_unmarked_def first_field_def)
  obtain u where u: "fold_opt (unmark_lt_field_step st idx True num) (map Some js) t = Some u"
    "lt_unmarked idx js t u"
    "\<forall>b. \<not> pic_used_for_reference (m_PIC t b) \<longrightarrow> \<not> pic_used_for_reference (m_PIC u b)"
    "\<forall>i b. i \<in> set js \<and> first_field st t i b \<and> fs_long_term_frame_idx (mFrameStore t i) = idx \<longrightarrow>
       \<not> pic_used_for_reference (m_PIC u b)"
    using Cons.IH [of t] Cons.prems t(3) fs by auto
  then show ?case
    using t(1,4,5) lt_unmarked_trans [OF t(2) u(2)] fs by (intro exI [of _ u]) auto
qed

text \<open>C18. The second field of a frame that is marked long-term (operation 6) with the index of
  its first field keeps, by the standard, the first field as a reference. The code unmarks
  it, for either parity and wherever its store stands in the list of long-term references:
  while any first field waits for its second field, every store of the list with that index loses
  all its marks, the waiting one included, and the picture of the first field is no longer used for
  reference. The entries of the list are set, and stores that hold a frame have its picture.\<close>

theorem second_field_loses_first:
  assumes p: "pic_structure (m_PIC s p) \<noteq> FRAME" and l: "last_picture s = Some i" "ltref_list s = map Some js" "i \<in> set js"
    and fr: "\<forall>j\<in>set js. fs_is_used (mFrameStore s j) = 3 \<longrightarrow> fs_frame (mFrameStore s j) \<noteq> None"
    and f: "first_field (pic_structure (m_PIC s p)) s i b" "fs_long_term_frame_idx (mFrameStore s i) = idx"
  shows "\<exists>t. mm_mark_current_picture_long_term p idx s = Some t \<and> \<not> pic_used_for_reference (m_PIC t b) \<and>
    (\<forall>j. mFrameStore t j =
      (if j \<in> set js \<and> fs_long_term_frame_idx (mFrameStore s j) = idx
       then (mFrameStore s j)\<lparr>fs_is_reference := 0, fs_is_long_term := 0\<rparr> else mFrameStore s j))"
proof -
  obtain t where t: "fold_opt (unmark_lt_field_step (pic_structure (m_PIC s p)) idx True 0) (ltref_list s) s = Some t"
    "lt_unmarked idx js s t" "\<not> pic_used_for_reference (m_PIC t b)"
    using lt_field_fold [of s "pic_structure (m_PIC s p)" js idx 0] p l f fr by auto
  have "mm_mark_current_picture_long_term p idx s =
    Some (upd_pic p (\<lambda>x. x\<lparr>pic_is_long_term := True, pic_long_term_frame_idx := idx\<rparr>) t)"
    using t(1) p by (simp add: mm_mark_current_picture_long_term_def
        unmark_long_term_field_for_reference_by_frame_idx_def)
  then show ?thesis
    using t(2,3) by (auto simp: lt_unmarked_def upd_pic_def)
qed

text \<open>Store 0 with a waiting bottom field stands behind the long-term store 1 with another
  index.\<close>

definition demo_fields :: h264_dpb where
  "demo_fields = demo_dpb\<lparr>dpb_fs := [0, 1, 2], used_size := 2, dpb_fs_ltref := [Some 1, Some 0, Some 32],
     ltref_frames_in_buffer := 2, last_picture := Some 0,
     mFrameStore := (\<lambda>i. demo_fs\<lparr>fs_is_used := 2, fs_bottom_field := Some 4, fs_is_reference := 2,
       fs_is_long_term := 2, fs_long_term_frame_idx := (if i = 0 then 1 else 3)\<rparr>),
     m_PIC := (\<lambda>i. demo_pic\<lparr>pic_index := int i, pic_structure := (if i = 4 then BOTTOM_FIELD else TOP_FIELD)\<rparr>)\<rparr>"

theorem second_field_loses_first_witness:
  "\<exists>t. mm_mark_current_picture_long_term 5 1 demo_fields = Some t \<and> pic_used_for_reference (m_PIC demo_fields 4) \<and>
    \<not> pic_used_for_reference (m_PIC t 4) \<and> fs_is_reference (mFrameStore t 0) = 0 \<and> fs_is_reference (mFrameStore t 1) = 2"
proof -
  have "\<exists>t. mm_mark_current_picture_long_term 5 1 demo_fields = Some t \<and> \<not> pic_used_for_reference (m_PIC t 4) \<and>
    (\<forall>j. mFrameStore t j =
      (if j \<in> set [1, 0] \<and> fs_long_term_frame_idx (mFrameStore demo_fields j) = 1
       then (mFrameStore demo_fields j)\<lparr>fs_is_reference := 0, fs_is_long_term := 0\<rparr> else mFrameStore demo_fields j))"
    by (rule second_field_loses_first [of _ _ 0]) (simp_all add: demo_fields_def ltref_list_def first_field_def)
  moreover have "pic_used_for_reference (m_PIC demo_fields 4)"
    by (simp add: demo_fields_def demo_pic_def)
  ultimately show ?thesis
    by (auto simp: demo_fields_def)
qed

theorem unmark_one_out_frame_unmarks_all_witness:
  "\<exists>b t. unmark_one_out_frame (demo_unused\<lparr>m_PIC := (\<lambda>i. demo_pic)\<rparr>) = Some (b, t) \<and>
    (\<forall>i\<in>{0, 1, 2}. fs_is_reference (mFrameStore t i) = 0)"
proof -
  let ?s = "demo_unused\<lparr>m_PIC := (\<lambda>i. demo_pic)\<rparr>"
  have ok: "dpb_ok ?s" and u: "used_fs ?s = [2, 0, 1]"
    using demo_full_ok demo_full_used by (simp_all add: dpb_ok_def used_fs_def demo_unused_def)
  have f: "frames_present ?s"
    by (simp add: frames_present_def u) (simp add: demo_unused_def demo_full_def)
  have o: "fs_is_output (mFrameStore demo_unused i)" for i
    by (simp add: demo_unused_def)
  show ?thesis
    using unmark_one_out_frame_unmarks_all [OF ok f] by (simp add: u o) blast
qed











end
