(* ===== verification/H264_Qsort.thy ===== *)
theory H264_Qsort
  imports Prelude
begin

text \<open>
  The sorting routine of \<open>h264_dpb.c\<close> (\<open>swap\<close>, \<open>shortsort\<close>,
  \<open>qsort\<close>): an in-place quicksort with an explicit stack of pending parts, a
  median-of-three pivot that is followed when it moves, and a selection sort below nine
  elements. The array is a list and a pointer into it an integer counted in elements, so the
  width is one. Every comparison and swap checks its positions: \<open>None\<close> is an access
  outside the array, and also a push on the full stack or a loop that never ends.
\<close>

definition CUTOFF :: int where
  "CUTOFF = 8"

text \<open>\<open>8 * sizeof(void *) - 2\<close> for 8-byte pointers.\<close>

definition STKSIZ :: nat where
  "STKSIZ = 62"

definition elem_at :: "'a list \<Rightarrow> int \<Rightarrow> 'a option" where
  "elem_at xs i = (if 0 \<le> i \<and> i < int (length xs) then Some (xs ! nat i) else None)"

text \<open>\<open>__COMPARE(context, p1, p2)\<close>\<close>

definition compare_at :: "('a \<Rightarrow> 'a \<Rightarrow> int) \<Rightarrow> 'a list \<Rightarrow> int \<Rightarrow> int \<Rightarrow> int option" where
  "compare_at cmp xs i j = do { a \<leftarrow> elem_at xs i; b \<leftarrow> elem_at xs j; Some (cmp a b) }"

definition swap_at :: "'a list \<Rightarrow> int \<Rightarrow> int \<Rightarrow> 'a list option" where
  "swap_at xs i j =
     (if i \<noteq> j then do { a \<leftarrow> elem_at xs i; b \<leftarrow> elem_at xs j; Some (xs[nat i := b, nat j := a]) }
      else Some xs)"

section \<open>Short arrays\<close>

text \<open>The inner loop of \<open>shortsort\<close> from position \<open>p\<close>: the position of the
  maximum.\<close>

function max_scan :: "('a \<Rightarrow> 'a \<Rightarrow> int) \<Rightarrow> 'a list \<Rightarrow> int \<Rightarrow> int \<Rightarrow> int \<Rightarrow> int option" where
  "max_scan cmp xs hi p mx =
     (if p \<le> hi then do { r \<leftarrow> compare_at cmp xs p mx; max_scan cmp xs hi (p + 1) (if r > 0 then p else mx) }
      else Some mx)"
  by pat_completeness auto
termination
  by (relation "measure (\<lambda>(cmp, xs, hi, p, mx). nat (hi + 1 - p))") auto

declare max_scan.simps [simp del]

function shortsort :: "('a \<Rightarrow> 'a \<Rightarrow> int) \<Rightarrow> int \<Rightarrow> int \<Rightarrow> 'a list \<Rightarrow> 'a list option" where
  "shortsort cmp lo hi xs =
     (if hi > lo then do {
        mx \<leftarrow> max_scan cmp xs hi (lo + 1) lo;
        xs \<leftarrow> swap_at xs mx hi;
        shortsort cmp lo (hi - 1) xs
      }
      else Some xs)"
  by pat_completeness auto
termination
  by (relation "measure (\<lambda>(cmp, lo, hi, xs). nat (hi - lo))") auto

declare shortsort.simps [simp del]

section \<open>Partition\<close>

text \<open>The travelling pointers: move by one, then go on while the pointer is inside its limit
  and the comparison holds.\<close>

function scan_up :: "(int \<Rightarrow> bool option) \<Rightarrow> int \<Rightarrow> int \<Rightarrow> int option" where
  "scan_up test limit i =
     (if i + 1 < limit then do { go \<leftarrow> test (i + 1); if go then scan_up test limit (i + 1) else Some (i + 1) }
      else Some (i + 1))"
  by pat_completeness auto
termination
  by (relation "measure (\<lambda>(test, limit, i). nat (limit - i))") auto

declare scan_up.simps [simp del]

function scan_down :: "(int \<Rightarrow> bool option) \<Rightarrow> int \<Rightarrow> int \<Rightarrow> int option" where
  "scan_down test limit i =
     (if i - 1 > limit then do { go \<leftarrow> test (i - 1); if go then scan_down test limit (i - 1) else Some (i - 1) }
      else Some (i - 1))"
  by pat_completeness auto
termination
  by (relation "measure (\<lambda>(test, limit, i). nat (i - limit))") auto

declare scan_down.simps [simp del]

text \<open>The median of the first, middle and last element goes to the middle.\<close>

definition order_if :: "('a \<Rightarrow> 'a \<Rightarrow> int) \<Rightarrow> int \<Rightarrow> int \<Rightarrow> 'a list \<Rightarrow> 'a list option" where
  "order_if cmp i j xs = do { r \<leftarrow> compare_at cmp xs i j; if r > 0 then swap_at xs i j else Some xs }"

definition median_of_three :: "('a \<Rightarrow> 'a \<Rightarrow> int) \<Rightarrow> int \<Rightarrow> int \<Rightarrow> int \<Rightarrow> 'a list \<Rightarrow> 'a list option" where
  "median_of_three cmp lo mid hi xs = do {
     xs \<leftarrow> order_if cmp lo mid xs;
     xs \<leftarrow> order_if cmp lo hi xs;
     order_if cmp mid hi xs
   }"

text \<open>The two upward loops of one round, and the downward loop.\<close>

definition move_loguy :: "('a \<Rightarrow> 'a \<Rightarrow> int) \<Rightarrow> int \<Rightarrow> 'a list \<Rightarrow> int \<Rightarrow> int \<Rightarrow> int option" where
  "move_loguy cmp hi xs mid loguy = do {
     let test = (\<lambda>i. map_option (\<lambda>r. r \<le> 0) (compare_at cmp xs i mid));
     loguy \<leftarrow> (if mid > loguy then scan_up test mid loguy else Some loguy);
     if mid \<le> loguy then scan_up test (hi + 1) loguy else Some loguy
   }"

definition move_higuy :: "('a \<Rightarrow> 'a \<Rightarrow> int) \<Rightarrow> 'a list \<Rightarrow> int \<Rightarrow> int \<Rightarrow> int option" where
  "move_higuy cmp xs mid higuy = scan_down (\<lambda>i. map_option (\<lambda>r. r > 0) (compare_at cmp xs i mid)) mid higuy"

partial_function (option) partition_loop
  :: "('a \<Rightarrow> 'a \<Rightarrow> int) \<Rightarrow> int \<Rightarrow> 'a list \<Rightarrow> int \<Rightarrow> int \<Rightarrow> int \<Rightarrow> ('a list \<times> int \<times> int \<times> int) option" where
  "partition_loop cmp hi xs mid loguy higuy = do {
     loguy \<leftarrow> move_loguy cmp hi xs mid loguy;
     higuy \<leftarrow> move_higuy cmp xs mid higuy;
     if higuy < loguy then Some (xs, mid, loguy, higuy)
     else do {
       xs \<leftarrow> swap_at xs loguy higuy;
       partition_loop cmp hi xs (if mid = higuy then loguy else mid) loguy higuy
     }
   }"

declare partition_loop.simps [code]

text \<open>Elements equal to the pivot next to it are skipped.\<close>

definition skip_equal :: "('a \<Rightarrow> 'a \<Rightarrow> int) \<Rightarrow> int \<Rightarrow> 'a list \<Rightarrow> int \<Rightarrow> int \<Rightarrow> int option" where
  "skip_equal cmp lo xs mid higuy = do {
     let test = (\<lambda>i. map_option (\<lambda>r. r = 0) (compare_at cmp xs i mid));
     let higuy = higuy + 1;
     higuy \<leftarrow> (if mid < higuy then scan_down test mid higuy else Some higuy);
     if mid \<ge> higuy then scan_down test lo higuy else Some higuy
   }"

section \<open>The sort\<close>

definition push_part :: "int \<Rightarrow> int \<Rightarrow> (int \<times> int) list \<Rightarrow> (int \<times> int) list option" where
  "push_part lo hi stk = (if length stk < STKSIZ then Some ((lo, hi) # stk) else None)"

text \<open>One part: what is left of the array, and the parts to sort next, the first of which is
  sorted at once.\<close>

definition sort_part :: "('a \<Rightarrow> 'a \<Rightarrow> int) \<Rightarrow> int \<Rightarrow> int \<Rightarrow> (int \<times> int) list \<Rightarrow> 'a list
    \<Rightarrow> ('a list \<times> (int \<times> int) option \<times> (int \<times> int) list) option" where
  "sort_part cmp lo hi stk xs =
     (let num = hi - lo + 1
      in if num \<le> CUTOFF then do { xs \<leftarrow> shortsort cmp lo hi xs; Some (xs, None, stk) }
         else do {
           let mid = lo + num div 2;
           xs \<leftarrow> median_of_three cmp lo mid hi xs;
           (xs, mid, loguy, higuy) \<leftarrow> partition_loop cmp hi xs mid lo hi;
           higuy \<leftarrow> skip_equal cmp lo xs mid higuy;
           if higuy - lo \<ge> hi - loguy then do {
             stk \<leftarrow> (if lo < higuy then push_part lo higuy stk else Some stk);
             Some (xs, if loguy < hi then Some (loguy, hi) else None, stk)
           }
           else do {
             stk \<leftarrow> (if loguy < hi then push_part loguy hi stk else Some stk);
             Some (xs, if lo < higuy then Some (lo, higuy) else None, stk)
           }
         })"

partial_function (option) sort_parts :: "('a \<Rightarrow> 'a \<Rightarrow> int) \<Rightarrow> int \<Rightarrow> int \<Rightarrow> (int \<times> int) list \<Rightarrow> 'a list \<Rightarrow> 'a list option" where
  "sort_parts cmp lo hi stk xs = do {
     (xs, now, stk) \<leftarrow> sort_part cmp lo hi stk xs;
     case now of
       Some (lo, hi) \<Rightarrow> sort_parts cmp lo hi stk xs
     | None \<Rightarrow> (case stk of [] \<Rightarrow> Some xs | (lo, hi) # stk \<Rightarrow> sort_parts cmp lo hi stk xs)
   }"

declare sort_parts.simps [code]

definition qsort :: "('a \<Rightarrow> 'a \<Rightarrow> int) \<Rightarrow> 'a list \<Rightarrow> 'a list option" where
  "qsort cmp xs = (if length xs < 2 then Some xs else sort_parts cmp 0 (int (length xs) - 1) [] xs)"

end
