(* ===== verification/H264_Ref_Lists.thy ===== *)
theory H264_Ref_Lists
  imports H264_Dpb H264_Qsort
begin

text \<open>
  Reference picture lists of the H.264 decoder (\<open>h264_dpb.c\<close>): their initialisation for
  P and B slices, the reordering commands of the slice header, the lists of field macroblocks,
  and the check of the lists.

  The six lists of the slice are arrays of 66 pointers to pictures with a size each. A write or
  read outside an array, and a read through a null pointer, is \<open>None\<close>. A plain char is
  unsigned, as the kernel builds it, so the sizes are kept modulo 256.
\<close>

section \<open>The lists of a slice\<close>

record RefPicLists =
  listX :: "nat \<Rightarrow> nat option list"
  listXsize :: "nat \<Rightarrow> int"
  num_ref_idx_active :: "nat \<Rightarrow> int"
  ref_pic_list_reordering_flag :: "nat \<Rightarrow> int"
  modification_of_pic_nums_idc :: "nat \<Rightarrow> int list"
  abs_diff_pic_num_minus1 :: "nat \<Rightarrow> int list"
  long_term_pic_idx :: "nat \<Rightarrow> int list"

definition MAX_LIST_SIZE :: nat where
  "MAX_LIST_SIZE = 33"

definition uchar :: "int \<Rightarrow> int" where
  "uchar x = x mod 256"

definition set_listX :: "nat \<Rightarrow> nat option list \<Rightarrow> RefPicLists \<Rightarrow> RefPicLists" where
  "set_listX k xs l = l\<lparr>listX := (listX l)(k := xs)\<rparr>"

definition set_listXsize :: "nat \<Rightarrow> int \<Rightarrow> RefPicLists \<Rightarrow> RefPicLists" where
  "set_listXsize k n l = l\<lparr>listXsize := (listXsize l)(k := n)\<rparr>"

text \<open>\<open>CHECK_VALID\<close> at a line: a size that is too large becomes 0.\<close>

definition check_valid :: "int \<Rightarrow> nat \<Rightarrow> h264_dpb \<times> RefPicLists \<Rightarrow> h264_dpb \<times> RefPicLists" where
  "check_valid line k sl =
     (case sl of (s, l) \<Rightarrow>
        if listXsize l k > int MAX_LIST_SIZE \<or> listXsize l k < 0
        then (dpb_error line s, set_listXsize k 0 l) else (s, l))"

text \<open>The first entries of an array.\<close>

definition write_front :: "nat list \<Rightarrow> nat option list \<Rightarrow> nat option list option" where
  "write_front ps xs = (if length ps \<le> length xs then Some (map Some ps @ drop (length ps) xs) else None)"

section \<open>Comparisons\<close>

definition three_way :: "int \<Rightarrow> int \<Rightarrow> int" where
  "three_way a b = (if a < b then - 1 else if a > b then 1 else 0)"

definition compare_pic_by_pic_num_desc :: "h264_dpb \<Rightarrow> nat \<Rightarrow> nat \<Rightarrow> int" where
  "compare_pic_by_pic_num_desc s a b = three_way (pic_pic_num (m_PIC s b)) (pic_pic_num (m_PIC s a))"

definition compare_pic_by_lt_pic_num_asc :: "h264_dpb \<Rightarrow> nat \<Rightarrow> nat \<Rightarrow> int" where
  "compare_pic_by_lt_pic_num_asc s a b = three_way (pic_long_term_pic_num (m_PIC s a)) (pic_long_term_pic_num (m_PIC s b))"

definition compare_fs_by_frame_num_desc :: "h264_dpb \<Rightarrow> nat \<Rightarrow> nat \<Rightarrow> int" where
  "compare_fs_by_frame_num_desc s a b = three_way (fs_frame_num_wrap (mFrameStore s b)) (fs_frame_num_wrap (mFrameStore s a))"

definition compare_fs_by_lt_pic_idx_asc :: "h264_dpb \<Rightarrow> nat \<Rightarrow> nat \<Rightarrow> int" where
  "compare_fs_by_lt_pic_idx_asc s a b = three_way (fs_long_term_frame_idx (mFrameStore s a)) (fs_long_term_frame_idx (mFrameStore s b))"

definition compare_pic_by_poc_asc :: "h264_dpb \<Rightarrow> nat \<Rightarrow> nat \<Rightarrow> int" where
  "compare_pic_by_poc_asc s a b = three_way (pic_poc (m_PIC s a)) (pic_poc (m_PIC s b))"

definition compare_pic_by_poc_desc :: "h264_dpb \<Rightarrow> nat \<Rightarrow> nat \<Rightarrow> int" where
  "compare_pic_by_poc_desc s a b = three_way (pic_poc (m_PIC s b)) (pic_poc (m_PIC s a))"

definition compare_fs_by_poc_asc :: "h264_dpb \<Rightarrow> nat \<Rightarrow> nat \<Rightarrow> int" where
  "compare_fs_by_poc_asc s a b = three_way (fs_poc (mFrameStore s a)) (fs_poc (mFrameStore s b))"

definition compare_fs_by_poc_desc :: "h264_dpb \<Rightarrow> nat \<Rightarrow> nat \<Rightarrow> int" where
  "compare_fs_by_poc_desc s a b = three_way (fs_poc (mFrameStore s b)) (fs_poc (mFrameStore s a))"

section \<open>Lists of fields\<close>

definition is_short_ref :: "StorablePicture \<Rightarrow> bool" where
  "is_short_ref p \<longleftrightarrow> pic_used_for_reference p \<and> \<not> pic_is_long_term p"

definition is_long_ref :: "StorablePicture \<Rightarrow> bool" where
  "is_long_ref p \<longleftrightarrow> pic_used_for_reference p \<and> pic_is_long_term p"

text \<open>The top or bottom field of a store when it is a reference.\<close>

definition top_ref :: "h264_dpb \<Rightarrow> (StorablePicture \<Rightarrow> bool) \<Rightarrow> nat \<Rightarrow> nat option" where
  "top_ref s is_ref i =
     (if fs_is_used (mFrameStore s i) AND 1 \<noteq> 0 \<and> opt_pic s (fs_top_field (mFrameStore s i)) is_ref
      then fs_top_field (mFrameStore s i) else None)"

definition bottom_ref :: "h264_dpb \<Rightarrow> (StorablePicture \<Rightarrow> bool) \<Rightarrow> nat \<Rightarrow> nat option" where
  "bottom_ref s is_ref i =
     (if fs_is_used (mFrameStore s i) AND 2 \<noteq> 0 \<and> opt_pic s (fs_bottom_field (mFrameStore s i)) is_ref
      then fs_bottom_field (mFrameStore s i) else None)"

text \<open>One inner loop: the next field of a parity, and the stores after it.\<close>

fun next_field :: "(nat \<Rightarrow> nat option) \<Rightarrow> nat list \<Rightarrow> nat option \<times> nat list" where
  "next_field f [] = (None, [])"
| "next_field f (i # is) = (case f i of Some p \<Rightarrow> (Some p, is) | None \<Rightarrow> next_field f is)"

lemma length_next_field: "length (snd (next_field f is)) \<le> length is - 1"
  by (induction f "is" rule: next_field.induct) (auto split: option.split)

text \<open>The outer loop: fields of alternating parity, and when one parity has run out, the rest
  of the other.\<close>

function alternate_fields :: "(nat \<Rightarrow> nat option) \<Rightarrow> (nat \<Rightarrow> nat option) \<Rightarrow> nat list \<Rightarrow> nat list \<Rightarrow> nat list" where
  "alternate_fields f g xs ys =
     (if xs = [] \<and> ys = [] then []
      else case (next_field f xs, next_field g ys) of
        ((p, xs'), (q, ys')) \<Rightarrow> (case p of None \<Rightarrow> [] | Some p \<Rightarrow> [p]) @ (case q of None \<Rightarrow> [] | Some q \<Rightarrow> [q]) @
          alternate_fields f g xs' ys')"
  by pat_completeness auto
termination
proof (relation "measure (\<lambda>(f, g, xs, ys). length xs + length ys)", goal_cases)
  case (2 f g xs ys x y p xs' q ys')
  then have "xs' = snd (next_field f xs)" "ys' = snd (next_field g ys)"
    by (metis prod.inject snd_conv)+
  then have "length xs' \<le> length xs - 1" "length ys' \<le> length ys - 1"
    using length_next_field [of f xs] length_next_field [of g ys] by simp_all
  moreover have "0 < length xs + length ys"
    using 2(1) by auto
  ultimately show ?case
    by (cases xs; cases ys) auto
qed simp

declare alternate_fields.simps [simp del]

definition gen_pic_list_from_frame_list
  :: "h264_dpb \<Rightarrow> PictureStructure \<Rightarrow> nat list \<Rightarrow> (StorablePicture \<Rightarrow> bool) \<Rightarrow> nat list" where
  "gen_pic_list_from_frame_list s structure fs_list is_ref =
     (case structure of
        TOP_FIELD \<Rightarrow> alternate_fields (top_ref s is_ref) (bottom_ref s is_ref) fs_list fs_list
      | BOTTOM_FIELD \<Rightarrow> alternate_fields (bottom_ref s is_ref) (top_ref s is_ref) fs_list fs_list
      | FRAME \<Rightarrow> [])"

section \<open>Collecting the references\<close>

text \<open>The frames of the short-term stores with a property. A missing store or frame sets the
  error flag and is passed over.\<close>

fun short_frames :: "int \<Rightarrow> (StorablePicture \<Rightarrow> bool) \<Rightarrow> nat option list \<Rightarrow> h264_dpb \<Rightarrow> nat list \<times> h264_dpb" where
  "short_frames line P [] s = ([], s)"
| "short_frames line P (r # rs) s =
     (case r of None \<Rightarrow> short_frames line P rs (dpb_error line s)
      | Some i \<Rightarrow> (case fs_frame (mFrameStore s i) of None \<Rightarrow> short_frames line P rs (dpb_error line s)
        | Some fr \<Rightarrow>
            let keep = (fs_is_used (mFrameStore s i) = 3 \<and> pic_used_for_reference (m_PIC s fr) \<and>
                  \<not> pic_is_long_term (m_PIC s fr) \<and> P (m_PIC s fr))
            in case short_frames line P rs s of (ps, s) \<Rightarrow> (if keep then fr # ps else ps, s)))"

text \<open>The frames of the long-term stores. Nothing is checked here.\<close>

fun long_frames :: "h264_dpb \<Rightarrow> nat option list \<Rightarrow> nat list option" where
  "long_frames s [] = Some []"
| "long_frames s (r # rs) = do {
     i \<leftarrow> r;
     keep \<leftarrow> (if fs_is_used (mFrameStore s i) = 3
        then do { fr \<leftarrow> fs_frame (mFrameStore s i); Some (if pic_is_long_term (m_PIC s fr) then [fr] else []) }
        else Some []);
     ps \<leftarrow> long_frames s rs;
     Some (keep @ ps)
   }"

text \<open>The stores with a property, for field slices.\<close>

fun short_stores :: "int \<Rightarrow> (FrameStore \<Rightarrow> bool) \<Rightarrow> nat option list \<Rightarrow> h264_dpb \<Rightarrow> nat list \<times> h264_dpb" where
  "short_stores line P [] s = ([], s)"
| "short_stores line P (r # rs) s =
     (case r of None \<Rightarrow> short_stores line P rs (dpb_error line s)
      | Some i \<Rightarrow> (case short_stores line P rs s of (is, s) \<Rightarrow> (if P (mFrameStore s i) then i # is else is, s)))"

fun long_stores :: "nat option list \<Rightarrow> nat list option" where
  "long_stores [] = Some []"
| "long_stores (r # rs) = do { i \<leftarrow> r; is \<leftarrow> long_stores rs; Some (i # is) }"

section \<open>Initial lists\<close>

text \<open>The array from position \<open>n\<close> on is sorted anew: the long-term pictures after the
  short-term ones.\<close>

definition sort_tail :: "(nat \<Rightarrow> nat \<Rightarrow> int) \<Rightarrow> nat \<Rightarrow> nat list \<Rightarrow> nat list option" where
  "sort_tail cmp n ps = do { ts \<leftarrow> qsort cmp (drop n ps); Some (take n ps @ ts) }"

definition init_p_frame :: "h264_dpb \<times> RefPicLists \<Rightarrow> (h264_dpb \<times> RefPicLists) option" where
  "init_p_frame sl =
     (case sl of (s, l) \<Rightarrow>
      case short_frames 4343 (\<lambda>p. True) (ref_list s) s of (ps, s) \<Rightarrow> do {
        ps \<leftarrow> qsort (compare_pic_by_pic_num_desc s) ps;
        let (s, l) = check_valid 4362 0 (s, set_listXsize 0 (uchar (int (length ps))) l);
        lts \<leftarrow> long_frames s (ltref_list s);
        ps \<leftarrow> sort_tail (compare_pic_by_lt_pic_num_asc s) (nat (listXsize l 0)) (ps @ lts);
        xs \<leftarrow> write_front ps (listX l 0);
        Some (check_valid 4390 0 (s, set_listXsize 0 (uchar (int (length ps))) (set_listX 0 xs l)))
      })"

definition init_p_field :: "h264_dpb \<times> RefPicLists \<Rightarrow> (h264_dpb \<times> RefPicLists) option" where
  "init_p_field sl =
     (case sl of (s, l) \<Rightarrow>
      case short_stores 4406 (\<lambda>f. fs_is_reference f \<noteq> 0) (ref_list s) s of (is, s) \<Rightarrow> do {
        is \<leftarrow> qsort (compare_fs_by_frame_num_desc s) is;
        lts \<leftarrow> long_stores (ltref_list s);
        lts \<leftarrow> qsort (compare_fs_by_lt_pic_idx_asc s) lts;
        let st = sl_structure (mSlice s);
        let ps = gen_pic_list_from_frame_list s st is is_short_ref @ gen_pic_list_from_frame_list s st lts is_long_ref;
        xs \<leftarrow> write_front ps (listX l 0);
        Some (s, set_listXsize 0 (uchar (int (length ps))) (set_listX 0 xs l))
      })"

text \<open>The end of both initialisations: the sizes are cut to the active numbers, and the rest of
  each list is the picture that stands for no reference.\<close>

definition fill_rest :: "h264_dpb \<Rightarrow> nat \<Rightarrow> RefPicLists \<Rightarrow> RefPicLists" where
  "fill_rest s k l =
     set_listX k (map (\<lambda>i. if listXsize l k \<le> int i \<and> i < MAX_LIST_SIZE then no_reference_picture s else listX l k ! i)
       [0..<length (listX l k)]) l"

definition set_max_size :: "int \<Rightarrow> h264_dpb \<times> RefPicLists \<Rightarrow> h264_dpb \<times> RefPicLists" where
  "set_max_size line sl =
     (case sl of (s, l) \<Rightarrow>
      let l = set_listXsize 0 (uchar (imin (listXsize l 0) (num_ref_idx_active l 0))) l;
          l = set_listXsize 1 (uchar (imin (listXsize l 1) (num_ref_idx_active l 1))) l;
          (s, l) = check_valid (line + 1) 1 (check_valid line 0 (s, l))
      in (s, fill_rest s 1 (fill_rest s 0 l)))"

definition init_lists_p_slice :: "h264_dpb \<times> RefPicLists \<Rightarrow> (h264_dpb \<times> RefPicLists) option" where
  "init_lists_p_slice sl = do {
     (s, l) \<leftarrow> (if sl_structure (mSlice (fst sl)) = FRAME then init_p_frame sl else init_p_field sl);
     Some (set_max_size 4464 (s, set_listXsize 1 0 l))
   }"

definition init_lists_i_slice :: "RefPicLists \<Rightarrow> RefPicLists" where
  "init_lists_i_slice l = set_listXsize 1 0 (set_listXsize 0 0 l)"

definition init_b_frame :: "h264_dpb \<times> RefPicLists \<Rightarrow> (h264_dpb \<times> RefPicLists) option" where
  "init_b_frame sl =
     (case sl of (s, l) \<Rightarrow>
      let cur = framepoc (mSlice s);
          (before, s) = short_frames 4613 (\<lambda>p. cur \<ge> pic_poc p) (ref_list s) s in do {
        before \<leftarrow> qsort (compare_pic_by_poc_desc s) before;
        let (aft, s) = short_frames 4643 (\<lambda>p. cur < pic_poc p) (ref_list s) s;
        aft \<leftarrow> qsort (compare_pic_by_poc_asc s) aft;
        let n = uchar (int (length before + length aft));
        let (s, l) = check_valid 4677 1 (check_valid 4676 0 (s, set_listXsize 1 n (set_listXsize 0 n l)));
        lts \<leftarrow> long_frames s (ltref_list s);
        let cmp = compare_pic_by_lt_pic_num_asc s;
        ps0 \<leftarrow> sort_tail cmp (nat (listXsize l 0)) (before @ aft @ lts);
        ps1 \<leftarrow> sort_tail cmp (nat (listXsize l 0)) (aft @ before @ lts);
        xs0 \<leftarrow> write_front ps0 (listX l 0);
        xs1 \<leftarrow> write_front ps1 (listX l 1);
        let n = uchar (int (length ps0));
        Some (check_valid 4751 1 (check_valid 4750 0
          (s, set_listXsize 1 n (set_listXsize 0 n (set_listX 1 xs1 (set_listX 0 xs0 l))))))
      })"

definition init_b_field :: "h264_dpb \<times> RefPicLists \<Rightarrow> (h264_dpb \<times> RefPicLists) option" where
  "init_b_field sl =
     (case sl of (s, l) \<Rightarrow>
      let cur = ThisPOC (mSlice s); st = sl_structure (mSlice s);
          (before, s) = short_stores 4778 (\<lambda>f. fs_is_used f \<noteq> 0 \<and> cur \<ge> fs_poc f) (ref_list s) s in do {
        before \<leftarrow> qsort (compare_fs_by_poc_desc s) before;
        let (aft, s) = short_stores 4797 (\<lambda>f. fs_is_used f \<noteq> 0 \<and> cur < fs_poc f) (ref_list s) s;
        aft \<leftarrow> qsort (compare_fs_by_poc_asc s) aft;
        lts \<leftarrow> long_stores (ltref_list s);
        lts \<leftarrow> qsort (compare_fs_by_lt_pic_idx_asc s) lts;
        let lt = gen_pic_list_from_frame_list s st lts is_long_ref;
        let ps0 = gen_pic_list_from_frame_list s st (before @ aft) is_short_ref @ lt;
        let ps1 = gen_pic_list_from_frame_list s st (aft @ before) is_short_ref @ lt;
        xs0 \<leftarrow> write_front ps0 (listX l 0);
        xs1 \<leftarrow> write_front ps1 (listX l 1);
        Some (s, set_listXsize 1 (uchar (int (length ps1))) (set_listXsize 0 (uchar (int (length ps0)))
          (set_listX 1 xs1 (set_listX 0 xs0 l))))
      })"

text \<open>Two equal lists of more than one picture: the first two pictures of list 1 change
  places.\<close>

definition swap_if_identical :: "RefPicLists \<Rightarrow> RefPicLists" where
  "swap_if_identical l =
     (if listXsize l 0 = listXsize l 1 \<and> listXsize l 0 > 1 \<and>
         take (nat (listXsize l 0)) (listX l 0) = take (nat (listXsize l 0)) (listX l 1)
      then set_listX 1 ((listX l 1)[0 := listX l 1 ! 1, 1 := listX l 1 ! 0]) l
      else l)"

definition init_lists_b_slice :: "h264_dpb \<times> RefPicLists \<Rightarrow> (h264_dpb \<times> RefPicLists) option" where
  "init_lists_b_slice sl = do {
     (s, l) \<leftarrow> (if sl_structure (mSlice (fst sl)) = FRAME then init_b_frame sl else init_b_field sl);
     Some (set_max_size 4931 (s, swap_if_identical l))
   }"

section \<open>Field lists of frame slices\<close>

text \<open>The loop over one list: the two field lists it fills. A null entry ends it with the error
  flag set.\<close>

fun mbaff_fill :: "int \<Rightarrow> h264_dpb \<Rightarrow> nat option list \<Rightarrow> nat option list \<times> nat option list \<times> bool" where
  "mbaff_fill line s [] = ([], [], True)"
| "mbaff_fill line s (None # ps) = ([], [], False)"
| "mbaff_fill line s (Some p # ps) =
     (case mbaff_fill line s ps of (tb, bt, ok) \<Rightarrow>
        let t = pic_top_field (m_PIC s p); b = pic_bottom_field (m_PIC s p)
        in (t # b # tb, b # t # bt, ok))"

definition mbaff_reset :: "h264_dpb \<Rightarrow> nat \<Rightarrow> RefPicLists \<Rightarrow> RefPicLists" where
  "mbaff_reset s k l =
     set_listXsize k 0 (set_listX k (replicate MAX_LIST_SIZE (no_reference_picture s) @ drop MAX_LIST_SIZE (listX l k)) l)"

definition mbaff_list :: "int \<Rightarrow> nat \<Rightarrow> nat \<Rightarrow> nat \<Rightarrow> h264_dpb \<times> RefPicLists \<Rightarrow> (h264_dpb \<times> RefPicLists) option" where
  "mbaff_list line k a b sl =
     (case sl of (s, l) \<Rightarrow>
      let n = nat (listXsize l k) in
      if n > length (listX l k) then None
      else case mbaff_fill line s (take n (listX l k)) of (tb, bt, ok) \<Rightarrow>
        if length tb > length (listX l a) \<or> length bt > length (listX l b) then None
        else
          let l = set_listX a (tb @ drop (length tb) (listX l a)) l;
              l = set_listX b (bt @ drop (length bt) (listX l b)) l;
              m = uchar (listXsize l k * 2)
          in Some (if ok then s else dpb_error line s, set_listXsize b m (set_listXsize a m l)))"

definition init_mbaff_lists :: "h264_dpb \<times> RefPicLists \<Rightarrow> (h264_dpb \<times> RefPicLists) option" where
  "init_mbaff_lists sl =
     (case sl of (s, l) \<Rightarrow> do {
        sl \<leftarrow> mbaff_list 4529 0 2 4 (s, fold (mbaff_reset s) [2, 3, 4, 5] l);
        mbaff_list 4550 1 3 5 sl
      })"

section \<open>Reordering\<close>

text \<open>The short-term picture with a number, for a frame and for a field slice. The C function
  returns the picture of no reference when there is none.\<close>

fun get_short_term_frame :: "int \<Rightarrow> nat option list \<Rightarrow> h264_dpb \<Rightarrow> nat option \<times> h264_dpb" where
  "get_short_term_frame num [] s = (no_reference_picture s, s)"
| "get_short_term_frame num (None # rs) s = get_short_term_frame num rs (dpb_error 5005 s)"
| "get_short_term_frame num (Some i # rs) s =
     (if fs_is_reference (mFrameStore s i) = 3 then
        (case fs_frame (mFrameStore s i) of
           None \<Rightarrow> get_short_term_frame num rs (dpb_error 5012 s)
         | Some fr \<Rightarrow> if \<not> pic_is_long_term (m_PIC s fr) \<and> pic_pic_num (m_PIC s fr) = num then (Some fr, s)
                      else get_short_term_frame num rs s)
      else get_short_term_frame num rs s)"

definition short_field_matches :: "h264_dpb \<Rightarrow> int \<Rightarrow> nat option \<Rightarrow> bool" where
  "short_field_matches s num p = opt_pic s p (\<lambda>x. \<not> pic_is_long_term x \<and> pic_pic_num x = num)"

fun get_short_term_field :: "int \<Rightarrow> nat option list \<Rightarrow> h264_dpb \<Rightarrow> nat option \<times> h264_dpb" where
  "get_short_term_field num [] s = (no_reference_picture s, s)"
| "get_short_term_field num (None # rs) s = get_short_term_field num rs (dpb_error 5025 s)"
| "get_short_term_field num (Some i # rs) s =
     (let f = mFrameStore s i
      in if fs_is_reference f AND 1 \<noteq> 0 \<and> fs_top_field f = None then get_short_term_field num rs (dpb_error 5032 s)
         else if fs_is_reference f AND 1 \<noteq> 0 \<and> short_field_matches s num (fs_top_field f) then (fs_top_field f, s)
         else if fs_is_reference f AND 2 \<noteq> 0 \<and> fs_bottom_field f = None then get_short_term_field num rs (dpb_error 5045 s)
         else if fs_is_reference f AND 2 \<noteq> 0 \<and> short_field_matches s num (fs_bottom_field f) then (fs_bottom_field f, s)
         else get_short_term_field num rs s)"

definition get_short_term_pic :: "int \<Rightarrow> h264_dpb \<Rightarrow> nat option \<times> h264_dpb" where
  "get_short_term_pic num s =
     (if sl_structure (mSlice s) = FRAME then get_short_term_frame num (ref_list s) s
      else get_short_term_field num (ref_list s) s)"

definition long_matches :: "h264_dpb \<Rightarrow> int \<Rightarrow> nat option \<Rightarrow> bool" where
  "long_matches s num p = opt_pic s p (\<lambda>x. pic_is_long_term x \<and> pic_long_term_pic_num x = num)"

fun get_long_term_from :: "h264_dpb \<Rightarrow> int \<Rightarrow> nat option list \<Rightarrow> nat option option" where
  "get_long_term_from s num [] = Some None"
| "get_long_term_from s num (r # rs) = do {
     i \<leftarrow> r;
     let f = mFrameStore s i;
     if sl_structure (mSlice s) = FRAME then
       (if fs_is_reference f = 3 \<and> long_matches s num (fs_frame f) then Some (fs_frame f) else get_long_term_from s num rs)
     else if fs_is_reference f AND 1 \<noteq> 0 \<and> long_matches s num (fs_top_field f) then Some (fs_top_field f)
     else if fs_is_reference f AND 2 \<noteq> 0 \<and> long_matches s num (fs_bottom_field f) then Some (fs_bottom_field f)
     else get_long_term_from s num rs
   }"

definition get_long_term_pic :: "int \<Rightarrow> h264_dpb \<Rightarrow> nat option option" where
  "get_long_term_pic num s = get_long_term_from s num (ltref_list s)"

text \<open>Both reorderings: the entries from \<open>k\<close> to \<open>n - 1\<close> move one place up, the
  picture goes to place \<open>k\<close>, and then the entries after it close up over the one that
  \<open>drop_it\<close> describes and over null entries.\<close>

definition shift_up :: "nat \<Rightarrow> nat \<Rightarrow> 'a list \<Rightarrow> 'a list" where
  "shift_up k n xs = fold (\<lambda>c xs. xs[c := xs ! (c - 1)]) (rev [k + 1..<n + 1]) xs"

definition close_step :: "(nat \<Rightarrow> bool) \<Rightarrow> nat \<Rightarrow> nat option list \<times> nat \<Rightarrow> nat option list \<times> nat" where
  "close_step drop_it c xn =
     (case xn of (xs, nIdx) \<Rightarrow>
        (case xs ! c of None \<Rightarrow> (xs, nIdx)
         | Some p \<Rightarrow> if drop_it p then (xs, nIdx) else (xs[nIdx := Some p], nIdx + 1)))"

definition reorder_array :: "(nat \<Rightarrow> bool) \<Rightarrow> nat option \<Rightarrow> nat \<Rightarrow> nat \<Rightarrow> nat option list \<Rightarrow> nat option list option" where
  "reorder_array drop_it pic n k xs =
     (if k \<ge> length xs \<or> n \<ge> length xs \<and> k < n then None
      else let ys = (shift_up k n xs)[k := pic]
           in Some (fst (fold (close_step drop_it) [k + 1..<n + 1] (ys, k + 1))))"

definition reorder_short_term :: "nat \<Rightarrow> int \<Rightarrow> int \<Rightarrow> nat \<Rightarrow> h264_dpb \<times> RefPicLists \<Rightarrow> (h264_dpb \<times> RefPicLists) option" where
  "reorder_short_term cur_list num_minus1 picNumLX refIdxLX sl =
     (case sl of (s, l) \<Rightarrow>
      case get_short_term_pic picNumLX s of (pic, s) \<Rightarrow>
        map_option (\<lambda>xs. (s, set_listX cur_list xs l))
          (reorder_array (\<lambda>p. \<not> pic_is_long_term (m_PIC s p) \<and> pic_pic_num (m_PIC s p) = picNumLX) pic
            (nat (num_minus1 + 1)) refIdxLX (listX l cur_list)))"

definition reorder_long_term :: "nat \<Rightarrow> int \<Rightarrow> int \<Rightarrow> nat \<Rightarrow> h264_dpb \<times> RefPicLists \<Rightarrow> (h264_dpb \<times> RefPicLists) option" where
  "reorder_long_term cur_list num_minus1 LongTermPicNum refIdxLX sl =
     (case sl of (s, l) \<Rightarrow> do {
        pic \<leftarrow> get_long_term_pic LongTermPicNum s;
        xs \<leftarrow> reorder_array (\<lambda>p. pic_is_long_term (m_PIC s p) \<and> pic_long_term_pic_num (m_PIC s p) = LongTermPicNum) pic
          (nat (num_minus1 + 1)) refIdxLX (listX l cur_list);
        Some (s, set_listX cur_list xs l)
      })"

text \<open>The number a short-term command names, before and after the wrap.\<close>

definition pic_num_no_wrap :: "int \<Rightarrow> int \<Rightarrow> int \<Rightarrow> int \<Rightarrow> int" where
  "pic_num_no_wrap idc maxPicNum pred diff_minus1 =
     (if idc = 0 then
        (if pred - (diff_minus1 + 1) < 0 then pred - (diff_minus1 + 1) + maxPicNum else pred - (diff_minus1 + 1))
      else
        (if pred + (diff_minus1 + 1) \<ge> maxPicNum then pred + (diff_minus1 + 1) - maxPicNum else pred + (diff_minus1 + 1)))"

definition pic_num_wrapped :: "int \<Rightarrow> int \<Rightarrow> int \<Rightarrow> int" where
  "pic_num_wrapped maxPicNum currPicNum noWrap = (if noWrap > currPicNum then noWrap - maxPicNum else noWrap)"

text \<open>The commands of one list: idc, difference and long-term number; at most
  \<open>REORDERING_COMMAND_MAX_SIZE\<close> of them, up to the first idc of 3 or more.\<close>

fun reorder_commands
  :: "nat \<Rightarrow> int \<Rightarrow> int \<Rightarrow> int \<Rightarrow> (int \<times> int \<times> int) list \<Rightarrow> int \<Rightarrow> nat \<Rightarrow> h264_dpb \<times> RefPicLists \<Rightarrow> (h264_dpb \<times> RefPicLists) option" where
  "reorder_commands cur_list num_minus1 maxPicNum currPicNum [] pred refIdxLX sl = Some sl"
| "reorder_commands cur_list num_minus1 maxPicNum currPicNum ((idc, diff, lt) # cs) pred refIdxLX sl =
     (if idc \<ge> 3 then Some sl
      else if idc < 2 then do {
        let noWrap = pic_num_no_wrap idc maxPicNum pred diff;
        sl \<leftarrow> reorder_short_term cur_list num_minus1 (pic_num_wrapped maxPicNum currPicNum noWrap) refIdxLX sl;
        reorder_commands cur_list num_minus1 maxPicNum currPicNum cs noWrap (refIdxLX + 1) sl
      }
      else do {
        sl \<leftarrow> reorder_long_term cur_list num_minus1 lt refIdxLX sl;
        reorder_commands cur_list num_minus1 maxPicNum currPicNum cs pred (refIdxLX + 1) sl
      })"

definition REORDERING_COMMAND_MAX_SIZE :: nat where
  "REORDERING_COMMAND_MAX_SIZE = 33"

definition reorder_ref_pic_list :: "nat \<Rightarrow> h264_dpb \<times> RefPicLists \<Rightarrow> (h264_dpb \<times> RefPicLists) option" where
  "reorder_ref_pic_list cur_list sl =
     (case sl of (s, l) \<Rightarrow>
      let frame = (sl_structure (mSlice s) = FRAME);
          maxPicNum = (if frame then max_frame_num (mVideo s) else 2 * max_frame_num (mVideo s));
          currPicNum = (if frame then sl_frame_num (mSlice s) else 2 * sl_frame_num (mSlice s) + 1);
          num_minus1 = num_ref_idx_active l cur_list - 1;
          cs = take REORDERING_COMMAND_MAX_SIZE (zip (modification_of_pic_nums_idc l cur_list)
                 (zip (abs_diff_pic_num_minus1 l cur_list) (long_term_pic_idx l cur_list)))
      in map_option (\<lambda>(s, l). (s, set_listXsize cur_list (uchar (num_minus1 + 1)) l))
           (reorder_commands cur_list num_minus1 maxPicNum currPicNum cs currPicNum 0 (s, l)))"

text \<open>Reading the last active entry, which the code compares for a message.\<close>

definition last_active :: "nat \<Rightarrow> RefPicLists \<Rightarrow> nat option option" where
  "last_active k l =
     (if 1 \<le> num_ref_idx_active l k \<and> num_ref_idx_active l k \<le> int (length (listX l k))
      then Some (listX l k ! nat (num_ref_idx_active l k - 1)) else None)"

definition P_SLICE :: int where "P_SLICE = 0"
definition B_SLICE :: int where "B_SLICE = 1"
definition I_SLICE :: int where "I_SLICE = 2"
definition SI_SLICE :: int where "SI_SLICE = 4"

definition reorder_lists :: "h264_dpb \<times> RefPicLists \<Rightarrow> (h264_dpb \<times> RefPicLists) option" where
  "reorder_lists sl = do {
     let ty = sl_slice_type (mSlice (fst sl));
     sl \<leftarrow> (if ty \<noteq> I_SLICE \<and> ty \<noteq> SI_SLICE then do {
          (s, l) \<leftarrow> (if ref_pic_list_reordering_flag (snd sl) 0 \<noteq> 0 then reorder_ref_pic_list 0 sl else Some sl);
          e \<leftarrow> last_active 0 l;
          Some (check_valid 5302 0 (s, set_listXsize 0 (uchar (imin (listXsize l 0) (num_ref_idx_active l 0))) l))
        }
        else Some sl);
     if ty = B_SLICE then do {
       (s, l) \<leftarrow> (if ref_pic_list_reordering_flag (snd sl) 1 \<noteq> 0 then reorder_ref_pic_list 1 sl else Some sl);
       e \<leftarrow> last_active 1 l;
       Some (s, set_listXsize 1 (uchar (num_ref_idx_active l 1)) l)
     }
     else Some sl
   }"

text \<open>The part of \<open>h264_slice_header_process\<close> that builds the lists of a slice.\<close>

definition slice_lists :: "h264_dpb \<times> RefPicLists \<Rightarrow> (h264_dpb \<times> RefPicLists) option" where
  "slice_lists sl = do {
     let ty = sl_slice_type (mSlice (fst sl));
     sl \<leftarrow> (if ty = P_SLICE then init_lists_p_slice sl
           else if ty = B_SLICE then init_lists_b_slice sl
           else Some (fst sl, init_lists_i_slice (snd sl)));
     sl \<leftarrow> reorder_lists sl;
     if sl_structure (mSlice (fst sl)) = FRAME then init_mbaff_lists sl else Some sl
   }"

section \<open>Checking the lists\<close>

definition is_pic_in_dpb :: "h264_dpb \<Rightarrow> nat \<Rightarrow> bool" where
  "is_pic_in_dpb s p = list_ex (\<lambda>i. fs_top_field (mFrameStore s i) = Some p \<or>
     fs_bottom_field (mFrameStore s i) = Some p \<or> fs_frame (mFrameStore s i) = Some p) (used_fs s)"

text \<open>The loop over one list, with the codes for a null entry, a picture outside the buffer and
  a picture that does not exist.\<close>

fun check_list :: "h264_dpb \<Rightarrow> int \<Rightarrow> int \<Rightarrow> int \<Rightarrow> nat option list \<Rightarrow> int" where
  "check_list s null_code out_code gap_code [] = 0"
| "check_list s null_code out_code gap_code (None # ps) = null_code"
| "check_list s null_code out_code gap_code (Some p # ps) =
     (if \<not> is_pic_in_dpb s p then out_code
      else if opt_pic s (pic_frame (m_PIC s p)) pic_non_existing then gap_code
      else check_list s null_code out_code gap_code ps)"

definition dpb_check_ref_list_error :: "nat option \<Rightarrow> h264_dpb \<times> RefPicLists \<Rightarrow> int" where
  "dpb_check_ref_list_error dec_picture sl =
     (case sl of (s, l) \<Rightarrow>
      if first_insert_frame s = FirstInsertFrm_OUT \<and> opt_pic s dec_picture (\<lambda>p. first_output_poc s > pic_poc p) then 0
      else
        let ty = sl_slice_type (mSlice s);
            r0 = (if ty \<noteq> I_SLICE \<and> ty \<noteq> SI_SLICE then check_list s 5 1 3 (take (nat (listXsize l 0)) (listX l 0)) else 0)
        in if r0 \<noteq> 0 then r0
           else if ty = B_SLICE then check_list s 6 2 4 (take (nat (listXsize l 1)) (listX l 1)) else 0)"

end
