(* ===== verification/H264_Qsort_Correct.thy ===== *)
theory H264_Qsort_Correct
  imports H264_Qsort
begin

text \<open>
  The sorting routine sorts: for every comparison that is a total preorder, it ends on every
  array of fewer than 2^62 elements without leaving the array or overflowing its stack, and
  leaves a sorted permutation of it. The laws of the comparison are a locale; the comparisons
  of the reference lists interpret it.
\<close>

section \<open>Positions\<close>

abbreviation at :: "'a list \<Rightarrow> int \<Rightarrow> 'a" where
  "at xs i \<equiv> xs ! nat i"

definition inside :: "'a list \<Rightarrow> int \<Rightarrow> bool" where
  "inside xs i \<longleftrightarrow> 0 \<le> i \<and> i < int (length xs)"

definition swapped :: "'a list \<Rightarrow> int \<Rightarrow> int \<Rightarrow> 'a list" where
  "swapped xs i j = xs[nat i := at xs j, nat j := at xs i]"

lemma compare_at_inside: "inside xs i \<Longrightarrow> inside xs j \<Longrightarrow> compare_at cmp xs i j = Some (cmp (at xs i) (at xs j))"
  by (simp add: compare_at_def elem_at_def inside_def)

lemma swap_at_inside: "inside xs i \<Longrightarrow> inside xs j \<Longrightarrow> swap_at xs i j = Some (swapped xs i j)"
  by (simp add: swap_at_def elem_at_def inside_def swapped_def)

lemma length_swapped [simp]: "length (swapped xs i j) = length xs"
  by (simp add: swapped_def)

lemma inside_swapped [simp]: "inside (swapped xs i j) k = inside xs k"
  by (simp add: inside_def)

lemma at_swapped: "inside xs i \<Longrightarrow> inside xs j \<Longrightarrow> 0 \<le> k \<Longrightarrow>
    at (swapped xs i j) k = (if k = i then at xs j else if k = j then at xs i else at xs k)"
  by (auto simp: swapped_def inside_def nth_list_update eq_nat_nat_iff)

lemma mset_swapped: "inside xs i \<Longrightarrow> inside xs j \<Longrightarrow> mset (swapped xs i j) = mset xs"
  unfolding swapped_def inside_def by (rule mset_swap) linarith+

text \<open>The part from \<open>lo\<close> to \<open>hi\<close> is permuted and nothing else is touched.\<close>

definition seg_perm :: "int \<Rightarrow> int \<Rightarrow> 'a list \<Rightarrow> 'a list \<Rightarrow> bool" where
  "seg_perm lo hi xs ys \<longleftrightarrow> length ys = length xs \<and> take (nat lo) ys = take (nat lo) xs \<and>
     drop (nat (hi + 1)) ys = drop (nat (hi + 1)) xs \<and> mset ys = mset xs"

lemma seg_perm_refl [simp]: "seg_perm lo hi xs xs"
  by (simp add: seg_perm_def)

lemma seg_perm_trans: "seg_perm lo hi xs ys \<Longrightarrow> seg_perm lo hi ys zs \<Longrightarrow> seg_perm lo hi xs zs"
  by (simp add: seg_perm_def)

lemma seg_perm_length: "seg_perm lo hi xs ys \<Longrightarrow> length ys = length xs"
  by (simp add: seg_perm_def)

lemma seg_perm_inside: "seg_perm lo hi xs ys \<Longrightarrow> inside ys i = inside xs i"
  by (simp add: seg_perm_def inside_def)

lemma seg_perm_mono:
  assumes "seg_perm lo hi xs ys" "lo' \<le> lo" "hi \<le> hi'"
  shows "seg_perm lo' hi' xs ys"
proof -
  have "take (nat lo') ys = take (nat lo') xs"
    using assms(1,2) unfolding seg_perm_def by (metis min.absorb1 nat_mono take_take)
  moreover have "drop (nat (hi' + 1)) ys = drop (nat (hi' + 1)) xs"
  proof -
    have "drop (nat (hi' + 1)) zs = drop (nat (hi' + 1) - nat (hi + 1)) (drop (nat (hi + 1)) zs)" for zs :: "'a list"
      using assms(3) by (simp add: drop_drop nat_mono)
    then show ?thesis
      using assms(1) unfolding seg_perm_def by metis
  qed
  ultimately show ?thesis
    using assms(1) by (simp add: seg_perm_def)
qed

lemma seg_perm_outside:
  assumes "seg_perm lo hi xs ys" "inside xs k" "k < lo \<or> hi < k"
  shows "at ys k = at xs k"
  using assms(3)
proof
  assume "k < lo"
  then have "nat k < nat lo"
    using assms(2) by (simp add: inside_def)
  then show ?thesis
    using assms(1) unfolding seg_perm_def by (metis nth_take)
next
  assume "hi < k"
  then have k: "nat k = nat (hi + 1) + (nat k - nat (hi + 1))"
    using assms(2) by (simp add: inside_def nat_mono)
  have "drop (nat (hi + 1)) ys ! (nat k - nat (hi + 1)) = drop (nat (hi + 1)) xs ! (nat k - nat (hi + 1))"
    using assms(1) by (simp add: seg_perm_def)
  moreover have "nat k < length xs" "nat k < length ys"
    using assms(1,2) by (auto simp: inside_def seg_perm_def)
  ultimately show ?thesis
    using k by simp
qed

lemma seg_perm_swapped:
  assumes "lo \<le> i" "i \<le> hi" "lo \<le> j" "j \<le> hi" "inside xs i" "inside xs j"
  shows "seg_perm lo hi xs (swapped xs i j)"
proof -
  have "nat lo \<le> nat i" "nat lo \<le> nat j" "nat i < nat (hi + 1)" "nat j < nat (hi + 1)"
    using assms by (simp_all add: nat_mono inside_def)
  then have "take (nat lo) (swapped xs i j) = take (nat lo) xs" "drop (nat (hi + 1)) (swapped xs i j) = drop (nat (hi + 1)) xs"
    by (simp_all add: swapped_def)
  then show ?thesis
    using assms by (simp add: seg_perm_def mset_swapped)
qed

text \<open>What holds of all elements of the part still holds after a permutation of it.\<close>

definition seg :: "int \<Rightarrow> int \<Rightarrow> 'a list \<Rightarrow> 'a list" where
  "seg lo hi xs = take (nat (hi + 1) - nat lo) (drop (nat lo) xs)"

lemma split_seg: "0 \<le> lo \<Longrightarrow> lo \<le> hi + 1 \<Longrightarrow> xs = take (nat lo) xs @ seg lo hi xs @ drop (nat (hi + 1)) xs"
proof -
  assume a: "0 \<le> lo" "lo \<le> hi + 1"
  then have "nat lo \<le> nat (hi + 1)"
    by (simp add: nat_mono)
  then have "drop (nat lo) xs = seg lo hi xs @ drop (nat (hi + 1)) xs"
    unfolding seg_def by (metis append_take_drop_id drop_drop le_add_diff_inverse2)
  then show ?thesis
    by (metis append_take_drop_id)
qed

lemma seg_perm_set:
  assumes "seg_perm lo hi xs ys" "0 \<le> lo" "lo \<le> hi + 1"
  shows "set (seg lo hi ys) = set (seg lo hi xs)"
proof -
  have "mset xs = mset (take (nat lo) xs) + mset (seg lo hi xs) + mset (drop (nat (hi + 1)) xs)"
    by (subst split_seg [OF assms(2,3), of xs]) simp
  moreover have "mset ys = mset (take (nat lo) xs) + mset (seg lo hi ys) + mset (drop (nat (hi + 1)) xs)"
    using assms(1) by (subst split_seg [OF assms(2,3), of ys]) (simp add: seg_perm_def)
  ultimately have "mset (seg lo hi ys) = mset (seg lo hi xs)"
    using assms(1) by (simp add: seg_perm_def)
  then show ?thesis
    by (rule mset_eq_setD)
qed

lemma set_seg:
  assumes "0 \<le> lo" "hi < int (length xs)"
  shows "set (seg lo hi xs) = {at xs k | k. lo \<le> k \<and> k \<le> hi}"
proof (intro set_eqI iffI)
  fix x
  assume "x \<in> set (seg lo hi xs)"
  then obtain n where n: "n < nat (hi + 1) - nat lo" "x = seg lo hi xs ! n" "n < length (seg lo hi xs)"
    by (auto simp: in_set_conv_nth seg_def)
  then have "x = at xs (lo + int n)" "lo + int n \<le> hi"
    using assms by (auto simp: seg_def nat_add_distrib)
  then show "x \<in> {at xs k | k. lo \<le> k \<and> k \<le> hi}"
    by auto
next
  fix x
  assume "x \<in> {at xs k | k. lo \<le> k \<and> k \<le> hi}"
  then obtain k where k: "x = at xs k" "lo \<le> k" "k \<le> hi"
    by blast
  have l: "nat k - nat lo < length (seg lo hi xs)"
    using k assms by (simp add: seg_def)
  have "seg lo hi xs ! (nat k - nat lo) = x"
    using k assms by (simp add: seg_def)
  then show "x \<in> set (seg lo hi xs)"
    using l nth_mem by fastforce
qed

lemma seg_perm_ball:
  assumes "seg_perm lo hi xs ys" "0 \<le> lo" "hi < int (length xs)" "\<And>k. lo \<le> k \<Longrightarrow> k \<le> hi \<Longrightarrow> P (at xs k)"
    "lo \<le> k" "k \<le> hi"
  shows "P (at ys k)"
proof -
  have "at ys k \<in> set (seg lo hi ys)"
    using assms(1,3,5,6) by (auto simp: set_seg [OF assms(2)] seg_perm_def)
  then have "at ys k \<in> set (seg lo hi xs)"
    using seg_perm_set [OF assms(1,2)] assms(5,6) by simp
  then show ?thesis
    using assms(4) by (auto simp: set_seg [OF assms(2,3)])
qed

section \<open>Travelling pointers\<close>

lemma scan_up_spec:
  assumes "\<And>k. i < k \<Longrightarrow> k < limit \<Longrightarrow> test k = Some (Q k)"
  obtains r where "scan_up test limit i = Some r" "i < r" "r \<le> max limit (i + 1)"
    "\<And>k. i < k \<Longrightarrow> k < r \<Longrightarrow> Q k" "r < limit \<Longrightarrow> \<not> Q r"
  using assms
proof (induction test limit i arbitrary: thesis rule: scan_up.induct)
  case (1 test limit i)
  show ?case
  proof (cases "i + 1 < limit \<and> Q (i + 1)")
    case True
    have t: "test (i + 1) = Some True"
      using 1(3) [of "i + 1"] True by simp
    obtain r where r: "scan_up test limit (i + 1) = Some r" "i + 1 < r" "r \<le> max limit (i + 1 + 1)"
      "\<And>k. i + 1 < k \<Longrightarrow> k < r \<Longrightarrow> Q k" "r < limit \<Longrightarrow> \<not> Q r"
      using 1(1) [of True] True t 1(3) by (auto simp: t)
    show ?thesis
    proof (rule 1(2) [of r])
      show "scan_up test limit i = Some r"
        by (subst scan_up.simps) (simp add: True t r(1))
      show "Q k" if "i < k" "k < r" for k
        using that r(4) [of k] True by (cases "k = i + 1") auto
    qed (use r True in auto)
  next
    case False
    then have s: "scan_up test limit i = Some (i + 1)"
      using 1(3) [of "i + 1"] by (subst scan_up.simps) auto
    show ?thesis
      by (rule 1(2) [OF s]) (use False in auto)
  qed
qed

lemma scan_down_spec:
  assumes "\<And>k. limit < k \<Longrightarrow> k < i \<Longrightarrow> test k = Some (Q k)"
  obtains r where "scan_down test limit i = Some r" "r < i" "min limit (i - 1) \<le> r"
    "\<And>k. r < k \<Longrightarrow> k < i \<Longrightarrow> Q k" "limit < r \<Longrightarrow> \<not> Q r"
  using assms
proof (induction test limit i arbitrary: thesis rule: scan_down.induct)
  case (1 test limit i)
  show ?case
  proof (cases "i - 1 > limit \<and> Q (i - 1)")
    case True
    have t: "test (i - 1) = Some True"
      using 1(3) [of "i - 1"] True by simp
    obtain r where r: "scan_down test limit (i - 1) = Some r" "r < i - 1" "min limit (i - 1 - 1) \<le> r"
      "\<And>k. r < k \<Longrightarrow> k < i - 1 \<Longrightarrow> Q k" "limit < r \<Longrightarrow> \<not> Q r"
      using 1(1) [of True] True t 1(3) by (auto simp: t)
    show ?thesis
    proof (rule 1(2) [of r])
      show "scan_down test limit i = Some r"
        by (subst scan_down.simps) (simp add: True t r(1))
      show "Q k" if "r < k" "k < i" for k
        using that r(4) [of k] True by (cases "k = i - 1") auto
    qed (use r True in auto)
  next
    case False
    then have s: "scan_down test limit i = Some (i - 1)"
      using 1(3) [of "i - 1"] by (subst scan_down.simps) auto
    show ?thesis
      by (rule 1(2) [OF s]) (use False in auto)
  qed
qed

section \<open>The comparison\<close>

definition sorted_seg :: "('a \<Rightarrow> 'a \<Rightarrow> int) \<Rightarrow> int \<Rightarrow> int \<Rightarrow> 'a list \<Rightarrow> bool" where
  "sorted_seg cmp lo hi xs \<longleftrightarrow> (\<forall>i j. lo \<le> i \<and> i \<le> j \<and> j \<le> hi \<longrightarrow> cmp (at xs i) (at xs j) \<le> 0)"

locale comparator =
  fixes cmp :: "'a \<Rightarrow> 'a \<Rightarrow> int"
  assumes antisym: "(0 < cmp a b) = (cmp b a < 0)"
    and trans: "cmp a b \<le> 0 \<Longrightarrow> cmp b c \<le> 0 \<Longrightarrow> cmp a c \<le> 0"
begin

lemma refl: "cmp a a = 0"
  using antisym [of a a] by linarith

lemma total: "\<not> cmp a b \<le> 0 \<Longrightarrow> cmp b a \<le> 0"
  using antisym [of a b] by linarith

lemma strict: "\<not> cmp a b \<le> 0 \<Longrightarrow> \<not> cmp c b \<le> 0 \<or> \<not> cmp a c \<le> 0"
  using trans by blast

lemma sym0: "cmp a b = 0 \<Longrightarrow> cmp b a = 0"
  using antisym [of a b] antisym [of b a] by linarith

lemma le_eq: "cmp a b \<le> 0 \<Longrightarrow> cmp b a \<le> 0 \<Longrightarrow> cmp a b = 0"
  using antisym [of a b] antisym [of b a] by linarith

section \<open>Short arrays\<close>

lemma max_scan_spec:
  assumes "inside xs mx" "hi < int (length xs)" "0 \<le> p"
  shows "\<exists>m. max_scan cmp xs hi p mx = Some m \<and> (m = mx \<or> p \<le> m \<and> m \<le> hi) \<and> cmp (at xs mx) (at xs m) \<le> 0 \<and>
     (\<forall>k. p \<le> k \<and> k \<le> hi \<longrightarrow> cmp (at xs k) (at xs m) \<le> 0)"
  using assms
proof (induction "nat (hi + 1 - p)" arbitrary: p mx)
  case 0
  then show ?case
    by (subst max_scan.simps) (auto simp: refl)
next
  case (Suc n)
  then have p: "p \<le> hi"
    by simp
  then have ip: "inside xs p"
    using Suc.prems by (simp add: inside_def)
  define mx' where "mx' = (if 0 < cmp (at xs p) (at xs mx) then p else mx)"
  have e: "max_scan cmp xs hi p mx = max_scan cmp xs hi (p + 1) mx'"
    using p ip Suc.prems(1) by (subst max_scan.simps) (simp add: compare_at_inside mx'_def)
  have "inside xs mx'"
    using ip Suc.prems(1) by (simp add: mx'_def)
  moreover have "n = nat (hi + 1 - (p + 1))" "0 \<le> p + 1"
    using Suc.hyps(2) Suc.prems(3) by simp_all
  ultimately obtain m where m: "max_scan cmp xs hi (p + 1) mx' = Some m" "m = mx' \<or> p + 1 \<le> m \<and> m \<le> hi"
    "cmp (at xs mx') (at xs m) \<le> 0" "\<forall>k. p + 1 \<le> k \<and> k \<le> hi \<longrightarrow> cmp (at xs k) (at xs m) \<le> 0"
    using Suc.hyps(1) [of "p + 1" mx'] Suc.prems(2) by blast
  have a: "cmp (at xs mx) (at xs mx') \<le> 0" "cmp (at xs p) (at xs mx') \<le> 0"
    using total [of "at xs p" "at xs mx"] by (auto simp: mx'_def refl not_less)
  have "cmp (at xs k) (at xs m) \<le> 0" if "p \<le> k \<and> k \<le> hi" for k
    using that m(4) trans [OF a(2) m(3)] by (cases "k = p") auto
  then show ?case
    using e m(1,2) trans [OF a(1) m(3)] p by (auto simp: mx'_def split: if_splits)
qed

lemma shortsort_spec:
  assumes "0 \<le> lo" "hi < int (length xs)"
  shows "\<exists>ys. shortsort cmp lo hi xs = Some ys \<and> seg_perm lo hi xs ys \<and> sorted_seg cmp lo hi ys"
  using assms
proof (induction "nat (hi - lo)" arbitrary: hi xs)
  case 0
  then have "i = j" if "lo \<le> i" "i \<le> j" "j \<le> hi" for i j
    using that by linarith
  then have "sorted_seg cmp lo hi xs"
    unfolding sorted_seg_def using refl by (metis order_refl)
  then show ?case
    using 0 by (subst shortsort.simps) simp
next
  case (Suc n)
  then have h: "lo < hi"
    by simp
  then have i: "inside xs lo" "inside xs hi"
    using Suc.prems by (simp_all add: inside_def)
  obtain m where m: "max_scan cmp xs hi (lo + 1) lo = Some m" "m = lo \<or> lo + 1 \<le> m \<and> m \<le> hi"
    "cmp (at xs lo) (at xs m) \<le> 0" "\<forall>k. lo + 1 \<le> k \<and> k \<le> hi \<longrightarrow> cmp (at xs k) (at xs m) \<le> 0"
    using max_scan_spec [OF i(1) Suc.prems(2), of "lo + 1"] Suc.prems(1) by auto
  have im: "inside xs m" "lo \<le> m" "m \<le> hi"
    using m(2) h Suc.prems by (auto simp: inside_def)
  define zs where "zs = swapped xs m hi"
  have sp: "seg_perm lo hi xs zs"
    unfolding zs_def using im i(2) h by (intro seg_perm_swapped) simp_all
  have mx: "cmp (at zs k) (at zs hi) \<le> 0" if "lo \<le> k" "k \<le> hi - 1" for k
  proof -
    have "cmp (at xs k') (at xs m) \<le> 0" if "lo \<le> k'" "k' \<le> hi" for k'
      using m(3,4) that by (cases "k' = lo") auto
    moreover have "at zs hi = at xs m"
      using at_swapped [OF im(1) i(2), of hi] h Suc.prems(1) by (simp add: zs_def)
    moreover have "at zs k = (if k = m then at xs hi else at xs k)"
      using at_swapped [OF im(1) i(2), of k] that Suc.prems(1) by (simp add: zs_def)
    ultimately show ?thesis
      using that h by auto
  qed
  have "hi - 1 < int (length zs)" "n = nat (hi - 1 - lo)"
    using Suc.hyps(2) Suc.prems(2) by (simp_all add: zs_def)
  then obtain ys where ys: "shortsort cmp lo (hi - 1) zs = Some ys" "seg_perm lo (hi - 1) zs ys" "sorted_seg cmp lo (hi - 1) ys"
    using Suc.hyps(1) [of "hi - 1" zs] Suc.prems(1) by auto
  have run: "shortsort cmp lo hi xs = Some ys"
    using h m(1) swap_at_inside [OF im(1) i(2)] ys(1) by (subst shortsort.simps) (simp add: zs_def)
  have "at ys hi = at zs hi"
    by (rule seg_perm_outside [OF ys(2)]) (use i(2) in \<open>simp_all add: zs_def\<close>)
  then have top: "cmp (at ys k) (at ys hi) \<le> 0" if "lo \<le> k" "k \<le> hi - 1" for k
    using seg_perm_ball [OF ys(2) Suc.prems(1) \<open>hi - 1 < int (length zs)\<close>, of "\<lambda>x. cmp x (at zs hi) \<le> 0" k] mx that
    by simp
  have "sorted_seg cmp lo hi ys"
    unfolding sorted_seg_def
  proof (intro allI impI)
    fix i j
    assume a: "lo \<le> i \<and> i \<le> j \<and> j \<le> hi"
    show "cmp (at ys i) (at ys j) \<le> 0"
    proof (cases "j = hi")
      case True
      then show ?thesis
        using a top [of i] by (cases "i = hi") (auto simp: refl)
    next
      case False
      then show ?thesis
        using a ys(3) by (simp add: sorted_seg_def)
    qed
  qed
  then show ?case
    using run seg_perm_trans [OF sp seg_perm_mono [OF ys(2)]] by auto
qed

end

section \<open>Partition\<close>

lemma scan_up_ex:
  assumes "\<And>k. i < k \<Longrightarrow> k < limit \<Longrightarrow> test k = Some (Q k)"
  shows "\<exists>r. scan_up test limit i = Some r \<and> i < r \<and> r \<le> max limit (i + 1) \<and>
    (\<forall>k. i < k \<and> k < r \<longrightarrow> Q k) \<and> (r < limit \<longrightarrow> \<not> Q r)"
  by (rule scan_up_spec [of i limit test Q, OF assms]) auto

lemma scan_down_ex:
  assumes "\<And>k. limit < k \<Longrightarrow> k < i \<Longrightarrow> test k = Some (Q k)"
  shows "\<exists>r. scan_down test limit i = Some r \<and> r < i \<and> min limit (i - 1) \<le> r \<and>
    (\<forall>k. r < k \<and> k < i \<longrightarrow> Q k) \<and> (limit < r \<longrightarrow> \<not> Q r)"
  by (rule scan_down_spec [of limit i test Q, OF assms]) auto

text \<open>What holds at the top of the partition loop, and after it.\<close>

definition part_inv :: "('a \<Rightarrow> 'a \<Rightarrow> int) \<Rightarrow> int \<Rightarrow> int \<Rightarrow> 'a list \<Rightarrow> int \<Rightarrow> int \<Rightarrow> int \<Rightarrow> bool" where
  "part_inv cmp lo hi xs mid l h \<longleftrightarrow> 0 \<le> lo \<and> hi < int (length xs) \<and> lo \<le> l \<and> l < hi \<and> lo < h \<and> h \<le> hi \<and>
     lo \<le> mid \<and> mid < h \<and> (\<forall>k. lo \<le> k \<and> k \<le> l \<longrightarrow> cmp (at xs k) (at xs mid) \<le> 0) \<and>
     (\<forall>k. h \<le> k \<and> k < hi \<longrightarrow> \<not> cmp (at xs k) (at xs mid) \<le> 0) \<and> cmp (at xs mid) (at xs hi) \<le> 0"

definition part_done :: "('a \<Rightarrow> 'a \<Rightarrow> int) \<Rightarrow> int \<Rightarrow> int \<Rightarrow> 'a list \<Rightarrow> int \<Rightarrow> int \<Rightarrow> int \<Rightarrow> bool" where
  "part_done cmp lo hi xs mid l h \<longleftrightarrow> 0 \<le> lo \<and> hi < int (length xs) \<and> lo \<le> mid \<and> mid \<le> h \<and> h < l \<and> l \<le> hi + 1 \<and>
     lo < l \<and> h < hi \<and> (\<forall>k. lo \<le> k \<and> k < l \<longrightarrow> cmp (at xs k) (at xs mid) \<le> 0) \<and>
     (\<forall>k. h < k \<and> k < hi \<longrightarrow> \<not> cmp (at xs k) (at xs mid) \<le> 0) \<and> cmp (at xs mid) (at xs hi) \<le> 0"

context comparator
begin

lemma order_if_spec:
  assumes "inside xs i" "inside xs j" "i \<noteq> j"
  shows "\<exists>ys. order_if cmp i j xs = Some ys \<and> (ys = xs \<or> ys = swapped xs i j) \<and> cmp (at ys i) (at ys j) \<le> 0 \<and>
    cmp (at ys i) (at xs i) \<le> 0 \<and> (at ys i = at xs i \<or> at ys i = at xs j) \<and>
    (\<forall>k. 0 \<le> k \<and> k \<noteq> i \<and> k \<noteq> j \<longrightarrow> at ys k = at xs k)"
proof (cases "0 < cmp (at xs i) (at xs j)")
  case True
  let ?ys = "swapped xs i j"
  have nn: "0 \<le> i" "0 \<le> j"
    using assms by (simp_all add: inside_def)
  have v: "at ?ys i = at xs j" "at ?ys j = at xs i"
    using at_swapped [OF assms(1,2)] nn assms(3) by simp_all
  have le: "cmp (at xs j) (at xs i) \<le> 0"
    using True antisym by (simp add: less_imp_le)
  show ?thesis
    by (rule exI [of _ ?ys])
      (use True assms v le at_swapped [OF assms(1,2)] in \<open>simp_all add: order_if_def compare_at_inside swap_at_inside\<close>)
next
  case False
  then show ?thesis
    by (intro exI [of _ xs]) (use assms in \<open>simp_all add: order_if_def compare_at_inside refl\<close>)
qed

lemma median_spec:
  assumes "inside xs lo" "inside xs mid" "inside xs hi" "lo < mid" "mid < hi"
  shows "\<exists>ys. median_of_three cmp lo mid hi xs = Some ys \<and> seg_perm lo hi xs ys \<and>
    cmp (at ys lo) (at ys mid) \<le> 0 \<and> cmp (at ys mid) (at ys hi) \<le> 0"
proof -
  have nn: "0 \<le> lo" "0 \<le> mid" "0 \<le> hi"
    using assms by (simp_all add: inside_def)
  have ne: "lo \<noteq> mid" "lo \<noteq> hi" "mid \<noteq> hi"
    using assms(4,5) by simp_all
  obtain a where a: "order_if cmp lo mid xs = Some a" "a = xs \<or> a = swapped xs lo mid" "cmp (at a lo) (at a mid) \<le> 0"
    using order_if_spec [OF assms(1,2) ne(1)] by (elim exE conjE) (rule that; assumption)
  have ia: "inside a k = inside xs k" for k
    using a(2) by auto
  obtain b where b: "order_if cmp lo hi a = Some b" "b = a \<or> b = swapped a lo hi" "cmp (at b lo) (at b hi) \<le> 0"
    "cmp (at b lo) (at a lo) \<le> 0" "\<forall>k. 0 \<le> k \<and> k \<noteq> lo \<and> k \<noteq> hi \<longrightarrow> at b k = at a k"
    using order_if_spec [OF assms(1,3) [folded ia] ne(2)] by (elim exE conjE) (rule that; assumption)
  have ib: "inside b k = inside xs k" for k
    using b(2) by (elim disjE) (simp_all add: ia)
  obtain c where c: "order_if cmp mid hi b = Some c" "c = b \<or> c = swapped b mid hi" "cmp (at c mid) (at c hi) \<le> 0"
    "at c mid = at b mid \<or> at c mid = at b hi" "\<forall>k. 0 \<le> k \<and> k \<noteq> mid \<and> k \<noteq> hi \<longrightarrow> at c k = at b k"
    using order_if_spec [OF assms(2,3) [folded ib] ne(3)] by (elim exE conjE) (rule that; assumption)
  have "at b mid = at a mid" "at c lo = at b lo"
    using b(5) c(5) nn assms(4,5) by simp_all
  then have "cmp (at c lo) (at c mid) \<le> 0"
    using c(4) b(3) trans [OF b(4) a(3)] by (elim disjE) simp_all
  moreover have "seg_perm lo hi xs a" "seg_perm lo hi a b" "seg_perm lo hi b c"
  proof -
    have "seg_perm lo hi xs (swapped xs lo mid)" "seg_perm lo hi a (swapped a lo hi)" "seg_perm lo hi b (swapped b mid hi)"
      using assms(4,5) assms(1-3) [folded ia] assms(1-3) [folded ib] assms(1-3) by (simp_all add: seg_perm_swapped)
    then show "seg_perm lo hi xs a" "seg_perm lo hi a b" "seg_perm lo hi b c"
      using a(2) b(2) c(2) by (elim disjE; simp)+
  qed
  then have "seg_perm lo hi xs c"
    by (meson seg_perm_trans)
  moreover have "median_of_three cmp lo mid hi xs = Some c"
    by (simp add: median_of_three_def a(1) b(1) c(1))
  ultimately show ?thesis
    using c(3) by blast
qed

lemma move_loguy_spec:
  assumes "part_inv cmp lo hi xs mid l h"
  obtains r where "move_loguy cmp hi xs mid l = Some r" "l < r" "r \<le> hi + 1"
    "\<And>k. l < k \<Longrightarrow> k < r \<Longrightarrow> cmp (at xs k) (at xs mid) \<le> 0" "r \<le> hi \<Longrightarrow> \<not> cmp (at xs r) (at xs mid) \<le> 0"
proof -
  let ?Q = "\<lambda>k. cmp (at xs k) (at xs mid) \<le> 0"
  let ?test = "\<lambda>i. map_option (\<lambda>r. r \<le> 0) (compare_at cmp xs i mid)"
  note inv = assms [unfolded part_inv_def]
  have t: "?test k = Some (?Q k)" if "l < k" "k < hi + 1" for k
    using that inv by (simp add: compare_at_inside inside_def)
  have up: "\<exists>r. (if mid > l then scan_up ?test mid l else Some l) = Some r \<and> l \<le> r \<and> r \<le> max mid l \<and>
      (\<forall>k. l < k \<and> k < r \<longrightarrow> ?Q k) \<and> (r < mid \<longrightarrow> l < r \<and> \<not> ?Q r)"
  proof (cases "mid > l")
    case True
    have m: "mid < hi + 1"
      using inv by linarith
    obtain r where "scan_up ?test mid l = Some r" "l < r" "r \<le> max mid (l + 1)" "\<forall>k. l < k \<and> k < r \<longrightarrow> ?Q k" "r < mid \<longrightarrow> \<not> ?Q r"
      using scan_up_ex [of l mid ?test ?Q] t m by auto
    then show ?thesis
      using True by auto
  qed auto
  then obtain r where r: "(if mid > l then scan_up ?test mid l else Some l) = Some r" "l \<le> r" "r \<le> max mid l"
      "\<And>k. l < k \<Longrightarrow> k < r \<Longrightarrow> ?Q k" "r < mid \<Longrightarrow> l < r \<and> \<not> ?Q r"
    by blast
  show ?thesis
  proof (cases "mid \<le> r")
    case True
    obtain q where q: "scan_up ?test (hi + 1) r = Some q" "r < q" "q \<le> max (hi + 1) (r + 1)"
      "\<And>k. r < k \<Longrightarrow> k < q \<Longrightarrow> ?Q k" "q < hi + 1 \<Longrightarrow> \<not> ?Q q"
      using scan_up_ex [of r "hi + 1" ?test ?Q] t r(2) by (meson le_less_trans)
    have rQ: "?Q r"
    proof (cases "r = mid")
      case False
      then have "r = l"
        using True r(2,3) by simp
      then show ?thesis
        using inv by simp
    qed (simp add: refl)
    show ?thesis
    proof (rule that [of q])
      show "move_loguy cmp hi xs mid l = Some q"
        using r(1) True q(1) by (simp add: move_loguy_def)
      show "?Q k" if "l < k" "k < q" for k
        using that r(4) [of k] q(4) [of k] rQ by (cases "k < r"; cases "k = r") auto
    qed (use q r inv in auto)
  next
    case False
    show ?thesis
    proof (rule that [of r])
      show "move_loguy cmp hi xs mid l = Some r"
        using r(1) False by (simp add: move_loguy_def)
    qed (use r False inv in auto)
  qed
qed

lemma move_higuy_spec:
  assumes "part_inv cmp lo hi xs mid l h"
  obtains r where "move_higuy cmp xs mid h = Some r" "r < h" "mid \<le> r"
    "\<And>k. r < k \<Longrightarrow> k < h \<Longrightarrow> \<not> cmp (at xs k) (at xs mid) \<le> 0" "cmp (at xs r) (at xs mid) \<le> 0"
proof -
  let ?Q = "\<lambda>k. cmp (at xs k) (at xs mid) > 0"
  let ?test = "\<lambda>i. map_option (\<lambda>r. r > 0) (compare_at cmp xs i mid)"
  note inv = assms [unfolded part_inv_def]
  have t: "?test k = Some (?Q k)" if "mid < k" "k < h" for k
    using that inv by (simp add: compare_at_inside inside_def)
  obtain r where r: "scan_down ?test mid h = Some r" "r < h" "min mid (h - 1) \<le> r"
    "\<And>k. r < k \<Longrightarrow> k < h \<Longrightarrow> ?Q k" "mid < r \<Longrightarrow> \<not> ?Q r"
    using scan_down_ex [of mid h ?test ?Q] t by blast
  show ?thesis
  proof (rule that [of r])
    show "move_higuy cmp xs mid h = Some r"
      using r(1) by (simp add: move_higuy_def)
    show "mid \<le> r"
      using r(3) inv by simp
    then show "cmp (at xs r) (at xs mid) \<le> 0"
      using r(5) by (cases "r = mid") (auto simp: refl)
    show "\<not> cmp (at xs k) (at xs mid) \<le> 0" if "r < k" "k < h" for k
      using r(4) [OF that] by simp
  qed (rule r(2))
qed


lemma part_swap:
  assumes inv: "part_inv cmp lo hi xs mid l h" and l: "l < l'" "l' \<le> hi + 1"
    "\<And>k. l < k \<Longrightarrow> k < l' \<Longrightarrow> cmp (at xs k) (at xs mid) \<le> 0" "l' \<le> hi \<Longrightarrow> \<not> cmp (at xs l') (at xs mid) \<le> 0"
    and h: "h' < h" "mid \<le> h'" "\<And>k. h' < k \<Longrightarrow> k < h \<Longrightarrow> \<not> cmp (at xs k) (at xs mid) \<le> 0" "cmp (at xs h') (at xs mid) \<le> 0"
    and n: "\<not> h' < l'"
  shows "part_inv cmp lo hi (swapped xs l' h') (if mid = h' then l' else mid) l' h'"
    "seg_perm lo hi xs (swapped xs l' h')" "inside xs l'" "inside xs h'"
proof -
  have i: "0 \<le> lo" "hi < int (length xs)" "lo \<le> l" "h \<le> hi" "lo \<le> mid"
    and ile: "\<And>k. lo \<le> k \<Longrightarrow> k \<le> l \<Longrightarrow> cmp (at xs k) (at xs mid) \<le> 0"
    and igt: "\<And>k. h \<le> k \<Longrightarrow> k < hi \<Longrightarrow> \<not> cmp (at xs k) (at xs mid) \<le> 0"
    and ihi: "cmp (at xs mid) (at xs hi) \<le> 0"
    using inv by (simp_all add: part_inv_def)
  have hhi: "h' < hi"
    using h(1) i(4) by linarith
  then have lhi: "l' \<le> hi"
    using n by linarith
  have ne: "l' \<noteq> h'"
    using l(4) [OF lhi] h(4) by blast
  then have lh: "l' < h'" and lo: "lo < l'"
    using n l(1) i(3) by linarith+
  show ins: "inside xs l'" "inside xs h'"
    using i(1,2) lo lh hhi by (simp_all add: inside_def)
  show "seg_perm lo hi xs (swapped xs l' h')"
    using lo lh hhi by (intro seg_perm_swapped ins) simp_all
  define ys where "ys = swapped xs l' h'"
  define m where "m = (if mid = h' then l' else mid)"
  have at: "at ys k = (if k = l' then at xs h' else if k = h' then at xs l' else at xs k)" if "lo \<le> k" for k
    unfolding ys_def by (rule at_swapped [OF ins]) (use that i(1) in linarith)
  have ml: "mid \<noteq> l'"
    using l(4) [OF lhi] refl [of "at xs mid"] by auto
  have mb: "lo \<le> m" "m < h'"
    using lo lh i(5) h(2) ne by (auto simp: m_def)
  have piv: "at ys m = at xs mid"
    using at [OF mb(1)] ml by (auto simp: m_def)
  have le: "cmp (at ys k) (at xs mid) \<le> 0" if k: "lo \<le> k" "k \<le> l'" for k
  proof (cases "k = l'")
    case False
    then have "at ys k = at xs k" "k < l'"
      using at [OF k(1)] k lh by auto
    then show ?thesis
      using ile [OF k(1)] l(3) [of k] by (cases "k \<le> l") auto
  qed (use at [OF k(1)] h(4) in simp)
  have gt: "\<not> cmp (at ys k) (at xs mid) \<le> 0" if k: "h' \<le> k" "k < hi" for k
  proof (cases "k = h'")
    case False
    then have "at ys k = at xs k" "h' < k"
      using at [of k] k lh lo by auto
    then show ?thesis
      using igt [OF _ k(2)] h(3) [of k] by (cases "h \<le> k") auto
  qed (use at [of k] l(4) [OF lhi] lh lo in auto)
  have "at ys hi = at xs hi"
    using at [of hi] lo lh hhi by simp
  then have "part_inv cmp lo hi ys m l' h'"
    unfolding part_inv_def piv using i(1,2) lo lh hhi mb le gt ihi by (simp add: ys_def)
  then show "part_inv cmp lo hi (swapped xs l' h') (if mid = h' then l' else mid) l' h'"
    by (simp add: ys_def m_def)
qed

lemma partition_spec:
  assumes "part_inv cmp lo hi xs mid l h"
  shows "\<exists>ys m l' h'. partition_loop cmp hi xs mid l h = Some (ys, m, l', h') \<and> seg_perm lo hi xs ys \<and>
    part_done cmp lo hi ys m l' h'"
  using assms
proof (induction "nat (hi - l)" arbitrary: xs mid l h rule: less_induct)
  case less
  obtain l' where l: "move_loguy cmp hi xs mid l = Some l'" "l < l'" "l' \<le> hi + 1"
    "\<And>k. l < k \<Longrightarrow> k < l' \<Longrightarrow> cmp (at xs k) (at xs mid) \<le> 0" "l' \<le> hi \<Longrightarrow> \<not> cmp (at xs l') (at xs mid) \<le> 0"
    using move_loguy_spec [OF less.prems] by blast
  obtain h' where h: "move_higuy cmp xs mid h = Some h'" "h' < h" "mid \<le> h'"
    "\<And>k. h' < k \<Longrightarrow> k < h \<Longrightarrow> \<not> cmp (at xs k) (at xs mid) \<le> 0" "cmp (at xs h') (at xs mid) \<le> 0"
    using move_higuy_spec [OF less.prems] by blast
  note i = less.prems [unfolded part_inv_def]
  show ?case
  proof (cases "h' < l'")
    case True
    have "partition_loop cmp hi xs mid l h = Some (xs, mid, l', h')"
      using l(1) h(1) True by (subst partition_loop.simps) simp
    moreover have "cmp (at xs k) (at xs mid) \<le> 0" if "lo \<le> k" "k < l'" for k
      using that i l(4) [of k] by (cases "k \<le> l") auto
    moreover have "\<not> cmp (at xs k) (at xs mid) \<le> 0" if "h' < k" "k < hi" for k
      using that i h(4) [of k] by (cases "h \<le> k") auto
    ultimately show ?thesis
      using True i l(2,3) h(2,3) by (auto simp: part_done_def)
  next
    case False
    note sw = part_swap [OF less.prems l(2-5) h(2-5) False]
    have "nat (hi - l') < nat (hi - l)"
      using l(2) i by simp
    then obtain ys m l2 h2 where r: "partition_loop cmp hi (swapped xs l' h') (if mid = h' then l' else mid) l' h' = Some (ys, m, l2, h2)"
      "seg_perm lo hi (swapped xs l' h') ys" "part_done cmp lo hi ys m l2 h2"
      using less.hyps [OF _ sw(1)] by blast
    have "partition_loop cmp hi xs mid l h = Some (ys, m, l2, h2)"
      using l(1) h(1) False r(1) swap_at_inside [OF sw(3,4)] by (subst partition_loop.simps) simp
    then show ?thesis
      using r(3) seg_perm_trans [OF sw(2) r(2)] by blast
  qed
qed

lemma skip_equal_spec:
  assumes "part_done cmp lo hi xs mid l h"
  shows "\<exists>r. skip_equal cmp lo xs mid h = Some r \<and> lo - 1 \<le> r \<and> r \<le> h \<and>
    (\<forall>k. r < k \<and> k \<le> h \<longrightarrow> cmp (at xs k) (at xs mid) = 0)"
proof -
  let ?Q = "\<lambda>k. cmp (at xs k) (at xs mid) = 0"
  let ?test = "\<lambda>i. map_option (\<lambda>r. r = 0) (compare_at cmp xs i mid)"
  note d = assms [unfolded part_done_def]
  have t: "?test k = Some (?Q k)" if "lo \<le> k" "k \<le> h" for k
    using that d by (simp add: compare_at_inside inside_def)
  obtain r where r: "scan_down ?test mid (h + 1) = Some r" "r < h + 1" "min mid h \<le> r"
    "\<forall>k. r < k \<and> k < h + 1 \<longrightarrow> ?Q k" "mid < r \<longrightarrow> \<not> ?Q r"
    using scan_down_ex [of mid "h + 1" ?test ?Q] t d by auto
  show ?thesis
  proof (cases "mid < r")
    case True
    then show ?thesis
      using r d by (simp add: skip_equal_def)
  next
    case False
    then have m: "r = mid"
      using r(3) d by auto
    obtain q where q: "scan_down ?test lo mid = Some q" "q < mid" "min lo (mid - 1) \<le> q"
      "\<forall>k. q < k \<and> k < mid \<longrightarrow> ?Q k" "lo < q \<longrightarrow> \<not> ?Q q"
      using scan_down_ex [of lo mid ?test ?Q] t d by auto
    have "?Q k" if "q < k" "k \<le> h" for k
      using that q(4) r(4) m refl by (cases "k < mid"; cases "k = mid") auto
    moreover have "skip_equal cmp lo xs mid h = Some q"
      using r(1) d m q(1) by (simp add: skip_equal_def)
    ultimately show ?thesis
      using q(2,3) d by auto
  qed
qed

end

section \<open>The two parts and the elements between them\<close>

definition pivoted :: "('a \<Rightarrow> 'a \<Rightarrow> int) \<Rightarrow> 'a \<Rightarrow> int \<Rightarrow> int \<Rightarrow> int \<Rightarrow> int \<Rightarrow> 'a list \<Rightarrow> bool" where
  "pivoted cmp p lo r l hi xs \<longleftrightarrow> (\<forall>k. lo \<le> k \<and> k < l \<longrightarrow> cmp (at xs k) p \<le> 0) \<and>
     (\<forall>k. r < k \<and> k \<le> hi \<longrightarrow> cmp p (at xs k) \<le> 0)"

fun next_part :: "('a \<Rightarrow> 'a \<Rightarrow> int) \<Rightarrow> (int \<times> int) list \<Rightarrow> 'a list \<Rightarrow> 'a list option" where
  "next_part cmp [] xs = Some xs"
| "next_part cmp ((lo, hi) # stk) xs = sort_parts cmp lo hi stk xs"

definition first_part :: "('a \<Rightarrow> 'a \<Rightarrow> int) \<Rightarrow> (int \<times> int) option \<Rightarrow> (int \<times> int) list \<Rightarrow> 'a list \<Rightarrow> 'a list option" where
  "first_part cmp now stk xs = (case now of Some (lo, hi) \<Rightarrow> sort_parts cmp lo hi stk xs | None \<Rightarrow> next_part cmp stk xs)"

lemma sort_parts_step:
  "sort_part cmp lo hi stk xs = Some (ys, now, stk') \<Longrightarrow> sort_parts cmp lo hi stk xs = first_part cmp now stk' ys"
  by (subst sort_parts.simps) (auto simp: first_part_def split: option.split list.split)

lemma pivoted_low:
  assumes "pivoted cmp p lo r l hi xs" "seg_perm lo r xs ys" "0 \<le> lo" "lo - 1 \<le> r" "r < l" "hi < int (length xs)" "l \<le> hi + 1"
  shows "pivoted cmp p lo r l hi ys"
proof -
  have o: "at ys k = at xs k" if "r < k" "k \<le> hi" for k
    by (rule seg_perm_outside [OF assms(2)]) (use that assms in \<open>simp_all add: inside_def\<close>)
  have "cmp (at ys k) p \<le> 0" if k: "lo \<le> k" "k < l" for k
  proof (cases "k \<le> r")
    case True
    show ?thesis
      by (rule seg_perm_ball [OF assms(2,3), of "\<lambda>x. cmp x p \<le> 0"]) (use assms k True in \<open>simp_all add: pivoted_def\<close>)
  next
    case False
    then show ?thesis
      using o [of k] k assms by (simp add: pivoted_def)
  qed
  then show ?thesis
    using o assms(1) by (simp add: pivoted_def)
qed

lemma pivoted_high:
  assumes "pivoted cmp p lo r l hi xs" "seg_perm l hi xs ys" "0 \<le> lo" "lo - 1 \<le> r" "r < l" "hi < int (length xs)" "l \<le> hi + 1"
  shows "pivoted cmp p lo r l hi ys"
proof -
  have o: "at ys k = at xs k" if "lo \<le> k" "k < l" for k
    by (rule seg_perm_outside [OF assms(2)]) (use that assms in \<open>simp_all add: inside_def\<close>)
  have "cmp p (at ys k) \<le> 0" if k: "r < k" "k \<le> hi" for k
  proof (cases "l \<le> k")
    case True
    show ?thesis
      by (rule seg_perm_ball [OF assms(2), of "\<lambda>x. cmp p x \<le> 0"]) (use assms k True in \<open>simp_all add: pivoted_def\<close>)
  next
    case False
    then show ?thesis
      using o [of k] k assms by (simp add: pivoted_def)
  qed
  then show ?thesis
    using o assms(1) by (simp add: pivoted_def)
qed

lemma sorted_seg_outside:
  assumes "sorted_seg cmp a b xs" "seg_perm c d xs ys" "b < c \<or> d < a" "0 \<le> a" "b < int (length xs)"
  shows "sorted_seg cmp a b ys"
proof -
  have "at ys k = at xs k" if "a \<le> k" "k \<le> b" for k
    by (rule seg_perm_outside [OF assms(2)]) (use that assms in \<open>auto simp: inside_def\<close>)
  then show ?thesis
    using assms(1) by (simp add: sorted_seg_def)
qed

context comparator
begin

lemma sorted_seg_short: "\<not> a < b \<Longrightarrow> sorted_seg cmp a b xs"
proof -
  assume "\<not> a < b"
  then have "i = j" if "a \<le> i \<and> i \<le> j \<and> j \<le> b" for i j
    using that by linarith
  then show ?thesis
    unfolding sorted_seg_def using refl by (metis order_refl)
qed

lemma pivoted_sorted:
  assumes "pivoted cmp p lo r l hi xs" "sorted_seg cmp lo r xs" "sorted_seg cmp l hi xs" "r < l"
  shows "sorted_seg cmp lo hi xs"
  unfolding sorted_seg_def
proof (intro allI impI)
  fix i j
  assume ij: "lo \<le> i \<and> i \<le> j \<and> j \<le> hi"
  consider "j \<le> r" | "l \<le> i" | "i < l" "r < j"
    using assms(4) by linarith
  then show "cmp (at xs i) (at xs j) \<le> 0"
  proof cases
    case 3
    then show ?thesis
      using ij assms(1) trans [of "at xs i" p "at xs j"] by (simp add: pivoted_def)
  qed (use ij assms(2,3) in \<open>simp_all add: sorted_seg_def\<close>)
qed

lemma part_done_pivoted:
  assumes "part_done cmp lo hi xs mid l h" "r \<le> h" "\<forall>k. r < k \<and> k \<le> h \<longrightarrow> cmp (at xs k) (at xs mid) = 0"
  shows "pivoted cmp (at xs mid) lo r l hi xs"
proof -
  note d = assms(1) [unfolded part_done_def]
  have "cmp (at xs mid) (at xs k) \<le> 0" if k: "r < k" "k \<le> hi" for k
  proof -
    consider "k \<le> h" | "h < k" "k < hi" | "k = hi"
      using k by linarith
    then show ?thesis
    proof cases
      case 1
      then have "cmp (at xs k) (at xs mid) = 0"
        using assms(3) k by blast
      then show ?thesis
        using sym0 by simp
    next
      case 2
      then show ?thesis
        using d total by blast
    qed (use d in simp)
  qed
  then show ?thesis
    using d by (simp add: pivoted_def)
qed

text \<open>One part: either it is sorted, or it falls into two parts, of which the smaller is
  sorted next.\<close>

lemma sort_part_long:
  assumes "0 \<le> lo" "hi < int (length xs)" "CUTOFF < hi - lo + 1" "length stk < STKSIZ"
  shows "\<exists>ys p r l. seg_perm lo hi xs ys \<and> pivoted cmp p lo r l hi ys \<and> lo - 1 \<le> r \<and> r < l \<and> l \<le> hi + 1 \<and> r < hi \<and> lo < l \<and>
    sort_part cmp lo hi stk xs = Some (
      if r - lo \<ge> hi - l then (ys, if l < hi then Some (l, hi) else None, if lo < r then (lo, r) # stk else stk)
      else (ys, if lo < r then Some (lo, r) else None, if l < hi then (l, hi) # stk else stk))"
proof -
  define mid where "mid = lo + (hi - lo + 1) div 2"
  have m: "lo < mid" "mid < hi"
    using assms(3) by (simp_all add: mid_def CUTOFF_def)
  have ins: "inside xs lo" "inside xs mid" "inside xs hi"
    using assms(1,2) m by (simp_all add: inside_def)
  obtain xs1 where x1: "median_of_three cmp lo mid hi xs = Some xs1" "seg_perm lo hi xs xs1"
    "cmp (at xs1 lo) (at xs1 mid) \<le> 0" "cmp (at xs1 mid) (at xs1 hi) \<le> 0"
    using median_spec [OF ins m] by blast
  have len: "length xs1 = length xs"
    by (rule seg_perm_length [OF x1(2)])
  have "part_inv cmp lo hi xs1 mid lo hi"
    unfolding part_inv_def using assms(1,2) m x1(3,4) len by (auto simp: order.antisym)
  then obtain ys md l h where y: "partition_loop cmp hi xs1 mid lo hi = Some (ys, md, l, h)" "seg_perm lo hi xs1 ys"
    "part_done cmp lo hi ys md l h"
    using partition_spec by blast
  obtain r where r: "skip_equal cmp lo ys md h = Some r" "lo - 1 \<le> r" "r \<le> h"
    "\<forall>k. r < k \<and> k \<le> h \<longrightarrow> cmp (at ys k) (at ys md) = 0"
    using skip_equal_spec [OF y(3)] by blast
  have "sort_part cmp lo hi stk xs = Some (
      if r - lo \<ge> hi - l then (ys, if l < hi then Some (l, hi) else None, if lo < r then (lo, r) # stk else stk)
      else (ys, if lo < r then Some (lo, r) else None, if l < hi then (l, hi) # stk else stk))"
    unfolding sort_part_def Let_def mid_def [symmetric]
    using assms(3,4) x1(1) y(1) r(1) by (simp add: push_part_def)
  moreover have "r < l" "l \<le> hi + 1" "r < hi" "lo < l"
    using r(3) y(3) by (simp_all add: part_done_def)
  moreover note part_done_pivoted [OF y(3) r(3,4)] seg_perm_trans [OF x1(2) y(2)] r(2)
  ultimately show ?thesis
    by blast
qed

lemma first_part_run:
  assumes "\<And>stk xs. length xs = n \<Longrightarrow> a < b \<Longrightarrow> b - a + 1 < 2 ^ (STKSIZ - length stk) \<Longrightarrow> length stk \<le> STKSIZ \<Longrightarrow>
      \<exists>ys. seg_perm a b xs ys \<and> sorted_seg cmp a b ys \<and> sort_parts cmp a b stk xs = next_part cmp stk ys"
    and "\<And>stk xs. length xs = n \<Longrightarrow> c < d \<Longrightarrow> d - c + 1 < 2 ^ (STKSIZ - length stk) \<Longrightarrow> length stk \<le> STKSIZ \<Longrightarrow>
      \<exists>ys. seg_perm c d xs ys \<and> sorted_seg cmp c d ys \<and> sort_parts cmp c d stk xs = next_part cmp stk ys"
    and "length xs = n" "length stk < STKSIZ" "d - c \<le> b - a" "b - a + 1 + (d - c + 1) < 2 ^ (STKSIZ - length stk)"
    and "a - 1 \<le> b" "c - 1 \<le> d"
  shows "\<exists>ys zs. seg_perm c d xs ys \<and> seg_perm a b ys zs \<and> sorted_seg cmp c d ys \<and> sorted_seg cmp a b zs \<and>
    first_part cmp (if c < d then Some (c, d) else None) (if a < b then (a, b) # stk else stk) xs = next_part cmp stk zs"
proof -
  let ?stk = "if a < b then (a, b) # stk else stk"
  have "\<exists>ys. seg_perm c d xs ys \<and> sorted_seg cmp c d ys \<and>
      first_part cmp (if c < d then Some (c, d) else None) ?stk xs = next_part cmp ?stk ys"
  proof (cases "c < d")
    case True
    have "STKSIZ - length stk = Suc (STKSIZ - length ((a, b) # stk))"
      using assms(4) by simp
    then have "2 * (d - c + 1) < 2 * 2 ^ (STKSIZ - length ((a, b) # stk))"
      using assms(5,6) by simp
    then have "d - c + 1 < 2 ^ (STKSIZ - length ((a, b) # stk))"
      by simp
    moreover have "a < b"
      using True assms(5) by simp
    ultimately obtain ys where "seg_perm c d xs ys" "sorted_seg cmp c d ys" "sort_parts cmp c d ?stk xs = next_part cmp ?stk ys"
      using assms(2) [OF assms(3) True, of ?stk] assms(4) by auto
    then show ?thesis
      using True by (auto simp: first_part_def)
  next
    case False
    then show ?thesis
      by (intro exI [of _ xs]) (simp add: first_part_def sorted_seg_short)
  qed
  then obtain ys where ys: "seg_perm c d xs ys" "sorted_seg cmp c d ys"
      "first_part cmp (if c < d then Some (c, d) else None) ?stk xs = next_part cmp ?stk ys"
    by blast
  have "\<exists>zs. seg_perm a b ys zs \<and> sorted_seg cmp a b zs \<and> next_part cmp ?stk ys = next_part cmp stk zs"
  proof (cases "a < b")
    case True
    have "b - a + 1 < 2 ^ (STKSIZ - length stk)"
      using assms(6,8) by linarith
    then show ?thesis
      using assms(1) [of ys stk] True assms(3,4) seg_perm_length [OF ys(1)] by auto
  next
    case False
    then show ?thesis
      by (intro exI [of _ ys]) (simp add: sorted_seg_short)
  qed
  then show ?thesis
    using ys by metis
qed

text \<open>Sorting a part with a stack that has room for it sorts the part and goes on with the
  stack.\<close>

lemma sort_parts_spec:
  assumes "0 \<le> lo" "hi < int (length xs)" "hi - lo + 1 < 2 ^ (STKSIZ - length stk)" "length stk \<le> STKSIZ"
  shows "\<exists>ys. seg_perm lo hi xs ys \<and> sorted_seg cmp lo hi ys \<and> sort_parts cmp lo hi stk xs = next_part cmp stk ys"
  using assms
proof (induction "nat (hi - lo + 1)" arbitrary: lo hi stk xs rule: less_induct)
  case less
  show ?case
  proof (cases "hi - lo + 1 \<le> CUTOFF")
    case True
    obtain ys where ys: "shortsort cmp lo hi xs = Some ys" "seg_perm lo hi xs ys" "sorted_seg cmp lo hi ys"
      using shortsort_spec [OF less.prems(1,2)] by blast
    have "sort_part cmp lo hi stk xs = Some (ys, None, stk)"
      using True ys(1) by (simp add: sort_part_def Let_def)
    then have "sort_parts cmp lo hi stk xs = next_part cmp stk ys"
      by (simp add: sort_parts_step first_part_def)
    then show ?thesis
      using ys(2,3) by blast
  next
    case False
    then have long: "CUTOFF < hi - lo + 1"
      by simp
    have room: "length stk < STKSIZ"
    proof (rule ccontr)
      assume "\<not> length stk < STKSIZ"
      then show False
        using less.prems(3,4) long by (simp add: CUTOFF_def)
    qed
    obtain ys p r l where ys: "seg_perm lo hi xs ys" "pivoted cmp p lo r l hi ys" "lo - 1 \<le> r" "r < l" "l \<le> hi + 1" "r < hi" "lo < l"
      and run: "sort_part cmp lo hi stk xs = Some (
      if r - lo \<ge> hi - l then (ys, if l < hi then Some (l, hi) else None, if lo < r then (lo, r) # stk else stk)
      else (ys, if lo < r then Some (lo, r) else None, if l < hi then (l, hi) # stk else stk))"
      using sort_part_long [OF less.prems(1,2) long room] by blast
    have len: "length ys = length xs"
      by (rule seg_perm_length [OF ys(1)])
    have low: "\<exists>us. seg_perm lo r ws us \<and> sorted_seg cmp lo r us \<and> sort_parts cmp lo r st ws = next_part cmp st us"
      if "length ws = length xs" "r - lo + 1 < 2 ^ (STKSIZ - length st)" "length st \<le> STKSIZ" for st ws
      using that less.prems(1,2) ys(6) long
      by (intro less.hyps) (auto simp: CUTOFF_def)
    have high: "\<exists>us. seg_perm l hi ws us \<and> sorted_seg cmp l hi us \<and> sort_parts cmp l hi st ws = next_part cmp st us"
      if "length ws = length xs" "hi - l + 1 < 2 ^ (STKSIZ - length st)" "length st \<le> STKSIZ" for st ws
      using that less.prems(1,2) ys(7) long
      by (intro less.hyps) (auto simp: CUTOFF_def)
    have sum: "r - lo + 1 + (hi - l + 1) < 2 ^ (STKSIZ - length stk)"
      using less.prems(3) ys(4) by linarith
    show ?thesis
    proof (cases "r - lo \<ge> hi - l")
      case True
      obtain us vs where us: "seg_perm l hi ys us" "seg_perm lo r us vs" "sorted_seg cmp l hi us" "sorted_seg cmp lo r vs"
        "first_part cmp (if l < hi then Some (l, hi) else None) (if lo < r then (lo, r) # stk else stk) ys = next_part cmp stk vs"
        using first_part_run [of "length xs" lo r l hi ys stk] low high len room True sum ys(3,5) by auto
      have "pivoted cmp p lo r l hi us"
        by (rule pivoted_high [OF ys(2) us(1)]) (use less.prems ys len in auto)
      then have pv: "pivoted cmp p lo r l hi vs"
        by (rule pivoted_low [OF _ us(2)]) (use less.prems ys len seg_perm_length [OF us(1)] in auto)
      have "sorted_seg cmp l hi vs"
        by (rule sorted_seg_outside [OF us(3,2)]) (use less.prems ys len seg_perm_length [OF us(1)] in auto)
      then have "sorted_seg cmp lo hi vs"
        using pivoted_sorted [OF pv us(4)] ys(4) by blast
      moreover have "seg_perm lo hi xs vs"
        using ys(1) seg_perm_mono [OF us(1), of lo hi] seg_perm_mono [OF us(2), of lo hi] ys(6,7) by (auto intro: seg_perm_trans)
      moreover have "sort_part cmp lo hi stk xs = Some (ys, if l < hi then Some (l, hi) else None, if lo < r then (lo, r) # stk else stk)"
        using run True by simp
      then have "sort_parts cmp lo hi stk xs = next_part cmp stk vs"
        unfolding us(5) [symmetric] by (rule sort_parts_step)
      ultimately show ?thesis
        by blast
    next
      case False
      obtain us vs where us: "seg_perm lo r ys us" "seg_perm l hi us vs" "sorted_seg cmp lo r us" "sorted_seg cmp l hi vs"
        "first_part cmp (if lo < r then Some (lo, r) else None) (if l < hi then (l, hi) # stk else stk) ys = next_part cmp stk vs"
        using first_part_run [of "length xs" l hi lo r ys stk] low high len room False sum ys(3,5) by auto
      have "pivoted cmp p lo r l hi us"
        by (rule pivoted_low [OF ys(2) us(1)]) (use less.prems ys len in auto)
      then have pv: "pivoted cmp p lo r l hi vs"
        by (rule pivoted_high [OF _ us(2)]) (use less.prems ys len seg_perm_length [OF us(1)] in auto)
      have "sorted_seg cmp lo r vs"
        by (rule sorted_seg_outside [OF us(3,2)]) (use less.prems ys len seg_perm_length [OF us(1)] in auto)
      then have "sorted_seg cmp lo hi vs"
        using pivoted_sorted [OF pv _ us(4)] ys(4) by blast
      moreover have "seg_perm lo hi xs vs"
        using ys(1) seg_perm_mono [OF us(1), of lo hi] seg_perm_mono [OF us(2), of lo hi] ys(6,7) by (auto intro: seg_perm_trans)
      moreover have "sort_part cmp lo hi stk xs = Some (ys, if lo < r then Some (lo, r) else None, if l < hi then (l, hi) # stk else stk)"
        using run False by simp
      then have "sort_parts cmp lo hi stk xs = next_part cmp stk vs"
        unfolding us(5) [symmetric] by (rule sort_parts_step)
      ultimately show ?thesis
        by blast
    qed
  qed
qed

lemma qsort_spec:
  assumes "length xs < 2 ^ STKSIZ"
  shows "\<exists>ys. qsort cmp xs = Some ys \<and> mset ys = mset xs \<and> sorted_wrt (\<lambda>a b. cmp a b \<le> 0) ys"
proof (cases "length xs < 2")
  case True
  then have "sorted_wrt (\<lambda>a b. cmp a b \<le> 0) xs"
    by (cases xs; cases "tl xs") auto
  then show ?thesis
    using True by (simp add: qsort_def)
next
  case False
  have "int (length xs) < 2 ^ STKSIZ"
    using assms by (metis of_nat_less_iff of_nat_numeral of_nat_power)
  then obtain ys where ys: "seg_perm 0 (int (length xs) - 1) xs ys" "sorted_seg cmp 0 (int (length xs) - 1) ys"
    "sort_parts cmp 0 (int (length xs) - 1) [] xs = Some ys"
    using sort_parts_spec [of 0 "int (length xs) - 1" xs "[]"] by auto
  have "cmp (ys ! i) (ys ! j) \<le> 0" if "i < j" "j < length ys" for i j
  proof -
    have "int i \<le> int j" "int j \<le> int (length xs) - 1"
      using that seg_perm_length [OF ys(1)] by simp_all
    then show ?thesis
      using ys(2) unfolding sorted_seg_def by (metis nat_int of_nat_0_le_iff)
  qed
  then show ?thesis
    using ys False by (auto simp: qsort_def seg_perm_def sorted_wrt_iff_nth_less)
qed

end

end
