(* ===== verification/H264_Ref_Lists_Correct.thy ===== *)
theory H264_Ref_Lists_Correct
  imports H264_Ref_Lists H264_Qsort_Correct H264_Dpb_Correct
begin

section \<open>The comparisons\<close>

lemma three_way_antisym: "(0 < three_way a b) = (three_way b a < 0)"
  by (simp add: three_way_def)

lemma three_way_le: "three_way a b \<le> 0 \<longleftrightarrow> a \<le> b"
  by (simp add: three_way_def)

interpretation pic_num: comparator "compare_pic_by_pic_num_desc s" for s
  by unfold_locales (auto simp: compare_pic_by_pic_num_desc_def three_way_antisym three_way_le)

interpretation lt_pic_num: comparator "compare_pic_by_lt_pic_num_asc s" for s
  by unfold_locales (auto simp: compare_pic_by_lt_pic_num_asc_def three_way_antisym three_way_le)

interpretation frame_num: comparator "compare_fs_by_frame_num_desc s" for s
  by unfold_locales (auto simp: compare_fs_by_frame_num_desc_def three_way_antisym three_way_le)

interpretation lt_pic_idx: comparator "compare_fs_by_lt_pic_idx_asc s" for s
  by unfold_locales (auto simp: compare_fs_by_lt_pic_idx_asc_def three_way_antisym three_way_le)

interpretation poc_asc: comparator "compare_pic_by_poc_asc s" for s
  by unfold_locales (auto simp: compare_pic_by_poc_asc_def three_way_antisym three_way_le)

interpretation poc_desc: comparator "compare_pic_by_poc_desc s" for s
  by unfold_locales (auto simp: compare_pic_by_poc_desc_def three_way_antisym three_way_le)

interpretation fs_poc_asc: comparator "compare_fs_by_poc_asc s" for s
  by unfold_locales (auto simp: compare_fs_by_poc_asc_def three_way_antisym three_way_le)

interpretation fs_poc_desc: comparator "compare_fs_by_poc_desc s" for s
  by unfold_locales (auto simp: compare_fs_by_poc_desc_def three_way_antisym three_way_le)

section \<open>Sorting\<close>

text \<open>A list that a comparison orders, with the elements of another.\<close>

definition sorts :: "('a \<Rightarrow> 'a \<Rightarrow> int) \<Rightarrow> 'a list \<Rightarrow> 'a list \<Rightarrow> bool" where
  "sorts cmp xs ys \<longleftrightarrow> mset ys = mset xs \<and> sorted_wrt (\<lambda>a b. cmp a b \<le> 0) ys"

text \<open>C20. The sorting routine returns on every array of fewer than \<open>2 ^ 62\<close> elements, without
  leaving the array or filling its stack of 62 parts, and gives the same elements in the order of
  the comparison, for every comparison that is antisymmetric and transitive.\<close>

theorem qsort_sorts:
  assumes "\<And>a b. (0 < cmp a b) = (cmp b a < 0)"
    and "\<And>a b c. cmp a b \<le> 0 \<Longrightarrow> cmp b c \<le> 0 \<Longrightarrow> cmp a c \<le> 0"
    and "length xs < 2 ^ STKSIZ"
  shows "\<exists>ys. qsort cmp xs = Some ys \<and> mset ys = mset xs \<and> sorted_wrt (\<lambda>a b. cmp a b \<le> 0) ys"
  by (rule comparator.qsort_spec [OF comparator.intro]) (use assms in blast)+

text \<open>The pictures of the decoder sorted by descending number.\<close>

theorem qsort_sorts_witness:
  "\<exists>ys. qsort (\<lambda>a b. b - a :: int) [3, 9, 1, 7, 5, 8, 2, 6, 4, 0] = Some ys \<and> sorted_wrt (\<ge>) ys"
proof -
  have "\<exists>ys. qsort (\<lambda>a b. b - a) [3, 9, 1, 7, 5, 8, 2, 6, 4, 0 :: int] = Some ys \<and>
      mset ys = mset [3, 9, 1, 7, 5, 8, 2, 6, 4, 0] \<and> sorted_wrt (\<lambda>a b. b - a \<le> 0) ys"
    by (rule qsort_sorts) (simp_all add: STKSIZ_def)
  then show ?thesis
    by auto
qed

section \<open>Moving a picture to a place\<close>

lemma shift_up_rev:
  assumes "k \<le> n" "n < length xs"
  shows "fold (\<lambda>c xs. xs[c := xs ! (c - 1)]) (rev [k + 1..<n + 1]) xs =
    take k xs @ [xs ! k] @ take (n - k) (drop k xs) @ drop (Suc n) xs"
  using assms
proof (induction n arbitrary: xs)
  case 0
  then show ?case
    by (cases xs) simp_all
next
  case (Suc n)
  show ?case
  proof (cases "k = Suc n")
    case True
    then show ?thesis
      using Suc.prems by (simp add: id_take_nth_drop)
  next
    case False
    then have k: "k \<le> n"
      using Suc.prems by simp
    have *: "rev [k + 1..<Suc n + 1] = Suc n # rev [k + 1..<n + 1]"
      using k by simp
    let ?ys = "xs[Suc n := xs ! n]"
    have "fold (\<lambda>c xs. xs[c := xs ! (c - 1)]) (rev [k + 1..<n + 1]) ?ys =
        take k ?ys @ [?ys ! k] @ take (n - k) (drop k ?ys) @ drop (Suc n) ?ys"
      using Suc.prems k by (intro Suc.IH) simp_all
    moreover have "drop (Suc n) ?ys = xs ! n # drop (Suc (Suc n)) xs"
      using Suc.prems by (simp add: Cons_nth_drop_Suc [symmetric])
    moreover have "take (Suc n - k) (drop k xs) = take (n - k) (drop k xs) @ [xs ! n]"
      using Suc.prems k by (simp add: Suc_diff_le take_Suc_conv_app_nth)
    ultimately show ?thesis
      using k unfolding * by (simp add: drop_update_swap take_update_swap list_update_beyond del: upt_Suc)
  qed
qed

lemma shift_up_eq:
  "k \<le> n \<Longrightarrow> n < length xs \<Longrightarrow>
    shift_up k n xs = take k xs @ [xs ! k] @ take (n - k) (drop k xs) @ drop (Suc n) xs"
  unfolding shift_up_def by (rule shift_up_rev)

text \<open>The entries that stay behind the moved picture.\<close>

definition stays :: "(nat \<Rightarrow> bool) \<Rightarrow> nat option \<Rightarrow> bool" where
  "stays drop_it e \<longleftrightarrow> (\<exists>p. e = Some p \<and> \<not> drop_it p)"

lemma close_step_eq:
  "close_step d c (xs, m) = (if stays d (xs ! c) then (xs[m := xs ! c], m + 1) else (xs, m))"
  by (auto simp: close_step_def stays_def split: option.split)

lemma close_steps:
  "fold (close_step d) [length (as @ gap)..<length (as @ gap @ zs)] (as @ gap @ zs @ ts, length as) =
    (as @ filter (stays d) zs @ drop (length (filter (stays d) zs)) (gap @ zs) @ ts, length as + length (filter (stays d) zs))"
proof (induction zs arbitrary: as gap)
  case Nil
  then show ?case by simp
next
  case (Cons z zs)
  have u: "[length (as @ gap)..<length (as @ gap @ z # zs)] =
      length (as @ gap) # [length (as @ gap @ [z])..<length (as @ gap @ z # zs)]"
    by (subst upt_rec) simp
  have z: "(as @ gap @ (z # zs) @ ts) ! length (as @ gap) = z"
    by (metis append.assoc append_Cons nth_append_length)
  show ?case
  proof (cases "stays d z")
    case False
    have "close_step d (length (as @ gap)) (as @ gap @ (z # zs) @ ts, length as) = (as @ (gap @ [z]) @ zs @ ts, length as)"
      using False z by (simp add: close_step_eq)
    then show ?thesis
      using Cons.IH [where gap = "gap @ [z]" and as = as] False unfolding u by (simp del: upt_Suc)
  next
    case True
    show ?thesis
    proof (cases gap)
      case Nil
      have "close_step d (length (as @ gap)) (as @ gap @ (z # zs) @ ts, length as) = ((as @ [z]) @ [] @ zs @ ts, length (as @ [z]))"
        using True z Nil by (simp add: close_step_eq)
      then show ?thesis
        using Cons.IH [where gap = "[]" and as = "as @ [z]"] True Nil unfolding u by (simp del: upt_Suc)
    next
      case (Cons g gs)
      have "close_step d (length (as @ gap)) (as @ gap @ (z # zs) @ ts, length as) =
          ((as @ [z]) @ (gs @ [z]) @ zs @ ts, length (as @ [z]))"
        using True z Cons by (simp add: close_step_eq list_update_append)
      then show ?thesis
        using Cons.IH [where gap = "gs @ [z]" and as = "as @ [z]"] True Cons unfolding u by (simp del: upt_Suc)
    qed
  qed
qed

lemma reorder_array_eq:
  assumes "k \<le> n" "n < length xs"
  defines "mid \<equiv> take (n - k) (drop k xs)"
  shows "reorder_array d pic n k xs =
    Some (take k xs @ pic # filter (stays d) mid @ drop (length (filter (stays d) mid)) mid @ drop (Suc n) xs)"
proof -
  have l: "length (take k xs @ [pic]) = k + 1" "length (take k xs @ [pic] @ mid) = n + 1"
    using assms by simp_all
  have "(shift_up k n xs)[k := pic] = (take k xs @ [pic]) @ [] @ mid @ drop (Suc n) xs"
    using assms by (simp add: shift_up_eq list_update_append)
  then show ?thesis
    using assms close_steps [where gap = "[]" and zs = mid and as = "take k xs @ [pic]" and ts = "drop (Suc n) xs" and d = d] l
    by (simp add: reorder_array_def Let_def)
qed

section \<open>Reordering commands\<close>

lemma filter_neq_notin [simp]: "p \<notin> set xs \<Longrightarrow> filter (\<lambda>q. q \<noteq> p) xs = xs"
  by (induction xs) auto

lemma length_filter_neq:
  "distinct xs \<Longrightarrow> length xs \<le> Suc (length (filter (\<lambda>q. q \<noteq> p) xs))"
  by (induction xs) auto

lemma take_filter_neq:
  assumes "distinct xs"
  shows "take (m - 1) (filter (\<lambda>q. q \<noteq> p) (take m xs)) = take (m - 1) (filter (\<lambda>q. q \<noteq> p) xs)"
proof -
  let ?A = "filter (\<lambda>q. q \<noteq> p) (take m xs)" and ?B = "filter (\<lambda>q. q \<noteq> p) (drop m xs)"
  have "filter (\<lambda>q. q \<noteq> p) xs = ?A @ ?B"
    by (metis append_take_drop_id filter_append)
  moreover have "m - 1 - length ?A = 0 \<or> ?B = []"
    using length_filter_neq [of "take m xs" p] assms by (cases "m \<le> length xs") auto
  ultimately show ?thesis
    by auto
qed

text \<open>The pictures that a list of commands names: for each command up to the first end mark, a
  short-term picture with the number of the command or a long-term picture with its number.\<close>

fun names :: "h264_dpb \<Rightarrow> int \<Rightarrow> int \<Rightarrow> int \<Rightarrow> (int \<times> int \<times> int) list \<Rightarrow> nat list \<Rightarrow> bool" where
  "names s maxP cur pred [] ps \<longleftrightarrow> ps = []"
| "names s maxP cur pred ((idc, diff, lt) # cs) ps \<longleftrightarrow>
     (if idc \<ge> 3 then ps = []
      else case ps of [] \<Rightarrow> False
        | p # ps \<Rightarrow>
            (if idc < 2 then
               let noWrap = pic_num_no_wrap idc maxP pred diff; num = pic_num_wrapped maxP cur noWrap
               in get_short_term_pic num s = (Some p, s) \<and> \<not> pic_is_long_term (m_PIC s p) \<and>
                  pic_pic_num (m_PIC s p) = num \<and> names s maxP cur noWrap cs ps
             else get_long_term_pic lt s = Some (Some p) \<and> pic_is_long_term (m_PIC s p) \<and>
                  pic_long_term_pic_num (m_PIC s p) = lt \<and> names s maxP cur pred cs ps))"

text \<open>Pictures of one kind have different numbers.\<close>

definition distinct_numbers :: "h264_dpb \<Rightarrow> nat set \<Rightarrow> bool" where
  "distinct_numbers s Q \<longleftrightarrow> (\<forall>p\<in>Q. \<forall>q\<in>Q. pic_is_long_term (m_PIC s p) = pic_is_long_term (m_PIC s q) \<longrightarrow>
     (if pic_is_long_term (m_PIC s p) then pic_long_term_pic_num (m_PIC s p) = pic_long_term_pic_num (m_PIC s q)
      else pic_pic_num (m_PIC s p) = pic_pic_num (m_PIC s q)) \<longrightarrow> p = q)"

lemma reorder_array_step:
  assumes "n < length xs" "length ds < n"
    and xs: "take n xs = map Some (take n (ds @ filter (\<lambda>q. q \<notin> set ds) xs0))"
    and "distinct xs0" "length xs0 = n"
    and d: "\<And>q. q \<in> set xs0 \<Longrightarrow> d q = (q = p)"
  shows "\<exists>ys. reorder_array d (Some p) n (length ds) xs = Some ys \<and> length ys = length xs \<and>
    take n ys = map Some (take n ((ds @ [p]) @ filter (\<lambda>q. q \<notin> set (ds @ [p])) xs0))"
proof -
  define k L m where "k = length ds" and "L = filter (\<lambda>q. q \<notin> set ds) xs0" and "m = n - length ds"
  define mid where "mid = take (n - k) (drop k xs)"
  have L: "distinct L"
    using assms by (simp add: L_def)
  have mid: "mid = map Some (take m L)"
    using assms(2) arg_cong [OF xs, of "drop k"] unfolding mid_def k_def m_def L_def by (simp add: drop_take take_map drop_map)
  have tk: "take k xs = map Some ds"
  proof -
    have "take k xs = take k (take n xs)"
      using assms(2) by (simp add: k_def)
    also have "\<dots> = map Some ds"
      using assms(2) unfolding xs by (simp add: k_def take_map)
    finally show ?thesis .
  qed
  have d': "filter (stays d) mid = map Some (filter (\<lambda>q. q \<noteq> p) (take m L))"
  proof -
    have "\<forall>q\<in>set (take m L). stays d (Some q) = (q \<noteq> p)"
      using d by (auto simp: stays_def L_def dest!: in_set_takeD)
    then show ?thesis
      unfolding mid by (auto simp: filter_map comp_def intro!: filter_cong)
  qed
  define ys where "ys = take k xs @ Some p # filter (stays d) mid @ drop (length (filter (stays d) mid)) mid @ drop (Suc n) xs"
  have "reorder_array d (Some p) n k xs = Some ys"
    using assms unfolding ys_def mid_def by (intro reorder_array_eq) (simp_all add: k_def)
  moreover have "length ys = length xs"
  proof -
    have "length (filter (stays d) mid) \<le> length mid"
      by simp
    then show ?thesis
      using assms unfolding ys_def by (simp add: k_def mid_def)
  qed
  moreover have "take n ys = map Some (take n ((ds @ [p]) @ filter (\<lambda>q. q \<notin> set (ds @ [p])) xs0))"
  proof -
    have len: "m - 1 \<le> length (filter (\<lambda>q. q \<noteq> p) (take m L))"
    proof -
      have "n - k \<le> length xs - k"
        using assms by simp
      then have "length mid = m"
        unfolding mid_def m_def k_def by simp
      then have "length (take m L) = m"
        unfolding mid by simp
      then show ?thesis
        using length_filter_neq [of "take m L" p] L by (simp del: length_take)
    qed
    have "take n ys = map Some (ds @ p # take (m - 1) (filter (\<lambda>q. q \<noteq> p) (take m L)))"
    proof -
      have n: "n = k + Suc (m - 1)" "length (take k xs) = k"
        using assms by (simp_all add: k_def m_def)
      have "take n ys = take k xs @ Some p # take (m - 1) (filter (stays d) mid)"
        using len unfolding ys_def by (subst n(1)) (simp add: d' n(2) del: length_take)
      then show ?thesis
        by (simp add: d' tk take_map)
    qed
    also have "\<dots> = map Some (ds @ p # take (m - 1) (filter (\<lambda>q. q \<noteq> p) L))"
      using take_filter_neq [OF L] by simp
    also have "filter (\<lambda>q. q \<noteq> p) L = filter (\<lambda>q. q \<notin> set (ds @ [p])) xs0"
      by (auto simp: L_def intro!: filter_cong)
    also have "map Some (ds @ p # take (m - 1) (filter (\<lambda>q. q \<notin> set (ds @ [p])) xs0)) =
        map Some (take n ((ds @ [p]) @ filter (\<lambda>q. q \<notin> set (ds @ [p])) xs0))"
      using assms by (simp add: m_def take_Cons')
    finally show ?thesis .
  qed
  ultimately show ?thesis
    by (auto simp: k_def)
qed

lemma listX_set_listX [simp]: "listX (set_listX k xs l) = (listX l)(k := xs)"
  by (simp add: set_listX_def)

lemma listXsize_set_listX [simp]: "listXsize (set_listX k xs l) = listXsize l"
  by (simp add: set_listX_def)

lemma listX_set_listXsize [simp]: "listX (set_listXsize k n l) = listX l"
  by (simp add: set_listXsize_def)

lemma listXsize_set_listXsize [simp]: "listXsize (set_listXsize k n l) = (listXsize l)(k := n)"
  by (simp add: set_listXsize_def)

lemma active_set_listX [simp]: "num_ref_idx_active (set_listX k xs l) = num_ref_idx_active l"
  "num_ref_idx_active (set_listXsize k n l) = num_ref_idx_active l"
  by (simp_all add: set_listX_def set_listXsize_def)

lemma distinct_numbersD:
  assumes "distinct_numbers s Q" "p \<in> Q" "q \<in> Q"
  shows "\<not> pic_is_long_term (m_PIC s p) \<Longrightarrow>
      (\<not> pic_is_long_term (m_PIC s q) \<and> pic_pic_num (m_PIC s q) = pic_pic_num (m_PIC s p)) = (q = p)"
    and "pic_is_long_term (m_PIC s p) \<Longrightarrow>
      (pic_is_long_term (m_PIC s q) \<and> pic_long_term_pic_num (m_PIC s q) = pic_long_term_pic_num (m_PIC s p)) = (q = p)"
  using assms unfolding distinct_numbers_def by (metis (full_types))+

lemma distinct_numbers_mono: "distinct_numbers s Q \<Longrightarrow> R \<subseteq> Q \<Longrightarrow> distinct_numbers s R"
  unfolding distinct_numbers_def by blast

lemma reorder_commands_names:
  assumes "names s maxP cur pred cs ps" "length ds + length ps \<le> n" "n < length (listX l k)"
    and "take n (listX l k) = map Some (take n (ds @ filter (\<lambda>q. q \<notin> set ds) xs0))"
    and "distinct xs0" "length xs0 = n" "distinct_numbers s (set xs0 \<union> set ps)" "n = nat (nm + 1)"
  shows "\<exists>ys. reorder_commands k nm maxP cur cs pred (length ds) (s, l) = Some (s, set_listX k ys l) \<and>
    take n ys = map Some (take n (ds @ ps @ filter (\<lambda>q. q \<notin> set (ds @ ps)) xs0))"
  using assms
proof (induction cs arbitrary: pred ps ds l)
  case Nil
  then show ?case
    by (intro exI [of _ "listX l k"]) (simp add: set_listX_def)
next
  case (Cons c cs)
  obtain idc diff lt where c: "c = (idc, diff, lt)"
    by (cases c)
  show ?case
  proof (cases "idc \<ge> 3")
    case True
    then show ?thesis
      using Cons.prems c by (intro exI [of _ "listX l k"]) (simp add: set_listX_def)
  next
    case False
    then obtain p ps' where ps: "ps = p # ps'"
      using Cons.prems(1) c by (cases ps) simp_all
    define pred' where "pred' = (if idc < 2 then pic_num_no_wrap idc maxP pred diff else pred)"
    define num where "num = pic_num_wrapped maxP cur pred'"
    define d where "d = (if idc < 2 then (\<lambda>q. \<not> pic_is_long_term (m_PIC s q) \<and> pic_pic_num (m_PIC s q) = num)
      else (\<lambda>q. pic_is_long_term (m_PIC s q) \<and> pic_long_term_pic_num (m_PIC s q) = lt))"
    have nm: "names s maxP cur pred' cs ps'"
      using Cons.prems(1) False unfolding c ps pred'_def by (simp add: Let_def split: if_splits)
    have p: "if idc < 2 then get_short_term_pic num s = (Some p, s) \<and> \<not> pic_is_long_term (m_PIC s p) \<and> pic_pic_num (m_PIC s p) = num
        else get_long_term_pic lt s = Some (Some p) \<and> pic_is_long_term (m_PIC s p) \<and> pic_long_term_pic_num (m_PIC s p) = lt"
      using Cons.prems(1) False unfolding c ps pred'_def num_def by (simp add: Let_def split: if_splits)
    have d: "d q = (q = p)" if "q \<in> set xs0" for q
      using distinct_numbersD [OF Cons.prems(7), of p q] that p unfolding ps d_def by (auto split: if_splits)
    obtain ys where ys: "reorder_array d (Some p) n (length ds) (listX l k) = Some ys" "length ys = length (listX l k)"
      "take n ys = map Some (take n ((ds @ [p]) @ filter (\<lambda>q. q \<notin> set (ds @ [p])) xs0))"
      using reorder_array_step [OF Cons.prems(3) _ Cons.prems(4-6) d] Cons.prems(2) ps by auto
    have step: "reorder_commands k nm maxP cur (c # cs) pred (length ds) (s, l) =
        reorder_commands k nm maxP cur cs pred' (length (ds @ [p])) (s, set_listX k ys l)"
      using False p ys(1) Cons.prems(8) unfolding c pred'_def d_def num_def
      by (simp add: reorder_short_term_def reorder_long_term_def Let_def split: if_splits)
    have "\<exists>zs. reorder_commands k nm maxP cur cs pred' (length (ds @ [p])) (s, set_listX k ys l) =
        Some (s, set_listX k zs (set_listX k ys l)) \<and>
      take n zs = map Some (take n ((ds @ [p]) @ ps' @ filter (\<lambda>q. q \<notin> set ((ds @ [p]) @ ps')) xs0))"
      using Cons.prems ys nm unfolding ps by (intro Cons.IH) (auto elim: distinct_numbers_mono)
    then show ?thesis
      unfolding step ps by (auto simp: set_listX_def)
  qed
qed

text \<open>The numbering of the slice, and its commands for a list.\<close>

definition MaxPicNum :: "h264_dpb \<Rightarrow> int" where
  "MaxPicNum s = (if sl_structure (mSlice s) = FRAME then max_frame_num (mVideo s) else 2 * max_frame_num (mVideo s))"

definition CurrPicNum :: "h264_dpb \<Rightarrow> int" where
  "CurrPicNum s = (if sl_structure (mSlice s) = FRAME then sl_frame_num (mSlice s) else 2 * sl_frame_num (mSlice s) + 1)"

definition commands :: "nat \<Rightarrow> RefPicLists \<Rightarrow> (int \<times> int \<times> int) list" where
  "commands k l = take REORDERING_COMMAND_MAX_SIZE (zip (modification_of_pic_nums_idc l k)
     (zip (abs_diff_pic_num_minus1 l k) (long_term_pic_idx l k)))"

text \<open>C19. The reordering commands of a list put the pictures they name at its front, in the order of
  the commands, and the other pictures follow in their old order, as far as the active entries
  reach. This holds for short-term and long-term commands in any mixture, when the pictures
  involved have different numbers and the array has room for one entry more than the active ones.\<close>

theorem reorder_moves_named_to_front:
  assumes "names s (MaxPicNum s) (CurrPicNum s) (CurrPicNum s) (commands k l) ps"
    and "n = nat (num_ref_idx_active l k)" "length ps \<le> n" "n < length (listX l k)"
    and "take n (listX l k) = map Some xs" "distinct xs" "length xs = n"
    and "distinct_numbers s (set xs \<union> set ps)"
  shows "\<exists>l'. reorder_ref_pic_list k (s, l) = Some (s, l') \<and>
    take n (listX l' k) = map Some (take n (ps @ filter (\<lambda>q. q \<notin> set ps) xs)) \<and>
    listXsize l' k = num_ref_idx_active l k mod 256"
proof -
  obtain ys where ys: "reorder_commands k (num_ref_idx_active l k - 1) (MaxPicNum s) (CurrPicNum s) (commands k l) (CurrPicNum s)
      (length ([] :: nat list)) (s, l) = Some (s, set_listX k ys l)"
    "take n ys = map Some (take n ([] @ ps @ filter (\<lambda>q. q \<notin> set ([] @ ps)) xs))"
    using reorder_commands_names [OF assms(1), of "[]" n l k xs "num_ref_idx_active l k - 1"] assms(2-) by auto
  then show ?thesis
    by (simp add: reorder_ref_pic_list_def Let_def MaxPicNum_def CurrPicNum_def commands_def uchar_def)
qed

text \<open>Frames 5, 4 and 3 in the list, with numbers as their indices, while frame 6 is decoded: the
  difference 3 names frame 3 and the long-term number 0 names picture 9.\<close>

definition demo_refs :: h264_dpb where
  "demo_refs = demo_dpb
     \<lparr>m_PIC := (\<lambda>i. demo_pic\<lparr>pic_pic_num := int i, pic_is_long_term := (i = 9), pic_poc := 2 * int i, pic_index := int i\<rparr>),
      mFrameStore := (\<lambda>i. demo_fs\<lparr>fs_is_used := 3, fs_is_reference := 3, fs_frame := Some i\<rparr>),
      dpb_fs_ref := [Some 3, Some 4, Some 5], ref_frames_in_buffer := 3,
      dpb_fs_ltref := [Some 9], ltref_frames_in_buffer := 1,
      mSlice := demo_slice\<lparr>sl_frame_num := 6, sl_structure := FRAME, framepoc := 8\<rparr>, mVideo := demo_video\<lparr>max_frame_num := 16\<rparr>\<rparr>"

definition demo_lists :: RefPicLists where
  "demo_lists = \<lparr>listX = (\<lambda>k. map Some [5, 4, 3, 9] @ replicate 62 None), listXsize = (\<lambda>k. 4), num_ref_idx_active = (\<lambda>k. 4),
     ref_pic_list_reordering_flag = (\<lambda>k. 1), modification_of_pic_nums_idc = (\<lambda>k. [0, 2, 3]),
     abs_diff_pic_num_minus1 = (\<lambda>k. [2, 0, 0]), long_term_pic_idx = (\<lambda>k. [0, 0, 0])\<rparr>"

theorem reorder_moves_named_to_front_witness:
  "\<exists>l'. reorder_ref_pic_list 0 (demo_refs, demo_lists) = Some (demo_refs, l') \<and>
    take 4 (listX l' 0) = map Some [3, 9, 5, 4]"
proof -
  have r: "ref_list demo_refs = [Some 3, Some 4, Some 5]" "ltref_list demo_refs = [Some 9]"
    by (simp_all add: ref_list_def ltref_list_def demo_refs_def)
  have c: "commands 0 demo_lists = [(0, 2, 0), (2, 0, 0), (3, 0, 0)]"
    by (simp add: commands_def demo_lists_def REORDERING_COMMAND_MAX_SIZE_def)
  have s: "get_short_term_pic 3 demo_refs = (Some 3, demo_refs)" "get_long_term_pic 0 demo_refs = Some (Some 9)"
    unfolding get_short_term_pic_def get_long_term_pic_def r
    by (simp_all add: demo_refs_def demo_fs_def demo_pic_def long_matches_def opt_pic_def)
  have n: "names demo_refs (MaxPicNum demo_refs) (CurrPicNum demo_refs) (CurrPicNum demo_refs) (commands 0 demo_lists) [3, 9]"
    unfolding c using s
    by (simp add: pic_num_no_wrap_def pic_num_wrapped_def MaxPicNum_def CurrPicNum_def)
      (simp add: demo_refs_def demo_pic_def)
  have l: "num_ref_idx_active demo_lists 0 = 4" "take 4 (listX demo_lists 0) = map Some [5, 4, 3, 9]"
    "length (listX demo_lists 0) = 66"
    by (simp_all add: demo_lists_def)
  have d: "distinct_numbers demo_refs (set [5, 4, 3, 9] \<union> set [3, 9])"
    by (simp add: distinct_numbers_def demo_refs_def demo_pic_def)
  show ?thesis
    using reorder_moves_named_to_front [OF n, of 4 "[5, 4, 3, 9]", OF _ _ _ l(2) _ _ d] l(1,3) by auto
qed

section \<open>Initial lists of frame slices\<close>

text \<open>The frames of complete stores with a property, in the order of the stores.\<close>

definition frames_of :: "h264_dpb \<Rightarrow> (StorablePicture \<Rightarrow> bool) \<Rightarrow> nat list \<Rightarrow> nat list" where
  "frames_of s P is = filter (\<lambda>p. P (m_PIC s p))
     (map (\<lambda>i. the (fs_frame (mFrameStore s i))) (filter (\<lambda>i. fs_is_used (mFrameStore s i) = 3) is))"

definition have_frames :: "h264_dpb \<Rightarrow> nat list \<Rightarrow> bool" where
  "have_frames s is \<longleftrightarrow> (\<forall>i\<in>set is. fs_frame (mFrameStore s i) \<noteq> None)"

lemma short_frames_eq:
  "have_frames s is \<Longrightarrow>
    short_frames line P (map Some is) s = (frames_of s (\<lambda>p. is_short_ref p \<and> P p) is, s)"
  by (induction "is") (auto simp: have_frames_def frames_of_def is_short_ref_def Let_def)

lemma long_frames_eq:
  "have_frames s is \<Longrightarrow> long_frames s (map Some is) = Some (frames_of s pic_is_long_term is)"
  by (induction "is") (auto simp: have_frames_def frames_of_def)

lemma length_frames_of: "length (frames_of s P is) \<le> length is"
  unfolding frames_of_def by (rule order_trans [OF length_filter_le]) simp

text \<open>Each position holds a picture of one kind, so short-term pictures before and after a picture
  order count are together no more than the stores.\<close>

lemma length_frames_of_split:
  assumes "\<And>p. \<not> (P p \<and> Q p)"
  shows "length (frames_of s P is) + length (frames_of s Q is) \<le> length is"
proof (induction "is")
  case (Cons i "is")
  then show ?case
    using assms [of "m_PIC s (the (fs_frame (mFrameStore s i)))"] by (auto simp: frames_of_def)
qed (simp add: frames_of_def)

lemma sortsD:
  assumes "sorts cmp xs ys"
  shows "length ys = length xs" "set ys = set xs" "mset ys = mset xs"
proof -
  show m: "mset ys = mset xs"
    using assms by (simp add: sorts_def)
  show "length ys = length xs" "set ys = set xs"
    using m by (rule mset_eq_length, rule mset_eq_setD)
qed

lemma sort_tail_append: "qsort cmp zs = Some ys \<Longrightarrow> sort_tail cmp (length xs) (xs @ zs) = Some (xs @ ys)"
  by (simp add: sort_tail_def)

context comparator
begin

lemma qsort_sorts_ex: "length xs < 2 ^ STKSIZ \<Longrightarrow> \<exists>ys. qsort cmp xs = Some ys \<and> sorts cmp xs ys"
  using qsort_spec by (simp add: sorts_def)

end

text \<open>At most 33 pictures fit a list.\<close>

lemma small_sort: "length xs \<le> 33 \<Longrightarrow> length xs < 2 ^ STKSIZ"
  by (simp add: STKSIZ_def)

lemma check_valid_ok: "0 \<le> listXsize l k \<Longrightarrow> listXsize l k \<le> 33 \<Longrightarrow> check_valid line k (s, l) = (s, l)"
  by (simp add: check_valid_def MAX_LIST_SIZE_def)

lemma uchar_small [simp]: "0 \<le> n \<Longrightarrow> n \<le> 33 \<Longrightarrow> uchar n = n"
  by (simp add: uchar_def)

lemma init_p_frame_lists:
  assumes "ref_list s = map Some is" "ltref_list s = map Some ls" "have_frames s is" "have_frames s ls"
    and "length is + length ls \<le> 33" "33 \<le> length (listX l 0)"
  shows "\<exists>ps qs l'. init_p_frame (s, l) = Some (s, l') \<and>
    sorts (compare_pic_by_pic_num_desc s) (frames_of s is_short_ref is) ps \<and>
    sorts (compare_pic_by_lt_pic_num_asc s) (frames_of s pic_is_long_term ls) qs \<and>
    listX l' 0 = map Some (ps @ qs) @ drop (length (ps @ qs)) (listX l 0) \<and>
    listXsize l' 0 = int (length (ps @ qs)) \<and> length (ps @ qs) \<le> 33 \<and>
    listX l' 1 = listX l 1 \<and> num_ref_idx_active l' = num_ref_idx_active l"
proof -
  let ?xs = "frames_of s is_short_ref is" and ?zs = "frames_of s pic_is_long_term ls"
  have len: "length ?xs + length ?zs \<le> 33"
    using assms(5) length_frames_of [of s is_short_ref "is"] length_frames_of [of s pic_is_long_term ls] by linarith
  obtain ps where ps: "qsort (compare_pic_by_pic_num_desc s) ?xs = Some ps" "sorts (compare_pic_by_pic_num_desc s) ?xs ps"
    using pic_num.qsort_sorts_ex [OF small_sort, of ?xs s] len by auto
  obtain qs where qs: "qsort (compare_pic_by_lt_pic_num_asc s) ?zs = Some qs" "sorts (compare_pic_by_lt_pic_num_asc s) ?zs qs"
    using lt_pic_num.qsort_sorts_ex [OF small_sort, of ?zs s] len by auto
  have l: "length ps = length ?xs" "length qs = length ?zs"
    using ps qs by (auto dest: sortsD)
  have st: "sort_tail (compare_pic_by_lt_pic_num_asc s) (length ?xs) (ps @ ?zs) = Some (ps @ qs)"
    using sort_tail_append [OF qs(1), of ps] l by simp
  show ?thesis
    by (rule exI [of _ ps], rule exI [of _ qs])
      (use assms len ps qs l st in \<open>simp add: init_p_frame_def short_frames_eq long_frames_eq check_valid_ok Let_def write_front_def\<close>)
qed

lemma init_b_frame_lists:
  assumes "ref_list s = map Some is" "ltref_list s = map Some ls" "have_frames s is" "have_frames s ls"
    and "length is + length ls \<le> 33" "33 \<le> length (listX l 0)" "33 \<le> length (listX l 1)"
  defines "c \<equiv> framepoc (mSlice s)"
  shows "\<exists>ps qs rs l'. init_b_frame (s, l) = Some (s, l') \<and>
    sorts (compare_pic_by_poc_desc s) (frames_of s (\<lambda>p. is_short_ref p \<and> c \<ge> pic_poc p) is) ps \<and>
    sorts (compare_pic_by_poc_asc s) (frames_of s (\<lambda>p. is_short_ref p \<and> c < pic_poc p) is) qs \<and>
    sorts (compare_pic_by_lt_pic_num_asc s) (frames_of s pic_is_long_term ls) rs \<and>
    listX l' 0 = map Some (ps @ qs @ rs) @ drop (length (ps @ qs @ rs)) (listX l 0) \<and>
    listX l' 1 = map Some (qs @ ps @ rs) @ drop (length (ps @ qs @ rs)) (listX l 1) \<and>
    listXsize l' 0 = int (length (ps @ qs @ rs)) \<and> listXsize l' 1 = int (length (ps @ qs @ rs)) \<and>
    length (ps @ qs @ rs) \<le> 33 \<and> num_ref_idx_active l' = num_ref_idx_active l"
proof -
  let ?xs = "frames_of s (\<lambda>p. is_short_ref p \<and> c \<ge> pic_poc p) is"
  let ?ys = "frames_of s (\<lambda>p. is_short_ref p \<and> c < pic_poc p) is"
  let ?zs = "frames_of s pic_is_long_term ls"
  have "length ?xs + length ?ys \<le> length is"
    by (rule length_frames_of_split) auto
  then have len: "length ?xs + length ?ys + length ?zs \<le> 33"
    using assms(5) length_frames_of [of s pic_is_long_term ls] by linarith
  obtain ps where ps: "qsort (compare_pic_by_poc_desc s) ?xs = Some ps" "sorts (compare_pic_by_poc_desc s) ?xs ps"
    using poc_desc.qsort_sorts_ex [OF small_sort, of ?xs s] len by auto
  obtain qs where qs: "qsort (compare_pic_by_poc_asc s) ?ys = Some qs" "sorts (compare_pic_by_poc_asc s) ?ys qs"
    using poc_asc.qsort_sorts_ex [OF small_sort, of ?ys s] len by auto
  obtain rs where rs: "qsort (compare_pic_by_lt_pic_num_asc s) ?zs = Some rs" "sorts (compare_pic_by_lt_pic_num_asc s) ?zs rs"
    using lt_pic_num.qsort_sorts_ex [OF small_sort, of ?zs s] len by auto
  have l: "length ps = length ?xs" "length qs = length ?ys" "length rs = length ?zs"
    using ps qs rs by (auto dest: sortsD)
  have st: "sort_tail (compare_pic_by_lt_pic_num_asc s) (length ?xs + length ?ys) (ps @ qs @ ?zs) = Some (ps @ qs @ rs)"
    "sort_tail (compare_pic_by_lt_pic_num_asc s) (length ?xs + length ?ys) (qs @ ps @ ?zs) = Some (qs @ ps @ rs)"
    using sort_tail_append [OF rs(1), of "ps @ qs"] sort_tail_append [OF rs(1), of "qs @ ps"] l by (simp_all add: add.commute)
  have n: "nat (int a + int b) = a + b" for a b
    by simp
  show ?thesis
    by (rule exI [of _ ps], rule exI [of _ qs], rule exI [of _ rs])
      (use assms len ps qs rs l st in \<open>simp add: init_b_frame_def short_frames_eq long_frames_eq check_valid_ok Let_def write_front_def n add_ac\<close>)
qed

lemma listX_fill_rest [simp]:
  "listX (fill_rest s k l) = (listX l)(k := map (\<lambda>i. if listXsize l k \<le> int i \<and> i < MAX_LIST_SIZE
     then no_reference_picture s else listX l k ! i) [0..<length (listX l k)])"
  "listXsize (fill_rest s k l) = listXsize l"
  by (simp_all add: fill_rest_def)

lemma fill_rest_list:
  assumes "33 \<le> length xs" "0 \<le> m" "m \<le> 33"
  shows "take 33 (map (\<lambda>i. if m \<le> int i \<and> i < MAX_LIST_SIZE then e else xs ! i) [0..<length xs]) =
    take (nat m) xs @ replicate (33 - nat m) e"
  using assms by (intro nth_equalityI) (auto simp: nth_append MAX_LIST_SIZE_def min_absorb2)

text \<open>A list cut to the active entries and filled up.\<close>

definition cut_list :: "nat option \<Rightarrow> nat \<Rightarrow> nat option list \<Rightarrow> nat option list" where
  "cut_list e n xs = take n xs @ replicate (33 - n) e"

text \<open>A list whose size is in range, and the cut of a list to its active entries.\<close>

definition valid_list :: "RefPicLists \<Rightarrow> nat \<Rightarrow> bool" where
  "valid_list l k \<longleftrightarrow> 0 \<le> listXsize l k \<and> listXsize l k \<le> 33 \<and> 0 \<le> num_ref_idx_active l k \<and> 33 \<le> length (listX l k)"

definition cut_to_active :: "h264_dpb \<Rightarrow> RefPicLists \<Rightarrow> RefPicLists \<Rightarrow> nat \<Rightarrow> bool" where
  "cut_to_active s l l' k \<longleftrightarrow> listXsize l' k = min (listXsize l k) (num_ref_idx_active l k) \<and>
     take 33 (listX l' k) =
       cut_list (no_reference_picture s) (nat (min (listXsize l k) (num_ref_idx_active l k))) (listX l k)"

lemma cut_size: "valid_list l k \<Longrightarrow>
    uchar (imin (listXsize l k) (num_ref_idx_active l k)) = min (listXsize l k) (num_ref_idx_active l k)"
  unfolding valid_list_def by (simp add: imin_def min_def)

lemma set_max_size_eq:
  assumes "valid_list l 0" "valid_list l 1"
  shows "\<exists>l'. set_max_size line (s, l) = (s, l') \<and> cut_to_active s l l' 0 \<and> cut_to_active s l l' 1"
proof -
  let ?l = "set_listXsize 1 (min (listXsize l 1) (num_ref_idx_active l 1))
     (set_listXsize 0 (min (listXsize l 0) (num_ref_idx_active l 0)) l)"
  have "set_max_size line (s, l) = (s, fill_rest s 1 (fill_rest s 0 ?l))"
    using assms cut_size [OF assms(1)] cut_size [OF assms(2)]
    by (simp add: set_max_size_def check_valid_ok valid_list_def min_le_iff_disj)
  moreover have "min (listXsize l k) (num_ref_idx_active l k) \<le> 33" if "valid_list l k" for k
    using that unfolding valid_list_def by linarith
  ultimately show ?thesis
    using assms unfolding valid_list_def cut_to_active_def
    by (simp add: cut_list_def fill_rest_list cong: if_cong)
qed

lemma cut_list_append:
  "n \<le> length xs \<Longrightarrow> cut_list e n (map Some xs @ zs) = map Some (take n xs) @ replicate (33 - n) e"
  by (simp add: cut_list_def take_map)

lemma sorts_pic_num: "sorts (compare_pic_by_pic_num_desc s) xs ys \<Longrightarrow>
    mset ys = mset xs \<and> sorted_wrt (\<lambda>p q. pic_pic_num (m_PIC s p) \<ge> pic_pic_num (m_PIC s q)) ys"
  by (simp add: sorts_def compare_pic_by_pic_num_desc_def three_way_le)

lemma sorts_lt_pic_num: "sorts (compare_pic_by_lt_pic_num_asc s) xs ys \<Longrightarrow>
    mset ys = mset xs \<and> sorted_wrt (\<lambda>p q. pic_long_term_pic_num (m_PIC s p) \<le> pic_long_term_pic_num (m_PIC s q)) ys"
  by (simp add: sorts_def compare_pic_by_lt_pic_num_asc_def three_way_le)

lemma sorts_poc_desc: "sorts (compare_pic_by_poc_desc s) xs ys \<Longrightarrow>
    mset ys = mset xs \<and> sorted_wrt (\<lambda>p q. pic_poc (m_PIC s p) \<ge> pic_poc (m_PIC s q)) ys"
  by (simp add: sorts_def compare_pic_by_poc_desc_def three_way_le)

lemma sorts_poc_asc: "sorts (compare_pic_by_poc_asc s) xs ys \<Longrightarrow>
    mset ys = mset xs \<and> sorted_wrt (\<lambda>p q. pic_poc (m_PIC s p) \<le> pic_poc (m_PIC s q)) ys"
  by (simp add: sorts_def compare_pic_by_poc_asc_def three_way_le)

text \<open>C22. The initial list of a P frame: the short-term reference frames by descending picture
  number, then the long-term frames by ascending long-term number, cut to the active entries and
  filled up to 33 with the picture that stands for no reference; the second list is empty.\<close>

theorem init_lists_p_slice_frame_order:
  assumes "sl_structure (mSlice s) = FRAME"
    and "ref_list s = map Some is" "ltref_list s = map Some ls" "have_frames s is" "have_frames s ls"
    and "length is + length ls \<le> 33" "33 \<le> length (listX l 0)" "33 \<le> length (listX l 1)"
    and "0 \<le> num_ref_idx_active l 0" "0 \<le> num_ref_idx_active l 1"
  shows "\<exists>ps qs l' n. init_lists_p_slice (s, l) = Some (s, l') \<and>
    mset ps = mset (frames_of s is_short_ref is) \<and>
    sorted_wrt (\<lambda>p q. pic_pic_num (m_PIC s p) \<ge> pic_pic_num (m_PIC s q)) ps \<and>
    mset qs = mset (frames_of s pic_is_long_term ls) \<and>
    sorted_wrt (\<lambda>p q. pic_long_term_pic_num (m_PIC s p) \<le> pic_long_term_pic_num (m_PIC s q)) qs \<and>
    n = min (length (ps @ qs)) (nat (num_ref_idx_active l 0)) \<and> listXsize l' 0 = int n \<and>
    take 33 (listX l' 0) = map Some (take n (ps @ qs)) @ replicate (33 - n) (no_reference_picture s) \<and>
    listXsize l' 1 = 0 \<and> take 33 (listX l' 1) = replicate 33 (no_reference_picture s)"
proof -
  obtain ps qs l1 where l1: "init_p_frame (s, l) = Some (s, l1)"
    "sorts (compare_pic_by_pic_num_desc s) (frames_of s is_short_ref is) ps"
    "sorts (compare_pic_by_lt_pic_num_asc s) (frames_of s pic_is_long_term ls) qs"
    "listX l1 0 = map Some (ps @ qs) @ drop (length (ps @ qs)) (listX l 0)"
    "listXsize l1 0 = int (length (ps @ qs))" "length (ps @ qs) \<le> 33"
    "listX l1 1 = listX l 1" "num_ref_idx_active l1 = num_ref_idx_active l"
    using init_p_frame_lists [OF assms(2-7)] by blast
  let ?l = "set_listXsize 1 0 l1"
  let ?n = "min (length (ps @ qs)) (nat (num_ref_idx_active l 0))"
  have "valid_list ?l 0" "valid_list ?l 1"
    using l1 assms(7-10) by (simp_all add: valid_list_def)
  then obtain l' where l': "set_max_size 4464 (s, ?l) = (s, l')" "cut_to_active s ?l l' 0" "cut_to_active s ?l l' 1"
    using set_max_size_eq by blast
  have n: "nat (min (int (length (ps @ qs))) (num_ref_idx_active l 0)) = ?n"
    using assms(9) by linarith
  have k0: "listXsize l' 0 = int ?n" "take 33 (listX l' 0) = map Some (take ?n (ps @ qs)) @ replicate (33 - ?n) (no_reference_picture s)"
    using l'(2) l1 assms(9) n cut_list_append [of ?n "ps @ qs" "no_reference_picture s" "drop (length (ps @ qs)) (listX l 0)"]
    unfolding cut_to_active_def by simp_all
  have k1: "listXsize l' 1 = 0" "take 33 (listX l' 1) = replicate 33 (no_reference_picture s)"
    using l'(3) l1 assms(10) unfolding cut_to_active_def by (simp_all add: cut_list_def)
  have "init_lists_p_slice (s, l) = Some (s, l')"
    using assms(1) l1 l' by (simp add: init_lists_p_slice_def)
  then show ?thesis
    using sorts_pic_num [OF l1(2)] sorts_lt_pic_num [OF l1(3)] k0 k1 by blast
qed

lemma demo_refs_lists: "ref_list demo_refs = map Some [3, 4, 5]" "ltref_list demo_refs = map Some [9]"
  "have_frames demo_refs is" "sl_structure (mSlice demo_refs) = FRAME"
  by (simp_all add: ref_list_def ltref_list_def demo_refs_def have_frames_def)

lemma demo_lists_valid: "num_ref_idx_active demo_lists k = 4" "length (listX demo_lists k) = 66"
  by (simp_all add: demo_lists_def)

theorem init_lists_p_slice_frame_order_witness:
  "\<exists>ps l'. init_lists_p_slice (demo_refs, demo_lists) = Some (demo_refs, l') \<and> mset ps = {#3, 4, 5#} \<and>
    sorted_wrt (\<lambda>p q. pic_pic_num (m_PIC demo_refs p) \<ge> pic_pic_num (m_PIC demo_refs q)) ps \<and>
    take 3 (listX l' 0) = map Some ps \<and> listXsize l' 0 = 4"
proof -
  have f: "frames_of demo_refs is_short_ref [3, 4, 5] = [3, 4, 5]" "frames_of demo_refs pic_is_long_term [9] = [9]"
    by (simp_all add: frames_of_def is_short_ref_def demo_refs_def demo_pic_def)
  obtain ps qs l' n where r: "init_lists_p_slice (demo_refs, demo_lists) = Some (demo_refs, l')"
    "mset ps = mset [3, 4, 5]"
    "sorted_wrt (\<lambda>p q. pic_pic_num (m_PIC demo_refs p) \<ge> pic_pic_num (m_PIC demo_refs q)) ps"
    "mset qs = mset [9]" "n = min (length (ps @ qs)) (nat (num_ref_idx_active demo_lists 0))" "listXsize l' 0 = int n"
    "take 33 (listX l' 0) = map Some (take n (ps @ qs)) @ replicate (33 - n) (no_reference_picture demo_refs)"
    using init_lists_p_slice_frame_order [OF demo_refs_lists(4,1,2,3,3), of demo_lists] demo_lists_valid f by auto
  have len: "length ps = 3" "length qs = 1"
    using mset_eq_length [OF r(2)] mset_eq_length [OF r(4)] by simp_all
  have "take 3 (listX l' 0) = take 3 (take 33 (listX l' 0))"
    by simp
  also have "\<dots> = map Some ps"
    using r(5) len unfolding r(7) by (simp add: demo_lists_valid)
  finally show ?thesis
    using r len by (intro exI [of _ ps] exI [of _ l']) (simp add: demo_lists_valid add_mset_commute)
qed

text \<open>A list with its first two elements in exchanged places.\<close>

definition swap_first :: "'a list \<Rightarrow> 'a list" where
  "swap_first xs = (case xs of a # b # ys \<Rightarrow> b # a # ys | _ \<Rightarrow> xs)"

lemma length_swap_first [simp]: "length (swap_first xs) = length xs"
  by (simp add: swap_first_def split: list.split)

lemma swap_first_update: "1 < length xs \<Longrightarrow> (map Some xs @ zs)[0 := (map Some xs @ zs) ! 1, 1 := (map Some xs @ zs) ! 0] =
    map Some (swap_first xs) @ zs"
  by (cases xs; cases "tl xs") (auto simp: swap_first_def)

lemma swap_first_neq: "distinct xs \<Longrightarrow> 1 < length xs \<Longrightarrow> swap_first xs \<noteq> xs"
  by (cases xs; cases "tl xs") (auto simp: swap_first_def)

lemma swap_if_identical_eq:
  assumes l: "listX l 0 = map Some xs @ us" "listX l 1 = map Some ys @ vs" "listXsize l 0 = int (length xs)"
    "listXsize l 1 = int (length xs)" "length ys = length xs"
  shows "listX (swap_if_identical l) 0 = map Some xs @ us \<and>
    listX (swap_if_identical l) 1 = map Some (if xs = ys \<and> 1 < length xs then swap_first ys else ys) @ vs \<and>
    listXsize (swap_if_identical l) = listXsize l \<and> num_ref_idx_active (swap_if_identical l) = num_ref_idx_active l"
proof -
  have t: "take (nat (listXsize l 0)) (listX l 0) = map Some xs" "take (nat (listXsize l 0)) (listX l 1) = map Some ys"
    using l by simp_all
  have e: "(map Some xs = map Some ys) = (xs = ys)"
    by (rule inj_map_eq_map) simp
  show ?thesis
  proof (cases "xs = ys \<and> 1 < length xs")
    case True
    then have "swap_if_identical l = set_listX 1 ((listX l 1)[0 := listX l 1 ! 1, 1 := listX l 1 ! 0]) l"
      unfolding swap_if_identical_def t e unfolding l(3,4) by auto
    also have "\<dots> = set_listX 1 (map Some (swap_first ys) @ vs) l"
      unfolding l(2) using True swap_first_update [of ys vs] by metis
    finally show ?thesis
      using True l(1) by auto
  next
    case False
    then have "swap_if_identical l = l"
      unfolding swap_if_identical_def t e unfolding l(3,4) by auto
    then show ?thesis
      unfolding if_not_P [OF False] using l(1,2) by simp
  qed
qed

text \<open>C21. The initial lists of a B frame: list 0 holds the short-term frames up to the current picture
  order count in descending order, then those after it in ascending order, then the long-term
  frames; list 1 has the first two groups in exchanged order. When the two lists are equal
  and hold more than one frame, the first two frames of list 1 change places, so the lists
  differ. Both are cut to the active entries and filled up.\<close>

theorem init_lists_b_slice_frame_order:
  assumes "sl_structure (mSlice s) = FRAME" and c: "c = framepoc (mSlice s)"
    and "ref_list s = map Some is" "ltref_list s = map Some ls" "have_frames s is" "have_frames s ls"
    and "length is + length ls \<le> 33" "33 \<le> length (listX l 0)" "33 \<le> length (listX l 1)"
    and "0 \<le> num_ref_idx_active l 0" "0 \<le> num_ref_idx_active l 1"
  shows "\<exists>ps qs rs ys l' n m. init_lists_b_slice (s, l) = Some (s, l') \<and>
    mset ps = mset (frames_of s (\<lambda>p. is_short_ref p \<and> c \<ge> pic_poc p) is) \<and>
    sorted_wrt (\<lambda>p q. pic_poc (m_PIC s p) \<ge> pic_poc (m_PIC s q)) ps \<and>
    mset qs = mset (frames_of s (\<lambda>p. is_short_ref p \<and> c < pic_poc p) is) \<and>
    sorted_wrt (\<lambda>p q. pic_poc (m_PIC s p) \<le> pic_poc (m_PIC s q)) qs \<and>
    mset rs = mset (frames_of s pic_is_long_term ls) \<and>
    sorted_wrt (\<lambda>p q. pic_long_term_pic_num (m_PIC s p) \<le> pic_long_term_pic_num (m_PIC s q)) rs \<and>
    ys = (if ps @ qs = qs @ ps \<and> 1 < length (ps @ qs @ rs) then swap_first (qs @ ps @ rs) else qs @ ps @ rs) \<and>
    (distinct (ps @ qs @ rs) \<and> 1 < length (ps @ qs @ rs) \<longrightarrow> ys \<noteq> ps @ qs @ rs) \<and>
    n = min (length ys) (nat (num_ref_idx_active l 0)) \<and> listXsize l' 0 = int n \<and>
    take 33 (listX l' 0) = map Some (take n (ps @ qs @ rs)) @ replicate (33 - n) (no_reference_picture s) \<and>
    m = min (length ys) (nat (num_ref_idx_active l 1)) \<and> listXsize l' 1 = int m \<and>
    take 33 (listX l' 1) = map Some (take m ys) @ replicate (33 - m) (no_reference_picture s)"
proof -
  obtain ps qs rs l1 where l1: "init_b_frame (s, l) = Some (s, l1)"
    "sorts (compare_pic_by_poc_desc s) (frames_of s (\<lambda>p. is_short_ref p \<and> c \<ge> pic_poc p) is) ps"
    "sorts (compare_pic_by_poc_asc s) (frames_of s (\<lambda>p. is_short_ref p \<and> c < pic_poc p) is) qs"
    "sorts (compare_pic_by_lt_pic_num_asc s) (frames_of s pic_is_long_term ls) rs"
    "listX l1 0 = map Some (ps @ qs @ rs) @ drop (length (ps @ qs @ rs)) (listX l 0)"
    "listX l1 1 = map Some (qs @ ps @ rs) @ drop (length (ps @ qs @ rs)) (listX l 1)"
    "listXsize l1 0 = int (length (ps @ qs @ rs))" "listXsize l1 1 = int (length (ps @ qs @ rs))"
    "length (ps @ qs @ rs) \<le> 33" "num_ref_idx_active l1 = num_ref_idx_active l"
    using init_b_frame_lists [OF assms(3-9)] unfolding c by blast
  let ?xs = "ps @ qs @ rs" and ?zs = "qs @ ps @ rs"
  define ys where "ys = (if ?xs = ?zs \<and> 1 < length ?xs then swap_first ?zs else ?zs)"
  let ?l = "swap_if_identical l1"
  have len: "length ys = length ?xs"
    by (simp add: ys_def)
  have sw: "listX ?l 0 = map Some ?xs @ drop (length ?xs) (listX l 0)" "listX ?l 1 = map Some ys @ drop (length ?xs) (listX l 1)"
    "listXsize ?l 0 = int (length ?xs)" "listXsize ?l 1 = int (length ?xs)" "num_ref_idx_active ?l = num_ref_idx_active l"
    using swap_if_identical_eq [OF l1(5-8)] l1(7,8,10) unfolding ys_def by simp_all
  have "valid_list ?l 0" "valid_list ?l 1"
    using sw l1(9) len assms(8-11) by (simp_all add: valid_list_def)
  then obtain l' where l': "set_max_size 4931 (s, ?l) = (s, l')" "cut_to_active s ?l l' 0" "cut_to_active s ?l l' 1"
    using set_max_size_eq by blast
  let ?n = "min (length ys) (nat (num_ref_idx_active l 0))" and ?m = "min (length ys) (nat (num_ref_idx_active l 1))"
  have n: "nat (min (int (length ?xs)) (num_ref_idx_active l 0)) = ?n" "nat (min (int (length ?xs)) (num_ref_idx_active l 1)) = ?m"
    "min (int (length ?xs)) (num_ref_idx_active l 0) = int ?n" "min (int (length ?xs)) (num_ref_idx_active l 1) = int ?m"
    using assms(10,11) len by linarith+
  have cut: "cut_list e k (map Some xs @ zs) = map Some (take k xs) @ replicate (33 - k) e" if "k \<le> length xs" for e k xs zs
    using that by (rule cut_list_append)
  have k0: "listXsize l' 0 = int ?n" "take 33 (listX l' 0) = map Some (take ?n ?xs) @ replicate (33 - ?n) (no_reference_picture s)"
    using l'(2) len unfolding cut_to_active_def sw n by (simp_all only: cut min.cobounded1 n len nat_int)
  have k1: "listXsize l' 1 = int ?m" "take 33 (listX l' 1) = map Some (take ?m ys) @ replicate (33 - ?m) (no_reference_picture s)"
    using l'(3) len unfolding cut_to_active_def sw n by (simp_all only: cut min.cobounded1 n len nat_int)
  have "init_lists_b_slice (s, l) = Some (s, l')"
    using assms(1) l1 l' by (simp add: init_lists_b_slice_def)
  moreover have "ys = (if ps @ qs = qs @ ps \<and> 1 < length ?xs then swap_first ?zs else ?zs)"
    by (metis append_assoc append_same_eq ys_def)
  moreover have "distinct ?xs \<and> 1 < length ?xs \<longrightarrow> ys \<noteq> ?xs"
    using swap_first_neq [of ?zs] unfolding ys_def by (metis append_assoc append_same_eq)
  ultimately show ?thesis
    using sorts_poc_desc [OF l1(2)] sorts_poc_asc [OF l1(3)] sorts_lt_pic_num [OF l1(4)] k0 k1 by blast
qed

theorem init_lists_b_slice_frame_order_witness:
  "\<exists>ps qs l'. init_lists_b_slice (demo_refs, demo_lists) = Some (demo_refs, l') \<and> mset ps = {#3, 4#} \<and> qs = [5] \<and>
    sorted_wrt (\<lambda>p q. pic_poc (m_PIC demo_refs p) \<ge> pic_poc (m_PIC demo_refs q)) ps \<and> listXsize l' 1 = 4"
proof -
  have c: "8 = framepoc (mSlice demo_refs)"
    by (simp add: demo_refs_def)
  have f: "frames_of demo_refs (\<lambda>p. is_short_ref p \<and> 8 \<ge> pic_poc p) [3, 4, 5] = [3, 4]"
    "frames_of demo_refs (\<lambda>p. is_short_ref p \<and> 8 < pic_poc p) [3, 4, 5] = [5]" "frames_of demo_refs pic_is_long_term [9] = [9]"
    by (simp_all add: frames_of_def is_short_ref_def demo_refs_def demo_pic_def)
  have p: "length [3, 4, 5 :: nat] + length [9 :: nat] \<le> 33" "33 \<le> length (listX demo_lists 0)"
    "33 \<le> length (listX demo_lists 1)" "0 \<le> num_ref_idx_active demo_lists 0" "0 \<le> num_ref_idx_active demo_lists 1"
    by (simp_all add: demo_lists_valid)
  obtain ps qs rs ys l' m where r: "init_lists_b_slice (demo_refs, demo_lists) = Some (demo_refs, l')"
    "mset ps = mset [3, 4]" "sorted_wrt (\<lambda>p q. pic_poc (m_PIC demo_refs p) \<ge> pic_poc (m_PIC demo_refs q)) ps"
    "mset qs = mset [5]" "mset rs = mset [9]"
    "m = min (length ys) (nat (num_ref_idx_active demo_lists 1))" "listXsize l' 1 = int m"
    "ys = (if ps @ qs = qs @ ps \<and> 1 < length (ps @ qs @ rs) then swap_first (qs @ ps @ rs) else qs @ ps @ rs)"
    using init_lists_b_slice_frame_order [OF demo_refs_lists(4) c demo_refs_lists(1,2,3,3) p] unfolding f by blast
  have "length ps = 2" "length qs = 1" "length rs = 1"
    using mset_eq_length [OF r(2)] mset_eq_length [OF r(4)] mset_eq_length [OF r(5)] by simp_all
  then have "m = 4"
    unfolding r(6,8) by (simp add: demo_lists_valid)
  then show ?thesis
    using r by (intro exI [of _ ps] exI [of _ l']) (simp add: add_mset_commute)
qed

section \<open>Numbers of the reordering commands\<close>

text \<open>A short-term reordering command keeps the predicted picture number within one period and
  congruent to the prediction minus or plus the coded difference, and the number it names lies in the last
  period up to the current picture number, as the numbers of the short-term pictures do.\<close>

theorem pic_num_in_period:
  assumes "0 \<le> pred" "pred < maxP" "0 \<le> diff" "diff < maxP" "0 \<le> cur" "cur < maxP"
  shows "0 \<le> pic_num_no_wrap idc maxP pred diff \<and> pic_num_no_wrap idc maxP pred diff < maxP \<and>
    pic_num_no_wrap idc maxP pred diff mod maxP =
      (if idc = 0 then pred - (diff + 1) else pred + (diff + 1)) mod maxP \<and>
    cur - maxP < pic_num_wrapped maxP cur (pic_num_no_wrap idc maxP pred diff) \<and>
    pic_num_wrapped maxP cur (pic_num_no_wrap idc maxP pred diff) \<le> cur"
proof -
  have "pic_num_no_wrap idc maxP pred diff mod maxP = (if idc = 0 then pred - (diff + 1) else pred + (diff + 1)) mod maxP"
    by (simp add: pic_num_no_wrap_def)
  moreover have "0 \<le> pic_num_no_wrap idc maxP pred diff" "pic_num_no_wrap idc maxP pred diff < maxP"
    using assms by (simp_all add: pic_num_no_wrap_def)
  moreover have "cur - maxP < pic_num_wrapped maxP cur n \<and> pic_num_wrapped maxP cur n \<le> cur" if "0 \<le> n" "n < maxP" for n
    using that assms by (simp add: pic_num_wrapped_def)
  ultimately show ?thesis
    by blast
qed

theorem pic_num_in_period_witness:
  "pic_num_no_wrap 0 16 2 4 = 13 \<and> pic_num_wrapped 16 5 13 = - 3 \<and> - 11 < pic_num_wrapped 16 5 (pic_num_no_wrap 0 16 2 4)"
  using pic_num_in_period [of 2 16 4 5 0] by (simp add: pic_num_no_wrap_def pic_num_wrapped_def)

section \<open>The check of the lists\<close>

text \<open>An entry that the hardware may use: a picture of a store of the buffer whose frame was decoded.\<close>

definition good_entry :: "h264_dpb \<Rightarrow> nat option \<Rightarrow> bool" where
  "good_entry s e \<longleftrightarrow> (\<exists>p. e = Some p \<and> is_pic_in_dpb s p \<and> \<not> opt_pic s (pic_frame (m_PIC s p)) pic_non_existing)"

lemma check_list_0:
  "a \<noteq> 0 \<Longrightarrow> b \<noteq> 0 \<Longrightarrow> c \<noteq> 0 \<Longrightarrow> (check_list s a b c es = 0) = (\<forall>e\<in>set es. good_entry s e)"
  by (induction s a b c es rule: check_list.induct) (auto simp: good_entry_def)

text \<open>The check of the lists of a slice reports no error exactly when every active entry is a picture
  of the buffer that was decoded, in list 0 for P and B slices and in list 1 for B slices, or
  when the picture precedes the first one shown after a broken start, which is skipped.\<close>

theorem dpb_check_ref_list_error_0:
  "dpb_check_ref_list_error dec (s, l) = 0 \<longleftrightarrow>
     first_insert_frame s = FirstInsertFrm_OUT \<and> opt_pic s dec (\<lambda>p. first_output_poc s > pic_poc p) \<or>
     (sl_slice_type (mSlice s) \<noteq> I_SLICE \<and> sl_slice_type (mSlice s) \<noteq> SI_SLICE \<longrightarrow>
        (\<forall>e\<in>set (take (nat (listXsize l 0)) (listX l 0)). good_entry s e)) \<and>
     (sl_slice_type (mSlice s) = B_SLICE \<longrightarrow>
        (\<forall>e\<in>set (take (nat (listXsize l 1)) (listX l 1)). good_entry s e))"
  by (auto simp: dpb_check_ref_list_error_def Let_def check_list_0)

text \<open>A P slice whose list holds the frames 5, 4, 3 and 9, which are in the buffer, and one whose
  second frame was filled into a gap of the frame numbers.\<close>

theorem dpb_check_ref_list_error_0_witness:
  "dpb_check_ref_list_error None (demo_refs\<lparr>mSlice := (mSlice demo_refs)\<lparr>sl_slice_type := P_SLICE\<rparr>,
     dpb_fs := [3, 4, 5, 9], used_size := 4\<rparr>, demo_lists) = 0 \<and>
   dpb_check_ref_list_error None (demo_refs\<lparr>mSlice := (mSlice demo_refs)\<lparr>sl_slice_type := P_SLICE\<rparr>,
     dpb_fs := [3, 5, 9, 4], used_size := 3\<rparr>, demo_lists) \<noteq> 0"
  unfolding dpb_check_ref_list_error_0
  by (simp add: demo_lists_def demo_refs_def demo_dpb_def demo_fs_def demo_pic_def opt_pic_def P_SLICE_def I_SLICE_def
      B_SLICE_def SI_SLICE_def good_entry_def is_pic_in_dpb_def used_fs_def)

end
