(* ===== verification/AV1_Bufmgr.thy ===== *)
theory AV1_Bufmgr
  imports Prelude
begin

text \<open>
  The frame buffers of the AV1 decoder (\<open>vav1/av1_bufmgr.c\<close>, \<open>av1_global.h\<close>, and
  \<open>get_free_fb\<close> of \<open>vav1.c\<close>): the pool of counted buffers, the map of the eight reference
  frames, the map of the next frame, the current frame and the output queue.

  A pointer to a buffer is an index of the pool, or \<open>None\<close> for the null pointer. An operation that
  would read through a null pointer or outside an array gives \<open>None\<close>. The function
  \<open>aom_internal_error\<close> only stores its code, because the jump out of the decoder is not built;
  the code after it runs on. Locks, the colour description and the film grain registers are left
  out, and releasing a raw buffer does nothing in this driver.
\<close>

section \<open>Constants\<close>

definition REF_FRAMES :: nat where "REF_FRAMES = 8"
definition INTER_REFS_PER_FRAME :: nat where "INTER_REFS_PER_FRAME = 7"
definition FRAME_BUFFERS :: nat where "FRAME_BUFFERS = REF_FRAMES + 1 + INTER_REFS_PER_FRAME"
definition MAX_NUM_SPATIAL_LAYERS :: nat where "MAX_NUM_SPATIAL_LAYERS = 4"
definition INVALID_IDX :: int where "INVALID_IDX = - 1"
definition PRIMARY_REF_NONE :: int where "PRIMARY_REF_NONE = 7"

text \<open>Frame types.\<close>

definition KEY_FRAME :: int where "KEY_FRAME = 0"
definition INTRA_ONLY_FRAME :: int where "INTRA_ONLY_FRAME = 2"
definition S_FRAME :: int where "S_FRAME = 3"

text \<open>Reference labels.\<close>

definition LAST_FRAME :: nat where "LAST_FRAME = 1"
definition LAST2_FRAME :: nat where "LAST2_FRAME = 2"
definition LAST3_FRAME :: nat where "LAST3_FRAME = 3"
definition GOLDEN_FRAME :: nat where "GOLDEN_FRAME = 4"
definition BWDREF_FRAME :: nat where "BWDREF_FRAME = 5"
definition ALTREF2_FRAME :: nat where "ALTREF2_FRAME = 6"
definition ALTREF_FRAME :: nat where "ALTREF_FRAME = 7"

text \<open>Error codes.\<close>

definition AOM_CODEC_OK :: int where "AOM_CODEC_OK = 0"
definition AOM_CODEC_MEM_ERROR :: int where "AOM_CODEC_MEM_ERROR = 2"
definition AOM_CODEC_UNSUP_BITSTREAM :: int where "AOM_CODEC_UNSUP_BITSTREAM = 5"
definition AOM_CODEC_CORRUPT_FRAME :: int where "AOM_CODEC_CORRUPT_FRAME = 7"

section \<open>State\<close>

record RefCntBuffer =
  ref_count :: int
  rb_order_hint :: int
  ref_order_hints :: "int list"
  rb_mi_rows :: int
  rb_mi_cols :: int
  rb_width :: int
  rb_height :: int
  rb_dec_width :: int
  rb_show_frame :: bool
  rb_showable_frame :: bool
  rb_frame_type :: int
  pb_index :: int
  vf_ref :: int
  pb_order_hint :: int
  y_crop_width :: int
  y_crop_height :: int
  pb_render_width :: int
  pb_render_height :: int
  pb_bit_depth :: int
  pb_subsampling_x :: int
  pb_subsampling_y :: int
  pb_corrupted :: bool

text \<open>The last field stands for the fields that do not reach the buffers: two headers are compared as a whole.\<close>

record SequenceHeader =
  still_picture :: bool
  reduced_still_picture_hdr :: bool
  frame_id_numbers_present_flag :: bool
  frame_id_length :: int
  delta_frame_id_length :: int
  max_frame_width :: int
  max_frame_height :: int
  sq_bit_depth :: int
  sq_subsampling_x :: int
  sq_subsampling_y :: int
  enable_order_hint :: bool
  order_hint_bits_minus_1 :: int
  enable_ref_frame_mvs :: bool
  sq_other :: "int list"

record CurrentFrame =
  cf_frame_type :: int
  cf_reference_mode :: bool
  cf_order_hint :: int
  cf_frame_number :: int
  refresh_frame_flags :: int
  skip_mode_allowed :: bool
  ref_frame_idx_0 :: int
  ref_frame_idx_1 :: int

record scale_factors =
  x_scale_fp :: int
  y_scale_fp :: int
  x_step_q4 :: int
  y_step_q4 :: int

record AV1 =
  frame_bufs :: "nat \<Rightarrow> RefCntBuffer"
  ref_frame_map :: "nat option list"
  next_ref_frame_map :: "nat option list"
  next_used_ref_frame_map :: "nat option list"
  cur_frame :: "nat option"
  prev_frame :: "nat option"
  output_frames :: "nat option list"
  num_output_frames :: nat
  output_all_layers :: bool
  large_scale_tile :: bool
  ext_tile_debug :: bool
  camera_frame_header_ready :: bool
  hold_ref_buf :: bool
  need_resync :: bool
  decoding_first_frame :: bool
  reset_decoder_state :: bool
  sequence_header_ready :: bool
  sequence_header_changed :: bool
  seen_frame_header :: bool
  error_code :: int
  seq_params :: SequenceHeader
  current_frame :: CurrentFrame
  last_frame_type :: int
  show_frame :: bool
  showable_frame :: bool
  show_existing_frame :: bool
  error_resilient_mode :: bool
  primary_ref_frame :: int
  allow_ref_frame_mvs :: bool
  current_frame_id :: int
  ref_frame_id :: "int list"
  valid_for_referencing :: "bool list"
  remapped_ref_idx :: "int list"
  ref_frame_sign_bias :: "int list"
  ref_scale_factors :: "scale_factors list"
  cm_width :: int
  cm_height :: int
  cm_dec_width :: int
  cm_render_width :: int
  cm_render_height :: int
  superres_upscaled_width :: int
  superres_upscaled_height :: int
  mi_rows :: int
  mi_cols :: int
  mi_stride :: int
  ref_frame_side :: "int list"
  mv_ref_id :: "nat list"
  mv_ref_offset :: "int list list"
  mv_cal_tpl_mvs :: "bool list"

text \<open>The parameters that the firmware parsed from a frame header.\<close>

record av1_params =
  p_show_existing_frame :: bool
  p_existing_frame_idx :: nat
  p_display_frame_id :: int
  p_frame_type :: int
  p_show_frame :: bool
  p_showable_frame :: bool
  p_error_resilient_mode :: bool
  p_current_frame_id :: int
  p_frame_size_override_flag :: bool
  p_order_hint :: int
  p_primary_ref_frame :: int
  p_refresh_frame_flags :: int
  p_ref_order_hint :: "int list"
  p_frame_refs_short_signaling :: bool
  p_lst_ref :: nat
  p_gld_ref :: nat
  p_remapped_ref_idx :: "nat list"
  p_delta_frame_id_minus_1 :: "int list"
  p_valid_ref_frame_bits :: int
  p_frame_width :: int
  p_frame_height :: int
  p_dec_frame_width :: int
  p_frame_width_scaled :: int
  p_allow_ref_frame_mvs :: bool
  p_reference_mode :: bool

definition upd_buf :: "nat \<Rightarrow> (RefCntBuffer \<Rightarrow> RefCntBuffer) \<Rightarrow> AV1 \<Rightarrow> AV1" where
  "upd_buf i f s = s\<lparr>frame_bufs := (frame_bufs s)(i := f (frame_bufs s i))\<rparr>"

definition aom_internal_error :: "int \<Rightarrow> AV1 \<Rightarrow> AV1" where
  "aom_internal_error code s = s\<lparr>error_code := code\<rparr>"

definition error_if :: "bool \<Rightarrow> int \<Rightarrow> AV1 \<Rightarrow> AV1" where
  "error_if b code s = (if b then aom_internal_error code s else s)"

section \<open>Reference counts\<close>

definition add_ref :: "int \<Rightarrow> nat option \<Rightarrow> AV1 \<Rightarrow> AV1" where
  "add_ref d p s = (case p of None \<Rightarrow> s | Some i \<Rightarrow> upd_buf i (\<lambda>b. b\<lparr>ref_count := ref_count b + d\<rparr>) s)"

definition decrease_ref_count :: "nat option \<Rightarrow> AV1 \<Rightarrow> AV1" where
  "decrease_ref_count p s = add_ref (- 1) p s"

definition get_free_fb :: "AV1 \<Rightarrow> nat option \<times> AV1" where
  "get_free_fb s =
     (case find (\<lambda>i. ref_count (frame_bufs s i) = 0 \<and> vf_ref (frame_bufs s i) = 0) [0..<FRAME_BUFFERS] of
        None \<Rightarrow> (None, s)
      | Some i \<Rightarrow> (Some i, upd_buf i (\<lambda>b. b\<lparr>ref_count := 1\<rparr>) s))"

text \<open>A buffer that the display holds is counted apart, by the call that queues it and by the
  callback that takes it back; the debug mask that turns this off is not set.\<close>

definition av1_inc_vf_ref :: "nat \<Rightarrow> AV1 \<Rightarrow> AV1" where
  "av1_inc_vf_ref i s = upd_buf i (\<lambda>b. b\<lparr>vf_ref := vf_ref b + 1\<rparr>) s"

definition vav1_vf_put :: "nat \<Rightarrow> nat \<Rightarrow> AV1 \<Rightarrow> AV1" where
  "vav1_vf_put used_buf_num i s =
     (if i < used_buf_num \<and> vf_ref (frame_bufs s i) > 0 then upd_buf i (\<lambda>b. b\<lparr>vf_ref := vf_ref b - 1\<rparr>) s else s)"

text \<open>The result is the new current frame, null when the pool is exhausted.\<close>

text \<open>The buffer of a new frame comes from \<open>get_free_fb\<close>; the branch of \<open>assign_cur_frame_new_fb\<close>
  for V4L2 (\<open>is_used_v4l\<close>), which asks the V4L2 queue for a buffer, is not modelled.\<close>

definition assign_cur_frame_new_fb :: "AV1 \<Rightarrow> AV1" where
  "assign_cur_frame_new_fb s =
     (let s = (decrease_ref_count (cur_frame s) s)\<lparr>cur_frame := None\<rparr>
      in case get_free_fb s of
           (None, s) \<Rightarrow> s
         | (Some i, s) \<Rightarrow> upd_buf i (\<lambda>b. b\<lparr>pb_index := int i\<rparr>) (s\<lparr>cur_frame := Some i\<rparr>))"

text \<open>\<open>assign_frame_buffer_p\<close> with the current frame as the pointer that changes.\<close>

definition assign_frame_buffer_p :: "nat \<Rightarrow> AV1 \<Rightarrow> AV1" where
  "assign_frame_buffer_p rhs s =
     add_ref 1 (Some rhs) ((add_ref (- 1) (cur_frame s) s)\<lparr>cur_frame := Some rhs\<rparr>)"

text \<open>The number of rounds of a loop over the bits of a mask, and the eight places the loops over
  the refresh flags reach.\<close>

function mask_len :: "int \<Rightarrow> nat" where
  "mask_len m = (if m \<le> 0 then 0 else Suc (mask_len (m div 2)))"
  by pat_completeness auto
termination by (relation "measure nat") auto

declare mask_len.simps [simp del]

text \<open>One round of the transfer loops of \<open>swap_frame_buffers\<close>.\<close>

definition transfer_ref :: "nat \<Rightarrow> AV1 \<Rightarrow> AV1" where
  "transfer_ref i s =
     (decrease_ref_count (ref_frame_map s ! i) s)
       \<lparr>ref_frame_map := (ref_frame_map s)[i := next_ref_frame_map s ! i],
        next_ref_frame_map := (next_ref_frame_map s)[i := None]\<rparr>"

definition transfer_refs :: "AV1 \<Rightarrow> AV1 option" where
  "transfer_refs s =
     (let n = mask_len (refresh_frame_flags (current_frame s))
      in if n > REF_FRAMES then None
         else Some (fold transfer_ref
           (if \<not> show_existing_frame s \<or> reset_decoder_state s then [0..<REF_FRAMES] else [0..<n]) s))"

text \<open>A shown frame goes to the output.\<close>

definition output_frame :: "AV1 \<Rightarrow> AV1 option" where
  "output_frame s =
     (if output_all_layers s then
        (if num_output_frames s \<ge> MAX_NUM_SPATIAL_LAYERS then
           (case cur_frame s of None \<Rightarrow> None
            | Some i \<Rightarrow> Some ((decrease_ref_count (Some i) (upd_buf i (\<lambda>b. b\<lparr>pb_corrupted := True\<rparr>) s))
                \<lparr>error_code := AOM_CODEC_UNSUP_BITSTREAM\<rparr>))
         else Some (s\<lparr>output_frames := (output_frames s)[num_output_frames s := cur_frame s],
                     num_output_frames := num_output_frames s + 1\<rparr>))
      else
        (let s = (if num_output_frames s > 0 then decrease_ref_count (output_frames s ! 0) s else s)
         in Some (if cur_frame s \<noteq> None
                  then s\<lparr>output_frames := (output_frames s)[0 := cur_frame s], num_output_frames := 1\<rparr> else s)))"

definition invalidate_remapped :: "AV1 \<Rightarrow> AV1" where
  "invalidate_remapped s = s\<lparr>remapped_ref_idx := map (\<lambda>i. if i < INTER_REFS_PER_FRAME then INVALID_IDX
     else remapped_ref_idx s ! i) [0..<length (remapped_ref_idx s)]\<rparr>"

definition swap_frame_buffers :: "bool \<Rightarrow> AV1 \<Rightarrow> AV1 option" where
  "swap_frame_buffers frame_decoded s = do {
     s \<leftarrow> (if frame_decoded then do {
            s \<leftarrow> (if \<not> camera_frame_header_ready s then transfer_refs s else Some s);
            if show_existing_frame s \<or> show_frame s then output_frame s
            else Some (decrease_ref_count (cur_frame s) s)
          }
          else Some (decrease_ref_count (cur_frame s) s));
     let s = s\<lparr>cur_frame := None\<rparr>;
     Some (if camera_frame_header_ready s then s
           else invalidate_remapped (s\<lparr>hold_ref_buf := False\<rparr>))
   }"

definition release_output :: "AV1 \<Rightarrow> AV1" where
  "release_output s = (fold decrease_ref_count (take (num_output_frames s) (output_frames s)) s)\<lparr>num_output_frames := 0\<rparr>"

definition clear_frame_buf_ref_count :: "AV1 \<Rightarrow> AV1" where
  "clear_frame_buf_ref_count s = release_output s"

definition reset_ref_step :: "nat \<Rightarrow> AV1 \<Rightarrow> AV1" where
  "reset_ref_step i s =
     (decrease_ref_count (ref_frame_map s ! i) s)
       \<lparr>ref_frame_map := (ref_frame_map s)[i := None],
        next_used_ref_frame_map := (next_used_ref_frame_map s)[i := None]\<rparr>"

definition reset_ref_frame_map :: "AV1 \<Rightarrow> AV1" where
  "reset_ref_frame_map s = fold reset_ref_step [0..<REF_FRAMES] s"

text \<open>Both loops of \<open>generate_next_ref_frame_map\<close>: beyond the last set flag the bit is clear.\<close>

definition next_ref_step :: "nat \<Rightarrow> AV1 \<Rightarrow> AV1" where
  "next_ref_step i s =
     (let p = (if bit (refresh_frame_flags (current_frame s)) i then cur_frame s else ref_frame_map s ! i)
      in add_ref 1 p (s\<lparr>next_ref_frame_map := (next_ref_frame_map s)[i := p]\<rparr>))"

definition generate_next_ref_frame_map :: "AV1 \<Rightarrow> AV1 option" where
  "generate_next_ref_frame_map s =
     (if mask_len (refresh_frame_flags (current_frame s)) > REF_FRAMES then None
      else Some ((fold next_ref_step [0..<REF_FRAMES] s)\<lparr>hold_ref_buf := True\<rparr>))"

definition update_ref_frame_id :: "int \<Rightarrow> AV1 \<Rightarrow> AV1" where
  "update_ref_frame_id frame_id s =
     (let f = refresh_frame_flags (current_frame s)
      in s\<lparr>ref_frame_id := map (\<lambda>i. if bit f i then frame_id else ref_frame_id s ! i) [0..<REF_FRAMES],
           valid_for_referencing := map (\<lambda>i. bit f i \<or> valid_for_referencing s ! i) [0..<REF_FRAMES]\<rparr>)"

definition resync :: "AV1 \<Rightarrow> AV1" where
  "resync s = (if need_resync s then (reset_ref_frame_map s)\<lparr>need_resync := False\<rparr> else s)"

definition show_existing_frame_reset :: "nat \<Rightarrow> AV1 \<Rightarrow> AV1 option" where
  "show_existing_frame_reset existing_frame_idx s =
     (let s = s\<lparr>current_frame := (current_frame s)\<lparr>cf_frame_type := KEY_FRAME, refresh_frame_flags := 2 ^ REF_FRAMES - 1\<rparr>\<rparr>;
          s = resync (invalidate_remapped s);
          s = (if frame_id_numbers_present_flag (seq_params s)
               then let i = ref_frame_id s ! existing_frame_idx in update_ref_frame_id i (s\<lparr>current_frame_id := i\<rparr>)
               else s)
      in generate_next_ref_frame_map s)"

definition clear_unreferenced :: "AV1 \<Rightarrow> AV1" where
  "clear_unreferenced s = s\<lparr>frame_bufs := (\<lambda>i. let b = frame_bufs s i in
     if i < FRAME_BUFFERS \<and> (ref_count b \<le> 0 \<or> cur_frame s = Some i)
     then b\<lparr>rb_order_hint := 0, ref_order_hints := replicate INTER_REFS_PER_FRAME 0\<rparr> else b)\<rparr>"

definition reset_frame_buffers :: "AV1 \<Rightarrow> AV1" where
  "reset_frame_buffers s =
     clear_unreferenced (reset_ref_frame_map (s\<lparr>next_ref_frame_map := replicate REF_FRAMES None\<rparr>))"

end
