(* ===== verification/AV1_Refs.thy ===== *)
theory AV1_Refs
  imports AV1_Bufmgr H264_Qsort
begin

text \<open>
  Order hints, frame sizes and the choice of the references of an AV1 frame
  (\<open>vav1/av1_bufmgr.c\<close>). The sorting routine of that file is the one of \<open>H264_Qsort\<close>, text for
  text. The remapped indices that are stored are \<open>INVALID_IDX\<close> or below eight: the header code,
  which stores them, stops where one would not be.
\<close>

section \<open>References of the current frame\<close>

definition frame_is_intra_only :: "AV1 \<Rightarrow> bool" where
  "frame_is_intra_only s \<longleftrightarrow>
     cf_frame_type (current_frame s) = KEY_FRAME \<or> cf_frame_type (current_frame s) = INTRA_ONLY_FRAME"

definition frame_is_sframe :: "AV1 \<Rightarrow> bool" where
  "frame_is_sframe s \<longleftrightarrow> cf_frame_type (current_frame s) = S_FRAME"

definition get_ref_frame_map_idx :: "AV1 \<Rightarrow> nat \<Rightarrow> int" where
  "get_ref_frame_map_idx s ref_frame =
     (if LAST_FRAME \<le> ref_frame \<and> ref_frame \<le> REF_FRAMES then remapped_ref_idx s ! (ref_frame - LAST_FRAME)
      else INVALID_IDX)"

definition get_ref_frame_buf :: "AV1 \<Rightarrow> nat \<Rightarrow> nat option" where
  "get_ref_frame_buf s ref_frame =
     (let map_idx = get_ref_frame_map_idx s ref_frame
      in if map_idx \<noteq> INVALID_IDX then ref_frame_map s ! nat map_idx else None)"

definition get_primary_ref_frame_buf :: "AV1 \<Rightarrow> nat option" where
  "get_primary_ref_frame_buf s =
     (if primary_ref_frame s = PRIMARY_REF_NONE then None
      else get_ref_frame_buf s (nat (primary_ref_frame s + 1)))"

definition get_relative_dist :: "SequenceHeader \<Rightarrow> int \<Rightarrow> int \<Rightarrow> int" where
  "get_relative_dist oh a b =
     (if \<not> enable_order_hint oh then 0
      else let bits = order_hint_bits_minus_1 oh + 1; diff = a - b; m = 2 ^ nat (bits - 1)
           in (diff AND (m - 1)) - (diff AND m))"

section \<open>Sizes and scales\<close>

definition valid_ref_frame_size :: "int \<Rightarrow> int \<Rightarrow> int \<Rightarrow> int \<Rightarrow> bool" where
  "valid_ref_frame_size ref_width ref_height this_width this_height \<longleftrightarrow>
     2 * this_width \<ge> ref_width \<and> 2 * this_height \<ge> ref_height \<and>
     this_width \<le> 16 * ref_width \<and> this_height \<le> 16 * ref_height"

definition REF_SCALE_SHIFT :: nat where "REF_SCALE_SHIFT = 14"
definition REF_NO_SCALE :: int where "REF_NO_SCALE = 2 ^ REF_SCALE_SHIFT"
definition REF_INVALID_SCALE :: int where "REF_INVALID_SCALE = - 1"
definition SUBPEL_BITS :: nat where "SUBPEL_BITS = 4"
definition SCALE_SUBPEL_BITS :: nat where "SCALE_SUBPEL_BITS = 10"
definition SCALE_EXTRA_BITS :: nat where "SCALE_EXTRA_BITS = SCALE_SUBPEL_BITS - SUBPEL_BITS"

definition ROUND_POWER_OF_TWO :: "int \<Rightarrow> nat \<Rightarrow> int" where
  "ROUND_POWER_OF_TWO v n = (v + 2 ^ n div 2) div 2 ^ n"

definition ROUND_POWER_OF_TWO_SIGNED_64 :: "int \<Rightarrow> nat \<Rightarrow> int" where
  "ROUND_POWER_OF_TWO_SIGNED_64 v n = (if v < 0 then - ROUND_POWER_OF_TWO (- v) n else ROUND_POWER_OF_TWO v n)"

definition get_fixed_point_scale_factor :: "int \<Rightarrow> int \<Rightarrow> int" where
  "get_fixed_point_scale_factor other_size this_size = cdiv (other_size * 2 ^ REF_SCALE_SHIFT + cdiv this_size 2) this_size"

definition fixed_point_scale_to_coarse_point_scale :: "int \<Rightarrow> int" where
  "fixed_point_scale_to_coarse_point_scale scale_fp = ROUND_POWER_OF_TWO scale_fp (REF_SCALE_SHIFT - SCALE_SUBPEL_BITS)"

definition av1_is_valid_scale :: "scale_factors \<Rightarrow> bool" where
  "av1_is_valid_scale sf \<longleftrightarrow> x_scale_fp sf \<noteq> REF_INVALID_SCALE \<and> y_scale_fp sf \<noteq> REF_INVALID_SCALE"

definition av1_is_scaled :: "scale_factors \<Rightarrow> bool" where
  "av1_is_scaled sf \<longleftrightarrow> av1_is_valid_scale sf \<and> (x_scale_fp sf \<noteq> REF_NO_SCALE \<or> y_scale_fp sf \<noteq> REF_NO_SCALE)"

text \<open>\<open>scaled_x\<close> or \<open>scaled_y\<close> on the scale of the direction, and \<open>unscaled_value\<close>.\<close>

definition scaled :: "int \<Rightarrow> int \<Rightarrow> int" where
  "scaled scale_fp v =
     (let off = (scale_fp - 2 ^ REF_SCALE_SHIFT) * 2 ^ (SUBPEL_BITS - 1)
      in ROUND_POWER_OF_TWO_SIGNED_64 (v * scale_fp + off) (REF_SCALE_SHIFT - SCALE_EXTRA_BITS))"

definition unscaled_value :: "int \<Rightarrow> int" where
  "unscaled_value v = v * 2 ^ SCALE_EXTRA_BITS"

definition scale_value_x :: "scale_factors \<Rightarrow> int \<Rightarrow> int" where
  "scale_value_x sf v = (if av1_is_scaled sf then scaled (x_scale_fp sf) v else unscaled_value v)"

definition av1_setup_scale_factors_for_frame :: "int \<Rightarrow> int \<Rightarrow> int \<Rightarrow> int \<Rightarrow> scale_factors \<Rightarrow> scale_factors" where
  "av1_setup_scale_factors_for_frame other_w other_h this_w this_h sf =
     (if \<not> valid_ref_frame_size other_w other_h this_w this_h
      then sf\<lparr>x_scale_fp := REF_INVALID_SCALE, y_scale_fp := REF_INVALID_SCALE\<rparr>
      else let x = get_fixed_point_scale_factor other_w this_w; y = get_fixed_point_scale_factor other_h this_h
           in sf\<lparr>x_scale_fp := x, y_scale_fp := y, x_step_q4 := fixed_point_scale_to_coarse_point_scale x,
                 y_step_q4 := fixed_point_scale_to_coarse_point_scale y\<rparr>)"

definition MI_SIZE_LOG2 :: nat where "MI_SIZE_LOG2 = 2"
definition MAX_MIB_SIZE_LOG2 :: nat where "MAX_MIB_SIZE_LOG2 = 5"

definition ALIGN_POWER_OF_TWO :: "int \<Rightarrow> nat \<Rightarrow> int" where
  "ALIGN_POWER_OF_TWO v n = (v + (2 ^ n - 1)) div 2 ^ n * 2 ^ n"

definition av1_set_mb_mi :: "int \<Rightarrow> int \<Rightarrow> AV1 \<Rightarrow> AV1" where
  "av1_set_mb_mi width height s =
     (let cols = ALIGN_POWER_OF_TWO width 3 div 2 ^ MI_SIZE_LOG2
      in s\<lparr>mi_cols := cols, mi_rows := ALIGN_POWER_OF_TWO height 3 div 2 ^ MI_SIZE_LOG2,
           mi_stride := ALIGN_POWER_OF_TWO cols MAX_MIB_SIZE_LOG2\<rparr>)"

text \<open>Both branches of the code set the sizes in the same way, because the allocation in one of them
  is not built.\<close>

definition resize_context_buffers :: "int \<Rightarrow> int \<Rightarrow> AV1 \<Rightarrow> AV1 option" where
  "resize_context_buffers width height s = do {
     let s = (if cm_width s \<noteq> width \<or> cm_height s \<noteq> height
              then (av1_set_mb_mi width height s)\<lparr>cm_width := width, cm_height := height\<rparr> else s);
     i \<leftarrow> cur_frame s;
     Some (upd_buf i (\<lambda>b. b\<lparr>rb_width := cm_width s, rb_height := cm_height s\<rparr>) s)
   }"

definition aom_realloc_frame_buffer :: "nat \<Rightarrow> int \<Rightarrow> int \<Rightarrow> int \<Rightarrow> AV1 \<Rightarrow> AV1" where
  "aom_realloc_frame_buffer i width height order_hint s =
     upd_buf i (\<lambda>b. b\<lparr>y_crop_width := width, y_crop_height := height, pb_order_hint := order_hint\<rparr>) s"

definition setup_buffer_pool :: "AV1 \<Rightarrow> AV1 option" where
  "setup_buffer_pool s = do {
     i \<leftarrow> cur_frame s;
     let s = aom_realloc_frame_buffer i (cm_width s) (cm_height s) (rb_order_hint (frame_bufs s i)) s;
     Some (upd_buf i (\<lambda>b. b\<lparr>pb_bit_depth := sq_bit_depth (seq_params s), pb_render_width := cm_render_width s,
       pb_render_height := cm_render_height s\<rparr>) s)
   }"

text \<open>The firmware gives the scaled sizes; the width to decode is the second component.\<close>

definition setup_superres :: "av1_params \<Rightarrow> AV1 \<Rightarrow> AV1" where
  "setup_superres p s = s\<lparr>superres_upscaled_width := p_frame_width_scaled p, superres_upscaled_height := p_frame_height p\<rparr>"

definition setup_frame_size :: "bool \<Rightarrow> av1_params \<Rightarrow> AV1 \<Rightarrow> AV1 option" where
  "setup_frame_size frame_size_override_flag p s = do {
     let s = s\<lparr>cm_dec_width := p_dec_frame_width p\<rparr>;
     let s = error_if (frame_size_override_flag \<and>
       (p_frame_width p > max_frame_width (seq_params s) \<or> p_frame_height p > max_frame_height (seq_params s)))
       AOM_CODEC_CORRUPT_FRAME s;
     let s = setup_superres p s;
     s \<leftarrow> resize_context_buffers (p_dec_frame_width p) (p_frame_height p) s;
     setup_buffer_pool s
   }"

definition valid_ref_frame_img_fmt :: "int \<Rightarrow> int \<Rightarrow> int \<Rightarrow> int \<Rightarrow> int \<Rightarrow> int \<Rightarrow> bool" where
  "valid_ref_frame_img_fmt ref_bit_depth ref_xss ref_yss this_bit_depth this_xss this_yss \<longleftrightarrow>
     ref_bit_depth = this_bit_depth \<and> ref_xss = this_xss \<and> ref_yss = this_yss"

text \<open>The loop over the bits that name the reference with the size of the frame: the first one that
  is not null gives the render size.\<close>

fun size_from_ref :: "av1_params \<Rightarrow> nat list \<Rightarrow> AV1 \<Rightarrow> bool \<times> AV1" where
  "size_from_ref p [] s = (False, s)"
| "size_from_ref p (i # is) s =
     (if bit (p_valid_ref_frame_bits p) i then
        (case get_ref_frame_buf s i of
           None \<Rightarrow> size_from_ref p is (aom_internal_error AOM_CODEC_CORRUPT_FRAME s)
         | Some b \<Rightarrow> (True, s\<lparr>cm_render_width := pb_render_width (frame_bufs s b), cm_render_height := pb_render_height (frame_bufs s b)\<rparr>))
      else size_from_ref p is s)"

definition setup_frame_size_with_refs :: "av1_params \<Rightarrow> AV1 \<Rightarrow> AV1 option" where
  "setup_frame_size_with_refs p s = do {
     let (found, s) = size_from_ref p [LAST_FRAME..<ALTREF_FRAME + 1] s;
     let s = (if found then s else s\<lparr>cm_dec_width := p_dec_frame_width p\<rparr>);
     let s = setup_superres p s;
     let width = p_dec_frame_width p;
     let height = p_frame_height p;
     s \<leftarrow> resize_context_buffers width height s;
     let s = error_if (width \<le> 0 \<or> height \<le> 0) AOM_CODEC_CORRUPT_FRAME s;
     let refs = List.map_filter (get_ref_frame_buf s) [LAST_FRAME..<ALTREF_FRAME + 1];
     let s = error_if (\<not> list_ex (\<lambda>b. valid_ref_frame_size (y_crop_width (frame_bufs s b)) (y_crop_height (frame_bufs s b)) width height) refs)
       AOM_CODEC_CORRUPT_FRAME s;
     let q = seq_params s;
     let s = error_if (list_ex (\<lambda>b. \<not> valid_ref_frame_img_fmt (pb_bit_depth (frame_bufs s b)) (pb_subsampling_x (frame_bufs s b))
         (pb_subsampling_y (frame_bufs s b)) (sq_bit_depth q) (sq_subsampling_x q) (sq_subsampling_y q)) refs)
       AOM_CODEC_CORRUPT_FRAME s;
     setup_buffer_pool s
   }"

section \<open>Choosing the references\<close>

record REF_FRAME_INFO =
  map_idx :: int
  ri_buf :: "nat option"
  sort_idx :: int

definition compare_ref_frame_info :: "REF_FRAME_INFO \<Rightarrow> REF_FRAME_INFO \<Rightarrow> int" where
  "compare_ref_frame_info a b =
     (let sort_idx_diff = sort_idx a - sort_idx b
      in if sort_idx_diff \<noteq> 0 then sort_idx_diff else map_idx a - map_idx b)"

definition cur_frame_sort_idx :: "AV1 \<Rightarrow> int" where
  "cur_frame_sort_idx s = 2 ^ nat (order_hint_bits_minus_1 (seq_params s))"

definition ref_frame_info :: "AV1 \<Rightarrow> nat \<Rightarrow> REF_FRAME_INFO" where
  "ref_frame_info s i =
     \<lparr>map_idx = int i, ri_buf = ref_frame_map s ! i,
      sort_idx = (case ref_frame_map s ! i of None \<Rightarrow> - 1
        | Some b \<Rightarrow>
            let offset = s32 (rb_order_hint (frame_bufs s b))
            in if offset = - 1 then - 1
               else cur_frame_sort_idx s + get_relative_dist (seq_params s) offset (s32 (cf_order_hint (current_frame s))))\<rparr>"

text \<open>The loop that separates unused, forward and backward references: the first forward and the last
  forward place.\<close>

fun split_refs :: "int \<Rightarrow> REF_FRAME_INFO list \<Rightarrow> int \<Rightarrow> int \<Rightarrow> int \<times> int" where
  "split_refs cur [] i fwd_start = (fwd_start, int REF_FRAMES - 1)"
| "split_refs cur (r # rs) i fwd_start =
     (if sort_idx r = - 1 then split_refs cur rs (i + 1) (fwd_start + 1)
      else if sort_idx r \<ge> cur then (fwd_start, i - 1)
      else split_refs cur rs (i + 1) fwd_start)"

text \<open>The remapped indices and the flags of the labels that have one.\<close>

type_synonym ref_choice = "int list \<times> bool list"

definition set_ref_frame_info :: "nat \<Rightarrow> REF_FRAME_INFO \<Rightarrow> ref_choice \<Rightarrow> ref_choice" where
  "set_ref_frame_info ref_frame info c =
     (case c of (r, f) \<Rightarrow> (r[ref_frame - LAST_FRAME := map_idx info], f[ref_frame - LAST_FRAME := True]))"

text \<open>The backward references: the farthest, the nearest and the second nearest one.\<close>

definition choose_backward :: "REF_FRAME_INFO list \<Rightarrow> int \<Rightarrow> ref_choice \<Rightarrow> ref_choice" where
  "choose_backward infos bwd_start c =
     (let bwd_end = int REF_FRAMES - 1;
          (c, bwd_end) = (if bwd_start \<le> bwd_end
            then (set_ref_frame_info ALTREF_FRAME (infos ! nat bwd_end) c, bwd_end - 1) else (c, bwd_end));
          (c, bwd_start) = (if bwd_start \<le> bwd_end
            then (set_ref_frame_info BWDREF_FRAME (infos ! nat bwd_start) c, bwd_start + 1) else (c, bwd_start))
      in if bwd_start \<le> bwd_end then set_ref_frame_info ALTREF2_FRAME (infos ! nat bwd_start) c else c)"

text \<open>The two forward references that the header names.\<close>

definition choose_named :: "int \<Rightarrow> int \<Rightarrow> REF_FRAME_INFO \<Rightarrow> ref_choice \<Rightarrow> ref_choice" where
  "choose_named lst gld info c =
     (let c = (if map_idx info = lst then set_ref_frame_info LAST_FRAME info c else c)
      in if map_idx info = gld then set_ref_frame_info GOLDEN_FRAME info c else c)"

definition ref_frame_list :: "nat list" where
  "ref_frame_list = [LAST2_FRAME, LAST3_FRAME, BWDREF_FRAME, ALTREF2_FRAME, ALTREF_FRAME]"

text \<open>The inner loop that passes over the named references, from the end.\<close>

function skip_named :: "REF_FRAME_INFO list \<Rightarrow> int \<Rightarrow> int \<Rightarrow> int \<Rightarrow> int \<Rightarrow> int" where
  "skip_named infos lst gld fwd_start fwd_end =
     (if fwd_start \<le> fwd_end \<and> (map_idx (infos ! nat fwd_end) = lst \<or> map_idx (infos ! nat fwd_end) = gld)
      then skip_named infos lst gld fwd_start (fwd_end - 1) else fwd_end)"
  by pat_completeness auto
termination by (relation "measure (\<lambda>(infos, lst, gld, fs, fe). nat (fe + 1 - fs))") auto

declare skip_named.simps [simp del]

fun fill_forward :: "REF_FRAME_INFO list \<Rightarrow> int \<Rightarrow> int \<Rightarrow> int \<Rightarrow> nat list \<Rightarrow> int \<Rightarrow> ref_choice \<Rightarrow> nat list \<times> ref_choice" where
  "fill_forward infos lst gld fwd_start [] fwd_end c = ([], c)"
| "fill_forward infos lst gld fwd_start (ref # refs) fwd_end c =
     (if snd c ! (ref - LAST_FRAME) then fill_forward infos lst gld fwd_start refs fwd_end c
      else let fwd_end = skip_named infos lst gld fwd_start fwd_end
           in if fwd_start > fwd_end then (ref # refs, c)
              else fill_forward infos lst gld fwd_start refs (fwd_end - 1)
                     (set_ref_frame_info ref (infos ! nat fwd_end) c))"

text \<open>The labels that are left get the earliest reference. There may be none.\<close>

fun fill_earliest :: "REF_FRAME_INFO list \<Rightarrow> int \<Rightarrow> nat list \<Rightarrow> ref_choice \<Rightarrow> ref_choice option" where
  "fill_earliest infos fwd_start [] c = Some c"
| "fill_earliest infos fwd_start (ref # refs) c =
     (if snd c ! (ref - LAST_FRAME) then fill_earliest infos fwd_start refs c
      else if fwd_start \<ge> int (length infos) then None
      else fill_earliest infos fwd_start refs (set_ref_frame_info ref (infos ! nat fwd_start) c))"

definition av1_set_frame_refs :: "nat \<Rightarrow> nat \<Rightarrow> AV1 \<Rightarrow> AV1 option" where
  "av1_set_frame_refs lst_map_idx gld_map_idx s = do {
     let cur = cur_frame_sort_idx s;
     let infos = map (ref_frame_info s) [0..<REF_FRAMES];
     let idx_of = (\<lambda>i. if i < REF_FRAMES then sort_idx (infos ! i) else - 1);
     let s = error_if (idx_of lst_map_idx = - 1 \<or> idx_of lst_map_idx \<ge> cur) AOM_CODEC_CORRUPT_FRAME s;
     let s = error_if (idx_of gld_map_idx = - 1 \<or> idx_of gld_map_idx \<ge> cur) AOM_CODEC_CORRUPT_FRAME s;
     infos \<leftarrow> qsort compare_ref_frame_info infos;
     let (fwd_start, fwd_end) = split_refs cur infos 0 0;
     let c = (remapped_ref_idx s, replicate INTER_REFS_PER_FRAME False);
     let c = choose_backward infos (fwd_end + 1) c;
     let c = fold (choose_named (int lst_map_idx) (int gld_map_idx))
       (map (\<lambda>i. infos ! nat i) [fwd_start..fwd_end]) c;
     let (rest, c) = fill_forward infos (int lst_map_idx) (int gld_map_idx) fwd_start ref_frame_list fwd_end c;
     c \<leftarrow> fill_earliest infos fwd_start rest c;
     Some (s\<lparr>remapped_ref_idx := fst c\<rparr>)
   }"

definition setup_ref_hint :: "nat \<Rightarrow> nat \<Rightarrow> AV1 \<Rightarrow> AV1" where
  "setup_ref_hint i ref_frame s =
     (case get_ref_frame_buf s ref_frame of None \<Rightarrow> s
      | Some r \<Rightarrow> upd_buf i (\<lambda>b. b\<lparr>ref_order_hints := (ref_order_hints b)[ref_frame - LAST_FRAME := rb_order_hint (frame_bufs s r)]\<rparr>) s)"

definition av1_setup_frame_buf_refs :: "AV1 \<Rightarrow> AV1 option" where
  "av1_setup_frame_buf_refs s = do {
     i \<leftarrow> cur_frame s;
     let s = upd_buf i (\<lambda>b. b\<lparr>rb_order_hint := cf_order_hint (current_frame s)\<rparr>) s;
     Some (fold (setup_ref_hint i) [LAST_FRAME..<ALTREF_FRAME + 1] s)
   }"

definition hint_of :: "AV1 \<Rightarrow> nat \<Rightarrow> int" where
  "hint_of s b = s32 (rb_order_hint (frame_bufs s b))"

definition cur_hint :: "AV1 \<Rightarrow> int" where
  "cur_hint s = s32 (cf_order_hint (current_frame s))"

definition sign_bias :: "AV1 \<Rightarrow> nat \<Rightarrow> int" where
  "sign_bias s ref_frame =
     (case get_ref_frame_buf s ref_frame of None \<Rightarrow> 0
      | Some b \<Rightarrow> if enable_order_hint (seq_params s) \<and> \<not> get_relative_dist (seq_params s) (hint_of s b) (cur_hint s) \<le> 0
                  then 1 else 0)"

definition av1_setup_frame_sign_bias :: "AV1 \<Rightarrow> AV1" where
  "av1_setup_frame_sign_bias s = s\<lparr>ref_frame_sign_bias := map (\<lambda>r. if LAST_FRAME \<le> r \<and> r \<le> ALTREF_FRAME then sign_bias s r
     else ref_frame_sign_bias s ! r) [0..<length (ref_frame_sign_bias s)]\<rparr>"

section \<open>Skip mode\<close>

definition INT_MAX :: int where "INT_MAX = 2147483647"

text \<open>A hint with its index, for the nearest reference of a direction; a hint of \<open>-1\<close> or \<open>INT_MAX\<close> and
  the index \<open>INVALID_IDX\<close> stand for none.\<close>

type_synonym nearest = "int \<times> int"

definition nearest_step :: "AV1 \<Rightarrow> nat \<Rightarrow> nearest \<times> nearest \<Rightarrow> nearest \<times> nearest" where
  "nearest_step s i fb =
     (case fb of ((h0, i0), (h1, i1)) \<Rightarrow>
        (case get_ref_frame_buf s (LAST_FRAME + i) of None \<Rightarrow> fb
         | Some b \<Rightarrow>
             let d = get_relative_dist (seq_params s); h = hint_of s b
             in if d h (cur_hint s) < 0 then
                  (if h0 = - 1 \<or> d h h0 > 0 then ((h, int i), (h1, i1)) else fb)
                else if d h (cur_hint s) > 0 then
                  (if h1 = INT_MAX \<or> d h h1 < 0 then ((h0, i0), (h, int i)) else fb)
                else fb))"

definition second_step :: "AV1 \<Rightarrow> int \<Rightarrow> nat \<Rightarrow> nearest \<Rightarrow> nearest" where
  "second_step s h0 i hi =
     (case hi of (h1, i1) \<Rightarrow>
        (case get_ref_frame_buf s (LAST_FRAME + i) of None \<Rightarrow> hi
         | Some b \<Rightarrow>
             let d = get_relative_dist (seq_params s); h = hint_of s b
             in if (h0 \<noteq> - 1 \<and> d h h0 < 0) \<and> (h1 = - 1 \<or> d h h1 > 0) then (h, int i) else hi))"

definition set_skip_mode :: "bool \<Rightarrow> int \<Rightarrow> int \<Rightarrow> AV1 \<Rightarrow> AV1" where
  "set_skip_mode allowed i0 i1 s =
     s\<lparr>current_frame := (current_frame s)\<lparr>skip_mode_allowed := allowed, ref_frame_idx_0 := i0, ref_frame_idx_1 := i1\<rparr>\<rparr>"

definition av1_setup_skip_mode_allowed :: "AV1 \<Rightarrow> AV1" where
  "av1_setup_skip_mode_allowed s =
     (let s = set_skip_mode False INVALID_IDX INVALID_IDX s
      in if \<not> enable_order_hint (seq_params s) \<or> frame_is_intra_only s \<or> \<not> cf_reference_mode (current_frame s) then s
         else case fold (nearest_step s) [0..<INTER_REFS_PER_FRAME] ((- 1, INVALID_IDX), (INT_MAX, INVALID_IDX)) of
           ((h0, i0), (h1, i1)) \<Rightarrow>
             if i0 \<noteq> INVALID_IDX \<and> i1 \<noteq> INVALID_IDX then set_skip_mode True (min i0 i1) (max i0 i1) s
             else if i0 \<noteq> INVALID_IDX \<and> i1 = INVALID_IDX then
               (case fold (second_step s h0) [0..<INTER_REFS_PER_FRAME] (- 1, i1) of
                  (h1, i1) \<Rightarrow> if h1 \<noteq> - 1 then set_skip_mode True (min i0 i1) (max i0 i1) s else s)
             else s)"

section \<open>Motion field\<close>

definition MFMV_STACK_SIZE :: int where "MFMV_STACK_SIZE = 3"
definition MV_REF_SIZE :: nat where "MV_REF_SIZE = 8"

text \<open>The entry of a start frame is appended to the three lists; the result is the return value.\<close>

definition motion_field_projection :: "nat \<Rightarrow> AV1 \<Rightarrow> (bool \<times> AV1) option" where
  "motion_field_projection start_frame s =
     (if length (mv_ref_id s) \<ge> MV_REF_SIZE then None
      else let add = (\<lambda>offs cal. s\<lparr>mv_ref_id := mv_ref_id s @ [start_frame], mv_ref_offset := mv_ref_offset s @ [offs],
                 mv_cal_tpl_mvs := mv_cal_tpl_mvs s @ [cal]\<rparr>);
               none = Some (False, add (replicate REF_FRAMES 0) False)
           in case get_ref_frame_buf s start_frame of None \<Rightarrow> none
              | Some b \<Rightarrow>
                  let f = frame_bufs s b
                  in if rb_frame_type f = KEY_FRAME \<or> rb_frame_type f = INTRA_ONLY_FRAME then none
                     else if rb_mi_rows f \<noteq> mi_rows s \<or> rb_mi_cols f \<noteq> mi_cols s then none
                     else Some (True, add (0 # map (\<lambda>k. get_relative_dist (seq_params s) (hint_of s b) (s32 (ref_order_hints f ! k)))
                            [0..<INTER_REFS_PER_FRAME]) True))"

definition ref_hint_or_0 :: "AV1 \<Rightarrow> nat \<Rightarrow> int" where
  "ref_hint_or_0 s ref_frame = (case get_ref_frame_buf s ref_frame of None \<Rightarrow> 0 | Some b \<Rightarrow> hint_of s b)"

definition side_of :: "AV1 \<Rightarrow> int \<Rightarrow> nat \<Rightarrow> int" where
  "side_of s cur ref_frame =
     (if ref_frame < LAST_FRAME then 0
      else if get_relative_dist (seq_params s) (ref_hint_or_0 s ref_frame) cur > 0 then 1
      else if ref_hint_or_0 s ref_frame = cur then - 1 else 0)"

text \<open>A backward reference is projected when it lies after the current frame, and success takes a
  place of the stack.\<close>

definition project_backward :: "int \<Rightarrow> nat \<Rightarrow> int \<times> AV1 \<Rightarrow> (int \<times> AV1) option" where
  "project_backward cur ref_frame x =
     (case x of (ref_stamp, s) \<Rightarrow>
        if get_relative_dist (seq_params s) (ref_hint_or_0 s ref_frame) cur > 0
        then do { (ok, s) \<leftarrow> motion_field_projection ref_frame s; Some (if ok then ref_stamp - 1 else ref_stamp, s) }
        else Some x)"

definition av1_setup_motion_field :: "AV1 \<Rightarrow> AV1 option" where
  "av1_setup_motion_field s =
     (if \<not> enable_order_hint (seq_params s) then Some (s\<lparr>ref_frame_side := replicate REF_FRAMES 0\<rparr>)
      else do {
        i \<leftarrow> cur_frame s;
        let cur = hint_of s i;
        let s = s\<lparr>ref_frame_side := map (side_of s cur) [0..<REF_FRAMES], mv_ref_id := [], mv_ref_offset := [], mv_cal_tpl_mvs := []\<rparr>;
        (ref_stamp, s) \<leftarrow> (case get_ref_frame_buf s LAST_FRAME of
            None \<Rightarrow> Some (MFMV_STACK_SIZE - 1, s)
          | Some b \<Rightarrow> do {
              let alt_of_lst = s32 (ref_order_hints (frame_bufs s b) ! (ALTREF_FRAME - LAST_FRAME));
              s \<leftarrow> (if alt_of_lst \<noteq> ref_hint_or_0 s GOLDEN_FRAME then map_option snd (motion_field_projection LAST_FRAME s) else Some s);
              Some (MFMV_STACK_SIZE - 1 - 1, s)
            });
        (ref_stamp, s) \<leftarrow> project_backward cur BWDREF_FRAME (ref_stamp, s);
        (ref_stamp, s) \<leftarrow> project_backward cur ALTREF2_FRAME (ref_stamp, s);
        (ref_stamp, s) \<leftarrow> (if ref_stamp \<ge> 0 then project_backward cur ALTREF_FRAME (ref_stamp, s) else Some (ref_stamp, s));
        if ref_stamp \<ge> 0 then map_option snd (motion_field_projection LAST2_FRAME s) else Some s
      })"

end
