(* ===== verification/AV1_Header.thy ===== *)
theory AV1_Header
  imports AV1_Refs
begin

text \<open>
  The header of an AV1 sequence and of an AV1 frame and the two entry points of the buffer manager
  (\<open>vav1/av1_bufmgr.c\<close>). The firmware parses the bits; its parameters are the records
  \<open>av1_params\<close> and \<open>av1_seq_params\<close>. The operating points and their timing do not reach the buffers and are
  left out.
\<close>

section \<open>Sequence header\<close>

record av1_seq_params =
  q_profile :: int
  q_still_picture :: bool
  q_reduced_still_picture_hdr :: bool
  q_seq_level_idx :: "int list"
  q_max_frame_width :: int
  q_max_frame_height :: int
  q_frame_id_numbers_present_flag :: bool
  q_delta_frame_id_length :: int
  q_frame_id_length :: int
  q_enable_order_hint :: bool
  q_enable_ref_frame_mvs :: bool
  q_order_hint_bits_minus_1 :: int
  q_other :: "int list"

definition CONFIG_MAX_DECODE_PROFILE :: int where "CONFIG_MAX_DECODE_PROFILE = 2"

definition is_valid_seq_level_idx :: "int \<Rightarrow> bool" where
  "is_valid_seq_level_idx i \<longleftrightarrow> i < 24 \<or> i = 31"

definition av1_read_sequence_header :: "av1_seq_params \<Rightarrow> SequenceHeader \<Rightarrow> SequenceHeader \<times> bool" where
  "av1_read_sequence_header q h =
     (let h = h\<lparr>max_frame_width := q_max_frame_width q, max_frame_height := q_max_frame_height q,
            frame_id_numbers_present_flag := \<not> reduced_still_picture_hdr h \<and> q_frame_id_numbers_present_flag q\<rparr>;
          h = (if frame_id_numbers_present_flag h
               then h\<lparr>delta_frame_id_length := q_delta_frame_id_length q,
                      frame_id_length := q_frame_id_length q + q_delta_frame_id_length q + 1\<rparr> else h);
          bad = (frame_id_numbers_present_flag h \<and> frame_id_length h > 16);
          on = (\<not> reduced_still_picture_hdr h \<and> q_enable_order_hint q)
      in (h\<lparr>enable_order_hint := on, enable_ref_frame_mvs := on \<and> q_enable_ref_frame_mvs q,
            order_hint_bits_minus_1 := (if on then q_order_hint_bits_minus_1 q else - 1)\<rparr>, bad))"

definition read_sequence_header_obu :: "av1_seq_params \<Rightarrow> AV1 \<Rightarrow> AV1" where
  "read_sequence_header_obu q s =
     (let unsup = s\<lparr>error_code := AOM_CODEC_UNSUP_BITSTREAM\<rparr>
      in if q_profile q > CONFIG_MAX_DECODE_PROFILE then unsup
         else if \<not> q_still_picture q \<and> q_reduced_still_picture_hdr q then unsup
         else if \<not> list_all is_valid_seq_level_idx (if q_reduced_still_picture_hdr q then take 1 (q_seq_level_idx q) else q_seq_level_idx q)
         then unsup
         else case av1_read_sequence_header q ((seq_params s)
               \<lparr>still_picture := q_still_picture q, reduced_still_picture_hdr := q_reduced_still_picture_hdr q, sq_other := q_other q\<rparr>) of
             (h, bad) \<Rightarrow>
               (error_if bad AOM_CODEC_CORRUPT_FRAME s)
                 \<lparr>sequence_header_changed := sequence_header_changed s \<or> (sequence_header_ready s \<and> h \<noteq> seq_params s),
                  seq_params := h, sequence_header_ready := True\<rparr>)"

section \<open>Frame header\<close>

text \<open>The C remainder truncates towards zero.\<close>

definition crem :: "int \<Rightarrow> int \<Rightarrow> int" where
  "crem a b = a - cdiv a b * b"

definition set_frame_type :: "int \<Rightarrow> AV1 \<Rightarrow> AV1" where
  "set_frame_type t s = s\<lparr>current_frame := (current_frame s)\<lparr>cf_frame_type := t\<rparr>\<rparr>"

definition set_refresh_flags :: "int \<Rightarrow> AV1 \<Rightarrow> AV1" where
  "set_refresh_flags f s = s\<lparr>current_frame := (current_frame s)\<lparr>refresh_frame_flags := f\<rparr>\<rparr>"

text \<open>An existing frame is shown again.\<close>

definition show_existing :: "av1_params \<Rightarrow> AV1 \<Rightarrow> AV1 option" where
  "show_existing p s =
     (let s = error_if (sequence_header_changed s) AOM_CODEC_CORRUPT_FRAME s; idx = p_existing_frame_idx p
      in if idx \<ge> REF_FRAMES then None
         else case ref_frame_map s ! idx of
           None \<Rightarrow> Some (aom_internal_error AOM_CODEC_UNSUP_BITSTREAM s)
         | Some b \<Rightarrow>
             let s = error_if (frame_id_numbers_present_flag (seq_params s) \<and>
                   (p_display_frame_id p \<noteq> ref_frame_id s ! idx \<or> \<not> valid_for_referencing s ! idx)) AOM_CODEC_CORRUPT_FRAME s;
                 s = assign_frame_buffer_p b s;
                 reset = (rb_frame_type (frame_bufs s b) = KEY_FRAME);
                 s = s\<lparr>reset_decoder_state := reset, show_frame := True\<rparr>;
                 s = error_if (\<not> rb_showable_frame (frame_bufs s b)) AOM_CODEC_UNSUP_BITSTREAM s
             in if reset then show_existing_frame_reset idx (upd_buf b (\<lambda>x. x\<lparr>rb_showable_frame := False\<rparr>) s)
                else Some (set_refresh_flags 0 s))"

definition new_sequence :: "AV1 \<Rightarrow> AV1" where
  "new_sequence s = reset_frame_buffers (s\<lparr>sequence_header_changed := False, decoding_first_frame := True\<rparr>)"

text \<open>The start of the header: the frame type and the flags that say when the frame is shown.\<close>

definition frame_start :: "av1_params \<Rightarrow> AV1 \<Rightarrow> AV1 option" where
  "frame_start p s =
     (if reduced_still_picture_hdr (seq_params s) then
        (let s = set_frame_type KEY_FRAME (s\<lparr>show_existing_frame := False, show_frame := True\<rparr>);
             s = (if sequence_header_changed s then new_sequence s else s)
         in Some (s\<lparr>error_resilient_mode := True\<rparr>))
      else do {
        let s = set_frame_type (p_frame_type p) s;
        let key = (p_frame_type p = KEY_FRAME);
        let s = (if sequence_header_changed s
                 then (if key then new_sequence s else aom_internal_error AOM_CODEC_CORRUPT_FRAME s) else s);
        let s = s\<lparr>show_frame := p_show_frame p\<rparr>;
        let s = error_if (still_picture (seq_params s) \<and> (\<not> key \<or> \<not> show_frame s)) AOM_CODEC_CORRUPT_FRAME s;
        let s = s\<lparr>showable_frame := (if show_frame s then \<not> key else p_showable_frame p)\<rparr>;
        i \<leftarrow> cur_frame s;
        let s = upd_buf i (\<lambda>b. b\<lparr>rb_show_frame := show_frame s, rb_showable_frame := showable_frame s\<rparr>) s;
        Some (s\<lparr>error_resilient_mode := frame_is_sframe s \<or> key \<and> show_frame s \<or> p_error_resilient_mode p\<rparr>)
      })"

text \<open>A reference stays valid when its identifier lies in the window before the current one.\<close>

definition id_in_window :: "SequenceHeader \<Rightarrow> int \<Rightarrow> int \<Rightarrow> bool" where
  "id_in_window h cur i =
     (let d = 2 ^ nat (delta_frame_id_length h)
      in if cur - d > 0 then \<not> (i > cur \<or> i < cur - d)
         else \<not> (i > cur \<and> i < 2 ^ nat (frame_id_length h) + cur - d))"

definition frame_ids :: "av1_params \<Rightarrow> AV1 \<Rightarrow> AV1" where
  "frame_ids p s =
     (let h = seq_params s; shown_key = (cf_frame_type (current_frame s) = KEY_FRAME \<and> show_frame s);
          have_prev = (\<not> decoding_first_frame s \<and> \<not> shown_key);
          prev = current_frame_id s; cur = p_current_frame_id p;
          diff = (if cur > prev then cur - prev else 2 ^ nat (frame_id_length h) + cur - prev);
          s = s\<lparr>current_frame_id := cur\<rparr>;
          s = error_if (have_prev \<and> (prev = cur \<or> diff \<ge> 2 ^ nat (frame_id_length h - 1))) AOM_CODEC_CORRUPT_FRAME s
      in s\<lparr>valid_for_referencing := map (\<lambda>i. valid_for_referencing s ! i \<and> \<not> shown_key \<and> id_in_window h cur (ref_frame_id s ! i))
             [0..<REF_FRAMES]\<rparr>)"

text \<open>Identifiers, order hint and primary reference; the result has the flag for the frame size.\<close>

definition frame_hints :: "av1_params \<Rightarrow> AV1 \<Rightarrow> bool \<times> AV1" where
  "frame_hints p s =
     (let s = s\<lparr>primary_ref_frame := PRIMARY_REF_NONE\<rparr>
      in if reduced_still_picture_hdr (seq_params s) then (False, s)
         else
           let s = (if frame_id_numbers_present_flag (seq_params s) then frame_ids p s else s);
               s = s\<lparr>current_frame := (current_frame s)\<lparr>cf_order_hint := p_order_hint p, cf_frame_number := p_order_hint p\<rparr>\<rparr>;
               s = (if \<not> error_resilient_mode s \<and> \<not> frame_is_intra_only s then s\<lparr>primary_ref_frame := p_primary_ref_frame p\<rparr> else s)
           in (frame_is_sframe s \<or> p_frame_size_override_flag p, s))"

definition refresh_flags :: "av1_params \<Rightarrow> AV1 \<Rightarrow> AV1" where
  "refresh_flags p s =
     (if cf_frame_type (current_frame s) = KEY_FRAME then
        resync (invalidate_remapped (set_refresh_flags (if show_frame s then 2 ^ REF_FRAMES - 1 else p_refresh_frame_flags p) s))
      else if cf_frame_type (current_frame s) = INTRA_ONLY_FRAME then
        resync (error_if (p_refresh_frame_flags p = 255) AOM_CODEC_UNSUP_BITSTREAM (set_refresh_flags (p_refresh_frame_flags p) s))
      else if \<not> need_resync s then set_refresh_flags (if frame_is_sframe s then 255 else p_refresh_frame_flags p) s
      else s)"

text \<open>A reference whose order hint differs from the one in the header is replaced by a new buffer.
  When the pool is exhausted the code goes on with the buffer before the pool.\<close>

definition check_ref_hint :: "av1_params \<Rightarrow> nat \<Rightarrow> AV1 \<Rightarrow> AV1 option" where
  "check_ref_hint p i s =
     (let h = p_ref_order_hint p ! i; keep = (case ref_frame_map s ! i of None \<Rightarrow> False | Some b \<Rightarrow> rb_order_hint (frame_bufs s b) = h)
      in if keep then Some s
         else do {
           let (r, s) = get_free_fb (decrease_ref_count (ref_frame_map s ! i) s);
           b \<leftarrow> r;
           let s = aom_realloc_frame_buffer b (max_frame_width (seq_params s)) (max_frame_height (seq_params s)) (rb_order_hint (frame_bufs s b)) s;
           Some (upd_buf b (\<lambda>x. x\<lparr>rb_order_hint := h\<rparr>) (s\<lparr>ref_frame_map := (ref_frame_map s)[i := Some b]\<rparr>))
         })"

definition check_ref_hints :: "av1_params \<Rightarrow> AV1 \<Rightarrow> AV1 option" where
  "check_ref_hints p s =
     (if (\<not> frame_is_intra_only s \<or> refresh_frame_flags (current_frame s) \<noteq> 255) \<and>
         error_resilient_mode s \<and> enable_order_hint (seq_params s)
      then fold_opt (check_ref_hint p) [0..<REF_FRAMES] s else Some s)"

definition short_refs :: "av1_params \<Rightarrow> AV1 \<Rightarrow> AV1 option" where
  "short_refs p s =
     (if p_lst_ref p \<ge> REF_FRAMES \<or> p_gld_ref p \<ge> REF_FRAMES then None
      else av1_set_frame_refs (p_lst_ref p) (p_gld_ref p)
        (error_if (ref_frame_map s ! p_lst_ref p = None \<or> ref_frame_map s ! p_gld_ref p = None) AOM_CODEC_CORRUPT_FRAME s))"

definition read_ref :: "av1_params \<Rightarrow> bool \<Rightarrow> nat \<Rightarrow> AV1 \<Rightarrow> AV1 option" where
  "read_ref p short i s = do {
     s \<leftarrow> (if short then Some s
           else let r = p_remapped_ref_idx p ! i
                in if r \<ge> REF_FRAMES then None
                   else Some ((error_if (ref_frame_map s ! r = None) AOM_CODEC_CORRUPT_FRAME s)
                     \<lparr>remapped_ref_idx := (remapped_ref_idx s)[i := int r]\<rparr>));
     let s = s\<lparr>ref_frame_sign_bias := (ref_frame_sign_bias s)[LAST_FRAME + i := 0]\<rparr>;
     let r = remapped_ref_idx s ! i;
     let m = 2 ^ nat (frame_id_length (seq_params s));
     let id = crem (current_frame_id s - (p_delta_frame_id_minus_1 p ! i + 1) + m) m;
     if \<not> frame_id_numbers_present_flag (seq_params s) then Some s
     else if r < 0 \<or> r \<ge> int REF_FRAMES then None
     else Some (error_if (id \<noteq> ref_frame_id s ! nat r \<or> \<not> valid_for_referencing s ! nat r) AOM_CODEC_CORRUPT_FRAME s)
   }"

text \<open>References and size of an inter frame.\<close>

definition inter_refs :: "av1_params \<Rightarrow> bool \<Rightarrow> AV1 \<Rightarrow> AV1 option" where
  "inter_refs p override s = do {
     let short = (enable_order_hint (seq_params s) \<and> p_frame_refs_short_signaling p);
     s \<leftarrow> (if short then short_refs p s else Some s);
     s \<leftarrow> fold_opt (read_ref p short) [0..<INTER_REFS_PER_FRAME] s;
     if \<not> error_resilient_mode s \<and> override then setup_frame_size_with_refs p s else setup_frame_size override p s
   }"

definition setup_scale :: "nat \<Rightarrow> AV1 \<Rightarrow> AV1" where
  "setup_scale ref_frame s =
     (let idx = get_ref_frame_map_idx s ref_frame
      in if idx = INVALID_IDX then s
         else
           let s = (case get_ref_frame_buf s ref_frame of None \<Rightarrow> s
                 | Some b \<Rightarrow> s\<lparr>ref_scale_factors := (ref_scale_factors s)[nat idx :=
                     av1_setup_scale_factors_for_frame (y_crop_width (frame_bufs s b)) (y_crop_height (frame_bufs s b))
                       (cm_dec_width s) (cm_height s) (ref_scale_factors s ! nat idx)]\<rparr>)
           in error_if (\<not> av1_is_valid_scale (ref_scale_factors s ! nat idx)) AOM_CODEC_UNSUP_BITSTREAM s)"

definition frame_might_allow_ref_frame_mvs :: "AV1 \<Rightarrow> bool" where
  "frame_might_allow_ref_frame_mvs s \<longleftrightarrow>
     \<not> error_resilient_mode s \<and> enable_ref_frame_mvs (seq_params s) \<and> enable_order_hint (seq_params s) \<and> \<not> frame_is_intra_only s"

definition frame_refs :: "av1_params \<Rightarrow> bool \<Rightarrow> AV1 \<Rightarrow> AV1 option" where
  "frame_refs p override s =
     (if cf_frame_type (current_frame s) = KEY_FRAME then do {
        s \<leftarrow> setup_frame_size override p s;
        Some (s\<lparr>allow_ref_frame_mvs := False, prev_frame := None\<rparr>)
      }
      else do {
        let intra = (cf_frame_type (current_frame s) = INTRA_ONLY_FRAME);
        let s = s\<lparr>allow_ref_frame_mvs := False\<rparr>;
        s \<leftarrow> (if intra then setup_frame_size override p s
              else if \<not> need_resync s then inter_refs p override s else Some s);
        let s = s\<lparr>prev_frame := get_primary_ref_frame_buf s\<rparr>;
        let s = error_if (primary_ref_frame s \<noteq> PRIMARY_REF_NONE \<and> prev_frame s = None) AOM_CODEC_CORRUPT_FRAME s;
        Some (if \<not> intra \<and> \<not> need_resync s
          then fold setup_scale [LAST_FRAME..<ALTREF_FRAME + 1]
            (s\<lparr>allow_ref_frame_mvs := frame_might_allow_ref_frame_mvs s \<and> p_allow_ref_frame_mvs p\<rparr>) else s)
      })"

text \<open>The end of the header.\<close>

definition frame_finish :: "av1_params \<Rightarrow> AV1 \<Rightarrow> AV1 option" where
  "frame_finish p s = do {
     s \<leftarrow> av1_setup_frame_buf_refs s;
     let s = av1_setup_frame_sign_bias s;
     i \<leftarrow> cur_frame s;
     let s = upd_buf i (\<lambda>b. b\<lparr>rb_frame_type := cf_frame_type (current_frame s)\<rparr>) s;
     let s = (if frame_id_numbers_present_flag (seq_params s) then update_ref_frame_id (current_frame_id s) s else s);
     let s = upd_buf i (\<lambda>b. b\<lparr>pb_bit_depth := sq_bit_depth (seq_params s), pb_render_width := cm_render_width s,
       pb_render_height := cm_render_height s\<rparr>) s;
     let s = error_if (need_resync s) AOM_CODEC_CORRUPT_FRAME s;
     s \<leftarrow> generate_next_ref_frame_map s;
     let s = s\<lparr>current_frame := (current_frame s)\<lparr>cf_reference_mode := \<not> frame_is_intra_only s \<and> p_reference_mode p\<rparr>\<rparr>;
     let s = av1_setup_skip_mode_allowed s;
     s \<leftarrow> av1_setup_motion_field s;
     let s = upd_buf i (\<lambda>b. b\<lparr>rb_mi_cols := mi_cols s, rb_mi_rows := mi_rows s, rb_dec_width := cm_dec_width s\<rparr>) s;
     Some (aom_realloc_frame_buffer i (superres_upscaled_width s) (superres_upscaled_height s) (rb_order_hint (frame_bufs s i)) s)
   }"

definition av1_decode_frame_headers_and_setup :: "av1_params \<Rightarrow> AV1 \<Rightarrow> AV1 option" where
  "av1_decode_frame_headers_and_setup p s = do {
     let s = error_if (\<not> sequence_header_ready s) AOM_CODEC_CORRUPT_FRAME s;
     let s = s\<lparr>last_frame_type := cf_frame_type (current_frame s)\<rparr>;
     let reduced = reduced_still_picture_hdr (seq_params s);
     let s = (if reduced then s else s\<lparr>show_existing_frame := p_show_existing_frame p, reset_decoder_state := False\<rparr>);
     if \<not> reduced \<and> p_show_existing_frame p then show_existing p s
     else do {
       s \<leftarrow> frame_start p s;
       let (override, s) = frame_hints p s;
       let s = refresh_flags p s;
       s \<leftarrow> check_ref_hints p s;
       s \<leftarrow> frame_refs p override s;
       frame_finish p s
     }
   }"

section \<open>Entry points\<close>

datatype av1_obu = OBU_SEQUENCE_HEADER av1_seq_params | OBU_FRAME_HEADER av1_params
  | OBU_REDUNDANT_FRAME_HEADER av1_params | OBU_FRAME av1_params | OBU_OTHER

text \<open>A frame header that may be parsed. The results are those of the code: \<open>1\<close> when nothing is left to decode,
  \<open>-1\<close> for an error.\<close>

definition frame_obu :: "bool \<Rightarrow> av1_params \<Rightarrow> AV1 \<Rightarrow> (int \<times> AV1) option" where
  "frame_obu is_frame p s = do {
     s \<leftarrow> (if \<not> seen_frame_header s \<or> large_scale_tile s \<and> \<not> camera_frame_header_ready s then do {
            s \<leftarrow> av1_decode_frame_headers_and_setup p s;
            Some (s\<lparr>seen_frame_header := True,
                   camera_frame_header_ready := camera_frame_header_ready s \<or> \<not> ext_tile_debug s \<and> large_scale_tile s\<rparr>)
          }
          else Some s);
     if show_existing_frame s then
       (if is_frame then Some (- 1, s\<lparr>error_code := AOM_CODEC_UNSUP_BITSTREAM\<rparr>) else Some (1, s\<lparr>seen_frame_header := False\<rparr>))
     else if \<not> ext_tile_debug s \<and> camera_frame_header_ready s then Some (1, s)
     else Some (0, s)
   }"

definition aom_decode_frame_from_obus :: "av1_obu \<Rightarrow> AV1 \<Rightarrow> (int \<times> AV1) option" where
  "aom_decode_frame_from_obus obu s =
     (let corrupt = Some (- 1, s\<lparr>error_code := AOM_CODEC_CORRUPT_FRAME\<rparr>)
      in case obu of
           OBU_SEQUENCE_HEADER q \<Rightarrow>
             (let s = read_sequence_header_obu q s in Some (if error_code s \<noteq> AOM_CODEC_OK then - 1 else 0, s))
         | OBU_FRAME_HEADER p \<Rightarrow> if seen_frame_header s then corrupt else frame_obu False p s
         | OBU_FRAME p \<Rightarrow> if seen_frame_header s then corrupt else frame_obu True p s
         | OBU_REDUNDANT_FRAME_HEADER p \<Rightarrow> if \<not> seen_frame_header s then corrupt else frame_obu False p s
         | OBU_OTHER \<Rightarrow> Some (0, s))"

definition av1_bufmgr_process :: "bool \<Rightarrow> av1_obu \<Rightarrow> AV1 \<Rightarrow> (int \<times> AV1) option" where
  "av1_bufmgr_process new_compressed_data obu s =
     (let s = release_output s
      in if new_compressed_data then
           (let s = assign_cur_frame_new_fb s
            in if cur_frame s = None then Some (- 1, s\<lparr>error_code := AOM_CODEC_MEM_ERROR\<rparr>)
               else aom_decode_frame_from_obus obu (s\<lparr>seen_frame_header := False\<rparr>))
         else aom_decode_frame_from_obus obu s)"

definition av1_bufmgr_postproc :: "bool \<Rightarrow> AV1 \<Rightarrow> AV1 option" where
  "av1_bufmgr_postproc frame_decoded s = do {
     s \<leftarrow> swap_frame_buffers frame_decoded s;
     Some (if frame_decoded then s\<lparr>decoding_first_frame := False\<rparr> else s)
   }"

text \<open>The map that is sent to the hardware.\<close>

definition av1_set_next_ref_frame_map :: "AV1 \<Rightarrow> AV1 option" where
  "av1_set_next_ref_frame_map s =
     (if camera_frame_header_ready s then Some s
      else let n = mask_len (refresh_frame_flags (current_frame s))
           in if n > REF_FRAMES then None
              else let m = (if \<not> show_existing_frame s \<or> reset_decoder_state s then REF_FRAMES else n)
                   in Some (s\<lparr>next_used_ref_frame_map := take m (next_ref_frame_map s) @ drop m (next_used_ref_frame_map s)\<rparr>))"

text \<open>The decoder before its first frame: cleared memory with the values of \<open>av1_decoder_create\<close>. The
  sequence parameters that nothing sets are 8 bit and not subsampled.\<close>

definition av1_decoder_create :: "(nat \<Rightarrow> RefCntBuffer) \<Rightarrow> AV1" where
  "av1_decoder_create bufs =
     \<lparr>frame_bufs = bufs, ref_frame_map = replicate REF_FRAMES None, next_ref_frame_map = replicate REF_FRAMES None,
      next_used_ref_frame_map = replicate REF_FRAMES None, cur_frame = None, prev_frame = None,
      output_frames = replicate MAX_NUM_SPATIAL_LAYERS None, num_output_frames = 0, output_all_layers = False,
      large_scale_tile = False, ext_tile_debug = False, camera_frame_header_ready = False, hold_ref_buf = False,
      need_resync = True, decoding_first_frame = True, reset_decoder_state = False, sequence_header_ready = False,
      sequence_header_changed = False, seen_frame_header = False, error_code = AOM_CODEC_OK,
      seq_params = \<lparr>still_picture = False, reduced_still_picture_hdr = False, frame_id_numbers_present_flag = False,
        frame_id_length = 0, delta_frame_id_length = 0, max_frame_width = 0, max_frame_height = 0, sq_bit_depth = 8,
        sq_subsampling_x = 0, sq_subsampling_y = 0, enable_order_hint = False, order_hint_bits_minus_1 = 0,
        enable_ref_frame_mvs = False, sq_other = []\<rparr>,
      current_frame = \<lparr>cf_frame_type = KEY_FRAME, cf_reference_mode = False, cf_order_hint = 0, cf_frame_number = 0,
        refresh_frame_flags = 0, skip_mode_allowed = False, ref_frame_idx_0 = 0, ref_frame_idx_1 = 0\<rparr>,
      last_frame_type = KEY_FRAME, show_frame = False, showable_frame = False, show_existing_frame = False,
      error_resilient_mode = False, primary_ref_frame = 0, allow_ref_frame_mvs = False, current_frame_id = 0,
      ref_frame_id = replicate REF_FRAMES 0, valid_for_referencing = replicate REF_FRAMES False,
      remapped_ref_idx = replicate REF_FRAMES 0, ref_frame_sign_bias = replicate REF_FRAMES 0,
      ref_scale_factors = replicate REF_FRAMES \<lparr>x_scale_fp = 0, y_scale_fp = 0, x_step_q4 = 0, y_step_q4 = 0\<rparr>,
      cm_width = 0, cm_height = 0, cm_dec_width = 0, cm_render_width = 0, cm_render_height = 0,
      superres_upscaled_width = 0, superres_upscaled_height = 0, mi_rows = 0, mi_cols = 0, mi_stride = 0,
      ref_frame_side = replicate REF_FRAMES 0, mv_ref_id = [], mv_ref_offset = [], mv_cal_tpl_mvs = []\<rparr>"

end
