(* ===== verification/AV1_Correct.thy ===== *)
theory AV1_Correct
  imports AV1_Header
begin

text \<open>
  The AV1 frame buffers: the count of every buffer is the number of pointers that hold it, in every
  state the decoder reaches, and what follows from it for the pool.
\<close>

section \<open>Fields that operations leave alone\<close>

lemma upd_buf_fields [simp]:
  "ref_frame_map (upd_buf i f s) = ref_frame_map s" "next_ref_frame_map (upd_buf i f s) = next_ref_frame_map s"
  "cur_frame (upd_buf i f s) = cur_frame s" "output_frames (upd_buf i f s) = output_frames s"
  "num_output_frames (upd_buf i f s) = num_output_frames s" "output_all_layers (upd_buf i f s) = output_all_layers s"
  "large_scale_tile (upd_buf i f s) = large_scale_tile s" "camera_frame_header_ready (upd_buf i f s) = camera_frame_header_ready s"
  "hold_ref_buf (upd_buf i f s) = hold_ref_buf s" "show_existing_frame (upd_buf i f s) = show_existing_frame s"
  "reset_decoder_state (upd_buf i f s) = reset_decoder_state s" "current_frame (upd_buf i f s) = current_frame s"
  "seq_params (upd_buf i f s) = seq_params s" "need_resync (upd_buf i f s) = need_resync s" "show_frame (upd_buf i f s) = show_frame s"
  "frame_bufs (upd_buf i f s) = (frame_bufs s)(i := f (frame_bufs s i))"
  by (simp_all add: upd_buf_def)

lemma add_ref_fields [simp]:
  "ref_frame_map (add_ref d p s) = ref_frame_map s" "next_ref_frame_map (add_ref d p s) = next_ref_frame_map s"
  "cur_frame (add_ref d p s) = cur_frame s" "output_frames (add_ref d p s) = output_frames s"
  "num_output_frames (add_ref d p s) = num_output_frames s" "output_all_layers (add_ref d p s) = output_all_layers s"
  "large_scale_tile (add_ref d p s) = large_scale_tile s" "camera_frame_header_ready (add_ref d p s) = camera_frame_header_ready s"
  "hold_ref_buf (add_ref d p s) = hold_ref_buf s" "show_existing_frame (add_ref d p s) = show_existing_frame s"
  "reset_decoder_state (add_ref d p s) = reset_decoder_state s" "current_frame (add_ref d p s) = current_frame s"
  "seq_params (add_ref d p s) = seq_params s" "need_resync (add_ref d p s) = need_resync s" "show_frame (add_ref d p s) = show_frame s"
  by (simp_all add: add_ref_def split: option.split)

lemma ref_count_add_ref [simp]:
  "ref_count (frame_bufs (add_ref d p s) i) = ref_count (frame_bufs s i) + (if p = Some i then d else 0)"
  by (simp add: add_ref_def split: option.split)

section \<open>The invariant\<close>

text \<open>The pointers that hold a reference: the two maps, the current frame and the queued output.\<close>

definition held :: "AV1 \<Rightarrow> nat option multiset" where
  "held s = mset (ref_frame_map s) + mset (next_ref_frame_map s) + {#cur_frame s#} +
     mset (take (num_output_frames s) (output_frames s))"

definition av1_ok :: "(nat \<Rightarrow> nat) \<Rightarrow> AV1 \<Rightarrow> bool" where
  "av1_ok L s \<longleftrightarrow> length (ref_frame_map s) = REF_FRAMES \<and> length (next_ref_frame_map s) = REF_FRAMES \<and>
     length (output_frames s) = MAX_NUM_SPATIAL_LAYERS \<and> num_output_frames s \<le> 1 \<and> \<not> output_all_layers s \<and>
     \<not> large_scale_tile s \<and> \<not> camera_frame_header_ready s \<and>
     (\<not> hold_ref_buf s \<longrightarrow> next_ref_frame_map s = replicate REF_FRAMES None) \<and>
     (hold_ref_buf s \<longrightarrow> \<not> show_existing_frame s \<or> reset_decoder_state s) \<and>
     (\<forall>i. ref_count (frame_bufs s i) = int (count (held s) (Some i) + L i))"

text \<open>The part of the state that the invariant is about.\<close>

definition refs_of :: "AV1 \<Rightarrow> (nat option list \<times> nat option list \<times> nat option \<times> nat option list \<times> nat) \<times> bool list \<times> (nat \<Rightarrow> int)" where
  "refs_of s = ((ref_frame_map s, next_ref_frame_map s, cur_frame s, output_frames s, num_output_frames s),
     [output_all_layers s, large_scale_tile s, camera_frame_header_ready s, hold_ref_buf s, show_existing_frame s, reset_decoder_state s],
     \<lambda>i. ref_count (frame_bufs s i))"

lemma av1_ok_refs_of: "refs_of s' = refs_of s \<Longrightarrow> av1_ok L s' = av1_ok L s"
  unfolding refs_of_def av1_ok_def held_def by (auto simp: fun_eq_iff)

lemma refs_ofD:
  assumes "refs_of s' = refs_of s"
  shows "ref_frame_map s' = ref_frame_map s" "cur_frame s' = cur_frame s" "hold_ref_buf s' = hold_ref_buf s"
    "show_existing_frame s' = show_existing_frame s" "reset_decoder_state s' = reset_decoder_state s"
    "num_output_frames s' = num_output_frames s"
  using assms by (simp_all add: refs_of_def)

section \<open>Operations that keep the references\<close>

lemma refs_of_upd_buf: "(\<And>b. ref_count (f b) = ref_count b) \<Longrightarrow> refs_of (upd_buf i f s) = refs_of s"
  by (auto simp: refs_of_def)

lemma refs_of_error_if [simp]: "refs_of (error_if b c s) = refs_of s"
  by (simp add: error_if_def aom_internal_error_def refs_of_def)

lemma refs_of_aom_internal_error [simp]: "refs_of (aom_internal_error c s) = refs_of s"
  by (simp add: aom_internal_error_def refs_of_def)

lemma refs_of_updates [simp]:
  "refs_of (s\<lparr>error_code := e\<rparr>) = refs_of s" "refs_of (s\<lparr>current_frame := c\<rparr>) = refs_of s"
  "refs_of (s\<lparr>prev_frame := pf\<rparr>) = refs_of s" "refs_of (s\<lparr>need_resync := b\<rparr>) = refs_of s"
  "refs_of (s\<lparr>decoding_first_frame := b\<rparr>) = refs_of s" "refs_of (s\<lparr>sequence_header_ready := b\<rparr>) = refs_of s"
  "refs_of (s\<lparr>sequence_header_changed := b\<rparr>) = refs_of s" "refs_of (s\<lparr>seen_frame_header := b\<rparr>) = refs_of s"
  "refs_of (s\<lparr>seq_params := q\<rparr>) = refs_of s" "refs_of (s\<lparr>last_frame_type := t\<rparr>) = refs_of s"
  "refs_of (s\<lparr>show_frame := b\<rparr>) = refs_of s" "refs_of (s\<lparr>showable_frame := b\<rparr>) = refs_of s"
  "refs_of (s\<lparr>error_resilient_mode := b\<rparr>) = refs_of s" "refs_of (s\<lparr>primary_ref_frame := pr\<rparr>) = refs_of s"
  "refs_of (s\<lparr>allow_ref_frame_mvs := b\<rparr>) = refs_of s" "refs_of (s\<lparr>current_frame_id := n\<rparr>) = refs_of s"
  "refs_of (s\<lparr>ref_frame_id := ns\<rparr>) = refs_of s" "refs_of (s\<lparr>valid_for_referencing := bs\<rparr>) = refs_of s"
  "refs_of (s\<lparr>remapped_ref_idx := ns\<rparr>) = refs_of s" "refs_of (s\<lparr>ref_frame_sign_bias := ns\<rparr>) = refs_of s"
  "refs_of (s\<lparr>ref_scale_factors := sfs\<rparr>) = refs_of s" "refs_of (s\<lparr>cm_width := n\<rparr>) = refs_of s"
  "refs_of (s\<lparr>cm_height := n\<rparr>) = refs_of s" "refs_of (s\<lparr>cm_dec_width := n\<rparr>) = refs_of s"
  "refs_of (s\<lparr>cm_render_width := n\<rparr>) = refs_of s" "refs_of (s\<lparr>cm_render_height := n\<rparr>) = refs_of s"
  "refs_of (s\<lparr>superres_upscaled_width := n\<rparr>) = refs_of s" "refs_of (s\<lparr>superres_upscaled_height := n\<rparr>) = refs_of s"
  "refs_of (s\<lparr>mi_rows := n\<rparr>) = refs_of s" "refs_of (s\<lparr>mi_cols := n\<rparr>) = refs_of s" "refs_of (s\<lparr>mi_stride := n\<rparr>) = refs_of s"
  "refs_of (s\<lparr>ref_frame_side := ns\<rparr>) = refs_of s" "refs_of (s\<lparr>mv_ref_id := ks\<rparr>) = refs_of s"
  "refs_of (s\<lparr>mv_ref_offset := nss\<rparr>) = refs_of s" "refs_of (s\<lparr>mv_cal_tpl_mvs := bs\<rparr>) = refs_of s"
  "refs_of (s\<lparr>next_used_ref_frame_map := ps\<rparr>) = refs_of s"
  by (simp_all add: refs_of_def)

lemma refs_of_fold: "(\<And>x s. x \<in> set xs \<Longrightarrow> refs_of (f x s) = refs_of s) \<Longrightarrow> refs_of (fold f xs s) = refs_of s"
  by (induction xs arbitrary: s) auto

lemma refs_of_fold_opt:
  "fold_opt f xs s = Some s' \<Longrightarrow> (\<And>x s s'. x \<in> set xs \<Longrightarrow> f x s = Some s' \<Longrightarrow> refs_of s' = refs_of s) \<Longrightarrow> refs_of s' = refs_of s"
proof (induction xs arbitrary: s)
  case (Cons x xs)
  then show ?case
    by (auto elim!: bind_SomeE) metis
qed simp

lemma refs_of_resize_context_buffers: "resize_context_buffers w h s = Some s' \<Longrightarrow> refs_of s' = refs_of s"
  by (auto simp: resize_context_buffers_def av1_set_mb_mi_def Let_def refs_of_upd_buf elim!: bind_SomeE split: if_splits)

lemma refs_of_aom_realloc [simp]: "refs_of (aom_realloc_frame_buffer i w h o' s) = refs_of s"
  by (simp add: aom_realloc_frame_buffer_def refs_of_upd_buf)

lemma refs_of_setup_buffer_pool: "setup_buffer_pool s = Some s' \<Longrightarrow> refs_of s' = refs_of s"
  by (auto simp: setup_buffer_pool_def Let_def refs_of_upd_buf elim!: bind_SomeE)

lemma refs_of_setup_superres [simp]: "refs_of (setup_superres p s) = refs_of s"
  by (simp add: setup_superres_def)

lemma refs_of_setup_frame_size: "setup_frame_size b p s = Some s' \<Longrightarrow> refs_of s' = refs_of s"
  unfolding setup_frame_size_def Let_def
  by (auto elim!: bind_SomeE dest!: refs_of_resize_context_buffers refs_of_setup_buffer_pool)

lemma refs_of_size_from_ref: "refs_of (snd (size_from_ref p is s)) = refs_of s"
  by (induction p "is" s rule: size_from_ref.induct) (auto split: option.split)

lemma refs_of_setup_frame_size_with_refs: "setup_frame_size_with_refs p s = Some s' \<Longrightarrow> refs_of s' = refs_of s"
proof -
  obtain found t where t: "size_from_ref p [LAST_FRAME..<ALTREF_FRAME + 1] s = (found, t)"
    by fastforce
  have "refs_of t = refs_of s"
    using refs_of_size_from_ref [of p "[LAST_FRAME..<ALTREF_FRAME + 1]" s] t by simp
  then show "setup_frame_size_with_refs p s = Some s' \<Longrightarrow> refs_of s' = refs_of s"
    unfolding setup_frame_size_with_refs_def t Let_def
    by (auto elim!: bind_SomeE dest!: refs_of_resize_context_buffers refs_of_setup_buffer_pool)
qed

lemma refs_of_av1_set_frame_refs: "av1_set_frame_refs l g s = Some s' \<Longrightarrow> refs_of s' = refs_of s"
  unfolding av1_set_frame_refs_def Let_def by (auto elim!: bind_SomeE split: prod.splits)

lemma refs_of_setup_ref_hint [simp]: "refs_of (setup_ref_hint i r s) = refs_of s"
  by (auto simp: setup_ref_hint_def refs_of_upd_buf split: option.split)

lemma refs_of_av1_setup_frame_buf_refs: "av1_setup_frame_buf_refs s = Some s' \<Longrightarrow> refs_of s' = refs_of s"
  by (auto simp: av1_setup_frame_buf_refs_def refs_of_upd_buf refs_of_fold elim!: bind_SomeE)

lemma refs_of_set_skip_mode [simp]: "refs_of (set_skip_mode a i j s) = refs_of s"
  by (simp add: set_skip_mode_def)

lemma refs_of_skip_mode [simp]: "refs_of (av1_setup_skip_mode_allowed s) = refs_of s"
  by (simp add: av1_setup_skip_mode_allowed_def Let_def split: prod.split)

lemma refs_of_motion_field_projection: "motion_field_projection r s = Some (b, s') \<Longrightarrow> refs_of s' = refs_of s"
  by (auto simp: motion_field_projection_def Let_def split: if_splits option.splits)

lemma refs_of_project_backward: "project_backward c r (n, s) = Some (m, s') \<Longrightarrow> refs_of s' = refs_of s"
  by (auto simp: project_backward_def elim!: bind_SomeE dest!: refs_of_motion_field_projection split: if_splits)

lemma refs_of_av1_setup_motion_field:
  assumes "av1_setup_motion_field s = Some s'"
  shows "refs_of s' = refs_of s"
  using assms unfolding av1_setup_motion_field_def Let_def
  by (auto elim!: bind_SomeE dest!: refs_of_motion_field_projection refs_of_project_backward split: if_splits option.splits)

section \<open>Operations that move references\<close>

lemma count_list_update:
  assumes "k < length xs"
  shows "int (count (mset (xs[k := v])) e) = int (count (mset xs) e) + (if v = e then 1 else 0) - (if xs ! k = e then 1 else 0)"
proof -
  have "xs ! k \<in># mset xs"
    using assms by simp
  then have "0 < count (mset xs) (xs ! k)"
    by (simp add: count_greater_zero_iff)
  then show ?thesis
    using assms by (auto simp: mset_update)
qed

text \<open>The counts alone, for states in the middle of an operation.\<close>

definition counts_ok :: "(nat \<Rightarrow> nat) \<Rightarrow> AV1 \<Rightarrow> bool" where
  "counts_ok L s \<longleftrightarrow> length (ref_frame_map s) = REF_FRAMES \<and> length (next_ref_frame_map s) = REF_FRAMES \<and>
     length (output_frames s) = MAX_NUM_SPATIAL_LAYERS \<and>
     (\<forall>i. ref_count (frame_bufs s i) = int (count (held s) (Some i) + L i))"

definition rest_of :: "AV1 \<Rightarrow> (nat option list \<times> nat) \<times> bool list" where
  "rest_of s = ((output_frames s, num_output_frames s),
     [output_all_layers s, large_scale_tile s, camera_frame_header_ready s, hold_ref_buf s, show_existing_frame s, reset_decoder_state s])"

lemma av1_ok_iff:
  "av1_ok L s \<longleftrightarrow> counts_ok L s \<and> num_output_frames s \<le> 1 \<and> \<not> output_all_layers s \<and> \<not> large_scale_tile s \<and>
     \<not> camera_frame_header_ready s \<and> (\<not> hold_ref_buf s \<longrightarrow> next_ref_frame_map s = replicate REF_FRAMES None) \<and>
     (hold_ref_buf s \<longrightarrow> \<not> show_existing_frame s \<or> reset_decoder_state s)"
  by (auto simp: av1_ok_def counts_ok_def)

lemma rest_ofD:
  assumes "rest_of s' = rest_of s"
  shows "output_frames s' = output_frames s" "num_output_frames s' = num_output_frames s" "output_all_layers s' = output_all_layers s"
    "large_scale_tile s' = large_scale_tile s" "camera_frame_header_ready s' = camera_frame_header_ready s"
    "hold_ref_buf s' = hold_ref_buf s" "show_existing_frame s' = show_existing_frame s" "reset_decoder_state s' = reset_decoder_state s"
  using assms by (simp_all add: rest_of_def)

lemma rest_of_fold: "(\<And>x s. rest_of (f x s) = rest_of s) \<Longrightarrow> rest_of (fold f xs s) = rest_of s"
  by (induction xs arbitrary: s) auto

lemma refs_of_rest_of: "refs_of s' = refs_of s \<Longrightarrow> rest_of s' = rest_of s"
  by (simp add: refs_of_def rest_of_def)

lemma refs_of_counts_ok: "refs_of s' = refs_of s \<Longrightarrow> counts_ok L s' = counts_ok L s"
  unfolding refs_of_def counts_ok_def held_def by (auto simp: fun_eq_iff)

lemma fold_invariant: "P s \<Longrightarrow> (\<And>x s. x \<in> set xs \<Longrightarrow> P s \<Longrightarrow> P (f x s)) \<Longrightarrow> P (fold f xs s)"
  by (induction xs arbitrary: s) auto

subsection \<open>Clearing and filling the maps\<close>

lemma decrease_fields [simp]:
  "ref_frame_map (decrease_ref_count p s) = ref_frame_map s" "next_ref_frame_map (decrease_ref_count p s) = next_ref_frame_map s"
  "cur_frame (decrease_ref_count p s) = cur_frame s" "output_frames (decrease_ref_count p s) = output_frames s"
  "num_output_frames (decrease_ref_count p s) = num_output_frames s" "rest_of (decrease_ref_count p s) = rest_of s"
  "ref_count (frame_bufs (decrease_ref_count p s) i) = ref_count (frame_bufs s i) + (if p = Some i then - 1 else 0)"
  by (simp_all add: decrease_ref_count_def rest_of_def)

lemma rest_of_map_updates [simp]:
  "rest_of (s\<lparr>ref_frame_map := m\<rparr>) = rest_of s" "rest_of (s\<lparr>next_ref_frame_map := m\<rparr>) = rest_of s"
  "rest_of (s\<lparr>next_used_ref_frame_map := m\<rparr>) = rest_of s" "rest_of (s\<lparr>cur_frame := p\<rparr>) = rest_of s"
  by (simp_all add: rest_of_def)

lemma rest_of_add_ref [simp]: "rest_of (add_ref d p s) = rest_of s"
  by (simp add: rest_of_def)

lemma reset_ref_step_ok: "counts_ok L s \<Longrightarrow> i < REF_FRAMES \<Longrightarrow> counts_ok L (reset_ref_step i s)"
  by (auto simp: counts_ok_def reset_ref_step_def held_def count_list_update)

lemma rest_of_reset_ref_step [simp]: "rest_of (reset_ref_step i s) = rest_of s" "cur_frame (reset_ref_step i s) = cur_frame s"
    "next_ref_frame_map (reset_ref_step i s) = next_ref_frame_map s"
  by (simp_all add: reset_ref_step_def)

lemma fold_reset_fields [simp]:
  "cur_frame (fold reset_ref_step is s) = cur_frame s" "next_ref_frame_map (fold reset_ref_step is s) = next_ref_frame_map s"
  by (induction "is" arbitrary: s) simp_all

lemma reset_ref_frame_map_ok:
  assumes "counts_ok L s"
  shows "counts_ok L (reset_ref_frame_map s)" "rest_of (reset_ref_frame_map s) = rest_of s" "cur_frame (reset_ref_frame_map s) = cur_frame s"
    "next_ref_frame_map (reset_ref_frame_map s) = next_ref_frame_map s"
  using assms unfolding reset_ref_frame_map_def
  by (auto intro!: fold_invariant [where P = "counts_ok L"] reset_ref_step_ok rest_of_fold)

lemma next_ref_step_ok:
  assumes "counts_ok L s" "i < REF_FRAMES" "next_ref_frame_map s ! i = None"
  shows "counts_ok L (next_ref_step i s)"
  using assms by (auto simp: counts_ok_def next_ref_step_def Let_def held_def count_list_update)

lemma next_ref_step_fields [simp]: "rest_of (next_ref_step i s) = rest_of s" "cur_frame (next_ref_step i s) = cur_frame s"
  "i \<noteq> j \<Longrightarrow> next_ref_frame_map (next_ref_step i s) ! j = next_ref_frame_map s ! j"
  "ref_frame_map (next_ref_step i s) = ref_frame_map s" "current_frame (next_ref_step i s) = current_frame s"
  by (simp_all add: next_ref_step_def Let_def)

lemma next_ref_steps_ok:
  assumes "counts_ok L s" "distinct is" "\<And>i. i \<in> set is \<Longrightarrow> i < REF_FRAMES \<and> next_ref_frame_map s ! i = None"
  shows "counts_ok L (fold next_ref_step is s)"
  using assms
proof (induction "is" arbitrary: s)
  case (Cons i "is")
  have "next_ref_frame_map (next_ref_step i s) ! j = None" if "j \<in> set is" for j
    using Cons.prems that next_ref_step_fields(3) [of i j s] by fastforce
  then have "counts_ok L (fold next_ref_step is (next_ref_step i s))"
    using Cons.prems by (intro Cons.IH next_ref_step_ok) auto
  then show ?case
    by simp
qed simp

lemma generate_next_ok:
  assumes "counts_ok L s" "next_ref_frame_map s = replicate REF_FRAMES None" "generate_next_ref_frame_map s = Some s'"
  shows "counts_ok L s'" "hold_ref_buf s'" "rest_of s' = rest_of (s\<lparr>hold_ref_buf := True\<rparr>)"
proof -
  let ?t = "fold next_ref_step [0..<REF_FRAMES] s"
  have s': "s' = ?t\<lparr>hold_ref_buf := True\<rparr>"
    using assms(3) by (simp add: generate_next_ref_frame_map_def split: if_splits)
  have "counts_ok L ?t" "rest_of ?t = rest_of s"
    using assms(1,2) by (auto intro!: next_ref_steps_ok rest_of_fold)
  then show "counts_ok L s'" "hold_ref_buf s'" "rest_of s' = rest_of (s\<lparr>hold_ref_buf := True\<rparr>)"
    unfolding s' by (simp_all add: counts_ok_def held_def rest_of_def)
qed

subsection \<open>Transfer to the reference map\<close>

lemma transfer_ref_ok: "counts_ok L s \<Longrightarrow> i < REF_FRAMES \<Longrightarrow> counts_ok L (transfer_ref i s)"
  by (auto simp: counts_ok_def transfer_ref_def held_def count_list_update)

lemma transfer_ref_fields [simp]: "rest_of (transfer_ref i s) = rest_of s" "cur_frame (transfer_ref i s) = cur_frame s"
  "next_ref_frame_map (transfer_ref i s) = (next_ref_frame_map s)[i := None]"
  "ref_frame_map (transfer_ref i s) = (ref_frame_map s)[i := next_ref_frame_map s ! i]"
  by (simp_all add: transfer_ref_def)

lemma next_map_transfer:
  "next_ref_frame_map (fold transfer_ref is s) = fold (\<lambda>i xs. xs[i := None]) is (next_ref_frame_map s)"
  by (induction "is" arbitrary: s) simp_all

lemma fold_clear: "length xs = n \<Longrightarrow> fold (\<lambda>i xs. xs[i := None]) [0..<n] xs = replicate n None"
proof -
  have "k \<le> length xs \<Longrightarrow> fold (\<lambda>i xs. xs[i := None]) [0..<k] xs = replicate k None @ drop k xs" for k
  proof (induction k)
    case (Suc k)
    have "drop k xs = xs ! k # drop (Suc k) xs"
      using Suc.prems by (intro Cons_nth_drop_Suc [symmetric]) simp
    then show ?case
      using Suc by (simp add: list_update_append replicate_append_same flip: replicate_Suc)
  qed simp
  then show "length xs = n \<Longrightarrow> fold (\<lambda>i xs. xs[i := None]) [0..<n] xs = replicate n None"
    by fastforce
qed

lemma replicate_update_same [simp]: "(replicate n x)[i := x] = replicate n x"
  by (cases "i < n") (simp_all add: list_update_same_conv list_update_beyond)

lemma fold_clear_none: "fold (\<lambda>i xs. xs[i := None]) is (replicate n None) = replicate n None"
  by (induction "is") simp_all

lemma transfer_refs_ok:
  assumes "av1_ok L s" "transfer_refs s = Some s'"
  shows "counts_ok L s'" "rest_of s' = rest_of s" "cur_frame s' = cur_frame s" "next_ref_frame_map s' = replicate REF_FRAMES None"
proof -
  let ?is = "if \<not> show_existing_frame s \<or> reset_decoder_state s then [0..<REF_FRAMES]
      else [0..<mask_len (refresh_frame_flags (current_frame s))]"
  have s': "s' = fold transfer_ref ?is s" and n: "\<forall>i\<in>set ?is. i < REF_FRAMES"
    using assms(2) by (auto simp: transfer_refs_def Let_def split: if_splits)
  show "counts_ok L s'"
    unfolding s' using assms(1) n by (intro fold_invariant [where P = "counts_ok L"] transfer_ref_ok) (auto simp: av1_ok_iff)
  show "rest_of s' = rest_of s"
    unfolding s' by (rule rest_of_fold) simp
  have "cur_frame (fold transfer_ref is s) = cur_frame s" for "is"
    by (induction "is" arbitrary: s) simp_all
  then show "cur_frame s' = cur_frame s"
    unfolding s' .
  show "next_ref_frame_map s' = replicate REF_FRAMES None"
  proof (cases "hold_ref_buf s")
    case True
    then have "?is = [0..<REF_FRAMES]"
      using assms(1) by (auto simp: av1_ok_iff)
    then show ?thesis
      unfolding s' next_map_transfer using assms(1) by (simp add: av1_ok_iff counts_ok_def fold_clear)
  next
    case False
    then show ?thesis
      unfolding s' next_map_transfer using assms(1) by (simp add: av1_ok_iff fold_clear_none)
  qed
qed

section \<open>The frame header\<close>

text \<open>No references are held for a next frame.\<close>

definition idle :: "(nat \<Rightarrow> nat) \<Rightarrow> AV1 \<Rightarrow> bool" where
  "idle L s \<longleftrightarrow> counts_ok L s \<and> next_ref_frame_map s = replicate REF_FRAMES None \<and> num_output_frames s \<le> 1 \<and>
     \<not> output_all_layers s \<and> \<not> large_scale_tile s \<and> \<not> camera_frame_header_ready s \<and> \<not> hold_ref_buf s"

definition parsing :: "(nat \<Rightarrow> nat) \<Rightarrow> AV1 \<Rightarrow> bool" where
  "parsing L s \<longleftrightarrow> idle L s \<and> \<not> show_existing_frame s"

lemma idle_av1_ok: "idle L s \<Longrightarrow> av1_ok L s"
  by (simp add: idle_def av1_ok_iff)

lemma av1_ok_idle: "av1_ok L s \<Longrightarrow> \<not> hold_ref_buf s \<Longrightarrow> idle L s"
  by (simp add: idle_def av1_ok_iff)

lemma idle_refs_of: "refs_of s' = refs_of s \<Longrightarrow> idle L s' = idle L s"
  using refs_of_counts_ok [of s' s] by (auto simp: idle_def refs_of_def)

lemma parsing_refs_of: "refs_of s' = refs_of s \<Longrightarrow> parsing L s' = parsing L s"
  using idle_refs_of [of s' s] refs_ofD [of s' s] by (simp add: parsing_def)

lemma idle_if:
  assumes "idle L s" "counts_ok L s'" "rest_of s' = rest_of s" "next_ref_frame_map s' = next_ref_frame_map s"
  shows "idle L s'"
  using assms rest_ofD [OF assms(3)] by (simp add: idle_def)

lemma idle_resync: "idle L s \<Longrightarrow> idle L (resync s) \<and> show_existing_frame (resync s) = show_existing_frame s \<and>
    reset_decoder_state (resync s) = reset_decoder_state s \<and> cur_frame (resync s) = cur_frame s"
proof -
  assume s: "idle L s"
  note r = reset_ref_frame_map_ok [of L s]
  have c: "counts_ok L s"
    using s by (simp add: idle_def)
  have "idle L (reset_ref_frame_map s)"
    using idle_if [OF s r(1) r(2) r(4)] c by simp
  then have "idle L ((reset_ref_frame_map s)\<lparr>need_resync := False\<rparr>)"
    using idle_refs_of [OF refs_of_updates(4)] by blast
  then show "idle L (resync s) \<and> show_existing_frame (resync s) = show_existing_frame s \<and>
      reset_decoder_state (resync s) = reset_decoder_state s \<and> cur_frame (resync s) = cur_frame s"
    using s rest_ofD [OF r(2) [OF c]] r(3) [OF c] by (simp add: resync_def)
qed

lemma refs_of_clear_unreferenced [simp]: "refs_of (clear_unreferenced s) = refs_of s"
  by (auto simp: clear_unreferenced_def refs_of_def Let_def)

lemma idle_new_sequence: "idle L s \<Longrightarrow> idle L (new_sequence s) \<and> show_existing_frame (new_sequence s) = show_existing_frame s"
proof -
  assume s: "idle L s"
  let ?s = "(s\<lparr>sequence_header_changed := False, decoding_first_frame := True\<rparr>)\<lparr>next_ref_frame_map := replicate REF_FRAMES None\<rparr>"
  have e: "refs_of ?s = refs_of s"
    using s by (simp add: refs_of_def idle_def)
  have i: "idle L ?s"
    using idle_refs_of [OF e] s by simp
  note r = reset_ref_frame_map_ok [of L ?s]
  have c: "counts_ok L ?s"
    using i by (simp add: idle_def)
  have "idle L (reset_ref_frame_map ?s)"
    by (rule idle_if [OF i r(1) [OF c] r(2) [OF c] r(4) [OF c]])
  then have "idle L (new_sequence s)"
    unfolding new_sequence_def reset_frame_buffers_def using idle_refs_of [OF refs_of_clear_unreferenced] by blast
  moreover have "show_existing_frame (new_sequence s) = show_existing_frame s"
    using rest_ofD(7) [OF r(2) [OF c]] refs_ofD(4) [OF refs_of_clear_unreferenced]
    unfolding new_sequence_def reset_frame_buffers_def by simp
  ultimately show "idle L (new_sequence s) \<and> show_existing_frame (new_sequence s) = show_existing_frame s"
    by simp
qed

lemma refs_of_set_frame_type [simp]: "refs_of (set_frame_type t s) = refs_of s"
  by (simp add: set_frame_type_def)

lemma refs_of_set_refresh_flags [simp]: "refs_of (set_refresh_flags f s) = refs_of s"
  by (simp add: set_refresh_flags_def)

lemma refs_of_invalidate [simp]: "refs_of (invalidate_remapped s) = refs_of s"
  by (simp add: invalidate_remapped_def)

lemma refs_of_update_ref_frame_id [simp]: "refs_of (update_ref_frame_id i s) = refs_of s"
  by (simp add: update_ref_frame_id_def Let_def)

lemma parsing_if_refs: "parsing L s \<Longrightarrow> refs_of s' = refs_of s \<Longrightarrow> parsing L s'"
  using parsing_refs_of by blast

lemma parsing_new_sequence: "parsing L s \<Longrightarrow> parsing L (new_sequence s)"
  using idle_new_sequence [of L s] by (simp add: parsing_def)

lemma parsing_frame_start_full:
  assumes "parsing L s" "frame_start p s = Some s'" "\<not> reduced_still_picture_hdr (seq_params s)"
  shows "parsing L s'"
proof -
  let ?s1 = "set_frame_type (p_frame_type p) s"
  let ?s2 = "if sequence_header_changed ?s1
      then if p_frame_type p = KEY_FRAME then new_sequence ?s1 else aom_internal_error AOM_CODEC_CORRUPT_FRAME ?s1 else ?s1"
  have "parsing L ?s1"
    by (rule parsing_if_refs [OF assms(1)]) simp
  moreover have "parsing L (if b then if c then new_sequence t else aom_internal_error e t else t)" if "parsing L t" for b c e t
    using that parsing_new_sequence parsing_if_refs [OF _ refs_of_aom_internal_error] by simp
  ultimately have "parsing L ?s2"
    by blast
  moreover have "refs_of s' = refs_of ?s2"
    using assms(2,3) unfolding frame_start_def Let_def
    by (auto elim!: bind_SomeE simp: refs_of_upd_buf)
  ultimately show ?thesis
    by (rule parsing_if_refs)
qed

lemma parsing_frame_start_reduced:
  assumes "idle L s" "frame_start p s = Some s'" "reduced_still_picture_hdr (seq_params s)"
  shows "parsing L s'"
proof -
  let ?s1 = "set_frame_type KEY_FRAME (s\<lparr>show_existing_frame := False, show_frame := True\<rparr>)"
  have "idle L (s\<lparr>show_existing_frame := False\<rparr>)"
    using assms(1) by (simp add: idle_def counts_ok_def held_def)
  then have "parsing L (s\<lparr>show_existing_frame := False\<rparr>)"
    by (simp add: parsing_def)
  moreover have "refs_of ?s1 = refs_of (s\<lparr>show_existing_frame := False\<rparr>)"
    by (simp add: refs_of_def set_frame_type_def)
  ultimately have "parsing L ?s1"
    by (rule parsing_if_refs)
  then have "parsing L (if sequence_header_changed ?s1 then new_sequence ?s1 else ?s1)"
    using parsing_new_sequence by simp
  moreover have "refs_of s' = refs_of (if sequence_header_changed ?s1 then new_sequence ?s1 else ?s1)"
    using assms(2,3) by (auto simp: frame_start_def Let_def)
  ultimately show ?thesis
    by (rule parsing_if_refs)
qed

lemma refs_of_frame_hints: "refs_of (snd (frame_hints p s)) = refs_of s"
  by (simp add: frame_hints_def frame_ids_def Let_def)

lemma parsing_resync: "parsing L s \<Longrightarrow> parsing L (resync s)"
  using idle_resync [of L s] by (simp add: parsing_def)

lemma parsing_refresh_flags: "parsing L s \<Longrightarrow> parsing L (refresh_flags p s)"
proof -
  assume s: "parsing L s"
  have "parsing L (invalidate_remapped (set_refresh_flags f s))" "parsing L (error_if b c (set_refresh_flags f s))"
      "parsing L (set_refresh_flags f s)" for b c f
    by (rule parsing_if_refs [OF s], simp)+
  then show ?thesis
    using s by (simp add: refresh_flags_def parsing_resync)
qed

lemma get_free_fb_cases:
  assumes "get_free_fb s = (r, s')"
  shows "case r of None \<Rightarrow> s' = s | Some b \<Rightarrow> b < FRAME_BUFFERS \<and> ref_count (frame_bufs s b) = 0 \<and> vf_ref (frame_bufs s b) = 0 \<and>
    s' = upd_buf b (\<lambda>x. x\<lparr>ref_count := 1\<rparr>) s"
  using assms by (auto simp: get_free_fb_def find_Some_iff split: option.splits)

lemma check_ref_hint_cases:
  assumes "check_ref_hint p i s = Some s'"
  shows "s' = s \<or> (\<exists>b t. get_free_fb (decrease_ref_count (ref_frame_map s ! i) s) = (Some b, t) \<and>
    refs_of s' = refs_of (t\<lparr>ref_frame_map := (ref_frame_map t)[i := Some b]\<rparr>))"
proof -
  obtain r t where t: "get_free_fb (decrease_ref_count (ref_frame_map s ! i) s) = (r, t)"
    by fastforce
  show ?thesis
  proof (cases r)
    case None
    then show ?thesis
      using assms t by (simp add: check_ref_hint_def Let_def split: if_splits)
  next
    case (Some b)
    have "refs_of (upd_buf b f (u\<lparr>ref_frame_map := m\<rparr>)) = refs_of (t\<lparr>ref_frame_map := m\<rparr>)"
      if "refs_of u = refs_of t" "\<And>x. ref_count (f x) = ref_count x" for f u m
      using that by (auto simp: refs_of_def fun_eq_iff)
    moreover have "ref_frame_map (aom_realloc_frame_buffer b w h n t) = ref_frame_map t" for w h n
      by (simp add: aom_realloc_frame_buffer_def)
    ultimately show ?thesis
      using assms t Some by (auto simp: check_ref_hint_def Let_def split: if_splits)
  qed
qed

lemma parsing_check_ref_hint:
  assumes "parsing L s" "check_ref_hint p i s = Some s'" "i < REF_FRAMES"
  shows "parsing L s'"
proof (cases "s' = s")
  case False
  then obtain b t where t: "get_free_fb (decrease_ref_count (ref_frame_map s ! i) s) = (Some b, t)"
    and s': "refs_of s' = refs_of (t\<lparr>ref_frame_map := (ref_frame_map t)[i := Some b]\<rparr>)"
    using check_ref_hint_cases [OF assms(2)] by blast
  have free: "ref_count (frame_bufs (decrease_ref_count (ref_frame_map s ! i) s) b) = 0"
    "t = upd_buf b (\<lambda>x. x\<lparr>ref_count := 1\<rparr>) (decrease_ref_count (ref_frame_map s ! i) s)"
    using get_free_fb_cases [OF t] by simp_all
  have c: "counts_ok L s"
    using assms(1) by (simp add: parsing_def idle_def)
  have n: "int (count (held (t\<lparr>ref_frame_map := (ref_frame_map t)[i := Some b]\<rparr>)) (Some j)) =
      int (count (held s) (Some j)) + (if b = j then 1 else 0) - (if ref_frame_map s ! i = Some j then 1 else 0)" for j
  proof -
    have "i < length (ref_frame_map s)"
      using c assms(3) by (simp add: counts_ok_def)
    from count_list_update [OF this, of "Some b" "Some j"] show ?thesis
      by (auto simp: held_def free(2))
  qed
  have "counts_ok L (t\<lparr>ref_frame_map := (ref_frame_map t)[i := Some b]\<rparr>)"
    using c free(1) n unfolding counts_ok_def by (auto simp: free(2) split: if_splits)
  then have "idle L (t\<lparr>ref_frame_map := (ref_frame_map t)[i := Some b]\<rparr>)"
    using assms(1) unfolding free(2) parsing_def idle_def by (simp add: decrease_ref_count_def)
  then show ?thesis
    using assms(1) parsing_refs_of [OF s'] unfolding free(2) by (simp add: parsing_def decrease_ref_count_def)
qed (use assms in simp)

lemma parsing_check_ref_hints:
  assumes "parsing L s" "check_ref_hints p s = Some s'"
  shows "parsing L s'"
proof -
  have "fold_opt (check_ref_hint p) is s = Some s' \<Longrightarrow> (\<And>i. i \<in> set is \<Longrightarrow> i < REF_FRAMES) \<Longrightarrow> parsing L s \<Longrightarrow> parsing L s'" for "is" s
  proof (induction "is" arbitrary: s)
    case (Cons i "is")
    obtain t where t: "check_ref_hint p i s = Some t" "fold_opt (check_ref_hint p) is t = Some s'"
      using Cons.prems(1) by (auto elim!: bind_SomeE)
    have "parsing L t"
      using parsing_check_ref_hint [OF Cons.prems(3) t(1)] Cons.prems(2) by simp
    then show ?case
      using Cons.IH [OF t(2)] Cons.prems(2) by simp
  qed simp
  from this [of "[0..<REF_FRAMES]" s] show ?thesis
    using assms by (auto simp: check_ref_hints_def split: if_splits)
qed

lemma refs_of_short_refs: "short_refs p s = Some s' \<Longrightarrow> refs_of s' = refs_of s"
  by (auto simp: short_refs_def dest!: refs_of_av1_set_frame_refs split: if_splits)

lemma refs_of_read_ref: "read_ref p b i s = Some s' \<Longrightarrow> refs_of s' = refs_of s"
  by (auto simp: read_ref_def Let_def elim!: bind_SomeE split: if_splits)

lemma refs_of_inter_refs: "inter_refs p b s = Some s' \<Longrightarrow> refs_of s' = refs_of s"
  unfolding inter_refs_def Let_def
  by (auto elim!: bind_SomeE dest!: refs_of_short_refs refs_of_fold_opt [OF _ refs_of_read_ref]
      refs_of_setup_frame_size refs_of_setup_frame_size_with_refs split: if_splits)

lemma refs_of_setup_scale [simp]: "refs_of (setup_scale r s) = refs_of s"
  by (auto simp: setup_scale_def Let_def split: option.split)

lemma refs_of_frame_refs: "frame_refs p b s = Some s' \<Longrightarrow> refs_of s' = refs_of s"
  unfolding frame_refs_def Let_def
  by (auto elim!: bind_SomeE dest!: refs_of_setup_frame_size refs_of_inter_refs simp: refs_of_fold split: if_splits)

lemma refs_of_sign_bias [simp]: "refs_of (av1_setup_frame_sign_bias s) = refs_of s"
  by (simp add: av1_setup_frame_sign_bias_def)

text \<open>The state after the header has filled the map of the next frame.\<close>

definition filled :: "(nat \<Rightarrow> nat) \<Rightarrow> AV1 \<Rightarrow> bool" where
  "filled L s' \<longleftrightarrow> (\<exists>s t. idle L s \<and> (\<not> show_existing_frame s \<or> reset_decoder_state s) \<and> generate_next_ref_frame_map s = Some t \<and>
     refs_of s' = refs_of t \<and> refresh_frame_flags (current_frame s') = refresh_frame_flags (current_frame t))"

lemma filledI:
  assumes "idle L s" "\<not> show_existing_frame s \<or> reset_decoder_state s" "generate_next_ref_frame_map s = Some t"
    "refs_of s' = refs_of t" "refresh_frame_flags (current_frame s') = refresh_frame_flags (current_frame t)"
  shows "filled L s'"
  using assms unfolding filled_def by blast

lemma filled_ok: "filled L s' \<Longrightarrow> av1_ok L s'"
proof -
  assume "filled L s'"
  then obtain s t where s: "idle L s" "\<not> show_existing_frame s \<or> reset_decoder_state s" "generate_next_ref_frame_map s = Some t"
    and s': "refs_of s' = refs_of t"
    unfolding filled_def by blast
  note g = generate_next_ok [OF _ _ s(3)]
  have c: "counts_ok L s" "next_ref_frame_map s = replicate REF_FRAMES None"
    using s(1) by (simp_all add: idle_def)
  have r: "rest_of t = rest_of (s\<lparr>hold_ref_buf := True\<rparr>)"
    using g(3) c by blast
  have "av1_ok L t"
    using g(1,2) [OF c] rest_ofD [OF r] s(1,2) by (simp add: av1_ok_iff idle_def)
  then show ?thesis
    using av1_ok_refs_of [OF s'] by simp
qed

lemma refresh_flags_kept [simp]:
  "refresh_frame_flags (current_frame (set_skip_mode a i j s)) = refresh_frame_flags (current_frame s)"
  "refresh_frame_flags (current_frame (av1_setup_skip_mode_allowed s)) = refresh_frame_flags (current_frame s)"
  "current_frame (aom_realloc_frame_buffer k w h n s) = current_frame s"
  by (simp_all add: set_skip_mode_def av1_setup_skip_mode_allowed_def aom_realloc_frame_buffer_def Let_def split: prod.split)

lemma current_frame_projection: "motion_field_projection r s = Some (b, s') \<Longrightarrow> current_frame s' = current_frame s"
  by (auto simp: motion_field_projection_def Let_def split: if_splits option.splits)

lemma current_frame_project_backward: "project_backward c r (n, s) = Some (m, s') \<Longrightarrow> current_frame s' = current_frame s"
  by (auto simp: project_backward_def elim!: bind_SomeE dest!: current_frame_projection split: if_splits)

lemma current_frame_motion_field:
  assumes "av1_setup_motion_field s = Some s'"
  shows "current_frame s' = current_frame s"
  using assms unfolding av1_setup_motion_field_def Let_def
  by (auto elim!: bind_SomeE dest!: current_frame_projection current_frame_project_backward split: if_splits option.splits)

lemma filled_frame_finish:
  assumes "parsing L s" "frame_finish p s = Some s'"
  shows "filled L s'"
proof -
  obtain t t2 t3 t4 where t: "av1_setup_frame_buf_refs s = Some t" "generate_next_ref_frame_map t2 = Some t3" "refs_of t2 = refs_of t"
    "av1_setup_motion_field (av1_setup_skip_mode_allowed
      (t3\<lparr>current_frame := (current_frame t3)\<lparr>cf_reference_mode := \<not> frame_is_intra_only t3 \<and> p_reference_mode p\<rparr>\<rparr>)) = Some t4"
    "refs_of s' = refs_of t4" "current_frame s' = current_frame t4"
    using assms(2) unfolding frame_finish_def Let_def
    by (elim bind_SomeE) (rule that, assumption, assumption, simp add: refs_of_upd_buf, assumption, auto simp: refs_of_upd_buf)
  have "parsing L t2"
    using parsing_refs_of [OF t(3)] parsing_refs_of [OF refs_of_av1_setup_frame_buf_refs [OF t(1)]] assms(1) by simp
  moreover have "refs_of s' = refs_of t3"
    using t(5) refs_of_av1_setup_motion_field [OF t(4)] by simp
  moreover have "refresh_frame_flags (current_frame s') = refresh_frame_flags (current_frame t3)"
    using t(6) current_frame_motion_field [OF t(4)] by simp
  ultimately show ?thesis
    using t(2) by (intro filledI) (simp_all add: parsing_def)
qed

section \<open>Entry points\<close>

lemma ref_count_fold_decrease:
  "ref_count (frame_bufs (fold decrease_ref_count ps s) j) = ref_count (frame_bufs s j) - int (count (mset ps) (Some j))"
  by (induction ps arbitrary: s) auto

lemma fold_decrease_fields [simp]:
  "ref_frame_map (fold decrease_ref_count ps s) = ref_frame_map s" "next_ref_frame_map (fold decrease_ref_count ps s) = next_ref_frame_map s"
  "cur_frame (fold decrease_ref_count ps s) = cur_frame s" "rest_of (fold decrease_ref_count ps s) = rest_of s"
  by (induction ps arbitrary: s) simp_all

lemma release_output_fields [simp]:
  "ref_frame_map (release_output s) = ref_frame_map s" "next_ref_frame_map (release_output s) = next_ref_frame_map s"
  "cur_frame (release_output s) = cur_frame s" "num_output_frames (release_output s) = 0"
  "hold_ref_buf (release_output s) = hold_ref_buf s"
  "ref_count (frame_bufs (release_output s) j) =
     ref_count (frame_bufs s j) - int (count (mset (take (num_output_frames s) (output_frames s))) (Some j))"
  using rest_ofD(6) [OF fold_decrease_fields(4)] by (simp_all add: release_output_def ref_count_fold_decrease)

lemma vf_ref_decrease [simp]: "vf_ref (frame_bufs (decrease_ref_count p s) j) = vf_ref (frame_bufs s j)"
  by (simp add: decrease_ref_count_def add_ref_def split: option.split)

lemma vf_ref_release_output [simp]: "vf_ref (frame_bufs (release_output s) j) = vf_ref (frame_bufs s j)"
proof -
  have "vf_ref (frame_bufs (fold decrease_ref_count ps s) j) = vf_ref (frame_bufs s j)" for ps
    by (induction ps arbitrary: s) simp_all
  then show ?thesis
    by (simp add: release_output_def)
qed

lemma release_output_ok:
  assumes "av1_ok L s"
  shows "av1_ok L (release_output s)" "seen_frame_header (release_output s) = seen_frame_header s"
proof -
  let ?t = "fold decrease_ref_count (take (num_output_frames s) (output_frames s)) s"
  note r = rest_ofD [OF fold_decrease_fields(4) [of "take (num_output_frames s) (output_frames s)" s]]
  have "counts_ok L (release_output s)"
    using assms r by (auto simp: av1_ok_iff counts_ok_def held_def) (auto simp: release_output_def)
  then show "av1_ok L (release_output s)"
    using assms r by (auto simp: av1_ok_iff release_output_def)
  have "seen_frame_header (fold decrease_ref_count ps s) = seen_frame_header s" for ps
    by (induction ps arbitrary: s) (simp_all add: decrease_ref_count_def add_ref_def upd_buf_def split: option.split)
  then show "seen_frame_header (release_output s) = seen_frame_header s"
    by (simp add: release_output_def)
qed

text \<open>The current frame is given up and a free buffer takes its place.\<close>

lemma drop_cur_ok:
  assumes "counts_ok L s"
  shows "counts_ok L ((decrease_ref_count (cur_frame s) s)\<lparr>cur_frame := None\<rparr>)"
  using assms by (auto simp: counts_ok_def held_def)

lemma assign_cur_frame_cases:
  obtains "assign_cur_frame_new_fb s = (decrease_ref_count (cur_frame s) s)\<lparr>cur_frame := None\<rparr>"
      "\<forall>i<FRAME_BUFFERS. ref_count (frame_bufs (decrease_ref_count (cur_frame s) s) i) = 0 \<longrightarrow> vf_ref (frame_bufs s i) \<noteq> 0"
  | b where "refs_of (assign_cur_frame_new_fb s) =
      refs_of (upd_buf b (\<lambda>x. x\<lparr>ref_count := 1\<rparr>) ((decrease_ref_count (cur_frame s) s)\<lparr>cur_frame := Some b\<rparr>))"
      "ref_count (frame_bufs (decrease_ref_count (cur_frame s) s) b) = 0" "cur_frame (assign_cur_frame_new_fb s) = Some b" "b < FRAME_BUFFERS" "vf_ref (frame_bufs s b) = 0"
proof -
  let ?t = "(decrease_ref_count (cur_frame s) s)\<lparr>cur_frame := None\<rparr>"
  obtain r t where t: "get_free_fb ?t = (r, t)"
    by fastforce
  show thesis
  proof (cases r)
    case None
    then have "find (\<lambda>i. ref_count (frame_bufs ?t i) = 0 \<and> vf_ref (frame_bufs ?t i) = 0) [0..<FRAME_BUFFERS] = None"
      using t by (auto simp: get_free_fb_def simp del: decrease_fields(7) split: option.splits)
    moreover have "assign_cur_frame_new_fb s = ?t"
      using t None get_free_fb_cases [OF t] by (simp add: assign_cur_frame_new_fb_def Let_def)
    ultimately show ?thesis
      using that(1) by (auto simp: find_None_iff)
  next
    case (Some b)
    have b: "ref_count (frame_bufs ?t b) = 0" "t = upd_buf b (\<lambda>x. x\<lparr>ref_count := 1\<rparr>) ?t" "b < FRAME_BUFFERS" "vf_ref (frame_bufs s b) = 0"
      using get_free_fb_cases [OF t] Some by simp_all
    have e: "assign_cur_frame_new_fb s = upd_buf b (\<lambda>x. x\<lparr>pb_index := int b\<rparr>) (t\<lparr>cur_frame := Some b\<rparr>)"
      using t Some by (simp add: assign_cur_frame_new_fb_def Let_def)
    have "refs_of (assign_cur_frame_new_fb s) = refs_of (t\<lparr>cur_frame := Some b\<rparr>)"
      unfolding e by (rule refs_of_upd_buf) simp
    also have "\<dots> = refs_of (upd_buf b (\<lambda>x. x\<lparr>ref_count := 1\<rparr>) ((decrease_ref_count (cur_frame s) s)\<lparr>cur_frame := Some b\<rparr>))"
      unfolding b(2) by (simp add: refs_of_def upd_buf_def)
    finally show ?thesis
      using that(2) b(1,3,4) e by simp
  qed
qed

lemma assign_cur_frame_keeps:
  assumes "counts_ok L s"
  shows "counts_ok L (assign_cur_frame_new_fb s)" "rest_of (assign_cur_frame_new_fb s) = rest_of s"
    "next_ref_frame_map (assign_cur_frame_new_fb s) = next_ref_frame_map s"
proof -
  let ?t = "(decrease_ref_count (cur_frame s) s)\<lparr>cur_frame := None\<rparr>"
  have c: "counts_ok L ?t"
    using assms by (rule drop_cur_ok)
  have "counts_ok L (assign_cur_frame_new_fb s) \<and> rest_of (assign_cur_frame_new_fb s) = rest_of s \<and>
      next_ref_frame_map (assign_cur_frame_new_fb s) = next_ref_frame_map s"
  proof (rule assign_cur_frame_cases [of s])
    assume "assign_cur_frame_new_fb s = ?t"
    then show ?thesis
      using c by simp
  next
    fix b
    let ?u = "upd_buf b (\<lambda>x. x\<lparr>ref_count := 1\<rparr>) ((decrease_ref_count (cur_frame s) s)\<lparr>cur_frame := Some b\<rparr>)"
    assume b: "refs_of (assign_cur_frame_new_fb s) = refs_of ?u" "ref_count (frame_bufs (decrease_ref_count (cur_frame s) s) b) = 0"
    have n: "int (count (held ?u) (Some j)) = int (count (held ?t) (Some j)) + (if b = j then 1 else 0)" for j
      by (simp add: held_def)
    have "counts_ok L ?u"
      using c b(2) n by (auto simp: counts_ok_def simp del: decrease_fields(7))
    moreover have "rest_of ?u = rest_of s" "next_ref_frame_map ?u = next_ref_frame_map s"
      by (simp_all add: rest_of_def decrease_ref_count_def)
    moreover have "next_ref_frame_map (assign_cur_frame_new_fb s) = next_ref_frame_map ?u"
      using b(1) by (simp add: refs_of_def)
    ultimately show ?thesis
      using refs_of_counts_ok [OF b(1)] refs_of_rest_of [OF b(1)] by simp
  qed
  then show "counts_ok L (assign_cur_frame_new_fb s)" "rest_of (assign_cur_frame_new_fb s) = rest_of s"
    "next_ref_frame_map (assign_cur_frame_new_fb s) = next_ref_frame_map s"
    by simp_all
qed

lemma assign_cur_frame_ok:
  assumes "av1_ok L s" "\<not> hold_ref_buf s"
  shows "idle L (assign_cur_frame_new_fb s)"
proof -
  have i: "idle L s"
    using assms by (rule av1_ok_idle)
  have "counts_ok L s"
    using i by (simp add: idle_def)
  then show ?thesis
    using idle_if [OF i] assign_cur_frame_keeps by blast
qed

lemma filled_show_existing_reset:
  assumes "idle L s" "reset_decoder_state s" "show_existing_frame_reset i s = Some s'"
  shows "filled L s'"
proof -
  let ?s1 = "set_refresh_flags (2 ^ REF_FRAMES - 1) (set_frame_type KEY_FRAME s)"
  let ?s2 = "resync (invalidate_remapped ?s1)"
  have "refs_of (invalidate_remapped ?s1) = refs_of s"
    by simp
  then have 1: "idle L (invalidate_remapped ?s1)" "reset_decoder_state (invalidate_remapped ?s1)"
    using idle_refs_of assms(1,2) refs_ofD by blast+
  then have 2: "idle L ?s2" "reset_decoder_state ?s2"
    using idle_resync by blast+
  let ?s3 = "if frame_id_numbers_present_flag (seq_params ?s2)
      then update_ref_frame_id (ref_frame_id ?s2 ! i) (?s2\<lparr>current_frame_id := ref_frame_id ?s2 ! i\<rparr>) else ?s2"
  have "refs_of ?s3 = refs_of ?s2"
    by simp
  moreover have "generate_next_ref_frame_map ?s3 = Some s'"
    using assms(3) unfolding show_existing_frame_reset_def Let_def set_refresh_flags_def set_frame_type_def by (simp split: if_splits)
  ultimately obtain s3 where s3: "refs_of s3 = refs_of ?s2" "generate_next_ref_frame_map s3 = Some s'"
    by blast
  have i: "idle L s3" "reset_decoder_state s3"
    using idle_refs_of [OF s3(1)] refs_ofD(5) [OF s3(1)] 2 by simp_all
  then show ?thesis
    using s3(2) by (intro filledI) simp_all
qed

lemma assign_frame_buffer_p_ok:
  assumes "idle L s"
  shows "idle L (assign_frame_buffer_p b s)"
proof -
  have c: "counts_ok L s"
    using assms by (simp add: idle_def)
  have "counts_ok L (assign_frame_buffer_p b s)"
    using c by (auto simp: counts_ok_def assign_frame_buffer_p_def held_def)
  then show ?thesis
    by (rule idle_if [OF assms]) (simp_all add: assign_frame_buffer_p_def)
qed

lemma show_existing_cases:
  assumes "idle L s" "show_existing p s = Some s'"
  shows "idle L s' \<or> filled L s'"
proof -
  define t where "t = error_if (sequence_header_changed s) AOM_CODEC_CORRUPT_FRAME s"
  have t: "idle L t"
    using assms(1) idle_refs_of [OF refs_of_error_if] unfolding t_def by blast
  show ?thesis
  proof (cases "ref_frame_map t ! p_existing_frame_idx p")
    case None
    then have "s' = aom_internal_error AOM_CODEC_UNSUP_BITSTREAM t"
      using assms(2) by (simp add: show_existing_def t_def Let_def split: if_splits)
    then show ?thesis
      using t idle_refs_of [OF refs_of_aom_internal_error] by blast
  next
    case (Some b)
    define u where "u = assign_frame_buffer_p b (error_if (frame_id_numbers_present_flag (seq_params t) \<and>
        (p_display_frame_id p \<noteq> ref_frame_id t ! p_existing_frame_idx p \<or> \<not> valid_for_referencing t ! p_existing_frame_idx p))
        AOM_CODEC_CORRUPT_FRAME t)"
    have u: "idle L u"
      unfolding u_def using t idle_refs_of [OF refs_of_error_if] assign_frame_buffer_p_ok by blast
    define r where "r = (rb_frame_type (frame_bufs u b) = KEY_FRAME)"
    define v where "v = error_if (\<not> rb_showable_frame (frame_bufs (u\<lparr>reset_decoder_state := r, show_frame := True\<rparr>) b))
        AOM_CODEC_UNSUP_BITSTREAM (u\<lparr>reset_decoder_state := r, show_frame := True\<rparr>)"
    have "idle L (u\<lparr>reset_decoder_state := r\<rparr>)"
      using u by (simp add: idle_def counts_ok_def held_def)
    moreover have v: "refs_of v = refs_of (u\<lparr>reset_decoder_state := r\<rparr>)"
      by (simp add: v_def)
    ultimately have iv: "idle L v" "reset_decoder_state v = r"
      using idle_refs_of [OF v] refs_ofD(5) [OF v] by simp_all
    have "\<not> p_existing_frame_idx p \<ge> REF_FRAMES"
      using assms(2) by (simp add: show_existing_def Let_def split: if_splits)
    then have "show_existing p s = (if r then show_existing_frame_reset (p_existing_frame_idx p) (upd_buf b (\<lambda>x. x\<lparr>rb_showable_frame := False\<rparr>) v)
        else Some (set_refresh_flags 0 v))"
      using Some unfolding show_existing_def Let_def r_def v_def u_def t_def by simp
    then have res: "(if r then show_existing_frame_reset (p_existing_frame_idx p) (upd_buf b (\<lambda>x. x\<lparr>rb_showable_frame := False\<rparr>) v)
        else Some (set_refresh_flags 0 v)) = Some s'"
      using assms(2) by simp
    show ?thesis
    proof (cases r)
      case True
      let ?w = "upd_buf b (\<lambda>x. x\<lparr>rb_showable_frame := False\<rparr>) v"
      have w: "refs_of ?w = refs_of v"
        by (rule refs_of_upd_buf) simp
      have "idle L ?w" "reset_decoder_state ?w"
        using idle_refs_of [OF w] refs_ofD(5) [OF w] iv True by blast+
      moreover have "show_existing_frame_reset (p_existing_frame_idx p) ?w = Some s'"
        using res True by argo
      ultimately show ?thesis
        using filled_show_existing_reset by blast
    next
      case False
      then have "s' = set_refresh_flags 0 v"
        using res by fastforce
      then show ?thesis
        using iv(1) idle_refs_of [OF refs_of_set_refresh_flags] by blast
    qed
  qed
qed

lemma headers_cases:
  assumes "idle L s" "av1_decode_frame_headers_and_setup p s = Some s'"
  shows "idle L s' \<or> filled L s'"
proof -
  define t where "t = (error_if (\<not> sequence_header_ready s) AOM_CODEC_CORRUPT_FRAME s)
      \<lparr>last_frame_type := cf_frame_type (current_frame (error_if (\<not> sequence_header_ready s) AOM_CODEC_CORRUPT_FRAME s))\<rparr>"
  define u where "u = (if reduced_still_picture_hdr (seq_params t) then t
      else t\<lparr>show_existing_frame := p_show_existing_frame p, reset_decoder_state := False\<rparr>)"
  have "refs_of t = refs_of s"
    by (simp add: t_def)
  then have t: "idle L t"
    using idle_refs_of assms(1) by blast
  have u: "idle L u"
    using t unfolding u_def by (simp add: idle_def counts_ok_def held_def)
  have r: "reduced_still_picture_hdr (seq_params u) = reduced_still_picture_hdr (seq_params t)"
    by (simp add: u_def)
  have res: "(if \<not> reduced_still_picture_hdr (seq_params t) \<and> p_show_existing_frame p then show_existing p u
      else do {
        s \<leftarrow> frame_start p u;
        let (override, s) = frame_hints p s;
        let s = refresh_flags p s;
        s \<leftarrow> check_ref_hints p s;
        s \<leftarrow> frame_refs p override s;
        frame_finish p s
      }) = Some s'"
    using assms(2) unfolding av1_decode_frame_headers_and_setup_def Let_def u_def t_def .
  show ?thesis
  proof (cases "\<not> reduced_still_picture_hdr (seq_params t) \<and> p_show_existing_frame p")
    case True
    have "show_existing p u = Some s'"
      using res unfolding if_P [OF True] .
    then show ?thesis
      by (rule show_existing_cases [OF u])
  next
    case False
    obtain v w x y where v: "frame_start p u = Some v" and w: "snd (frame_hints p v) = w"
      and x: "check_ref_hints p (refresh_flags p w) = Some x" and y: "frame_refs p (fst (frame_hints p v)) x = Some y"
      and s': "frame_finish p y = Some s'"
      using res unfolding if_not_P [OF False] Let_def
      by (auto elim!: bind_SomeE simp: case_prod_beta)
    have "\<not> reduced_still_picture_hdr (seq_params u) \<longrightarrow> \<not> show_existing_frame u"
    proof
      assume n: "\<not> reduced_still_picture_hdr (seq_params u)"
      then have "show_existing_frame u = p_show_existing_frame p"
        unfolding r by (simp add: u_def)
      then show "\<not> show_existing_frame u"
        using False n r by metis
    qed
    then have "parsing L v"
      using parsing_frame_start_full [OF _ v] parsing_frame_start_reduced [OF u v] u unfolding parsing_def by blast
    then have "parsing L w"
      using parsing_refs_of [OF refs_of_frame_hints] w by blast
    then have "parsing L x"
      using parsing_check_ref_hints [OF _ x] parsing_refresh_flags by blast
    then have "parsing L y"
      using parsing_refs_of [OF refs_of_frame_refs [OF y]] by blast
    then show ?thesis
      using s' filled_frame_finish by blast
  qed
qed

lemma refs_of_read_sequence_header [simp]: "refs_of (read_sequence_header_obu q s) = refs_of s"
  by (simp add: read_sequence_header_obu_def Let_def split: prod.split)

text \<open>A frame header is only parsed when no map of a next frame is held.\<close>

definition may_process :: "bool \<Rightarrow> av1_obu \<Rightarrow> AV1 \<Rightarrow> bool" where
  "may_process new_data obu s \<longleftrightarrow> (hold_ref_buf s \<longrightarrow> \<not> new_data \<and>
     (seen_frame_header s \<or> (case obu of OBU_FRAME_HEADER p \<Rightarrow> False | OBU_FRAME p \<Rightarrow> False | _ \<Rightarrow> True)))"

lemma frame_obu_ok:
  assumes "av1_ok L s" "hold_ref_buf s \<Longrightarrow> seen_frame_header s" "frame_obu f p s = Some (r, s')"
  shows "av1_ok L s'"
proof -
  have nl: "\<not> large_scale_tile s"
    using assms(1) by (simp add: av1_ok_iff)
  show ?thesis
  proof (cases "seen_frame_header s")
    case True
    then have "refs_of s' = refs_of s"
      using assms(3) nl by (auto simp: frame_obu_def split: if_splits)
    then show ?thesis
      using av1_ok_refs_of assms(1) by blast
  next
    case False
    then obtain t where t: "av1_decode_frame_headers_and_setup p s = Some t"
      "refs_of s' = refs_of (t\<lparr>camera_frame_header_ready := camera_frame_header_ready t \<or> \<not> ext_tile_debug t \<and> large_scale_tile t\<rparr>)"
      using assms(3) by (auto simp: frame_obu_def refs_of_def elim!: bind_SomeE split: if_splits)
    have "idle L s"
      using av1_ok_idle assms(1,2) False by blast
    then have ok: "av1_ok L t"
      using headers_cases [OF _ t(1)] idle_av1_ok filled_ok by blast
    then have "refs_of s' = refs_of t"
      using t(2) by (simp add: av1_ok_iff refs_of_def)
    then show ?thesis
      using av1_ok_refs_of ok by blast
  qed
qed

lemma decode_obus_ok:
  assumes "av1_ok L s" "may_process False obu s" "aom_decode_frame_from_obus obu s = Some (r, s')"
  shows "av1_ok L s'"
proof -
  have e: "av1_ok L (s\<lparr>error_code := c\<rparr>)" for c
    using av1_ok_refs_of [OF refs_of_updates(1)] assms(1) by blast
  show ?thesis
  proof (cases obu)
    case (OBU_SEQUENCE_HEADER q)
    then show ?thesis
      using assms(1,3) av1_ok_refs_of [OF refs_of_read_sequence_header] by (auto simp: aom_decode_frame_from_obus_def Let_def)
  next
    case (OBU_FRAME_HEADER p)
    then show ?thesis
      using assms e frame_obu_ok [OF assms(1), of False p r s'] by (auto simp: aom_decode_frame_from_obus_def may_process_def split: if_splits)
  next
    case (OBU_REDUNDANT_FRAME_HEADER p)
    then show ?thesis
      using assms e frame_obu_ok [OF assms(1), of False p r s'] by (auto simp: aom_decode_frame_from_obus_def may_process_def split: if_splits)
  next
    case (OBU_FRAME p)
    then show ?thesis
      using assms e frame_obu_ok [OF assms(1), of True p r s'] by (auto simp: aom_decode_frame_from_obus_def may_process_def split: if_splits)
  next
    case OBU_OTHER
    then show ?thesis
      using assms(1,3) by (simp add: aom_decode_frame_from_obus_def)
  qed
qed

lemma process_ok:
  assumes "av1_ok L s" "may_process new_data obu s" "av1_bufmgr_process new_data obu s = Some (r, s')"
  shows "av1_ok L s'"
proof -
  let ?t = "release_output s"
  note t = release_output_ok [OF assms(1)]
  show ?thesis
  proof (cases new_data)
    case True
    let ?u = "assign_cur_frame_new_fb ?t"
    have u: "idle L ?u"
      using assign_cur_frame_ok [OF t(1)] assms(2) True by (simp add: may_process_def)
    show ?thesis
    proof (cases "cur_frame ?u = None")
      case True
      then have "s' = ?u\<lparr>error_code := AOM_CODEC_MEM_ERROR\<rparr>"
        using assms(3) \<open>new_data\<close> by (simp add: av1_bufmgr_process_def Let_def)
      then show ?thesis
        using idle_av1_ok u av1_ok_refs_of [OF refs_of_updates(1)] by blast
    next
      case False
      have d: "aom_decode_frame_from_obus obu (?u\<lparr>seen_frame_header := False\<rparr>) = Some (r, s')"
        using assms(3) \<open>new_data\<close> False by (auto simp: av1_bufmgr_process_def Let_def)
      have "idle L (?u\<lparr>seen_frame_header := False\<rparr>)"
        using u idle_refs_of [OF refs_of_updates(8)] by blast
      moreover from this have "may_process False obu (?u\<lparr>seen_frame_header := False\<rparr>)"
        by (simp add: may_process_def idle_def)
      ultimately show ?thesis
        using decode_obus_ok [OF idle_av1_ok _ d] by blast
    qed
  next
    case False
    have "may_process False obu ?t"
      using assms(2) t(2) False by (simp add: may_process_def)
    then show ?thesis
      using decode_obus_ok [OF t(1)] assms(3) False by (simp add: av1_bufmgr_process_def Let_def)
  qed
qed

subsection \<open>The end of a frame\<close>

lemma output_frame_ok:
  assumes "counts_ok L s" "num_output_frames s = 0" "\<not> output_all_layers s" "output_frame s = Some s'"
  shows "counts_ok L (s'\<lparr>cur_frame := None\<rparr>)" "num_output_frames s' \<le> 1" "next_ref_frame_map s' = next_ref_frame_map s"
    "output_all_layers s' = output_all_layers s" "large_scale_tile s' = large_scale_tile s"
    "camera_frame_header_ready s' = camera_frame_header_ready s"
proof -
  have s': "s' = (if cur_frame s \<noteq> None then s\<lparr>output_frames := (output_frames s)[0 := cur_frame s], num_output_frames := 1\<rparr> else s)"
    using assms(2-4) by (simp add: output_frame_def Let_def)
  show "num_output_frames s' \<le> 1" "next_ref_frame_map s' = next_ref_frame_map s" "output_all_layers s' = output_all_layers s"
    "large_scale_tile s' = large_scale_tile s" "camera_frame_header_ready s' = camera_frame_header_ready s"
    using assms(2) by (simp_all add: s')
  obtain y ys where ys: "output_frames s = y # ys"
    using assms(1) by (cases "output_frames s") (simp_all add: counts_ok_def MAX_NUM_SPATIAL_LAYERS_def)
  then show "counts_ok L (s'\<lparr>cur_frame := None\<rparr>)"
    using assms(1,2) by (auto simp: s' counts_ok_def held_def)
qed

lemma swap_frame_buffers_ok:
  assumes "av1_ok L s" "num_output_frames s = 0" "decoded \<or> \<not> hold_ref_buf s" "swap_frame_buffers decoded s = Some s'"
  shows "idle L s'"
proof -
  have cam: "\<not> camera_frame_header_ready s" "\<not> output_all_layers s" "\<not> large_scale_tile s" "counts_ok L s"
    using assms(1) by (simp_all add: av1_ok_iff)
  obtain t where t: "counts_ok L (t\<lparr>cur_frame := None\<rparr>)" "num_output_frames t \<le> 1" "next_ref_frame_map t = replicate REF_FRAMES None"
    "\<not> output_all_layers t" "\<not> large_scale_tile t" "\<not> camera_frame_header_ready t"
    and s': "s' = invalidate_remapped (t\<lparr>cur_frame := None, hold_ref_buf := False\<rparr>)"
  proof (cases decoded)
    case True
    then obtain u where u: "transfer_refs s = Some u"
      using assms(4) cam(1) by (auto simp: swap_frame_buffers_def elim!: bind_SomeE)
    note o = transfer_refs_ok [OF assms(1) u]
    note r = rest_ofD [OF o(2)]
    show ?thesis
    proof (cases "show_existing_frame u \<or> show_frame u")
      case True
      then obtain v where v: "output_frame u = Some v" "s' = (let v = v\<lparr>cur_frame := None\<rparr> in if camera_frame_header_ready v then v
          else invalidate_remapped (v\<lparr>hold_ref_buf := False\<rparr>))"
        using assms(4) cam(1) u \<open>decoded\<close> by (auto simp: swap_frame_buffers_def Let_def elim!: bind_SomeE)
      note p = output_frame_ok [OF o(1) _ _ v(1)]
      show ?thesis
        using that [of v] p v(2) o r cam assms(2) by (simp add: Let_def)
    next
      case False
      then have "s' = (let v = (decrease_ref_count (cur_frame u) u)\<lparr>cur_frame := None\<rparr> in if camera_frame_header_ready v then v
          else invalidate_remapped (v\<lparr>hold_ref_buf := False\<rparr>))"
        using assms(4) cam(1) u \<open>decoded\<close> by (auto simp: swap_frame_buffers_def Let_def)
      then show ?thesis
        using that [of "decrease_ref_count (cur_frame u) u"] drop_cur_ok [OF o(1)] o r cam assms(2)
          rest_ofD [OF decrease_fields(6), of "cur_frame u" u] by (simp add: Let_def)
    qed
  next
    case False
    then have "s' = (let v = (decrease_ref_count (cur_frame s) s)\<lparr>cur_frame := None\<rparr> in if camera_frame_header_ready v then v
        else invalidate_remapped (v\<lparr>hold_ref_buf := False\<rparr>))"
      using assms(4) by (auto simp: swap_frame_buffers_def Let_def)
    moreover have "next_ref_frame_map s = replicate REF_FRAMES None"
      using assms(1,3) False by (simp add: av1_ok_iff)
    ultimately show ?thesis
      using that [of "decrease_ref_count (cur_frame s) s"] drop_cur_ok [OF cam(4)] cam assms(2)
        rest_ofD [OF decrease_fields(6), of "cur_frame s" s] by (simp add: Let_def)
  qed
  have "idle L (t\<lparr>cur_frame := None, hold_ref_buf := False\<rparr>)"
    using t by (simp add: idle_def counts_ok_def held_def)
  then show ?thesis
    unfolding s' using idle_refs_of [OF refs_of_invalidate] by blast
qed

lemma postproc_ok:
  assumes "av1_ok L s" "num_output_frames s = 0" "decoded \<or> \<not> hold_ref_buf s" "av1_bufmgr_postproc decoded s = Some s'"
  shows "idle L s'"
proof -
  obtain t where t: "swap_frame_buffers decoded s = Some t" "refs_of s' = refs_of t"
    using assms(4) by (auto simp: av1_bufmgr_postproc_def elim!: bind_SomeE)
  then show ?thesis
    using swap_frame_buffers_ok [OF assms(1-3) t(1)] idle_refs_of by blast
qed

section \<open>Runs of the decoder\<close>

text \<open>The states the decoder reaches. Every buffer starts unreferenced. The driver hands each temporal unit's first
  header over with new data, ends every parsed frame once before the next one, and the display takes and returns buffers
  at any time.\<close>

inductive av1_run :: "AV1 \<Rightarrow> bool" where
  create: "\<forall>i. ref_count (bufs i) = 0 \<Longrightarrow> av1_run (av1_decoder_create bufs)"
| process: "av1_run s \<Longrightarrow> may_process new_data obu s \<Longrightarrow> av1_bufmgr_process new_data obu s = Some (r, s') \<Longrightarrow> av1_run s'"
| postproc: "av1_run s \<Longrightarrow> num_output_frames s = 0 \<Longrightarrow> decoded \<or> \<not> hold_ref_buf s \<Longrightarrow>
    av1_bufmgr_postproc decoded s = Some s' \<Longrightarrow> av1_run s'"
| send_map: "av1_run s \<Longrightarrow> av1_set_next_ref_frame_map s = Some s' \<Longrightarrow> av1_run s'"
| display: "av1_run s \<Longrightarrow> av1_run (av1_inc_vf_ref i s)"
| take_back: "av1_run s \<Longrightarrow> av1_run (vav1_vf_put n i s)"

lemma send_map_ok: "av1_ok L s \<Longrightarrow> av1_set_next_ref_frame_map s = Some s' \<Longrightarrow> av1_ok L s'"
proof -
  assume s: "av1_ok L s" and m: "av1_set_next_ref_frame_map s = Some s'"
  from m have "refs_of s' = refs_of s"
    by (auto simp: av1_set_next_ref_frame_map_def Let_def split: if_splits)
  then show "av1_ok L s'"
    using s av1_ok_refs_of by blast
qed

lemma display_ok: "av1_ok L s \<Longrightarrow> av1_ok L (av1_inc_vf_ref i s)" "av1_ok L s \<Longrightarrow> av1_ok L (vav1_vf_put n i s)"
proof -
  have r: "refs_of (av1_inc_vf_ref i s) = refs_of s" "refs_of (vav1_vf_put n i s) = refs_of s"
    by (simp_all add: av1_inc_vf_ref_def vav1_vf_put_def refs_of_upd_buf)
  show "av1_ok L s \<Longrightarrow> av1_ok L (av1_inc_vf_ref i s)" "av1_ok L s \<Longrightarrow> av1_ok L (vav1_vf_put n i s)"
    using av1_ok_refs_of r by blast+
qed

lemma av1_run_ok: "av1_run s \<Longrightarrow> av1_ok (\<lambda>_. 0) s"
proof (induction rule: av1_run.induct)
  case (create bufs)
  then show ?case
    by (simp add: av1_ok_def av1_decoder_create_def held_def MAX_NUM_SPATIAL_LAYERS_def)
qed (blast intro: process_ok idle_av1_ok postproc_ok send_map_ok display_ok)+

text \<open>The states that the decoder reaches from any given state, by the same steps.\<close>

inductive av1_later :: "AV1 \<Rightarrow> AV1 \<Rightarrow> bool" for s0 where
  now: "av1_later s0 s0"
| later_process: "av1_later s0 s \<Longrightarrow> may_process new_data obu s \<Longrightarrow> av1_bufmgr_process new_data obu s = Some (r, s') \<Longrightarrow>
    av1_later s0 s'"
| later_postproc: "av1_later s0 s \<Longrightarrow> num_output_frames s = 0 \<Longrightarrow> decoded \<or> \<not> hold_ref_buf s \<Longrightarrow>
    av1_bufmgr_postproc decoded s = Some s' \<Longrightarrow> av1_later s0 s'"
| later_send_map: "av1_later s0 s \<Longrightarrow> av1_set_next_ref_frame_map s = Some s' \<Longrightarrow> av1_later s0 s'"
| later_display: "av1_later s0 s \<Longrightarrow> av1_later s0 (av1_inc_vf_ref i s)"
| later_take_back: "av1_later s0 s \<Longrightarrow> av1_later s0 (vav1_vf_put n i s)"

lemma av1_later_ok: "av1_later s0 s \<Longrightarrow> av1_ok L s0 \<Longrightarrow> av1_ok L s"
  by (induction rule: av1_later.induct) (blast intro: process_ok idle_av1_ok postproc_ok send_map_ok display_ok)+

text \<open>Without a frame in progress, the buffers that are held are those of the reference map.\<close>

lemma free_buffer_exists:
  assumes "av1_ok L s" "\<not> hold_ref_buf s" "card {i. i < FRAME_BUFFERS \<and> vf_ref (frame_bufs s i) \<noteq> 0} \<le> INTER_REFS_PER_FRAME"
  shows "\<exists>i<FRAME_BUFFERS. i \<notin> {i. Some i \<in># mset (ref_frame_map s)} \<and> vf_ref (frame_bufs s i) = 0"
proof (rule ccontr)
  let ?A = "{i. i < FRAME_BUFFERS \<and> vf_ref (frame_bufs s i) \<noteq> 0}" and ?B = "{i. Some i \<in> set (ref_frame_map s)}"
  assume "\<not> ?thesis"
  then have "{..<FRAME_BUFFERS} \<subseteq> ?A \<union> ?B"
    by auto
  moreover have B: "finite ?B" "card ?B \<le> REF_FRAMES"
  proof -
    have b: "Some ` ?B \<subseteq> set (ref_frame_map s)"
      by auto
    have inj: "inj_on Some ?B"
      by simp
    show "finite ?B"
      using finite_subset [OF b] finite_imageD [OF _ inj] by simp
    have "card ?B = card (Some ` ?B)"
      using card_image [OF inj] by simp
    also have "\<dots> \<le> length (ref_frame_map s)"
      using card_mono [OF _ b] card_length [of "ref_frame_map s"] by simp
    finally show "card ?B \<le> REF_FRAMES"
      using assms(1) by (simp add: av1_ok_def)
  qed
  ultimately have "FRAME_BUFFERS \<le> card (?A \<union> ?B)"
    using card_mono [of "?A \<union> ?B" "{..<FRAME_BUFFERS}"] by simp
  also have "\<dots> \<le> INTER_REFS_PER_FRAME + REF_FRAMES"
    using card_Un_le [of ?A ?B] assms(3) B(2) by simp
  finally show False
    by (simp add: FRAME_BUFFERS_def)
qed

end
