(* ===== verification/AV1_Pool_Correct.thy ===== *)
theory AV1_Pool_Correct
  imports AV1_Correct
begin

text \<open>
  What the counts of the AV1 frame buffers give: the map of the next frame follows the refresh
  flags, the pool always has a free buffer between two frames, and the two ways in which references
  are lost.
\<close>

section \<open>The map of the next frame\<close>

text \<open>While references are held for the next frame, its map is the one the refresh flags describe.\<close>

definition next_map_ok :: "AV1 \<Rightarrow> bool" where
  "next_map_ok s \<longleftrightarrow> (hold_ref_buf s \<longrightarrow> (\<not> show_existing_frame s \<or> reset_decoder_state s) \<and>
     (\<forall>i<REF_FRAMES. next_ref_frame_map s ! i =
       (if bit (refresh_frame_flags (current_frame s)) i then cur_frame s else ref_frame_map s ! i)))"

lemma next_map_ok_cong:
  assumes "refs_of s' = refs_of s" "refresh_frame_flags (current_frame s') = refresh_frame_flags (current_frame s)"
  shows "next_map_ok s' = next_map_ok s"
  using assms by (simp add: next_map_ok_def refs_of_def)

lemma idle_next_map_ok: "idle L s \<Longrightarrow> next_map_ok s"
  by (simp add: idle_def next_map_ok_def)

lemma next_ref_steps:
  assumes "length (next_ref_frame_map s) = REF_FRAMES" "k \<le> REF_FRAMES"
  shows "ref_frame_map (fold next_ref_step [0..<k] s) = ref_frame_map s \<and> cur_frame (fold next_ref_step [0..<k] s) = cur_frame s \<and>
    current_frame (fold next_ref_step [0..<k] s) = current_frame s \<and> rest_of (fold next_ref_step [0..<k] s) = rest_of s \<and>
    length (next_ref_frame_map (fold next_ref_step [0..<k] s)) = REF_FRAMES \<and>
    (\<forall>i<k. next_ref_frame_map (fold next_ref_step [0..<k] s) ! i =
      (if bit (refresh_frame_flags (current_frame s)) i then cur_frame s else ref_frame_map s ! i))"
  using assms(2)
proof (induction k)
  case 0
  then show ?case
    using assms(1) by simp
next
  case (Suc k)
  let ?t = "fold next_ref_step [0..<k] s"
  have "fold next_ref_step [0..<Suc k] s = next_ref_step k ?t"
    by simp
  moreover have "next_ref_frame_map (next_ref_step k ?t) = (next_ref_frame_map ?t)[k :=
      if bit (refresh_frame_flags (current_frame ?t)) k then cur_frame ?t else ref_frame_map ?t ! k]"
    by (simp add: next_ref_step_def Let_def)
  ultimately show ?case
    using Suc by (simp add: less_Suc_eq)
qed

lemma filled_next_map_ok: "filled L s' \<Longrightarrow> next_map_ok s'"
proof -
  assume "filled L s'"
  then obtain s t where s: "idle L s" "\<not> show_existing_frame s \<or> reset_decoder_state s" "generate_next_ref_frame_map s = Some t"
    and s': "refs_of s' = refs_of t" "refresh_frame_flags (current_frame s') = refresh_frame_flags (current_frame t)"
    unfolding filled_def by blast
  have t: "t = (fold next_ref_step [0..<REF_FRAMES] s)\<lparr>hold_ref_buf := True\<rparr>"
    using s(3) by (simp add: generate_next_ref_frame_map_def split: if_splits)
  note n = next_ref_steps [of s REF_FRAMES]
  have "next_map_ok t"
    using n s(1,2) rest_ofD(7,8) [of "fold next_ref_step [0..<REF_FRAMES] s" s] by (simp add: t next_map_ok_def idle_def)
  then show ?thesis
    using next_map_ok_cong [OF s'] by simp
qed

lemma current_frame_release [simp]: "current_frame (release_output s) = current_frame s"
proof -
  have "current_frame (fold decrease_ref_count ps s) = current_frame s" for ps
    by (induction ps arbitrary: s) (simp_all add: decrease_ref_count_def)
  then show ?thesis
    by (simp add: release_output_def)
qed

lemma next_map_ok_release: "next_map_ok s \<Longrightarrow> next_map_ok (release_output s)"
proof -
  note r = rest_ofD(7,8) [OF fold_decrease_fields(4) [of "take (num_output_frames s) (output_frames s)" s]]
  have e: "show_existing_frame (release_output s) = show_existing_frame s" "reset_decoder_state (release_output s) = reset_decoder_state s"
    unfolding release_output_def using r by simp_all
  show "next_map_ok s \<Longrightarrow> next_map_ok (release_output s)"
    unfolding next_map_ok_def e by simp
qed

lemma next_map_ok_updates [simp]:
  "next_map_ok (s\<lparr>seen_frame_header := b\<rparr>) = next_map_ok s" "next_map_ok (s\<lparr>camera_frame_header_ready := b\<rparr>) = next_map_ok s"
  "next_map_ok (s\<lparr>error_code := e\<rparr>) = next_map_ok s"
  by (simp_all add: next_map_ok_def)

lemma next_map_ok_frame_obu:
  assumes "av1_ok L s" "next_map_ok s" "hold_ref_buf s \<Longrightarrow> seen_frame_header s" "frame_obu f p s = Some (r, s')"
  shows "next_map_ok s'"
proof (cases "seen_frame_header s")
  case True
  have "\<not> large_scale_tile s"
    using assms(1) by (simp add: av1_ok_iff)
  then have e: "refs_of s' = refs_of s" "current_frame s' = current_frame s"
    using assms(4) True by (auto simp: frame_obu_def split: if_splits)
  have "next_map_ok s' = next_map_ok s"
    by (rule next_map_ok_cong) (simp_all add: e)
  then show ?thesis
    using assms(2) by simp
next
  case False
  then obtain t where t: "av1_decode_frame_headers_and_setup p s = Some t" "next_map_ok s' = next_map_ok t"
    using assms(4) by (auto simp: frame_obu_def elim!: bind_SomeE split: if_splits)
  have "idle L s"
    using av1_ok_idle [OF assms(1)] assms(3) False by blast
  then have "idle L t \<or> filled L t"
    using headers_cases t(1) by blast
  then show ?thesis
    using idle_next_map_ok filled_next_map_ok t(2) by blast
qed

lemma next_map_ok_obus:
  assumes "av1_ok L s" "next_map_ok s" "may_process False obu s" "aom_decode_frame_from_obus obu s = Some (r, s')"
  shows "next_map_ok s'"
proof -
  have e: "next_map_ok (s\<lparr>error_code := c\<rparr>)" for c
    using assms(2) by (simp add: next_map_ok_def)
  note fo = next_map_ok_frame_obu [OF assms(1,2)]
  show ?thesis
  proof (cases obu)
    case (OBU_SEQUENCE_HEADER q)
    have "current_frame (read_sequence_header_obu q s) = current_frame s"
      by (simp add: read_sequence_header_obu_def error_if_def aom_internal_error_def Let_def split: prod.split)
    then have "next_map_ok (read_sequence_header_obu q s)"
      using next_map_ok_cong [OF refs_of_read_sequence_header] assms(2) by simp
    then show ?thesis
      using OBU_SEQUENCE_HEADER assms(4) by (auto simp: aom_decode_frame_from_obus_def Let_def)
  next
    case (OBU_FRAME_HEADER p)
    then show ?thesis
      using assms e fo [of False p r s'] by (auto simp: aom_decode_frame_from_obus_def may_process_def split: if_splits)
  next
    case (OBU_REDUNDANT_FRAME_HEADER p)
    then show ?thesis
      using assms e fo [of False p r s'] by (auto simp: aom_decode_frame_from_obus_def may_process_def split: if_splits)
  next
    case (OBU_FRAME p)
    then show ?thesis
      using assms e fo [of True p r s'] by (auto simp: aom_decode_frame_from_obus_def may_process_def split: if_splits)
  next
    case OBU_OTHER
    then show ?thesis
      using assms(2,4) by (simp add: aom_decode_frame_from_obus_def)
  qed
qed

lemma next_map_ok_process:
  assumes "av1_ok L s" "next_map_ok s" "may_process new_data obu s" "av1_bufmgr_process new_data obu s = Some (r, s')"
  shows "next_map_ok s'"
proof -
  let ?t = "release_output s"
  note t = release_output_ok [OF assms(1)]
  show ?thesis
  proof (cases new_data)
    case True
    let ?u = "assign_cur_frame_new_fb ?t"
    have u: "idle L ?u"
      using assign_cur_frame_ok [OF t(1)] assms(3) True by (simp add: may_process_def)
    show ?thesis
    proof (cases "cur_frame ?u = None")
      case True
      then have "s' = ?u\<lparr>error_code := AOM_CODEC_MEM_ERROR\<rparr>"
        using assms(4) \<open>new_data\<close> by (simp add: av1_bufmgr_process_def Let_def)
      then show ?thesis
        using idle_next_map_ok [OF u] by (simp add: next_map_ok_def)
    next
      case False
      have d: "aom_decode_frame_from_obus obu (?u\<lparr>seen_frame_header := False\<rparr>) = Some (r, s')"
        using assms(4) \<open>new_data\<close> False by (auto simp: av1_bufmgr_process_def Let_def)
      have "idle L (?u\<lparr>seen_frame_header := False\<rparr>)"
        using u idle_refs_of [OF refs_of_updates(8)] by blast
      moreover from this have "may_process False obu (?u\<lparr>seen_frame_header := False\<rparr>)"
        by (simp add: may_process_def idle_def)
      ultimately show ?thesis
        using next_map_ok_obus [OF idle_av1_ok _ _ d] idle_next_map_ok by blast
    qed
  next
    case False
    have "may_process False obu ?t"
      using assms(3) t(2) False by (simp add: may_process_def)
    then show ?thesis
      using next_map_ok_obus [OF t(1) next_map_ok_release [OF assms(2)]] assms(4) False by (simp add: av1_bufmgr_process_def Let_def)
  qed
qed

lemma av1_run_next_map_ok: "av1_run s \<Longrightarrow> next_map_ok s"
proof (induction rule: av1_run.induct)
  case (create bufs)
  then show ?case
    by (simp add: next_map_ok_def av1_decoder_create_def)
next
  case (process s new_data obu r s')
  then show ?case
    by (blast intro: next_map_ok_process av1_run_ok)
next
  case (postproc s decoded s')
  then show ?case
    by (blast intro: idle_next_map_ok postproc_ok av1_run_ok)
next
  case (send_map s s')
  then show ?case
    by (auto simp: av1_set_next_ref_frame_map_def next_map_ok_def Let_def split: if_splits)
next
  case (display s i)
  then show ?case
    by (simp add: av1_inc_vf_ref_def next_map_ok_def)
next
  case (take_back s n i)
  then show ?case
    by (simp add: vav1_vf_put_def next_map_ok_def)
qed

section \<open>Transfer of the map\<close>

lemma transfer_prefix:
  assumes "length (ref_frame_map s) = REF_FRAMES" "k \<le> REF_FRAMES"
  shows "length (ref_frame_map (fold transfer_ref [0..<k] s)) = REF_FRAMES \<and>
    (\<forall>i<REF_FRAMES. ref_frame_map (fold transfer_ref [0..<k] s) ! i = (if i < k then next_ref_frame_map s ! i else ref_frame_map s ! i)) \<and>
    (\<forall>i\<ge>k. next_ref_frame_map (fold transfer_ref [0..<k] s) ! i = next_ref_frame_map s ! i)"
  using assms(2)
proof (induction k)
  case 0
  then show ?case
    using assms(1) by simp
next
  case (Suc k)
  let ?t = "fold transfer_ref [0..<k] s"
  have "fold transfer_ref [0..<Suc k] s = transfer_ref k ?t"
    by simp
  then show ?case
    using Suc by (auto simp: nth_list_update)
qed

lemma ref_map_postproc:
  assumes "av1_ok L s" "num_output_frames s = 0" "av1_bufmgr_postproc True s = Some s'"
  obtains t where "transfer_refs s = Some t" "ref_frame_map s' = ref_frame_map t"
proof -
  have c: "\<not> camera_frame_header_ready s" "\<not> output_all_layers s"
    using assms(1) by (simp_all add: av1_ok_iff)
  obtain t where t: "transfer_refs s = Some t"
    using assms(3) c by (auto simp: av1_bufmgr_postproc_def swap_frame_buffers_def elim!: bind_SomeE)
  have "\<not> output_all_layers t" "\<not> camera_frame_header_ready t"
    using rest_ofD(3,5) [OF transfer_refs_ok(2) [OF assms(1) t]] c by simp_all
  then have "ref_frame_map s' = ref_frame_map t"
    using assms(3) c t
    by (auto simp: av1_bufmgr_postproc_def swap_frame_buffers_def output_frame_def invalidate_remapped_def Let_def
        elim!: bind_SomeE split: if_splits)
  then show thesis
    using that t by blast
qed

section \<open>Samples\<close>

definition sample_buf :: RefCntBuffer where
  "sample_buf = \<lparr>ref_count = 0, rb_order_hint = 0, ref_order_hints = replicate 7 0, rb_mi_rows = 0, rb_mi_cols = 0, rb_width = 0,
     rb_height = 0, rb_dec_width = 0, rb_show_frame = False, rb_showable_frame = False, rb_frame_type = 0, pb_index = 0, vf_ref = 0,
     pb_order_hint = 0, y_crop_width = 0, y_crop_height = 0, pb_render_width = 0, pb_render_height = 0, pb_bit_depth = 0,
     pb_subsampling_x = 0, pb_subsampling_y = 0, pb_corrupted = False\<rparr>"

definition sample_seq :: av1_seq_params where
  "sample_seq = \<lparr>q_profile = 0, q_still_picture = False, q_reduced_still_picture_hdr = False, q_seq_level_idx = [8],
     q_max_frame_width = 64, q_max_frame_height = 64, q_frame_id_numbers_present_flag = False, q_delta_frame_id_length = 0,
     q_frame_id_length = 0, q_enable_order_hint = True, q_enable_ref_frame_mvs = False, q_order_hint_bits_minus_1 = 6, q_other = []\<rparr>"

text \<open>A shown key frame, and an inter frame that refreshes the entries of a mask.\<close>

definition sample_key :: av1_params where
  "sample_key = \<lparr>p_show_existing_frame = False, p_existing_frame_idx = 0, p_display_frame_id = 0, p_frame_type = 0,
     p_show_frame = True, p_showable_frame = False, p_error_resilient_mode = False, p_current_frame_id = 0,
     p_frame_size_override_flag = False, p_order_hint = 0, p_primary_ref_frame = 7, p_refresh_frame_flags = 255,
     p_ref_order_hint = replicate 8 0, p_frame_refs_short_signaling = False, p_lst_ref = 0, p_gld_ref = 0,
     p_remapped_ref_idx = [0, 1, 2, 3, 4, 5, 6], p_delta_frame_id_minus_1 = replicate 7 0, p_valid_ref_frame_bits = 0,
     p_frame_width = 64, p_frame_height = 64, p_dec_frame_width = 64, p_frame_width_scaled = 64,
     p_allow_ref_frame_mvs = False, p_reference_mode = False\<rparr>"

definition sample_inter :: "int \<Rightarrow> int \<Rightarrow> av1_params" where
  "sample_inter hint flags = sample_key\<lparr>p_frame_type := 1, p_order_hint := hint, p_refresh_frame_flags := flags\<rparr>"

definition process_or_same :: "bool \<Rightarrow> av1_obu \<Rightarrow> AV1 \<Rightarrow> AV1" where
  "process_or_same new_data obu s = (case av1_bufmgr_process new_data obu s of None \<Rightarrow> s | Some (r, s') \<Rightarrow> s')"

definition postproc_or_same :: "AV1 \<Rightarrow> AV1" where
  "postproc_or_same s = (case av1_bufmgr_postproc True s of None \<Rightarrow> s | Some s' \<Rightarrow> s')"

lemma run_process: "av1_run s \<Longrightarrow> may_process new_data obu s \<Longrightarrow> av1_run (process_or_same new_data obu s)"
  by (auto simp: process_or_same_def intro: av1_run.process split: option.split)

lemma run_postproc: "av1_run s \<Longrightarrow> num_output_frames s = 0 \<Longrightarrow> av1_run (postproc_or_same s)"
  by (auto simp: postproc_or_same_def intro: av1_run.postproc split: option.split)

definition sample_1 :: AV1 where
  "sample_1 = process_or_same False (OBU_SEQUENCE_HEADER sample_seq) (av1_decoder_create (\<lambda>_. sample_buf))"

definition sample_2 :: AV1 where
  "sample_2 = process_or_same True (OBU_FRAME sample_key) sample_1"

definition sample_3 :: AV1 where
  "sample_3 = postproc_or_same sample_2"

definition sample_4 :: AV1 where
  "sample_4 = process_or_same True (OBU_FRAME (sample_inter 1 2)) sample_3"

lemma sample_holds: "\<not> hold_ref_buf sample_1" "num_output_frames sample_2 = 0" "\<not> hold_ref_buf sample_3" "num_output_frames sample_4 = 0"
  "hold_ref_buf sample_4" "refresh_frame_flags (current_frame sample_4) = 2" "error_code sample_4 = 0"
  by code_simp+

lemma sample_runs: "av1_run sample_1" "av1_run sample_2" "av1_run sample_3" "av1_run sample_4"
proof -
  have "av1_run (av1_decoder_create (\<lambda>_. sample_buf))"
    by (rule av1_run.create) (simp add: sample_buf_def)
  then show 1: "av1_run sample_1"
    unfolding sample_1_def by (rule run_process) (simp add: may_process_def)
  then show 2: "av1_run sample_2"
    unfolding sample_2_def by (rule run_process) (simp add: may_process_def sample_holds)
  then show 3: "av1_run sample_3"
    unfolding sample_3_def by (rule run_postproc) (simp add: sample_holds)
  then show "av1_run sample_4"
    unfolding sample_4_def by (rule run_process) (simp add: may_process_def sample_holds)
qed

section \<open>Properties\<close>





text \<open>C25. When a decoded frame is finished, an entry of the reference map becomes the decoded frame if its refresh flag is
  set, and stays what it was otherwise.\<close>

theorem refresh_flags_update_reference_map:
  assumes "av1_run s" "hold_ref_buf s" "num_output_frames s = 0" "av1_bufmgr_postproc True s = Some s'" "i < REF_FRAMES"
  shows "ref_frame_map s' ! i = (if bit (refresh_frame_flags (current_frame s)) i then cur_frame s else ref_frame_map s ! i)"
proof -
  note ok = av1_run_ok [OF assms(1)]
  obtain t where t: "transfer_refs s = Some t" "ref_frame_map s' = ref_frame_map t"
    using ref_map_postproc [OF ok assms(3,4)] .
  have n: "\<not> show_existing_frame s \<or> reset_decoder_state s" "next_ref_frame_map s ! i =
      (if bit (refresh_frame_flags (current_frame s)) i then cur_frame s else ref_frame_map s ! i)"
    using av1_run_next_map_ok [OF assms(1)] assms(2,5) by (simp_all add: next_map_ok_def)
  have "t = fold transfer_ref [0..<REF_FRAMES] s"
    using t(1) n(1) by (simp add: transfer_refs_def Let_def split: if_splits)
  moreover have "length (ref_frame_map s) = REF_FRAMES"
    using ok by (simp add: av1_ok_def)
  ultimately show ?thesis
    using transfer_prefix [of s REF_FRAMES] assms(5) t(2) n(2) by simp
qed

lemma refresh_flags_update_reference_map_witness:
  "map ((!) (ref_frame_map (postproc_or_same sample_4))) [0, 1, 2] = [Some 0, Some 1, Some 0]"
proof -
  have "av1_bufmgr_postproc True sample_4 \<noteq> None"
    by code_simp
  then have p: "av1_bufmgr_postproc True sample_4 = Some (postproc_or_same sample_4)"
    by (auto simp: postproc_or_same_def)
  have s: "cur_frame sample_4 = Some 1" "ref_frame_map sample_4 = replicate 8 (Some 0)"
    by code_simp+
  note r = refresh_flags_update_reference_map [OF sample_runs(4) sample_holds(5,4) p]
  have "bit (2 :: int) 0 = False" "bit (2 :: int) 1 = True" "bit (2 :: int) 2 = False"
    by code_simp+
  then show ?thesis
    using r [of 0] r [of 1] r [of 2] s by (simp add: sample_holds REF_FRAMES_def eval_nat_numeral)
qed

section \<open>Lost references\<close>

text \<open>A next map that is filled again loses the references that it held.\<close>

lemma next_ref_step_leak:
  assumes "length (next_ref_frame_map s) = REF_FRAMES" "i < REF_FRAMES"
    "ref_count (frame_bufs s j) = int (count (held s) (Some j)) + d"
  shows "ref_count (frame_bufs (next_ref_step i s) j) =
    int (count (held (next_ref_step i s)) (Some j)) + (d + (if next_ref_frame_map s ! i = Some j then 1 else 0))"
  using assms by (auto simp: next_ref_step_def Let_def held_def count_list_update)

definition with_leak :: "(nat \<Rightarrow> nat) \<Rightarrow> nat option list \<Rightarrow> nat \<Rightarrow> nat" where
  "with_leak L m j = L j + count (mset m) (Some j)"

lemma generate_leak:
  assumes "counts_ok L s" "generate_next_ref_frame_map s = Some s'"
  shows "counts_ok (with_leak L (next_ref_frame_map s)) s'" "rest_of s' = rest_of (s\<lparr>hold_ref_buf := True\<rparr>)"
proof -
  let ?t = "fold next_ref_step [0..<REF_FRAMES] s"
  have s': "s' = ?t\<lparr>hold_ref_buf := True\<rparr>"
    using assms(2) by (simp add: generate_next_ref_frame_map_def split: if_splits)
  have r: "rest_of ?t = rest_of s"
    by (rule rest_of_fold) simp
  then show "rest_of s' = rest_of (s\<lparr>hold_ref_buf := True\<rparr>)"
    unfolding s' by (simp add: rest_of_def)
  have step: "ref_count (frame_bufs (fold next_ref_step [0..<k] s) j) =
      int (count (held (fold next_ref_step [0..<k] s)) (Some j)) + (int (L j) + int (count (mset (take k (next_ref_frame_map s))) (Some j))) \<and>
      length (next_ref_frame_map (fold next_ref_step [0..<k] s)) = REF_FRAMES \<and>
      length (ref_frame_map (fold next_ref_step [0..<k] s)) = REF_FRAMES \<and>
      (\<forall>i\<ge>k. next_ref_frame_map (fold next_ref_step [0..<k] s) ! i = next_ref_frame_map s ! i)"
    if "k \<le> REF_FRAMES" for k j
    using that
  proof (induction k)
    case 0
    then show ?case
      using assms(1) by (simp add: counts_ok_def)
  next
    case (Suc k)
    let ?t = "fold next_ref_step [0..<k] s"
    have t: "length (next_ref_frame_map ?t) = REF_FRAMES" "k < REF_FRAMES" "next_ref_frame_map ?t ! k = next_ref_frame_map s ! k"
      "ref_count (frame_bufs ?t j) = int (count (held ?t) (Some j)) + (int (L j) + int (count (mset (take k (next_ref_frame_map s))) (Some j)))"
      "length (ref_frame_map ?t) = REF_FRAMES"
      using Suc by simp_all
    have e: "fold next_ref_step [0..<Suc k] s = next_ref_step k ?t"
      by simp
    have "take (Suc k) (next_ref_frame_map s) = take k (next_ref_frame_map s) @ [next_ref_frame_map s ! k]"
      using assms(1) t(2) by (intro take_Suc_conv_app_nth) (simp add: counts_ok_def)
    then have c: "int (count (mset (take (Suc k) (next_ref_frame_map s))) (Some j)) =
        int (count (mset (take k (next_ref_frame_map s))) (Some j)) + (if next_ref_frame_map s ! k = Some j then 1 else 0)"
      by simp
    have "length (next_ref_frame_map (next_ref_step k ?t)) = REF_FRAMES" "length (ref_frame_map (next_ref_step k ?t)) = REF_FRAMES"
      using t(1,5) by (simp_all add: next_ref_step_def Let_def)
    moreover have "\<forall>i\<ge>Suc k. next_ref_frame_map (next_ref_step k ?t) ! i = next_ref_frame_map s ! i"
      using Suc by simp
    ultimately show ?case
      unfolding e using next_ref_step_leak [OF t(1,2,4)] c t(3) by simp
  qed
  have "counts_ok (with_leak L (next_ref_frame_map s)) ?t"
    using step [of REF_FRAMES] assms(1) rest_ofD(1) [OF r] by (simp add: counts_ok_def with_leak_def)
  then show "counts_ok (with_leak L (next_ref_frame_map s)) s'"
    unfolding s' by (simp add: counts_ok_def held_def)
qed

lemma drop_frame_keeps_next_map:
  assumes "av1_ok L s" "av1_bufmgr_postproc False s = Some s'"
  shows "counts_ok L s'" "next_ref_frame_map s' = next_ref_frame_map s" "rest_of s' = rest_of (s\<lparr>hold_ref_buf := False\<rparr>)"
proof -
  let ?t = "(decrease_ref_count (cur_frame s) s)\<lparr>cur_frame := None\<rparr>"
  have c: "\<not> camera_frame_header_ready s" "counts_ok L s"
    using assms(1) by (simp_all add: av1_ok_iff)
  have e: "s' = invalidate_remapped (?t\<lparr>hold_ref_buf := False\<rparr>)"
    using assms(2) c(1) rest_ofD(5) [OF decrease_fields(6), of "cur_frame s" s]
    by (simp add: av1_bufmgr_postproc_def swap_frame_buffers_def Let_def)
  have "counts_ok L (?t\<lparr>hold_ref_buf := False\<rparr>)"
    using drop_cur_ok [OF c(2)] by (simp add: counts_ok_def held_def)
  then show "counts_ok L s'"
    unfolding e using refs_of_counts_ok [OF refs_of_invalidate] by blast
  show "next_ref_frame_map s' = next_ref_frame_map s"
    unfolding e by (simp add: invalidate_remapped_def)
  show "rest_of s' = rest_of (s\<lparr>hold_ref_buf := False\<rparr>)"
    using rest_ofD [OF decrease_fields(6), of "cur_frame s" s] unfolding e
    by (simp add: invalidate_remapped_def rest_of_def)
qed

lemma get_free_fb_unused: "fst (get_free_fb s) = Some i \<Longrightarrow> ref_count (frame_bufs s i) = 0"
  by (auto simp: get_free_fb_def find_Some_iff split: option.splits)

text \<open>The next frame after a dropped one: its header may set anything but the references, and asks
  for no existing frame. The map it fills is counted on top of the dropped one.\<close>

definition starts_from :: "AV1 \<Rightarrow> AV1 \<Rightarrow> bool" where
  "starts_from x v \<longleftrightarrow> refs_of (v\<lparr>show_existing_frame := False, reset_decoder_state := False\<rparr>) =
     refs_of (x\<lparr>show_existing_frame := False, reset_decoder_state := False\<rparr>) \<and>
     (\<not> show_existing_frame v \<or> reset_decoder_state v)"

lemma starts_from_counts:
  assumes "starts_from x v" "counts_ok L x"
  shows "counts_ok L v" "next_ref_frame_map v = next_ref_frame_map x" "num_output_frames v = num_output_frames x"
    "output_all_layers v = output_all_layers x" "large_scale_tile v = large_scale_tile x"
    "camera_frame_header_ready v = camera_frame_header_ready x"
proof -
  have f: "counts_ok L (y\<lparr>show_existing_frame := False, reset_decoder_state := False\<rparr>) = counts_ok L y" for y
    by (simp add: counts_ok_def held_def)
  show "counts_ok L v"
    using assms refs_of_counts_ok [of "v\<lparr>show_existing_frame := False, reset_decoder_state := False\<rparr>"
        "x\<lparr>show_existing_frame := False, reset_decoder_state := False\<rparr>" L] by (simp add: f starts_from_def)
  show "next_ref_frame_map v = next_ref_frame_map x" "num_output_frames v = num_output_frames x"
    "output_all_layers v = output_all_layers x" "large_scale_tile v = large_scale_tile x"
    "camera_frame_header_ready v = camera_frame_header_ready x"
    using assms(1) by (simp_all add: starts_from_def refs_of_def)
qed

lemma leaked_state:
  assumes s: "av1_run s" "av1_bufmgr_postproc False s = Some t"
    and v: "starts_from (assign_cur_frame_new_fb (release_output t)) v" and u: "generate_next_ref_frame_map v = Some u"
  shows "av1_ok (with_leak (\<lambda>_. 0) (next_ref_frame_map s)) u"
proof -
  let ?x = "assign_cur_frame_new_fb (release_output t)"
  have ok: "av1_ok (\<lambda>_. 0) s"
    by (rule av1_run_ok [OF s(1)])
  note t = drop_frame_keeps_next_map [OF ok s(2)]
  let ?ps = "take (num_output_frames t) (output_frames t)"
  have r: "rest_of (release_output t) = rest_of (t\<lparr>num_output_frames := 0\<rparr>)"
    using rest_ofD [OF fold_decrease_fields(4) [of ?ps t]] by (simp add: release_output_def rest_of_def)
  have rel: "counts_ok (\<lambda>_. 0) (release_output t)"
    using t(1) rest_ofD(1) [OF fold_decrease_fields(4) [of ?ps t]]
    by (auto simp: counts_ok_def held_def) (simp add: release_output_def)
  note x = assign_cur_frame_keeps [OF rel]
  have rx: "rest_of ?x = rest_of (t\<lparr>num_output_frames := 0\<rparr>)"
    using x(2) r by simp
  have nxt: "next_ref_frame_map ?x = next_ref_frame_map s"
    using x(3) t(2) by simp
  note c = starts_from_counts [OF v x(1)]
  note g = generate_leak [OF c(1) u]
  have "num_output_frames u = 0" "\<not> output_all_layers u" "\<not> large_scale_tile u" "\<not> camera_frame_header_ready u" "hold_ref_buf u"
    "show_existing_frame u = show_existing_frame v" "reset_decoder_state u = reset_decoder_state v"
    using rest_ofD [OF g(2)] c(3-6) rest_ofD [OF rx] rest_ofD [OF t(3)] ok by (simp_all add: av1_ok_iff)
  moreover have "counts_ok (with_leak (\<lambda>_. 0) (next_ref_frame_map s)) u"
    using g(1) c(2) nxt by simp
  ultimately show ?thesis
    using v by (simp add: av1_ok_iff starts_from_def)
qed

text \<open>C27. A frame whose header was parsed and that is then dropped (\<open>frame_decoded\<close> 0) leaks for ever. When the
  next frame has released the output, taken its buffer and filled the next reference map anew, in every state that the
  decoder then reaches without dropping another parsed frame each buffer is counted once too often for each entry it had in
  the dropped map, whatever else the header of the next frame sets. So a buffer of that map is never free again: the search for a
  free buffer passes it over, even when nothing holds it.\<close>

theorem dropped_frame_leaks_references:
  assumes "av1_run s" "av1_bufmgr_postproc False s = Some t"
    and "starts_from (assign_cur_frame_new_fb (release_output t)) v" "generate_next_ref_frame_map v = Some u"
    and "av1_later u w"
  shows "ref_count (frame_bufs w i) = int (count (held w) (Some i)) + int (count (mset (next_ref_frame_map s)) (Some i)) \<and>
    (Some i \<in> set (next_ref_frame_map s) \<longrightarrow> ref_count (frame_bufs w i) > 0 \<and> fst (get_free_fb w) \<noteq> Some i)"
proof -
  have "av1_ok (with_leak (\<lambda>_. 0) (next_ref_frame_map s)) w"
    using av1_later_ok [OF assms(5)] leaked_state [OF assms(1-4)] by blast
  then have count: "ref_count (frame_bufs w i) =
      int (count (held w) (Some i)) + int (count (mset (next_ref_frame_map s)) (Some i))"
    by (simp add: av1_ok_def with_leak_def)
  have "ref_count (frame_bufs w i) > 0" if "Some i \<in> set (next_ref_frame_map s)"
  proof -
    have "0 < count (mset (next_ref_frame_map s)) (Some i)"
      using that by (simp add: count_greater_zero_iff)
    then show ?thesis
      using count by linarith
  qed
  then show ?thesis
    using count get_free_fb_unused [of w i] by auto
qed

text \<open>The next frame is finished, and buffer 0 keeps seven counts too many.\<close>

lemma dropped_frame_leaks_references_witness:
  "\<exists>t u w. av1_bufmgr_postproc False sample_4 = Some t \<and>
     generate_next_ref_frame_map (assign_cur_frame_new_fb (release_output t)) = Some u \<and>
     av1_bufmgr_postproc True u = Some w \<and>
     ref_count (frame_bufs w 0) = int (count (held w) (Some 0)) + 7 \<and> fst (get_free_fb w) \<noteq> Some 0"
proof -
  define t where "t = the (av1_bufmgr_postproc False sample_4)"
  define u where "u = the (generate_next_ref_frame_map (assign_cur_frame_new_fb (release_output t)))"
  define w where "w = the (av1_bufmgr_postproc True u)"
  have "av1_bufmgr_postproc False sample_4 \<noteq> None"
    by code_simp
  then have 1: "av1_bufmgr_postproc False sample_4 = Some t"
    by (auto simp: t_def)
  have "generate_next_ref_frame_map (assign_cur_frame_new_fb (release_output (the (av1_bufmgr_postproc False sample_4)))) \<noteq> None"
    by code_simp
  then have 2: "generate_next_ref_frame_map (assign_cur_frame_new_fb (release_output t)) = Some u"
    by (auto simp: t_def u_def)
  have "av1_bufmgr_postproc True (the (generate_next_ref_frame_map (assign_cur_frame_new_fb (release_output
      (the (av1_bufmgr_postproc False sample_4)))))) \<noteq> None"
    by code_simp
  then have 3: "av1_bufmgr_postproc True u = Some w"
    by (auto simp: t_def u_def w_def)
  have "num_output_frames (the (generate_next_ref_frame_map (assign_cur_frame_new_fb (release_output
      (the (av1_bufmgr_postproc False sample_4)))))) = 0"
    by code_simp
  then have "num_output_frames u = 0"
    by (simp add: u_def t_def)
  then have later: "av1_later u w"
    by (intro later_postproc [OF now _ _ 3]) simp_all
  have "\<not> show_existing_frame (assign_cur_frame_new_fb (release_output (the (av1_bufmgr_postproc False sample_4))))"
    by code_simp
  then have start: "starts_from (assign_cur_frame_new_fb (release_output t)) (assign_cur_frame_new_fb (release_output t))"
    by (simp add: starts_from_def t_def)
  have map: "next_ref_frame_map sample_4 = [Some 0, Some 1, Some 0, Some 0, Some 0, Some 0, Some 0, Some 0]"
    by code_simp
  have 4: "Some 0 \<in> set (next_ref_frame_map sample_4)" "count (mset (next_ref_frame_map sample_4)) (Some 0) = 7"
    by (simp_all add: map)
  note d = dropped_frame_leaks_references [OF sample_runs(4) 1 start 2 later, of 0]
  have "ref_count (frame_bufs w 0) = int (count (held w) (Some 0)) + 7"
    using d 4(2) by simp
  moreover have "fst (get_free_fb w) \<noteq> Some 0"
    using d 4(1) by blast
  ultimately show ?thesis
    using 1 2 3 by blast
qed

lemma error_if_fields [simp]:
  "seq_params (error_if b c s) = seq_params s" "ref_frame_map (error_if b c s) = ref_frame_map s"
  "cur_frame (error_if b c s) = cur_frame s" "current_frame (error_if b c s) = current_frame s"
  "show_existing_frame (error_if b c s) = show_existing_frame s" "reset_decoder_state (error_if b c s) = reset_decoder_state s"
  "next_ref_frame_map (error_if b c s) = next_ref_frame_map s" "output_frames (error_if b c s) = output_frames s"
  "num_output_frames (error_if b c s) = num_output_frames s" "output_all_layers (error_if b c s) = output_all_layers s"
  "large_scale_tile (error_if b c s) = large_scale_tile s" "camera_frame_header_ready (error_if b c s) = camera_frame_header_ready s"
  "hold_ref_buf (error_if b c s) = hold_ref_buf s" "frame_bufs (error_if b c s) = frame_bufs s"
  by (simp_all add: error_if_def aom_internal_error_def)

lemma show_missing_frame_obu:
  assumes "idle L v" "\<not> reduced_still_picture_hdr (seq_params v)" "p_show_existing_frame p" "p_existing_frame_idx p < REF_FRAMES"
    "ref_frame_map v ! p_existing_frame_idx p = None" "\<not> seen_frame_header v" "frame_obu False p v = Some (r, t)"
  shows "r = 1" "refs_of t = refs_of (v\<lparr>show_existing_frame := True, reset_decoder_state := False\<rparr>)" "current_frame t = current_frame v"
proof -
  have i: "\<not> large_scale_tile v" "\<not> camera_frame_header_ready v"
    using assms(1) by (simp_all add: idle_def)
  show "r = 1" "refs_of t = refs_of (v\<lparr>show_existing_frame := True, reset_decoder_state := False\<rparr>)" "current_frame t = current_frame v"
    using assms(2-7) i
    by (auto simp: frame_obu_def av1_decode_frame_headers_and_setup_def show_existing_def Let_def aom_internal_error_def refs_of_def)
qed

lemma clear_none: "next_ref_frame_map s = replicate REF_FRAMES None \<Longrightarrow> i < REF_FRAMES \<Longrightarrow> next_ref_frame_map s ! i = None"
  by simp

lemma new_fb_keeps_headers:
  defines "v \<equiv> (\<lambda>s. assign_cur_frame_new_fb (release_output s))"
  shows "seq_params (v s) = seq_params s \<and> current_frame (v s) = current_frame s \<and> ref_frame_map (v s) = ref_frame_map s"
proof -
  have "seq_params (fold decrease_ref_count ps x) = seq_params x" for ps x
    by (induction ps arbitrary: x) (simp_all add: decrease_ref_count_def)
  moreover have "current_frame (fold decrease_ref_count ps x) = current_frame x" for ps x
    by (induction ps arbitrary: x) (simp_all add: decrease_ref_count_def)
  ultimately show ?thesis
    by (auto simp: v_def assign_cur_frame_new_fb_def get_free_fb_def decrease_ref_count_def release_output_def Let_def split: option.split)
qed

lemma swap_shows_one:
  assumes w: "show_existing_frame w" "\<not> output_all_layers w" "\<not> camera_frame_header_ready w" "num_output_frames w = 0"
    "cur_frame w = Some b" "length (output_frames w) = MAX_NUM_SPATIAL_LAYERS"
    and t: "transfer_refs t = Some w" "\<not> camera_frame_header_ready t" and u: "av1_bufmgr_postproc True t = Some u"
  shows "num_output_frames u = 1 \<and> output_frames u ! 0 = Some b"
proof -
  have "u = (invalidate_remapped (w\<lparr>output_frames := (output_frames w)[0 := Some b], num_output_frames := 1, cur_frame := None,
      hold_ref_buf := False\<rparr>))\<lparr>decoding_first_frame := False\<rparr>"
    using u t w(1-5) by (simp add: av1_bufmgr_postproc_def swap_frame_buffers_def output_frame_def Let_def)
  then show ?thesis
    using w(6) by (simp add: invalidate_remapped_def MAX_NUM_SPATIAL_LAYERS_def)
qed

text \<open>C28. A header that asks to show a reference that does not exist is reported as a finished frame. Finishing it clears the
  entries of the reference map up to the last refresh flag of the frame before, and outputs the buffer taken for the new data, into
  which nothing was decoded.\<close>

theorem show_missing_reference_clears_map:
  assumes "av1_run s" "\<not> hold_ref_buf s" "\<not> reduced_still_picture_hdr (seq_params s)" "p_show_existing_frame p"
    "p_existing_frame_idx p < REF_FRAMES" "ref_frame_map s ! p_existing_frame_idx p = None"
    "av1_bufmgr_process True (OBU_FRAME_HEADER p) s = Some (r, t)" "cur_frame t = Some b" "av1_bufmgr_postproc True t = Some u"
  shows "r = 1 \<and> num_output_frames u = 1 \<and> output_frames u ! 0 = Some b \<and>
    (\<forall>i<REF_FRAMES. ref_frame_map u ! i = (if i < mask_len (refresh_frame_flags (current_frame s)) then None else ref_frame_map s ! i))"
proof -
  let ?v = "assign_cur_frame_new_fb (release_output s)"
  have ok: "av1_ok (\<lambda>_. 0) (release_output s)" "\<not> hold_ref_buf (release_output s)"
    using release_output_ok [OF av1_run_ok [OF assms(1)]] assms(2) by simp_all
  have v: "idle (\<lambda>_. 0) ?v"
    using assign_cur_frame_ok [OF ok] .
  note seq = new_fb_keeps_headers [of s]
  have p: "av1_bufmgr_process True (OBU_FRAME_HEADER p) s =
    (if cur_frame ?v = None then Some (- 1, ?v\<lparr>error_code := AOM_CODEC_MEM_ERROR\<rparr>) else frame_obu False p (?v\<lparr>seen_frame_header := False\<rparr>))"
    by (simp add: av1_bufmgr_process_def aom_decode_frame_from_obus_def Let_def)
  then have c: "cur_frame ?v \<noteq> None" and f: "frame_obu False p (?v\<lparr>seen_frame_header := False\<rparr>) = Some (r, t)"
    using assms(7,8) by (auto split: if_splits)
  note m = show_missing_frame_obu [OF _ _ assms(4,5) _ _ f]
  have v': "idle (\<lambda>_. 0) (?v\<lparr>seen_frame_header := False\<rparr>)"
    using v idle_refs_of [OF refs_of_updates(8)] by blast
  have r: "r = 1" "refs_of t = refs_of (?v\<lparr>show_existing_frame := True, reset_decoder_state := False\<rparr>)" "current_frame t = current_frame s"
    using m [OF v'] seq assms(3,6) by (simp_all add: refs_of_def)
  have i: "idle (\<lambda>_. 0) t" "num_output_frames t = 0" "show_existing_frame t" "\<not> reset_decoder_state t" "ref_frame_map t = ref_frame_map s"
  proof -
    have "idle (\<lambda>_. 0) (?v\<lparr>show_existing_frame := True, reset_decoder_state := False\<rparr>)"
      using v by (simp add: idle_def counts_ok_def held_def)
    then show "idle (\<lambda>_. 0) t"
      using idle_refs_of [OF r(2)] by simp
    have "num_output_frames ?v = 0"
      using rest_ofD(2) [OF assign_cur_frame_keeps(2), of "\<lambda>_. 0" "release_output s"] ok(1) by (simp add: av1_ok_iff)
    then show "num_output_frames t = 0" "show_existing_frame t" "\<not> reset_decoder_state t" "ref_frame_map t = ref_frame_map s"
      using r(2) seq by (simp_all add: refs_of_def)
  qed
  have t: "av1_ok (\<lambda>_. 0) t" "\<not> output_all_layers t" "\<not> camera_frame_header_ready t" "length (output_frames t) = MAX_NUM_SPATIAL_LAYERS"
      "length (ref_frame_map t) = REF_FRAMES" "next_ref_frame_map t = replicate REF_FRAMES None"
    using i(1) idle_av1_ok by (simp_all add: idle_def counts_ok_def)
  obtain w where w: "transfer_refs t = Some w" "ref_frame_map u = ref_frame_map w"
    using ref_map_postproc [OF t(1) i(2) assms(9)] .
  let ?n = "mask_len (refresh_frame_flags (current_frame s))"
  have n: "?n \<le> REF_FRAMES" "w = fold transfer_ref [0..<?n] t"
    using w(1) i(3,4) r(3) by (simp_all add: transfer_refs_def Let_def split: if_splits)
  have "\<forall>i<REF_FRAMES. ref_frame_map u ! i = (if i < ?n then None else ref_frame_map s ! i)"
    using transfer_prefix [OF t(5) n(1)] w(2) n(2) t(6) i(5) by simp
  moreover have "num_output_frames u = 1 \<and> output_frames u ! 0 = Some b"
  proof -
    note q = transfer_refs_ok [OF t(1) w(1)]
    have x: "show_existing_frame w" "\<not> output_all_layers w" "\<not> camera_frame_header_ready w" "num_output_frames w = 0" "cur_frame w = Some b"
        "output_frames w = output_frames t"
      using rest_ofD [OF q(2)] q(3) i t assms(8) by simp_all
    show ?thesis
      by (rule swap_shows_one [OF x(1-5) _ w(1) t(3) assms(9)]) (simp add: x(6) t(4))
  qed
  ultimately show ?thesis
    using r(1) by blast
qed

text \<open>A hidden key frame that refreshes two entries, and a header that shows the entry between them.\<close>

definition sample_5 :: AV1 where
  "sample_5 = process_or_same True (OBU_FRAME (sample_key\<lparr>p_show_frame := False, p_refresh_frame_flags := 5\<rparr>)) sample_1"

definition sample_6 :: AV1 where
  "sample_6 = postproc_or_same sample_5"

definition sample_show :: av1_params where
  "sample_show = sample_key\<lparr>p_show_existing_frame := True, p_existing_frame_idx := 1\<rparr>"

definition sample_7 :: AV1 where
  "sample_7 = process_or_same True (OBU_FRAME_HEADER sample_show) sample_6"

lemma sample_run_6: "av1_run sample_6"
proof -
  have "num_output_frames sample_5 = 0"
    by code_simp
  moreover have "av1_run sample_5"
    unfolding sample_5_def by (rule run_process [OF sample_runs(1)]) (simp add: may_process_def sample_holds)
  ultimately show ?thesis
    unfolding sample_6_def by (intro run_postproc)
qed

lemma show_missing_reference_clears_map_witness:
  "ref_frame_map sample_6 ! 0 = Some 0 \<and> ref_frame_map sample_6 ! 2 = Some 0 \<and>
   (\<exists>u. av1_bufmgr_postproc True sample_7 = Some u \<and> ref_frame_map u ! 0 = None \<and> ref_frame_map u ! 2 = None \<and>
     output_frames u ! 0 = Some 1)"
proof -
  have s: "\<not> hold_ref_buf sample_6" "\<not> reduced_still_picture_hdr (seq_params sample_6)"
      "ref_frame_map sample_6 = [Some 0, None, Some 0, None, None, None, None, None]" "refresh_frame_flags (current_frame sample_6) = 5"
    by code_simp+
  have "map_option fst (av1_bufmgr_process True (OBU_FRAME_HEADER sample_show) sample_6) = Some 1"
    by code_simp
  then have p: "av1_bufmgr_process True (OBU_FRAME_HEADER sample_show) sample_6 = Some (1, sample_7)"
    by (auto simp: sample_7_def process_or_same_def)
  have c: "cur_frame sample_7 = Some 1"
    by code_simp
  have "av1_bufmgr_postproc True sample_7 \<noteq> None"
    by code_simp
  then obtain u where u: "av1_bufmgr_postproc True sample_7 = Some u"
    by blast
  have q: "p_show_existing_frame sample_show" "p_existing_frame_idx sample_show < REF_FRAMES"
      "ref_frame_map sample_6 ! p_existing_frame_idx sample_show = None" "mask_len 5 = 3"
    by (simp_all add: sample_show_def s REF_FRAMES_def) code_simp
  note m = show_missing_reference_clears_map [OF sample_run_6 s(1,2) q(1-3) p c u]
  show ?thesis
    using m u by (simp add: s q REF_FRAMES_def)
qed

end
