(* ===== verification/AV1_Refs_Correct.thy ===== *)
theory AV1_Refs_Correct
  imports AV1_Header H264_Qsort_Correct
begin

text \<open>
  Order hints and references of the AV1 decoder: the distance of two hints is their difference on
  the circle of hints, the choice of the references of a frame from two of them is complete and
  ordered, and the motion field never names more references than the hardware takes.
\<close>

section \<open>Distances\<close>

lemma and_power_of_2: "(x :: int) AND 2 ^ k = (if bit x k then 2 ^ k else 0)"
  by (rule bit_eqI) (auto simp: bit_and_iff bit_exp_iff)

lemma int_bit_mod: "x mod 2 ^ Suc k = x mod 2 ^ k + (if bit x k then 2 ^ k else 0)" for x :: int
proof -
  have "take_bit (Suc k) x = take_bit k x + (if bit x k then 2 ^ k else 0)"
    by (simp add: take_bit_Suc_from_most)
  then show ?thesis
    unfolding take_bit_eq_mod .
qed

lemma get_relative_dist_eq:
  assumes "enable_order_hint h" "order_hint_bits_minus_1 h = int k"
  shows "get_relative_dist h a b = (a - b) mod 2 ^ k - (if bit (a - b) k then 2 ^ k else 0)"
proof -
  have "(a - b) AND (2 ^ k - 1) = (a - b) mod 2 ^ k"
    by (simp add: take_bit_eq_mod flip: mask_eq_exp_minus_1 take_bit_eq_mask)
  then show ?thesis
    using assms by (simp add: get_relative_dist_def Let_def and_power_of_2)
qed

lemma get_relative_dist_bounds:
  assumes "enable_order_hint h" "order_hint_bits_minus_1 h = int k"
  shows "- (2 ^ k) \<le> get_relative_dist h a b" "get_relative_dist h a b < 2 ^ k"
proof -
  have "0 \<le> (a - b) mod 2 ^ k" "(a - b) mod 2 ^ k < 2 ^ k"
    by simp_all
  then show "- (2 ^ k) \<le> get_relative_dist h a b" "get_relative_dist h a b < 2 ^ k"
    unfolding get_relative_dist_eq [OF assms] by (auto simp del: pos_mod_bound pos_mod_sign)
qed

text \<open>C29. With order hints of \<open>k + 1\<close> bits the distance of two hints is the one representative of their difference, modulo the
  number of hints, that lies in the signed range of \<open>k + 1\<close> bits.\<close>

theorem get_relative_dist_signed:
  assumes "enable_order_hint h" "order_hint_bits_minus_1 h = int k"
  shows "get_relative_dist h a b = d \<longleftrightarrow> - (2 ^ k) \<le> d \<and> d < 2 ^ k \<and> (a - b) mod 2 ^ (k + 1) = d mod 2 ^ (k + 1)"
proof -
  let ?g = "get_relative_dist h a b"
  note g = get_relative_dist_bounds [OF assms, of a b]
  have m: "?g mod 2 ^ (k + 1) = (a - b) mod 2 ^ (k + 1)"
  proof (cases "bit (a - b) k")
    case True
    then have "(a - b) mod 2 ^ (k + 1) = ?g + 2 ^ (k + 1)"
      unfolding get_relative_dist_eq [OF assms] using int_bit_mod [of "a - b" k] by simp
    then have "((a - b) mod 2 ^ (k + 1)) mod 2 ^ (k + 1) = (?g + 2 ^ (k + 1)) mod 2 ^ (k + 1)"
      by (rule arg_cong)
    then show ?thesis
      by simp
  next
    case False
    then have "(a - b) mod 2 ^ (k + 1) = ?g"
      unfolding get_relative_dist_eq [OF assms] using int_bit_mod [of "a - b" k] by simp
    then show ?thesis
      by (metis mod_mod_trivial)
  qed
  have "d = ?g" if "- (2 ^ k) \<le> d" "d < 2 ^ k" "(a - b) mod 2 ^ (k + 1) = d mod 2 ^ (k + 1)"
  proof -
    have "(d + 2 ^ k) mod 2 ^ (k + 1) = (?g + 2 ^ k) mod 2 ^ (k + 1)"
      using that(3) m by (intro mod_add_cong) simp_all
    moreover have "(d + 2 ^ k) mod 2 ^ (k + 1) = d + 2 ^ k" "(?g + 2 ^ k) mod 2 ^ (k + 1) = ?g + 2 ^ k"
      using that g by (simp_all add: mod_pos_pos_trivial)
    ultimately show ?thesis
      by simp
  qed
  then show ?thesis
    using g m by auto
qed

lemma get_relative_dist_signed_witness:
  "\<forall>bufs. get_relative_dist (seq_params (av1_decoder_create bufs)\<lparr>enable_order_hint := True, order_hint_bits_minus_1 := 6\<rparr>) 3 125 = 6"
  by (rule allI, subst get_relative_dist_signed [where k = 6]) simp_all

section \<open>Motion field\<close>

definition used_projections :: "AV1 \<Rightarrow> int" where
  "used_projections s = int (length (filter (\<lambda>x. x) (mv_cal_tpl_mvs s)))"

text \<open>A projection takes one place, and one of the hardware's when it succeeds.\<close>

lemma motion_field_projection_total:
  assumes "length (mv_ref_id s) < MV_REF_SIZE"
  shows "\<exists>ok s'. motion_field_projection r s = Some (ok, s') \<and> length (mv_ref_id s') = Suc (length (mv_ref_id s)) \<and>
    used_projections s' = used_projections s + (if ok then 1 else 0)"
  using assms by (auto simp: motion_field_projection_def used_projections_def Let_def split: option.split)

lemma project_backward_total:
  assumes "length (mv_ref_id s) < MV_REF_SIZE"
  shows "\<exists>n' s'. project_backward c r (n, s) = Some (n', s') \<and> length (mv_ref_id s') \<le> Suc (length (mv_ref_id s)) \<and>
    used_projections s' + n' = used_projections s + n \<and> n - 1 \<le> n' \<and> n' \<le> n"
  using motion_field_projection_total [OF assms, of r] by (auto simp: project_backward_def)

text \<open>The first projection, of the last frame.\<close>

definition project_first :: "AV1 \<Rightarrow> (int \<times> AV1) option" where
  "project_first s = (case get_ref_frame_buf s LAST_FRAME of
     None \<Rightarrow> Some (MFMV_STACK_SIZE - 1, s)
   | Some b \<Rightarrow> do {
       let alt_of_lst = s32 (ref_order_hints (frame_bufs s b) ! (ALTREF_FRAME - LAST_FRAME));
       t \<leftarrow> (if alt_of_lst \<noteq> ref_hint_or_0 s GOLDEN_FRAME then map_option snd (motion_field_projection LAST_FRAME s) else Some s);
       Some (MFMV_STACK_SIZE - 1 - 1, t) })"

lemma project_first_total:
  assumes s: "length (mv_ref_id s) = 0" "used_projections s = 0"
  obtains n t where "project_first s = Some (n, t)" "length (mv_ref_id t) \<le> 1" "used_projections t + n \<le> 2" "1 \<le> n"
proof -
  obtain ok t where t: "motion_field_projection LAST_FRAME s = Some (ok, t)" "length (mv_ref_id t) = 1"
      "used_projections t = (if ok then 1 else 0)"
    using motion_field_projection_total [of s LAST_FRAME] s by (auto simp: MV_REF_SIZE_def)
  show thesis
  proof (cases "get_ref_frame_buf s LAST_FRAME")
    case None
    then show ?thesis
      using that [of 2 s] s by (simp add: project_first_def MFMV_STACK_SIZE_def)
  next
    case (Some b)
    then show ?thesis
      using that [of 1 "if s32 (ref_order_hints (frame_bufs s b) ! (ALTREF_FRAME - LAST_FRAME)) \<noteq> ref_hint_or_0 s GOLDEN_FRAME then t else s"] s t
      by (simp add: project_first_def MFMV_STACK_SIZE_def Let_def)
  qed
qed

text \<open>C30. The motion field is set up for every frame with a buffer, and never uses more than the three references that the
  hardware registers hold.\<close>

theorem motion_field_at_most_three:
  assumes "enable_order_hint (seq_params s)" "cur_frame s = Some i"
  shows "\<exists>s'. av1_setup_motion_field s = Some s' \<and> used_projections s' \<le> MFMV_STACK_SIZE \<and> length (mv_ref_id s') \<le> 5"
proof -
  define cur where "cur = hint_of s i"
  define s0 where "s0 = s\<lparr>ref_frame_side := map (side_of s cur) [0..<REF_FRAMES], mv_ref_id := [], mv_ref_offset := [], mv_cal_tpl_mvs := []\<rparr>"
  have s0: "length (mv_ref_id s0) = 0" "used_projections s0 = 0"
    by (simp_all add: s0_def used_projections_def)
  obtain n1 s1 where 1: "project_first s0 = Some (n1, s1)" "length (mv_ref_id s1) \<le> 1" "used_projections s1 + n1 \<le> 2" "1 \<le> n1"
    by (rule project_first_total [OF s0])
  obtain n2 s2 where 2: "project_backward cur BWDREF_FRAME (n1, s1) = Some (n2, s2)" "length (mv_ref_id s2) \<le> 2"
      "used_projections s2 + n2 \<le> 2" "0 \<le> n2"
    using project_backward_total [of s1 cur BWDREF_FRAME n1] 1 by (fastforce simp: MV_REF_SIZE_def)
  obtain n3 s3 where 3: "project_backward cur ALTREF2_FRAME (n2, s2) = Some (n3, s3)" "length (mv_ref_id s3) \<le> 3"
      "used_projections s3 + n3 \<le> 2" "- 1 \<le> n3"
    using project_backward_total [of s2 cur ALTREF2_FRAME n2] 2 by (fastforce simp: MV_REF_SIZE_def)
  obtain n4 s4 where 4: "(if n3 \<ge> 0 then project_backward cur ALTREF_FRAME (n3, s3) else Some (n3, s3)) = Some (n4, s4)"
      "length (mv_ref_id s4) \<le> 4" "used_projections s4 + n4 \<le> 2" "- 1 \<le> n4"
  proof (cases "n3 \<ge> 0")
    case True
    then show ?thesis
      using that project_backward_total [of s3 cur ALTREF_FRAME n3] 3 by (fastforce simp: MV_REF_SIZE_def)
  next
    case False
    then show ?thesis
      using that [of n3 s3] 3 by simp
  qed
  obtain s5 where 5: "(if n4 \<ge> 0 then map_option snd (motion_field_projection LAST2_FRAME s4) else Some s4) = Some s5"
      "length (mv_ref_id s5) \<le> 5" "used_projections s5 \<le> 3"
  proof (cases "n4 \<ge> 0")
    case True
    then show ?thesis
      using that motion_field_projection_total [of s4 LAST2_FRAME] 4 by (fastforce simp: MV_REF_SIZE_def)
  next
    case False
    then show ?thesis
      using that [of s4] 4 by simp
  qed
  have "av1_setup_motion_field s = Some s5"
    using assms 1(1) 2(1) 3(1) 4(1) 5(1) unfolding av1_setup_motion_field_def Let_def project_first_def s0_def cur_def
    by simp
  then show ?thesis
    using 5 by (simp add: MFMV_STACK_SIZE_def)
qed

lemma motion_field_at_most_three_witness:
  "\<forall>bufs. \<exists>s'. av1_setup_motion_field ((av1_decoder_create bufs)
      \<lparr>seq_params := (seq_params (av1_decoder_create bufs))\<lparr>enable_order_hint := True, order_hint_bits_minus_1 := 6\<rparr>,
       cur_frame := Some 3, ref_frame_map := [Some 0, Some 1, Some 2, Some 0, Some 1, Some 2, Some 0, Some 1]\<rparr>) = Some s' \<and>
     used_projections s' \<le> MFMV_STACK_SIZE \<and> length (mv_ref_id s') \<le> 5"
  by (rule allI, rule motion_field_at_most_three [where i = 3]) simp_all

section \<open>Forward and backward references\<close>

interpretation ref_info: comparator compare_ref_frame_info
  by unfold_locales (auto simp: compare_ref_frame_info_def Let_def split: if_splits)

text \<open>How many references sort before a value.\<close>

definition below :: "int \<Rightarrow> REF_FRAME_INFO list \<Rightarrow> nat" where
  "below v rs = length (filter (\<lambda>r. sort_idx r < v) rs)"

lemma below_le: "below v rs \<le> length rs"
  by (simp add: below_def)

lemma below_nth:
  assumes "sorted_wrt (\<lambda>a b. sort_idx a \<le> sort_idx b) rs" "k < length rs"
  shows "sort_idx (rs ! k) < v \<longleftrightarrow> k < below v rs"
  using assms
proof (induction rs arbitrary: k)
  case (Cons r rs)
  have n: "below v (r # rs) = (if sort_idx r < v then Suc (below v rs) else below v rs)"
    by (simp add: below_def)
  show ?case
  proof (cases "sort_idx r < v")
    case True
    then show ?thesis
      using Cons n by (cases k) simp_all
  next
    case False
    then have "filter (\<lambda>r. sort_idx r < v) rs = []"
      using Cons.prems(1) by (auto simp: filter_empty_conv)
    then have "below v rs = 0"
      by (simp add: below_def)
    moreover have "\<not> sort_idx ((r # rs) ! k) < v"
    proof -
      have "\<forall>x\<in>set (r # rs). \<not> sort_idx x < v"
        using Cons.prems(1) False by fastforce
      then show ?thesis
        using Cons.prems(2) nth_mem by blast
    qed
    ultimately show ?thesis
      using n False by simp
  qed
qed simp

lemma split_refs_eq:
  assumes "sorted_wrt (\<lambda>a b. sort_idx a \<le> sort_idx b) rs" "\<forall>r\<in>set rs. sort_idx r \<ge> - 1" "cur > - 1" "i + int (length rs) = int REF_FRAMES"
  shows "split_refs cur rs i f = (f + int (below 0 rs), i + int (below cur rs) - 1)"
  using assms
proof (induction rs arbitrary: i f)
  case (Cons r rs)
  have n: "below v (r # rs) = (if sort_idx r < v then Suc (below v rs) else below v rs)" for v
    by (simp add: below_def)
  show ?case
  proof (cases "sort_idx r = - 1")
    case True
    then show ?thesis
      using Cons.IH [of "i + 1" "f + 1"] Cons.prems n by simp
  next
    case False
    then have r: "sort_idx r \<ge> 0"
      using Cons.prems(2) by fastforce
    have z: "below v rs = 0" if "v \<le> sort_idx r" for v
      using Cons.prems(1) that by (fastforce simp: below_def filter_empty_conv)
    show ?thesis
      using Cons.IH [of "i + 1" f] Cons.prems n z [of 0] z [of cur] r False by auto
  qed
qed (simp add: below_def)

section \<open>Choosing the references\<close>

lemma set_ref_simps [simp]:
  "fst (set_ref_frame_info r x c) = (fst c)[r - LAST_FRAME := map_idx x]"
  "snd (set_ref_frame_info r x c) = (snd c)[r - LAST_FRAME := True]"
  by (simp_all add: set_ref_frame_info_def split: prod.split)

text \<open>Every chosen label points to a reference from a place on.\<close>

definition chosen_ok :: "REF_FRAME_INFO list \<Rightarrow> nat \<Rightarrow> ref_choice \<Rightarrow> bool" where
  "chosen_ok infos f c \<longleftrightarrow> length (fst c) = REF_FRAMES \<and> length (snd c) = INTER_REFS_PER_FRAME \<and>
     (\<forall>i<INTER_REFS_PER_FRAME. snd c ! i \<longrightarrow> (\<exists>k. f \<le> k \<and> k < length infos \<and> fst c ! i = map_idx (infos ! k)))"

text \<open>A step only adds labels.\<close>

definition extends :: "ref_choice \<Rightarrow> ref_choice \<Rightarrow> bool" where
  "extends c c' \<longleftrightarrow> (\<forall>i<INTER_REFS_PER_FRAME. snd c ! i \<longrightarrow> snd c' ! i \<and> fst c' ! i = fst c ! i)"

lemma extends_refl [simp]: "extends c c"
  by (simp add: extends_def)

lemma extends_trans: "extends a b \<Longrightarrow> extends b c \<Longrightarrow> extends a c"
  by (simp add: extends_def)

lemma chosen_ok_set:
  assumes "chosen_ok infos f c" "f \<le> k" "k < length infos"
  shows "chosen_ok infos f (set_ref_frame_info r (infos ! k) c)"
proof -
  let ?c = "set_ref_frame_info r (infos ! k) c" and ?i = "r - LAST_FRAME"
  have l: "length (fst c) = REF_FRAMES" "length (snd c) = INTER_REFS_PER_FRAME"
    using assms(1) by (simp_all add: chosen_ok_def)
  have "\<exists>k. f \<le> k \<and> k < length infos \<and> fst ?c ! i = map_idx (infos ! k)" if i: "i < INTER_REFS_PER_FRAME" "snd ?c ! i" for i
  proof (cases "i = ?i")
    case True
    then have "fst ?c ! i = map_idx (infos ! k)"
      using i(1) l(1) by (simp add: REF_FRAMES_def INTER_REFS_PER_FRAME_def)
    then show ?thesis
      using assms(2,3) by blast
  next
    case False
    then show ?thesis
      using i assms(1) by (simp add: chosen_ok_def)
  qed
  then show ?thesis
    using l by (simp add: chosen_ok_def)
qed

lemma extends_set: "\<not> snd c ! (r - LAST_FRAME) \<Longrightarrow> extends c (set_ref_frame_info r x c)"
  unfolding extends_def by (metis nth_list_update_neq set_ref_simps)

lemma skip_named_le: "skip_named infos l g f e \<le> e"
proof (induction infos l g f e rule: skip_named.induct)
  case (1 infos l g f e)
  then show ?case
    by (subst skip_named.simps) (auto split: if_splits)
qed

lemma fill_forward_spec:
  assumes "chosen_ok infos f c" "e < int (length infos)" "\<forall>r\<in>set refs. LAST_FRAME \<le> r \<and> r \<le> ALTREF_FRAME"
    "fill_forward infos l g (int f) refs e c = (rest, c')"
  shows "chosen_ok infos f c'" "extends c c'" "set rest \<subseteq> set refs" "\<forall>r\<in>set refs - set rest. snd c' ! (r - LAST_FRAME)"
proof -
  have "chosen_ok infos f c' \<and> extends c c' \<and> set rest \<subseteq> set refs \<and> (\<forall>r\<in>set refs - set rest. snd c' ! (r - LAST_FRAME))"
    using assms
  proof (induction refs arbitrary: e c)
    case (Cons r refs)
    have r: "r - LAST_FRAME < INTER_REFS_PER_FRAME"
      using Cons.prems(3) by (auto simp: LAST_FRAME_def ALTREF_FRAME_def INTER_REFS_PER_FRAME_def)
    show ?case
    proof (cases "snd c ! (r - LAST_FRAME)")
      case True
      then show ?thesis
        using Cons.IH [OF Cons.prems(1,2)] Cons.prems(3,4) r by (auto simp: extends_def)
    next
      case False
      let ?e = "skip_named infos l g (int f) e"
      have e: "?e \<le> e"
        by (rule skip_named_le)
      show ?thesis
      proof (cases "int f > ?e")
        case True
        then show ?thesis
          using Cons.prems False by auto
      next
        case ok: False
        let ?c = "set_ref_frame_info r (infos ! nat ?e) c"
        have c: "chosen_ok infos f ?c"
          by (rule chosen_ok_set [OF Cons.prems(1)]) (use ok e Cons.prems(2) in linarith)+
        have s: "snd ?c ! (r - LAST_FRAME)"
          using Cons.prems(1) r by (simp add: chosen_ok_def)
        have less: "?e - 1 < int (length infos)"
          using e Cons.prems(2) by linarith
        have "fill_forward infos l g (int f) refs (?e - 1) ?c = (rest, c')"
          using Cons.prems(4) False ok by (simp add: Let_def)
        then have i: "chosen_ok infos f c' \<and> extends ?c c' \<and> set rest \<subseteq> set refs \<and> (\<forall>r\<in>set refs - set rest. snd c' ! (r - LAST_FRAME))"
          using Cons.IH [OF c, of "?e - 1"] less Cons.prems(3) by simp
        moreover have "extends c c'"
          using extends_trans [OF extends_set [OF False]] i by blast
        moreover have "snd c' ! (r - LAST_FRAME)"
          using i s r unfolding extends_def by blast
        ultimately show ?thesis
          by auto
      qed
    qed
  qed simp
  then show "chosen_ok infos f c'" "extends c c'" "set rest \<subseteq> set refs" "\<forall>r\<in>set refs - set rest. snd c' ! (r - LAST_FRAME)"
    by simp_all
qed

lemma fill_earliest_spec:
  assumes "chosen_ok infos f c" "f < length infos" "\<forall>r\<in>set refs. LAST_FRAME \<le> r \<and> r \<le> ALTREF_FRAME"
  shows "\<exists>c'. fill_earliest infos (int f) refs c = Some c' \<and> chosen_ok infos f c' \<and> extends c c' \<and>
    (\<forall>r\<in>set refs. snd c' ! (r - LAST_FRAME))"
  using assms
proof (induction refs arbitrary: c)
  case (Cons r refs)
  have r: "r - LAST_FRAME < INTER_REFS_PER_FRAME"
    using Cons.prems(3) by (auto simp: LAST_FRAME_def ALTREF_FRAME_def INTER_REFS_PER_FRAME_def)
  show ?case
  proof (cases "snd c ! (r - LAST_FRAME)")
    case True
    then show ?thesis
      using Cons.IH [OF Cons.prems(1,2)] Cons.prems(3) r by (auto simp: extends_def)
  next
    case False
    let ?c = "set_ref_frame_info r (infos ! f) c"
    have c: "chosen_ok infos f ?c"
      by (rule chosen_ok_set [OF Cons.prems(1)]) (use Cons.prems(2) in simp_all)
    have s: "snd ?c ! (r - LAST_FRAME)"
      using Cons.prems(1) r by (simp add: chosen_ok_def)
    obtain c' where c': "fill_earliest infos (int f) refs ?c = Some c'" "chosen_ok infos f c'" "extends ?c c'"
        "\<forall>r\<in>set refs. snd c' ! (r - LAST_FRAME)"
      using Cons.IH [OF c Cons.prems(2)] Cons.prems(3) by auto
    have "fill_earliest infos (int f) (r # refs) c = Some c'"
      using False Cons.prems(2) c'(1) by simp
    moreover have "extends c c'"
      using extends_trans [OF extends_set [OF False] c'(3)] .
    moreover have "snd c' ! (r - LAST_FRAME)"
      using c'(3) s r unfolding extends_def by blast
    ultimately show ?thesis
      using c'(2,4) by auto
  qed
qed simp

text \<open>The named references.\<close>

lemma choose_named_fold:
  assumes "length (fst c) = REF_FRAMES" "length (snd c) = INTER_REFS_PER_FRAME"
  shows "let c' = fold (choose_named l g) xs c in length (fst c') = REF_FRAMES \<and> length (snd c') = INTER_REFS_PER_FRAME \<and>
    fst c' ! 0 = (if l \<in> map_idx ` set xs then l else fst c ! 0) \<and> snd c' ! 0 = (snd c ! 0 \<or> l \<in> map_idx ` set xs) \<and>
    fst c' ! 3 = (if g \<in> map_idx ` set xs then g else fst c ! 3) \<and> snd c' ! 3 = (snd c ! 3 \<or> g \<in> map_idx ` set xs) \<and>
    (\<forall>i. i \<noteq> 0 \<and> i \<noteq> 3 \<longrightarrow> fst c' ! i = fst c ! i \<and> snd c' ! i = snd c ! i)"
  using assms
proof (induction xs arbitrary: c)
  case (Cons x xs)
  define d where "d = choose_named l g x c"
  have d: "length (fst d) = REF_FRAMES" "length (snd d) = INTER_REFS_PER_FRAME"
      "fst d ! 0 = (if map_idx x = l then l else fst c ! 0)" "snd d ! 0 = (snd c ! 0 \<or> map_idx x = l)"
      "fst d ! 3 = (if map_idx x = g then g else fst c ! 3)" "snd d ! 3 = (snd c ! 3 \<or> map_idx x = g)"
      "\<forall>i. i \<noteq> 0 \<and> i \<noteq> 3 \<longrightarrow> fst d ! i = fst c ! i \<and> snd d ! i = snd c ! i"
    using Cons.prems
    by (simp_all add: d_def choose_named_def Let_def LAST_FRAME_def GOLDEN_FRAME_def REF_FRAMES_def INTER_REFS_PER_FRAME_def)
  have "fold (choose_named l g) (x # xs) c = fold (choose_named l g) xs d"
    by (simp add: d_def)
  then show ?case
    using Cons.IH [OF d(1,2)] d(3-7) unfolding Let_def by auto
qed simp

text \<open>The backward references, from the first place of one.\<close>

lemma choose_backward_eq:
  assumes "g \<le> REF_FRAMES"
  shows "choose_backward infos (int g) c =
    (let c = (if g \<le> 7 then set_ref_frame_info ALTREF_FRAME (infos ! 7) c else c);
         c = (if g \<le> 6 then set_ref_frame_info BWDREF_FRAME (infos ! g) c else c)
     in if g \<le> 5 then set_ref_frame_info ALTREF2_FRAME (infos ! (g + 1)) c else c)"
  using assms by (auto simp: choose_backward_def Let_def REF_FRAMES_def nat_add_distrib)

text \<open>The labels of the backward references.\<close>

lemma choose_backward_spec:
  fixes infos :: "REF_FRAME_INFO list" and c :: ref_choice
  assumes "length infos = REF_FRAMES" "b \<le> REF_FRAMES" "length (fst c) = REF_FRAMES" "snd c = replicate INTER_REFS_PER_FRAME False"
  defines "c' \<equiv> choose_backward infos (int b) c"
  shows "chosen_ok infos b c'" "b \<le> 7 \<Longrightarrow> snd c' ! 6 \<and> fst c' ! 6 = map_idx (infos ! 7)"
    "b \<le> 6 \<Longrightarrow> snd c' ! 4 \<and> fst c' ! 4 = map_idx (infos ! b)" "\<not> snd c' ! 0" "\<not> snd c' ! 3"
proof -
  define c0 where "c0 = c"
  define c1 where "c1 = (if b \<le> 7 then set_ref_frame_info ALTREF_FRAME (infos ! 7) c0 else c0)"
  define c2 where "c2 = (if b \<le> 6 then set_ref_frame_info BWDREF_FRAME (infos ! b) c1 else c1)"
  have e: "c' = (if b \<le> 5 then set_ref_frame_info ALTREF2_FRAME (infos ! (b + 1)) c2 else c2)"
    unfolding c'_def choose_backward_eq [OF assms(2)] Let_def c2_def c1_def c0_def ..
  have c0: "chosen_ok infos b c0"
    using assms(3,4) by (simp add: chosen_ok_def c0_def)
  have c1: "chosen_ok infos b c1"
    using chosen_ok_set [OF c0, of 7] c0 assms(1) by (simp add: c1_def REF_FRAMES_def)
  have c2: "chosen_ok infos b c2"
    using chosen_ok_set [OF c1, of b] c1 assms(1) by (simp add: c2_def REF_FRAMES_def)
  show "chosen_ok infos b c'"
    using chosen_ok_set [OF c2, of "b + 1"] c2 assms(1) by (simp add: e REF_FRAMES_def)
  have l: "length (fst c0) = 8" "snd c0 = replicate 7 False"
    using assms(3,4) by (simp_all add: c0_def REF_FRAMES_def INTER_REFS_PER_FRAME_def)
  show "b \<le> 7 \<Longrightarrow> snd c' ! 6 \<and> fst c' ! 6 = map_idx (infos ! 7)" "b \<le> 6 \<Longrightarrow> snd c' ! 4 \<and> fst c' ! 4 = map_idx (infos ! b)"
    "\<not> snd c' ! 0" "\<not> snd c' ! 3"
    using l by (simp_all add: e c2_def c1_def LAST_FRAME_def ALTREF_FRAME_def BWDREF_FRAME_def ALTREF2_FRAME_def nth_list_update)
qed

text \<open>A reference of the map is forward when it lies before the current frame.\<close>

definition sort_pos :: "AV1 \<Rightarrow> nat \<Rightarrow> int" where
  "sort_pos s j = sort_idx (ref_frame_info s j)"

definition forward_ref :: "AV1 \<Rightarrow> nat \<Rightarrow> bool" where
  "forward_ref s j \<longleftrightarrow> 0 \<le> sort_pos s j \<and> sort_pos s j < cur_frame_sort_idx s"

definition backward_ref :: "AV1 \<Rightarrow> nat \<Rightarrow> bool" where
  "backward_ref s j \<longleftrightarrow> cur_frame_sort_idx s \<le> sort_pos s j"

text \<open>The sorted references.\<close>

lemma sorted_infos:
  assumes "enable_order_hint (seq_params s)" "order_hint_bits_minus_1 (seq_params s) = int k"
  obtains ys where "qsort compare_ref_frame_info (map (ref_frame_info s) [0..<REF_FRAMES]) = Some ys"
    "length ys = REF_FRAMES" "\<And>j. j < REF_FRAMES \<Longrightarrow> \<exists>i<REF_FRAMES. ys ! i = ref_frame_info s j"
    "\<And>i. i < REF_FRAMES \<Longrightarrow> \<exists>j<REF_FRAMES. ys ! i = ref_frame_info s j"
    "sorted_wrt (\<lambda>a b. sort_idx a \<le> sort_idx b) ys" "\<forall>r\<in>set ys. sort_idx r \<ge> - 1" "distinct ys"
proof -
  let ?xs = "map (ref_frame_info s) [0..<REF_FRAMES]"
  have "length ?xs < 2 ^ STKSIZ"
    by (simp add: REF_FRAMES_def STKSIZ_def)
  then obtain ys where ys: "qsort compare_ref_frame_info ?xs = Some ys" "mset ys = mset ?xs"
      "sorted_wrt (\<lambda>a b. compare_ref_frame_info a b \<le> 0) ys"
    using ref_info.qsort_spec by blast
  have set: "set ys = ref_frame_info s ` {..<REF_FRAMES}"
    using mset_eq_setD [OF ys(2)] by auto
  have len: "length ys = REF_FRAMES"
    using mset_eq_length [OF ys(2)] by simp
  have "distinct ?xs"
    by (auto simp: distinct_map inj_on_def ref_frame_info_def)
  then have "distinct ys"
    using mset_eq_imp_distinct_iff [OF ys(2)] by simp
  moreover have "sorted_wrt (\<lambda>a b. sort_idx a \<le> sort_idx b) ys"
    using ys(3) by (rule sorted_wrt_mono_rel [rotated]) (auto simp: compare_ref_frame_info_def Let_def split: if_splits)
  moreover have "sort_idx (ref_frame_info s j) \<ge> - 1" for j
  proof -
    have "0 \<le> cur_frame_sort_idx s + get_relative_dist (seq_params s) a b" for a b
      using get_relative_dist_bounds(1) [OF assms, of a b] assms(2) by (simp add: cur_frame_sort_idx_def)
    then have "- 1 \<le> cur_frame_sort_idx s + get_relative_dist (seq_params s) a b" for a b
      by (rule order_trans [rotated]) simp
    then show ?thesis
      by (simp add: ref_frame_info_def Let_def split: option.split)
  qed
  then have "\<forall>r\<in>set ys. sort_idx r \<ge> - 1"
    by (auto simp: set)
  moreover have "\<exists>i<REF_FRAMES. ys ! i = ref_frame_info s j" if "j < REF_FRAMES" for j
  proof -
    have "ref_frame_info s j \<in> set ys"
      using that by (simp add: set)
    then show ?thesis
      using len by (auto simp: in_set_conv_nth)
  qed
  moreover have "\<exists>j<REF_FRAMES. ys ! i = ref_frame_info s j" if "i < REF_FRAMES" for i
  proof -
    have "ys ! i \<in> ref_frame_info s ` {..<REF_FRAMES}"
      using that len set nth_mem [of i ys] by simp
    then show ?thesis
      by auto
  qed
  ultimately show thesis
    using that [of ys] ys(1) len by blast
qed


lemma set_indexed_interval: "set (map (\<lambda>i. ys ! nat i) [int f..int b - 1]) = {ys ! i | i. f \<le> i \<and> i < b}"
proof (intro set_eqI iffI)
  fix x
  assume "x \<in> {ys ! i | i. f \<le> i \<and> i < b}"
  then obtain i where "x = ys ! nat (int i)" "int i \<in> {int f..int b - 1}"
    by auto
  then show "x \<in> set (map (\<lambda>i. ys ! nat i) [int f..int b - 1])"
    unfolding set_map set_upto by blast
next
  fix x
  assume "x \<in> set (map (\<lambda>i. ys ! nat i) [int f..int b - 1])"
  then obtain i where "x = ys ! nat i" "f \<le> nat i" "nat i < b"
    by force
  then show "x \<in> {ys ! i | i. f \<le> i \<and> i < b}"
    by blast
qed

text \<open>The steps on a sorted list with the forward references from \<open>f\<close> to \<open>b\<close> and the backward ones behind.\<close>

lemma named_choice:
  fixes infos :: "REF_FRAME_INFO list" and c :: ref_choice
  assumes "length ys = REF_FRAMES" "f \<le> b" "b \<le> REF_FRAMES" "length (fst c) = REF_FRAMES" "snd c = replicate INTER_REFS_PER_FRAME False"
    "f \<le> i" "i < b" "map_idx (ys ! i) = l" "f \<le> j" "j < b" "map_idx (ys ! j) = g"
  defines "c' \<equiv> fold (choose_named l g) (map (\<lambda>i. ys ! nat i) [int f..int b - 1]) (choose_backward ys (int b) c)"
  shows "chosen_ok ys f c'" "snd c' ! 0" "fst c' ! 0 = l" "snd c' ! 3" "fst c' ! 3 = g"
    "b \<le> 7 \<Longrightarrow> snd c' ! 6 \<and> fst c' ! 6 = map_idx (ys ! 7)" "b \<le> 6 \<Longrightarrow> snd c' ! 4 \<and> fst c' ! 4 = map_idx (ys ! b)"
proof -
  let ?xs = "map (\<lambda>i. ys ! nat i) [int f..int b - 1]"
  let ?c = "choose_backward ys (int b) c"
  note c1 = choose_backward_spec [OF assms(1,3,4,5)]
  have l1: "length (fst ?c) = REF_FRAMES" "length (snd ?c) = INTER_REFS_PER_FRAME"
    using c1(1) by (simp_all add: chosen_ok_def)
  have named: "l \<in> map_idx ` set ?xs" "g \<in> map_idx ` set ?xs"
    unfolding set_indexed_interval using assms(6-11) by blast+
  note c2 = choose_named_fold [OF l1, of l g ?xs, folded c'_def, unfolded Let_def]
  have len: "length (fst c') = REF_FRAMES" "length (snd c') = INTER_REFS_PER_FRAME"
    using c2 by simp_all
  have rest: "fst c' ! i = fst ?c ! i \<and> snd c' ! i = snd ?c ! i" if "i \<noteq> 0" "i \<noteq> 3" for i
    using c2 that by simp
  show n: "snd c' ! 0" "fst c' ! 0 = l" "snd c' ! 3" "fst c' ! 3 = g"
    using c2 named by simp_all
  show "b \<le> 7 \<Longrightarrow> snd c' ! 6 \<and> fst c' ! 6 = map_idx (ys ! 7)" "b \<le> 6 \<Longrightarrow> snd c' ! 4 \<and> fst c' ! 4 = map_idx (ys ! b)"
    using rest c1(2,3) by simp_all
  have "\<exists>k\<ge>f. k < length ys \<and> fst c' ! m = map_idx (ys ! k)" if m: "m < INTER_REFS_PER_FRAME" "snd c' ! m" for m
  proof -
    consider "m = 0" | "m = 3" | "m \<noteq> 0" "m \<noteq> 3"
      by blast
    then show ?thesis
    proof cases
      case 3
      then obtain k where "b \<le> k" "k < length ys" "fst c' ! m = map_idx (ys ! k)"
        using m rest c1(1) unfolding chosen_ok_def by metis
      then show ?thesis
        using assms(2) by (meson order_trans)
    qed (use n assms in auto)
  qed
  then show "chosen_ok ys f c'"
    using len by (simp add: chosen_ok_def)
qed

lemma filled_choice:
  assumes "chosen_ok ys f c" "snd c ! 0" "snd c ! 3" "f < length ys" "b \<le> length ys"
    "fill_forward ys l g (int f) ref_frame_list (int b - 1) c = (rest, c')"
  shows "\<exists>c''. fill_earliest ys (int f) rest c' = Some c'' \<and> extends c c'' \<and>
    (\<forall>i<INTER_REFS_PER_FRAME. \<exists>k\<ge>f. k < length ys \<and> fst c'' ! i = map_idx (ys ! k))"
proof -
  have rl: "\<forall>r\<in>set ref_frame_list. LAST_FRAME \<le> r \<and> r \<le> ALTREF_FRAME"
    by (simp add: ref_frame_list_def LAST_FRAME_def LAST2_FRAME_def LAST3_FRAME_def BWDREF_FRAME_def ALTREF2_FRAME_def ALTREF_FRAME_def)
  have b: "int b - 1 < int (length ys)"
    using assms(5) by simp
  note ff = fill_forward_spec [OF assms(1) b rl assms(6)]
  obtain c'' where c'': "fill_earliest ys (int f) rest c' = Some c''" "chosen_ok ys f c''" "extends c' c''"
      "\<forall>r\<in>set rest. snd c'' ! (r - LAST_FRAME)"
    using fill_earliest_spec [OF ff(1) assms(4), of rest] ff(3) rl by blast
  have e: "extends c c''"
    using extends_trans [OF ff(2) c''(3)] .
  have r: "snd c'' ! (r - LAST_FRAME)" if "r \<in> set ref_frame_list" for r
  proof (cases "r \<in> set rest")
    case False
    then have "snd c' ! (r - LAST_FRAME)"
      using ff(4) that by blast
    moreover have "r - LAST_FRAME < INTER_REFS_PER_FRAME"
      using rl that by (auto simp: LAST_FRAME_def ALTREF_FRAME_def INTER_REFS_PER_FRAME_def)
    ultimately show ?thesis
      using c''(3) unfolding extends_def by blast
  qed (use c''(4) in blast)
  have "snd c'' ! i" if "i < INTER_REFS_PER_FRAME" for i
  proof -
    have "i = 0 \<or> i = 3 \<or> (\<exists>r\<in>set ref_frame_list. i = r - LAST_FRAME)"
      using that by (auto simp: ref_frame_list_def LAST_FRAME_def LAST2_FRAME_def LAST3_FRAME_def BWDREF_FRAME_def
          ALTREF2_FRAME_def ALTREF_FRAME_def INTER_REFS_PER_FRAME_def)
    moreover have "snd c'' ! 0" "snd c'' ! 3"
      using e assms(2,3) unfolding extends_def by (simp_all add: INTER_REFS_PER_FRAME_def)
    ultimately show ?thesis
      using r by blast
  qed
  then show ?thesis
    using c''(1,2) e unfolding chosen_ok_def by blast
qed

text \<open>The places of the forward and of the backward references in the sorted list.\<close>

lemma sorted_places:
  assumes "sorted_wrt (\<lambda>a b. sort_idx a \<le> sort_idx b) ys" "length ys = REF_FRAMES" "0 < cur"
  shows "below 0 ys \<le> below cur ys" "below cur ys \<le> REF_FRAMES"
    "i < REF_FRAMES \<Longrightarrow> sort_idx (ys ! i) < 0 \<longleftrightarrow> i < below 0 ys" "i < REF_FRAMES \<Longrightarrow> sort_idx (ys ! i) < cur \<longleftrightarrow> i < below cur ys"
proof -
  show pos: "i < REF_FRAMES \<Longrightarrow> sort_idx (ys ! i) < 0 \<longleftrightarrow> i < below 0 ys" "i < REF_FRAMES \<Longrightarrow> sort_idx (ys ! i) < cur \<longleftrightarrow> i < below cur ys" for i
    using below_nth [OF assms(1)] assms(2) by simp_all
  show "below cur ys \<le> REF_FRAMES"
    using below_le [of cur ys] assms(2) by simp
  show "below 0 ys \<le> below cur ys"
  proof (rule ccontr)
    assume n: "\<not> below 0 ys \<le> below cur ys"
    moreover have "below cur ys < REF_FRAMES"
      using n below_le [of 0 ys] assms(2) by simp
    ultimately show False
      using pos [of "below cur ys"] assms(3) by simp
  qed
qed

lemma error_if_sort_pos: "forward_ref s j \<Longrightarrow>
    error_if (sort_pos s j = - 1 \<or> sort_pos s j \<ge> cur_frame_sort_idx s) e t = t"
  by (simp add: error_if_def forward_ref_def)

lemma set_frame_refs_places:
  assumes "enable_order_hint (seq_params s)" "order_hint_bits_minus_1 (seq_params s) = int k" "length (remapped_ref_idx s) = REF_FRAMES"
    "lst < REF_FRAMES" "gld < REF_FRAMES" "forward_ref s lst" "forward_ref s gld"
  obtains r ys f b where "av1_set_frame_refs lst gld s = Some (s\<lparr>remapped_ref_idx := r\<rparr>)" "r ! 0 = int lst" "r ! 3 = int gld"
    "\<And>i. i < INTER_REFS_PER_FRAME \<Longrightarrow> \<exists>k\<ge>f. k < REF_FRAMES \<and> r ! i = map_idx (ys ! k)"
    "b \<le> 7 \<Longrightarrow> r ! 6 = map_idx (ys ! 7)" "b \<le> 6 \<Longrightarrow> r ! 4 = map_idx (ys ! b)"
    "\<And>j. j < REF_FRAMES \<Longrightarrow> \<exists>i<REF_FRAMES. ys ! i = ref_frame_info s j"
    "\<And>i. i < REF_FRAMES \<Longrightarrow> \<exists>j<REF_FRAMES. ys ! i = ref_frame_info s j"
    "sorted_wrt (\<lambda>a b. sort_idx a \<le> sort_idx b) ys" "length ys = REF_FRAMES"
    "\<And>i. i < REF_FRAMES \<Longrightarrow> sort_idx (ys ! i) < 0 \<longleftrightarrow> i < f"
    "\<And>i. i < REF_FRAMES \<Longrightarrow> sort_idx (ys ! i) < cur_frame_sort_idx s \<longleftrightarrow> i < b"
proof -
  let ?cur = "cur_frame_sort_idx s"
  obtain ys where ys: "qsort compare_ref_frame_info (map (ref_frame_info s) [0..<REF_FRAMES]) = Some ys"
    "length ys = REF_FRAMES" "\<And>j. j < REF_FRAMES \<Longrightarrow> \<exists>i<REF_FRAMES. ys ! i = ref_frame_info s j"
    "\<And>i. i < REF_FRAMES \<Longrightarrow> \<exists>j<REF_FRAMES. ys ! i = ref_frame_info s j"
    "sorted_wrt (\<lambda>a b. sort_idx a \<le> sort_idx b) ys" "\<forall>r\<in>set ys. sort_idx r \<ge> - 1"
    using sorted_infos [OF assms(1,2)] by metis
  have cur: "?cur > 0"
    using assms(2) by (simp add: cur_frame_sort_idx_def)
  define f where "f = below 0 ys"
  define b where "b = below ?cur ys"
  have split: "split_refs ?cur ys 0 0 = (int f, int b - 1)"
    using split_refs_eq [OF ys(5,6), of ?cur 0 0] cur ys(2) by (simp add: f_def b_def)
  note pl = sorted_places [OF ys(5,2) cur, folded f_def b_def]
  have place: "\<exists>i. f \<le> i \<and> i < b \<and> map_idx (ys ! i) = int j" if j: "j < REF_FRAMES" "forward_ref s j" for j
  proof -
    obtain i where i: "i < REF_FRAMES" "ys ! i = ref_frame_info s j"
      using ys(3) [OF j(1)] by blast
    then have "f \<le> i" "i < b"
      using pl(3,4) [OF i(1)] j(2) i(2) by (simp_all add: forward_ref_def sort_pos_def)
    then show ?thesis
      using i(2) by (auto simp: ref_frame_info_def)
  qed
  obtain i j where ij: "f \<le> i" "i < b" "map_idx (ys ! i) = int lst" "f \<le> j" "j < b" "map_idx (ys ! j) = int gld"
    using place assms(4-7) by blast
  let ?base = "(remapped_ref_idx s, replicate INTER_REFS_PER_FRAME False)"
  let ?c = "fold (choose_named (int lst) (int gld)) (map (\<lambda>i. ys ! nat i) [int f..int b - 1]) (choose_backward ys (int b) ?base)"
  have c0: "length (fst ?base) = REF_FRAMES" "snd ?base = replicate INTER_REFS_PER_FRAME False"
    using assms(3) by simp_all
  note n = named_choice [OF ys(2) pl(1,2) c0 ij]
  obtain rest c3 where c3: "fill_forward ys (int lst) (int gld) (int f) ref_frame_list (int b - 1) ?c = (rest, c3)"
    using surj_pair by metis
  have fl: "f < length ys" "b \<le> length ys"
    using ij pl(2) ys(2) by simp_all
  obtain c4 where c4: "fill_earliest ys (int f) rest c3 = Some c4" "extends ?c c4"
      "\<forall>i<INTER_REFS_PER_FRAME. \<exists>k\<ge>f. k < length ys \<and> fst c4 ! i = map_idx (ys ! k)"
    using filled_choice [OF n(1,2,4) fl c3] by blast
  have "av1_set_frame_refs lst gld s = Some (s\<lparr>remapped_ref_idx := fst c4\<rparr>)"
  proof -
    have "(if i < REF_FRAMES then sort_idx (map (ref_frame_info s) [0..<REF_FRAMES] ! i) else - 1) = sort_pos s i" if "i < REF_FRAMES" for i
      using that by (simp add: sort_pos_def)
    then show ?thesis
      using c3 c4(1) split assms(4,5) error_if_sort_pos [OF assms(6)] error_if_sort_pos [OF assms(7)]
      unfolding av1_set_frame_refs_def Let_def by (simp add: ys(1))
  qed
  moreover have "fst c4 ! i = fst ?c ! i" if "snd ?c ! i" "i < INTER_REFS_PER_FRAME" for i
    using c4(2) that by (simp add: extends_def)
  ultimately show thesis
    using that [of "fst c4" f ys b] c4(3) n ys(2-5) pl(3,4) by (simp add: INTER_REFS_PER_FRAME_def)
qed

text \<open>The sorted places: what an entry says, where a backward reference is, and the order.\<close>

lemma info_entry:
  assumes "\<exists>j<REF_FRAMES. ys ! i = ref_frame_info s j"
  shows "\<exists>j<REF_FRAMES. map_idx (ys ! i) = int j \<and> sort_idx (ys ! i) = sort_pos s j"
  using assms by (auto simp: ref_frame_info_def sort_pos_def)

lemma info_later:
  assumes "\<And>j. j < REF_FRAMES \<Longrightarrow> \<exists>i<REF_FRAMES. ys ! i = ref_frame_info s j"
    and "\<And>i. i < REF_FRAMES \<Longrightarrow> sort_idx (ys ! i) < cur_frame_sort_idx s \<longleftrightarrow> i < b"
    and "j < REF_FRAMES" "backward_ref s j"
  shows "\<exists>i\<ge>b. i < REF_FRAMES \<and> ys ! i = ref_frame_info s j"
proof -
  obtain i where i: "i < REF_FRAMES" "ys ! i = ref_frame_info s j"
    using assms(1,3) by blast
  then have "b \<le> i"
    using assms(2) [OF i(1)] assms(4) by (simp add: backward_ref_def sort_pos_def)
  then show ?thesis
    using i by blast
qed

lemma info_le:
  assumes "sorted_wrt (\<lambda>a b. sort_idx a \<le> sort_idx b) ys" "length ys = REF_FRAMES" "i \<le> k" "k < REF_FRAMES"
  shows "sort_idx (ys ! i) \<le> sort_idx (ys ! k)"
  using sorted_wrt_nth_less [OF assms(1), of i k] assms(2-4) by (cases "i = k") simp_all

text \<open>C26. From two forward references the choice of the references of an inter frame is complete: all seven labels get an entry of
  the map that holds a frame, the last and the golden label get the named ones, the alternate label gets a farthest backward reference
  when there is one, and the backward label a nearest one when there are two.\<close>

theorem av1_set_frame_refs_complete:
  assumes "enable_order_hint (seq_params s)" "order_hint_bits_minus_1 (seq_params s) = int k" "length (remapped_ref_idx s) = REF_FRAMES"
    "lst < REF_FRAMES" "gld < REF_FRAMES" "forward_ref s lst" "forward_ref s gld"
  shows "\<exists>r. av1_set_frame_refs lst gld s = Some (s\<lparr>remapped_ref_idx := r\<rparr>) \<and> r ! 0 = int lst \<and> r ! 3 = int gld \<and>
    (\<forall>i<INTER_REFS_PER_FRAME. \<exists>j<REF_FRAMES. r ! i = int j \<and> ref_frame_map s ! j \<noteq> None) \<and>
    (\<forall>j<REF_FRAMES. backward_ref s j \<longrightarrow> (\<exists>m<REF_FRAMES. r ! 6 = int m \<and> sort_pos s j \<le> sort_pos s m)) \<and>
    (\<forall>j<REF_FRAMES. \<forall>j'<REF_FRAMES. j \<noteq> j' \<and> backward_ref s j \<and> backward_ref s j' \<longrightarrow>
      (\<exists>m<REF_FRAMES. r ! 4 = int m \<and> backward_ref s m \<and> sort_pos s m \<le> sort_pos s j))"
proof -
  obtain r ys f b where r: "av1_set_frame_refs lst gld s = Some (s\<lparr>remapped_ref_idx := r\<rparr>)" "r ! 0 = int lst" "r ! 3 = int gld"
    "\<And>i. i < INTER_REFS_PER_FRAME \<Longrightarrow> \<exists>k\<ge>f. k < REF_FRAMES \<and> r ! i = map_idx (ys ! k)"
    "b \<le> 7 \<Longrightarrow> r ! 6 = map_idx (ys ! 7)" "b \<le> 6 \<Longrightarrow> r ! 4 = map_idx (ys ! b)"
    "\<And>j. j < REF_FRAMES \<Longrightarrow> \<exists>i<REF_FRAMES. ys ! i = ref_frame_info s j"
    "\<And>i. i < REF_FRAMES \<Longrightarrow> \<exists>j<REF_FRAMES. ys ! i = ref_frame_info s j"
    "sorted_wrt (\<lambda>a b. sort_idx a \<le> sort_idx b) ys" "length ys = REF_FRAMES"
    "\<And>i. i < REF_FRAMES \<Longrightarrow> sort_idx (ys ! i) < 0 \<longleftrightarrow> i < f"
    "\<And>i. i < REF_FRAMES \<Longrightarrow> sort_idx (ys ! i) < cur_frame_sort_idx s \<longleftrightarrow> i < b"
    by (rule set_frame_refs_places [OF assms]) blast
  note entry = info_entry [OF r(8)] and le = info_le [OF r(9,10)]
  have later: "\<exists>i\<ge>b. i < REF_FRAMES \<and> ys ! i = ref_frame_info s j" if "j < REF_FRAMES" "backward_ref s j" for j
    by (rule info_later [OF _ _ that]) (use r(7,12) in blast)+
  have "\<exists>j<REF_FRAMES. r ! i = int j \<and> ref_frame_map s ! j \<noteq> None" if i: "i < INTER_REFS_PER_FRAME" for i
  proof -
    obtain k where k: "f \<le> k" "k < REF_FRAMES" "r ! i = map_idx (ys ! k)"
      using r(4) [OF i] by blast
    obtain j where j: "j < REF_FRAMES" "map_idx (ys ! k) = int j" "sort_idx (ys ! k) = sort_pos s j"
      using entry [OF k(2)] by blast
    have "0 \<le> sort_pos s j"
      using r(11) [OF k(2)] k(1) j(3) by simp
    then have "ref_frame_map s ! j \<noteq> None"
      by (cases "ref_frame_map s ! j") (simp_all add: sort_pos_def ref_frame_info_def)
    then show ?thesis
      using j k(3) by auto
  qed
  moreover have "\<exists>m<REF_FRAMES. r ! 6 = int m \<and> sort_pos s j \<le> sort_pos s m" if j: "j < REF_FRAMES" "backward_ref s j" for j
  proof -
    obtain i where i: "b \<le> i" "i < REF_FRAMES" "ys ! i = ref_frame_info s j"
      using later [OF j] by blast
    then have "sort_pos s j \<le> sort_idx (ys ! 7)" "b \<le> 7"
      using le [of i 7] by (simp_all add: sort_pos_def REF_FRAMES_def)
    moreover have "(7::nat) < REF_FRAMES"
      by (simp add: REF_FRAMES_def)
    ultimately show ?thesis
      using entry [of 7] r(5) by auto
  qed
  moreover have "\<exists>m<REF_FRAMES. r ! 4 = int m \<and> backward_ref s m \<and> sort_pos s m \<le> sort_pos s j"
    if j: "j < REF_FRAMES" "j' < REF_FRAMES" "j \<noteq> j'" "backward_ref s j" "backward_ref s j'" for j j'
  proof -
    obtain i i' where i: "b \<le> i" "i < REF_FRAMES" "ys ! i = ref_frame_info s j" "b \<le> i'" "i' < REF_FRAMES" "ys ! i' = ref_frame_info s j'"
      using later [OF j(1,4)] later [OF j(2,5)] by blast
    have "i \<noteq> i'"
      using i(3,6) j(3) by (auto simp: ref_frame_info_def)
    then have b: "b \<le> 6" "b < REF_FRAMES"
      using i by (auto simp: REF_FRAMES_def)
    obtain m where m: "m < REF_FRAMES" "map_idx (ys ! b) = int m" "sort_idx (ys ! b) = sort_pos s m"
      using entry [OF b(2)] by blast
    have "backward_ref s m"
      using r(12) [OF b(2)] m(3) by (simp add: backward_ref_def)
    moreover have "sort_pos s m \<le> sort_pos s j"
      using le [OF i(1,2)] m(3) i(3) by (simp add: sort_pos_def)
    ultimately show ?thesis
      using m r(6) [OF b(1)] by auto
  qed
  ultimately show ?thesis
    using r(1-3) by blast
qed


text \<open>A map with four forward and three backward references of a frame with hint 40, and an unused entry.\<close>

definition sample_refs :: "RefCntBuffer \<Rightarrow> AV1" where
  "sample_refs bf = (let s = av1_decoder_create (\<lambda>i. bf\<lparr>rb_order_hint := [32, 48, 36, 44, 16, 42, 24] ! i\<rparr>)
     in s\<lparr>seq_params := (seq_params s)\<lparr>enable_order_hint := True, order_hint_bits_minus_1 := 6\<rparr>,
          current_frame := (current_frame s)\<lparr>cf_order_hint := 40\<rparr>,
          ref_frame_map := [Some 0, Some 1, Some 2, Some 3, Some 4, None, Some 5, Some 6]\<rparr>)"

lemma av1_set_frame_refs_complete_witness:
  "\<forall>bf. \<exists>r. av1_set_frame_refs 2 4 (sample_refs bf) = Some ((sample_refs bf)\<lparr>remapped_ref_idx := r\<rparr>) \<and> r ! 0 = 2 \<and> r ! 3 = 4 \<and>
     (\<exists>m<REF_FRAMES. r ! 6 = int m \<and> sort_pos (sample_refs bf) 1 \<le> sort_pos (sample_refs bf) m)"
proof
  fix bf
  have d: "get_relative_dist (seq_params (sample_refs bf)) 36 40 = - 4" "get_relative_dist (seq_params (sample_refs bf)) 16 40 = - 24"
      "get_relative_dist (seq_params (sample_refs bf)) 48 40 = 8"
    by (simp_all add: sample_refs_def get_relative_dist_def Let_def)
  have p: "sort_pos (sample_refs bf) 2 = 60" "sort_pos (sample_refs bf) 4 = 40" "sort_pos (sample_refs bf) 1 = 72"
      "cur_frame_sort_idx (sample_refs bf) = 64"
    using d by (simp_all add: sort_pos_def ref_frame_info_def cur_frame_sort_idx_def sample_refs_def av1_decoder_create_def s32_def Let_def)
  have f: "forward_ref (sample_refs bf) 2" "forward_ref (sample_refs bf) 4" "backward_ref (sample_refs bf) 1"
    unfolding forward_ref_def backward_ref_def p by simp_all
  have e: "enable_order_hint (seq_params (sample_refs bf))" "order_hint_bits_minus_1 (seq_params (sample_refs bf)) = int 6"
      "length (remapped_ref_idx (sample_refs bf)) = REF_FRAMES" "2 < REF_FRAMES" "4 < REF_FRAMES" "1 < REF_FRAMES"
    by (simp_all add: sample_refs_def av1_decoder_create_def REF_FRAMES_def Let_def)
  show "\<exists>r. av1_set_frame_refs 2 4 (sample_refs bf) = Some ((sample_refs bf)\<lparr>remapped_ref_idx := r\<rparr>) \<and> r ! 0 = 2 \<and> r ! 3 = 4 \<and>
     (\<exists>m<REF_FRAMES. r ! 6 = int m \<and> sort_pos (sample_refs bf) 1 \<le> sort_pos (sample_refs bf) m)"
    using av1_set_frame_refs_complete [OF e(1-5) f(1,2)] e(6) f(3) by auto
qed

end
