(* ===== verification/H265_Dpb.thy ===== *)
theory H265_Dpb
  imports Prelude
begin

text \<open>
  The picture list of the H.265 decoder
  (\<open>drivers/frame_provider/decoder/h265/vh265.c\<close>): the pictures, their frame buffers
  and motion vector buffers, the choice of a buffer for a new picture, the order of output and
  the flush.

  A picture pointer is an index into \<open>m_PIC\<close> and the null pointer is
  \<open>None\<close>. What lies outside the driver is the record \<open>h265_env\<close>: the memory
  boxes, \<open>vmalloc\<close> and the chip generation. \<open>None\<close> as the result of an
  operation is a fault, or a loop that never ends. The configuration is the one the file
  defines (long-term reference sets, picture structures, multi-instance, 10 bit, lossless
  compression and MMU double write, motion vector buffers not fixed, Dolby Vision) with the
  debug flags 0. Canvases, scatter memory maps, time stamps, statistics, user data and fences
  are left out.
\<close>

type_synonym u16 = "16 word"

section \<open>Constants\<close>

definition BUF_POOL_SIZE :: nat where "BUF_POOL_SIZE = 32"
definition MAX_BUF_NUM :: int where "MAX_BUF_NUM = 24"
definition MAX_REF_PIC_NUM :: nat where "MAX_REF_PIC_NUM = 24"
definition MAX_REF_ACTIVE :: int where "MAX_REF_ACTIVE = 16"
definition VF_POOL_SIZE :: nat where "VF_POOL_SIZE = 32"
definition MAX_SIZE_4K :: int where "MAX_SIZE_4K = 4096 * 2304"
definition MAX_SLICE_NUM :: nat where "MAX_SLICE_NUM = 800"

text \<open>\<open>0x80000000\<close> as an int; the comparisons of the code give the same answers.\<close>

definition INVALID_POC :: int where "INVALID_POC = - (2 ^ 31)"

definition H265_MAX_INT :: int where "H265_MAX_INT = 0x7FFFFFFF"

definition MV_BUFFER_IDX :: "nat \<Rightarrow> nat" where
  "MV_BUFFER_IDX n = BUF_POOL_SIZE + 1 + n"

definition IS_8K_SIZE :: "int \<Rightarrow> int \<Rightarrow> bool" where
  "IS_8K_SIZE w h = (w * h > MAX_SIZE_4K)"

definition IS_4K_SIZE :: "int \<Rightarrow> int \<Rightarrow> bool" where
  "IS_4K_SIZE w h = (w * h > 1920 * 1088)"

section \<open>State\<close>

record PIC_s =
  p_index :: int
  p_BUF_index :: int
  p_mv_buf_index :: int
  p_POC :: int
  p_decode_idx :: int
  p_slice_type :: int
  p_RefNum_L0 :: int
  p_RefNum_L1 :: int
  p_num_reorder_pic :: int
  p_referenced :: bool
  p_output_mark :: bool
  p_recon_mark :: bool
  p_output_ready :: bool
  p_error_mark :: bool
  p_dis_mark :: bool
  p_slice_idx :: nat
  p_m_aiRefPOCList0 :: "int list list"
  p_m_aiRefPOCList1 :: "int list list"
  p_long_term_ref :: bool
  p_header_adr :: int
  p_mpred_mv_wr_start_addr :: int
  p_mv_size :: int
  p_mc_y_adr :: int
  p_mc_u_v_adr :: int
  p_dw_y_adr :: int
  p_dw_u_v_adr :: int
  p_mc_canvas_y :: int
  p_mc_canvas_u_v :: int
  p_width :: int
  p_height :: int
  p_header_dw_adr :: int
  p_pic_struct :: int
  p_vf_ref :: int
  p_double_write_mode :: u32
  p_ip_mode :: bool
  p_show_frame :: bool

text \<open>A picture after \<open>memset\<close>: every field is 0, the buffer indices included.\<close>

definition zero_PIC :: PIC_s where
  "zero_PIC = \<lparr>p_index = 0, p_BUF_index = 0, p_mv_buf_index = 0, p_POC = 0, p_decode_idx = 0,
     p_slice_type = 0, p_RefNum_L0 = 0, p_RefNum_L1 = 0, p_num_reorder_pic = 0, p_referenced = False,
     p_output_mark = False, p_recon_mark = False, p_output_ready = False, p_error_mark = False,
     p_dis_mark = False, p_slice_idx = 0,
     p_m_aiRefPOCList0 = replicate MAX_SLICE_NUM (replicate 16 0),
     p_m_aiRefPOCList1 = replicate MAX_SLICE_NUM (replicate 16 0), p_long_term_ref = False,
     p_header_adr = 0, p_mpred_mv_wr_start_addr = 0, p_mv_size = 0, p_mc_y_adr = 0,
     p_mc_u_v_adr = 0, p_dw_y_adr = 0, p_dw_u_v_adr = 0, p_mc_canvas_y = 0, p_mc_canvas_u_v = 0,
     p_width = 0, p_height = 0, p_header_dw_adr = 0, p_pic_struct = 0, p_vf_ref = 0,
     p_double_write_mode = 0, p_ip_mode = False, p_show_frame = False\<rparr>"

record BUF_s =
  b_start_adr :: int
  b_size :: int
  b_used_flag :: bool

text \<open>A frame of the display queues: its place in \<open>vfpool\<close>, and the two low bytes of
  its \<open>index\<close>, the pictures of the top and of the bottom field (255 for none).\<close>

record vframe =
  vf_slot :: nat
  vf_top :: nat
  vf_bot :: nat

text \<open>The parameters the firmware parsed from a slice segment header (\<open>union param_u\<close>),
  as far as the picture list uses them.\<close>

record h265_params =
  rp_CUR_RPS :: "u16 list"
  rp_num_ref_idx_l0_active :: int
  rp_num_ref_idx_l1_active :: int
  rp_slice_type :: int
  rp_slice_temporal_mvp_enable_flag :: int
  rp_dependent_slice_segment_flag :: int
  rp_slice_segment_address :: int
  rp_pic_width_in_luma_samples :: int
  rp_pic_height_in_luma_samples :: int
  rp_log2_min_coding_block_size_minus3 :: nat
  rp_log2_diff_max_min_coding_block_size :: nat
  rp_log2_max_pic_order_cnt_lsb_minus4 :: nat
  rp_POClsb :: int
  rp_collocated_from_l0_flag :: int
  rp_collocated_ref_idx :: int
  rp_log2_parallel_merge_level :: int
  rp_five_minus_max_num_merge_cand :: int
  rp_sps_num_reorder_pics_0 :: int
  rp_modification_flag :: int
  rp_tiles_enabled_flag :: int
  rp_num_tile_columns_minus1 :: int
  rp_num_tile_rows_minus1 :: int
  rp_tile_width :: "int list"
  rp_tile_height :: "int list"
  rp_misc_flag0 :: int
  rp_first_slice_segment_in_pic_flag :: int
  rp_m_temporalId :: int
  rp_m_nalUnitType :: int
  rp_bit_depth :: int
  rp_profile_etc :: u16
  rp_sei_frame_field_info :: u16
  rp_modification_list :: "nat list"
  rp_sps_max_dec_pic_buffering_minus1_0 :: int

record tile_s =
  t_width :: int
  t_height :: int
  t_start_cu_x :: int
  t_start_cu_y :: int

record hevc_state =
  hv_m_PIC :: "PIC_s option list"
  hv_m_BUF :: "BUF_s list"
  hv_m_mv_BUF :: "BUF_s list"
  hv_mv_buf_size :: int
  hv_param :: h265_params
  hv_cur_pic :: "nat option"
  hv_col_pic :: "nat option"
  hv_decoding_pic :: "nat option"
  hv_pre_top_pic :: "nat option"
  hv_pre_bot_pic :: "nat option"
  hv_newframe_q :: "vframe list"
  hv_display_q :: "vframe list"
  hv_pending_q :: "vframe list"
  hv_vf_pre_count :: nat
  hv_first_pic_flag :: int
  hv_pic_list_init_flag :: int
  hv_pic_w :: int
  hv_pic_h :: int
  hv_lcu_size :: int
  hv_lcu_size_log2 :: int
  hv_lcu_x_num :: int
  hv_lcu_y_num :: int
  hv_lcu_total :: int
  hv_lcu_x_num_pre :: int
  hv_lcu_y_num_pre :: int
  hv_first_pic_after_recover :: bool
  hv_num_tile_col :: int
  hv_num_tile_row :: int
  hv_tile_enabled :: bool
  hv_tile_x :: int
  hv_tile_y :: int
  hv_tile_y_x :: int
  hv_tile_start_lcu_x :: int
  hv_tile_start_lcu_y :: int
  hv_tile_width_lcu :: int
  hv_tile_height_lcu :: int
  hv_m_tile :: "tile_s list list"
  hv_slice_type :: int
  hv_slice_addr :: int
  hv_slice_segment_addr :: int
  hv_interlace_flag :: bool
  hv_curr_pic_struct :: int
  hv_frame_field_info_present_flag :: bool
  hv_sps_num_reorder_pics_0 :: int
  hv_misc_flag0 :: int
  hv_m_temporalId :: int
  hv_m_nalUnitType :: int
  hv_TMVPFlag :: int
  hv_isNextSliceSegment :: bool
  hv_LDCFlag :: bool
  hv_m_pocRandomAccess :: int
  hv_plevel :: int
  hv_MaxNumMergeCand :: int
  hv_new_pic :: bool
  hv_new_tile :: bool
  hv_curr_POC :: int
  hv_iPrevPOC :: int
  hv_decoded_poc :: int
  hv_iPrevTid0POC :: int
  hv_list_no :: int
  hv_RefNum_L0 :: int
  hv_RefNum_L1 :: int
  hv_ColFromL0Flag :: int
  hv_Col_POC :: int
  hv_m_pocRandomAccess_bak :: int
  hv_curr_POC_bak :: int
  hv_iPrevPOC_bak :: int
  hv_iPrevTid0POC_bak :: int
  hv_decode_idx_bak :: int
  hv_decode_idx :: int
  hv_wait_buf :: int
  hv_ignore_bufmgr_error :: u8
  hv_PB_skip_mode :: int
  hv_PB_skip_count_after_decoding :: int
  hv_fatal_no_mem :: bool
  hv_fatal_size_overflow :: bool
  hv_i_only :: u8
  hv_ip_mode :: bool
  hv_res_change :: bool
  hv_mmu_enable :: bool
  hv_dw_mmu_enable :: bool
  hv_double_write_mode :: u32
  hv_bit_depth_luma :: int
  hv_bit_depth_chroma :: int
  hv_m_ins_flag :: bool
  hv_dual_layer :: bool
  hv_bypass_dvenl :: bool
  hv_head_error_flag :: bool
  hv_over_decode :: bool
  hv_nal_skip_policy :: u32
  hv_dynamic_buf_num_margin :: u32

text \<open>\<open>hv_dual_layer\<close> is \<open>vdec->master || vdec->slave\<close>, the two stay the same
  while a stream is decoded. What surrounds the driver: the answer of the frame memory box to a
  request for a numbered buffer (an address or a failure), of \<open>vmalloc\<close>, of the
  scatter memory boxes for a number of pages, the chip generation, and the module
  parameters.\<close>

record h265_env =
  bmmu_alloc :: "nat \<Rightarrow> int \<Rightarrow> int option"
  vmalloc_ok :: "nat \<Rightarrow> bool"
  mmu_alloc :: "int \<Rightarrow> int \<Rightarrow> int"
  mmu_dw_alloc :: "int \<Rightarrow> int \<Rightarrow> int"
  cpu_sm1_or_later :: bool
  cpu_t5d :: bool
  cpu_before_t3 :: bool
  par_double_write_mode :: u32
  par_mv_buf_dynamic_alloc :: bool
  par_dynamic_buf_num_margin :: u32
  par_fast_output_enable :: u32
  par_disable_ip_mode :: bool
  par_interlace_enable :: u32
  par_dolby_meta_with_el :: bool
  par_discard_frames :: bool
  par_error_handle_policy :: u32
  par_ref_frame_mark_flag :: bool
  par_stream_based :: bool
  par_detect_stuck_buffer_margin :: int

definition pic_at :: "hevc_state \<Rightarrow> nat \<Rightarrow> PIC_s option" where
  "pic_at s i = (if i < length (hv_m_PIC s) then hv_m_PIC s ! i else None)"

definition upd_PIC :: "nat \<Rightarrow> (PIC_s \<Rightarrow> PIC_s) \<Rightarrow> hevc_state \<Rightarrow> hevc_state" where
  "upd_PIC i f s = s\<lparr>hv_m_PIC := (hv_m_PIC s)[i := map_option f (hv_m_PIC s ! i)]\<rparr>"

text \<open>The two guards of the loops over \<open>m_PIC\<close>.\<close>

definition listed :: "PIC_s \<Rightarrow> bool" where
  "listed p = (p_index p \<noteq> -1)"

definition has_buf :: "PIC_s \<Rightarrow> bool" where
  "has_buf p = (p_index p \<noteq> -1 \<and> p_BUF_index p \<noteq> -1)"

definition pic_ids :: "nat list" where
  "pic_ids = [0..<MAX_REF_PIC_NUM]"

definition is_skip_decoding :: "hevc_state \<Rightarrow> PIC_s \<Rightarrow> bool" where
  "is_skip_decoding s p = (p_error_mark p \<and> \<not> bit (hv_ignore_bufmgr_error s) 0)"

definition get_pic_poc :: "hevc_state \<Rightarrow> nat \<Rightarrow> int" where
  "get_pic_poc s i = (if i \<noteq> 0xff \<and> i < MAX_REF_PIC_NUM then
     (case pic_at s i of Some p \<Rightarrow> p_POC p | None \<Rightarrow> INVALID_POC) else INVALID_POC)"

section \<open>Searching the list\<close>

text \<open>The loop of both searches: of the pictures that satisfy the guards, the one decoded last,
  the first of them on a tie.\<close>

fun newest :: "(PIC_s \<Rightarrow> bool) \<Rightarrow> hevc_state \<Rightarrow> nat list \<Rightarrow> (nat \<times> PIC_s) option \<Rightarrow> (nat \<times> PIC_s) option" where
  "newest P s [] r = r"
| "newest P s (i # is) r = (case pic_at s i of
     None \<Rightarrow> newest P s is r
   | Some p \<Rightarrow> if has_buf p \<and> P p then
       (case r of None \<Rightarrow> newest P s is (Some (i, p))
        | Some (j, q) \<Rightarrow> newest P s is (if p_decode_idx q < p_decode_idx p then Some (i, p) else r))
     else newest P s is r)"

definition get_pic_by_POC :: "hevc_state \<Rightarrow> int \<Rightarrow> nat option" where
  "get_pic_by_POC s poc = (if poc = INVALID_POC then None
     else map_option fst (newest (\<lambda>p. p_POC p = poc) s pic_ids None))"

definition get_ref_pic_by_POC :: "hevc_state \<Rightarrow> int \<Rightarrow> nat option" where
  "get_ref_pic_by_POC s poc = map_option fst (newest (\<lambda>p. p_POC p = poc \<and> p_referenced p \<and>
     hv_pic_w s = p_width p \<and> hv_pic_h s = p_height p) s pic_ids None)"

text \<open>\<open>log2i\<close> of an unsigned value; of 0 it is -1.\<close>

function log2i_loop :: "nat \<Rightarrow> int \<Rightarrow> int" where
  "log2i_loop v ret = (if v = 0 then ret else log2i_loop (v div 2) (ret + 1))"
  by pat_completeness auto
termination by (relation "measure fst") auto

definition log2i :: "nat \<Rightarrow> int" where
  "log2i v = log2i_loop v (-1)"

text \<open>Loops over the list that change pictures in place.\<close>

definition for_pics :: "(nat \<Rightarrow> PIC_s \<Rightarrow> hevc_state \<Rightarrow> hevc_state) \<Rightarrow> hevc_state \<Rightarrow> hevc_state" where
  "for_pics f s = fold (\<lambda>i t. case pic_at t i of None \<Rightarrow> t
     | Some p \<Rightarrow> if listed p then f i p t else t) pic_ids s"

section \<open>Sizes\<close>

definition get_valid_double_write_mode :: "h265_env \<Rightarrow> hevc_state \<Rightarrow> u32" where
  "get_valid_double_write_mode e s = (let
     dw = (if hv_m_ins_flag s \<and> \<not> bit (par_double_write_mode e) 31 then hv_double_write_mode s
           else par_double_write_mode e AND 0x7fffffff) in
     if bit dw 5 \<and> cpu_before_t3 e \<and> (dw AND 0xf = 2 \<or> dw AND 0xf = 3) then 0 else dw)"

definition get_double_write_mode :: "h265_env \<Rightarrow> hevc_state \<Rightarrow> u32" where
  "get_double_write_mode e s = (let valid_dw_mode = get_valid_double_write_mode e s;
     a = hv_pic_w s * hv_pic_h s in
     if valid_dw_mode = 0x100 then (if a > 1920 * 1088 then 4 else 1)
     else if valid_dw_mode = 0x200 then (if a > 1920 * 1088 then 2 else 1)
     else if valid_dw_mode = 0x300 then (if a > 1280 * 768 then 4 else 1)
     else if valid_dw_mode = 0x1000 then
       (if a > 1920 * 1088 then 3 else if a > 960 * 576 then 5 else 1)
     else if valid_dw_mode = 0x2000 then (if a > 4096 * 2304 then 4 else 0)
     else valid_dw_mode)"

definition get_double_write_ratio :: "u32 \<Rightarrow> int" where
  "get_double_write_ratio dw = (if dw = 2 \<or> dw = 3 then 4 else if dw = 4 \<or> dw = 5 then 2
     else if dw = 8 \<or> dw = 9 then 8 else 1)"

definition compute_losless_comp_body_size :: "hevc_state \<Rightarrow> int \<Rightarrow> int \<Rightarrow> bool \<Rightarrow> int" where
  "compute_losless_comp_body_size s width height mem_saving_mode = (let
     width_x64 = (width + 63) div 64; height_x32 = (height + 31) div 32 in
     if mem_saving_mode \<and> hv_mmu_enable s then 3200 * width_x64 * height_x32
     else if mem_saving_mode then 3072 * width_x64 * height_x32
     else 4096 * width_x64 * height_x32)"

definition compute_losless_comp_header_size :: "int \<Rightarrow> int \<Rightarrow> int" where
  "compute_losless_comp_header_size width height = 32 * ((width + 127) div 128) * ((height + 63) div 64)"

definition ALIGN64 :: "int \<Rightarrow> int" where
  "ALIGN64 x = (x + 63) div 64 * 64"

definition hevc_get_header_size :: "h265_env \<Rightarrow> int \<Rightarrow> int \<Rightarrow> int" where
  "hevc_get_header_size e w h = (if cpu_sm1_or_later e \<and> IS_8K_SIZE (ALIGN64 w) (ALIGN64 h) then 0x120000
     else if IS_4K_SIZE (ALIGN64 w) (ALIGN64 h) then 0x48000 else 0x10000)"

text \<open>Number of coding tree blocks that cover a length.\<close>

definition lcu_num :: "int \<Rightarrow> int \<Rightarrow> int" where
  "lcu_num x lcu = (if x mod lcu \<noteq> 0 then x div lcu + 1 else x div lcu)"

record buf_stru_s =
  bs_lcu_total :: int
  bs_mc_buffer_size_h :: int
  bs_mc_buffer_size_u_v_h :: int

definition cal_current_buf_size :: "h265_env \<Rightarrow> hevc_state \<Rightarrow> (int \<times> buf_stru_s) option" where
  "cal_current_buf_size e s = (let w = hv_pic_w s; h = hv_pic_h s; lcu = hv_lcu_size s in
     if lcu = 0 then None else Some (let
       mc_buffer_size = compute_losless_comp_header_size w h + compute_losless_comp_body_size s w h False;
       mc_buffer_size_h = (mc_buffer_size + 0xffff) div 2 ^ 16;
       dw_mode = get_double_write_mode e s;
       buf0 = (if hv_mmu_enable s then hevc_get_header_size e w h else 0);
       buf1 = (if hv_dw_mmu_enable s then (buf0 + 0xffff) div 2 ^ 16 * 2 ^ 16 * 2 else buf0);
       dwr = get_double_write_ratio dw_mode;
       lcu_total_dw = lcu_num (w div dwr) lcu * lcu_num (h div dwr) lcu;
       has_dw = (dw_mode \<noteq> 0 \<and> \<not> bit dw_mode 5);
       mc_buffer_size_u_v_h = (if has_dw then (lcu_total_dw * lcu * lcu div 2 + 0xffff) div 2 ^ 16 else 0);
       buf2 = (if has_dw then buf1 + mc_buffer_size_u_v_h * 2 ^ 16 * 3 else buf1);
       buf3 = (if \<not> hv_mmu_enable s \<and> \<not> bit dw_mode 4 then buf2 + mc_buffer_size_h * 2 ^ 16 else buf2);
       buf_size = (if buf3 > 0 then buf3 + 0x10000 else buf3)
     in (buf_size, \<lparr>bs_lcu_total = lcu_num w lcu * lcu_num h lcu,
           bs_mc_buffer_size_h = mc_buffer_size_h, bs_mc_buffer_size_u_v_h = mc_buffer_size_u_v_h\<rparr>)))"

section \<open>Motion vector buffers\<close>

definition free_BUF :: "BUF_s \<Rightarrow> BUF_s" where
  "free_BUF b = \<lparr>b_start_adr = 0, b_size = 0, b_used_flag = False\<rparr>"

definition upd_mv :: "nat \<Rightarrow> (BUF_s \<Rightarrow> BUF_s) \<Rightarrow> hevc_state \<Rightarrow> hevc_state" where
  "upd_mv i f s = s\<lparr>hv_m_mv_BUF := (hv_m_mv_BUF s)[i := f (hv_m_mv_BUF s ! i)]\<rparr>"

definition dealloc_mv_bufs :: "hevc_state \<Rightarrow> hevc_state" where
  "dealloc_mv_bufs s = s\<lparr>
     hv_m_mv_BUF := map (\<lambda>b. if b_start_adr b \<noteq> 0 then free_BUF b else b) (hv_m_mv_BUF s),
     hv_m_PIC := map (map_option (p_mv_buf_index_update (\<lambda>_. -1))) (hv_m_PIC s)\<rparr>"

definition alloc_mv_buf :: "h265_env \<Rightarrow> nat \<Rightarrow> hevc_state \<Rightarrow> bool \<times> hevc_state" where
  "alloc_mv_buf e i s = (case bmmu_alloc e (MV_BUFFER_IDX i) (hv_mv_buf_size s) of
     None \<Rightarrow> (False, upd_mv i (b_start_adr_update (\<lambda>_. 0)) s)
   | Some adr \<Rightarrow> (True, upd_mv i (\<lambda>b. \<lparr>b_start_adr = adr, b_size = hv_mv_buf_size s, b_used_flag = False\<rparr>) s))"

text \<open>The size of the buffer a picture needs, and the state with that size stored. In the
  static mode a change of the size frees every buffer.\<close>

definition mv_buf_need :: "PIC_s \<Rightarrow> int" where
  "mv_buf_need p = (if IS_8K_SIZE (p_width p) (p_height p) then 0x120000 * 4
     else if IS_4K_SIZE (p_width p) (p_height p) then 0x120000 else 0x3fc00)"

definition mv_buf_need_dynamic :: "hevc_state \<Rightarrow> PIC_s \<Rightarrow> int" where
  "mv_buf_need_dynamic s p = (let lcu = hv_lcu_size s;
     MV_MEM_UNIT = (if hv_lcu_size_log2 s = 6 then 0x200 else if hv_lcu_size_log2 s = 5 then 0x80 else 0x20);
     extended_pic_width = (p_width p + lcu - 1) AND (NOT (lcu - 1));
     extended_pic_height = (p_height p + lcu - 1) AND (NOT (lcu - 1));
     new_size = (extended_pic_width div lcu) * (extended_pic_height div lcu) * MV_MEM_UNIT in
     (new_size + 0xffff) div 2 ^ 16 * 2 ^ 16)"

definition mv_buf_resize :: "h265_env \<Rightarrow> PIC_s \<Rightarrow> hevc_state \<Rightarrow> hevc_state option" where
  "mv_buf_resize e p s = (if par_mv_buf_dynamic_alloc e then
       (if hv_lcu_size s = 0 then None else Some (s\<lparr>hv_mv_buf_size := mv_buf_need_dynamic s p\<rparr>))
     else if mv_buf_need p \<noteq> hv_mv_buf_size s then
       Some ((dealloc_mv_bufs s)\<lparr>hv_mv_buf_size := mv_buf_need p\<rparr>)
     else Some s)"

definition unused_mv :: "BUF_s \<Rightarrow> bool" where
  "unused_mv b = (b_start_adr b \<noteq> 0 \<and> \<not> b_used_flag b)"

definition first_mv :: "(BUF_s \<Rightarrow> bool) \<Rightarrow> hevc_state \<Rightarrow> nat option" where
  "first_mv P s = List.find (\<lambda>i. P (hv_m_mv_BUF s ! i)) [0..<length (hv_m_mv_BUF s)]"

text \<open>The choice of a buffer: a free one of those allocated (static mode only), else a new
  one. The result is \<open>None\<close> inside when there is no buffer.\<close>

definition mv_buf_new :: "h265_env \<Rightarrow> hevc_state \<Rightarrow> nat option \<times> hevc_state" where
  "mv_buf_new e s = (case first_mv (\<lambda>b. b_start_adr b = 0) s of
     None \<Rightarrow> (None, s)
   | Some i \<Rightarrow> (let (ok, s') = alloc_mv_buf e i s in
       if ok then (Some i, upd_mv i (b_used_flag_update (\<lambda>_. True)) s') else (None, s')))"

definition mv_buf_choose :: "h265_env \<Rightarrow> hevc_state \<Rightarrow> nat option \<times> hevc_state" where
  "mv_buf_choose e s = (case (if par_mv_buf_dynamic_alloc e then None else first_mv unused_mv s) of
     Some i \<Rightarrow> (Some i, upd_mv i (b_used_flag_update (\<lambda>_. True)) s)
   | None \<Rightarrow> mv_buf_new e s)"

definition get_mv_buf :: "h265_env \<Rightarrow> nat \<Rightarrow> hevc_state \<Rightarrow> (int \<times> hevc_state) option" where
  "get_mv_buf e i s = do {
     p \<leftarrow> pic_at s i;
     s1 \<leftarrow> mv_buf_resize e p s;
     case mv_buf_choose e s1 of
       (None, s2) \<Rightarrow> Some (-1, s2)
     | (Some j, s2) \<Rightarrow> Some (int j, upd_PIC i (\<lambda>p. p\<lparr>
         p_mv_buf_index := int j,
         p_mv_size := b_size (hv_m_mv_BUF s2 ! j),
         p_mpred_mv_wr_start_addr := u32 ((b_start_adr (hv_m_mv_BUF s2 ! j) + 0xffff) div 2 ^ 16 * 2 ^ 16)\<rparr>) s2) }"

definition put_mv_buf :: "h265_env \<Rightarrow> nat \<Rightarrow> hevc_state \<Rightarrow> hevc_state" where
  "put_mv_buf e i s = (case pic_at s i of
     None \<Rightarrow> s
   | Some p \<Rightarrow> if p_mv_buf_index p < 0 \<or> int MAX_REF_PIC_NUM \<le> p_mv_buf_index p then s
     else let j = nat (p_mv_buf_index p); b = hv_m_mv_BUF s ! j;
            s1 = (if par_mv_buf_dynamic_alloc e then upd_mv j free_BUF s
                  else if b_start_adr b \<noteq> 0 \<and> b_used_flag b then upd_mv j (b_used_flag_update (\<lambda>_. False)) s
                  else s) in
          upd_PIC i (p_mv_buf_index_update (\<lambda>_. -1)) s1)"

section \<open>Frame buffers\<close>

definition upd_BUF :: "nat \<Rightarrow> (BUF_s \<Rightarrow> BUF_s) \<Rightarrow> hevc_state \<Rightarrow> hevc_state" where
  "upd_BUF i f s = s\<lparr>hv_m_BUF := (hv_m_BUF s)[i := f (hv_m_BUF s ! i)]\<rparr>"

definition first_buf :: "(BUF_s \<Rightarrow> bool) \<Rightarrow> hevc_state \<Rightarrow> nat option" where
  "first_buf P s = List.find (\<lambda>i. P (hv_m_BUF s ! i)) [0..<BUF_POOL_SIZE]"

definition alloc_buf :: "h265_env \<Rightarrow> hevc_state \<Rightarrow> (int \<times> hevc_state) option" where
  "alloc_buf e s = do {
     (buf_size, bs) \<leftarrow> cal_current_buf_size e s;
     if hv_fatal_no_mem s then Some (-1, s)
     else case first_buf (\<lambda>b. b_start_adr b = 0) s of
       None \<Rightarrow> Some (-1, s)
     | Some i \<Rightarrow> if buf_size \<le> 0 then Some (0, s)
         else (case bmmu_alloc e i buf_size of
           None \<Rightarrow> Some (-1, let s1 = upd_BUF i (b_start_adr_update (\<lambda>_. 0)) s in
             if i \<le> 8 then s1\<lparr>hv_fatal_no_mem := True\<rparr> else s1)
         | Some adr \<Rightarrow> Some (0, upd_BUF i
             (\<lambda>b. \<lparr>b_start_adr = adr, b_size = buf_size, b_used_flag = False\<rparr>) s)) }"

definition set_buf_unused :: "int \<Rightarrow> hevc_state \<Rightarrow> hevc_state" where
  "set_buf_unused i s = (if 0 \<le> i \<and> i < int BUF_POOL_SIZE
     then upd_BUF (nat i) (b_used_flag_update (\<lambda>_. False)) s else s)"

text \<open>Freeing a buffer clears its address and its size and leaves the rest.\<close>

definition dealloc_unused_buf :: "hevc_state \<Rightarrow> hevc_state" where
  "dealloc_unused_buf s = s\<lparr>hv_m_BUF := map (\<lambda>b.
     if b_start_adr b \<noteq> 0 \<and> \<not> b_used_flag b then b\<lparr>b_start_adr := 0, b_size := 0\<rparr> else b) (hv_m_BUF s)\<rparr>"

definition dealloc_pic_buf :: "nat \<Rightarrow> hevc_state \<Rightarrow> hevc_state" where
  "dealloc_pic_buf i s = (case pic_at s i of
     None \<Rightarrow> s
   | Some p \<Rightarrow> let b = p_BUF_index p; s1 = upd_PIC i (p_BUF_index_update (\<lambda>_. -1)) s in
       if 0 \<le> b \<and> b < int BUF_POOL_SIZE \<and> b_start_adr (hv_m_BUF s ! nat b) \<noteq> 0
       then upd_BUF (nat b) free_BUF s1 else s1)"

section \<open>The picture list\<close>

definition align_64k :: "int \<Rightarrow> int" where
  "align_64k a = u32 (u32 (a + 0xffff) div 2 ^ 16 * 2 ^ 16)"

text \<open>The places of the parts of a picture in the buffer at an address. Without
  \<open>mmu_enable\<close> the compressed picture comes first, then the double write planes.\<close>

definition place_pic :: "h265_env \<Rightarrow> hevc_state \<Rightarrow> buf_stru_s \<Rightarrow> int \<Rightarrow> PIC_s \<Rightarrow> PIC_s" where
  "place_pic e s bs adr p = (let
     dw_mode = get_double_write_mode e s;
     hdr = hevc_get_header_size e (hv_pic_w s) (hv_pic_h s);
     p1 = (if hv_mmu_enable s then p\<lparr>p_header_adr := u32 adr\<rparr> else p);
     y0 = align_64k (if hv_mmu_enable s then u32 (adr + hdr) else u32 adr);
     p2 = (if hv_dw_mmu_enable s then p1\<lparr>p_header_dw_adr := y0\<rparr> else p1);
     y1 = (if hv_dw_mmu_enable s then u32 (y0 + hdr) else y0);
     own = (\<not> hv_mmu_enable s \<and> \<not> bit dw_mode 4);
     p3 = (if own then p2\<lparr>p_mc_y_adr := y1\<rparr> else p2);
     y2 = (if own then u32 (y1 + bs_mc_buffer_size_h bs * 2 ^ 16) else y1);
     uv = bs_mc_buffer_size_u_v_h bs * 2 ^ 16 * 2;
     p4 = p3\<lparr>p_mc_canvas_y := p_index p, p_mc_canvas_u_v := p_index p\<rparr> in
     if bit dw_mode 4 then p4\<lparr>p_mc_y_adr := y2, p_mc_u_v_adr := u32 (y2 + uv),
         p_mc_canvas_y := 2 * p_index p, p_mc_canvas_u_v := 2 * p_index p + 1,
         p_dw_y_adr := y2, p_dw_u_v_adr := u32 (y2 + uv)\<rparr>
     else if dw_mode \<noteq> 0 \<and> \<not> bit dw_mode 5 then p4\<lparr>p_dw_y_adr := y2, p_dw_u_v_adr := u32 (y2 + uv)\<rparr>
     else p4)"

definition config_pic :: "h265_env \<Rightarrow> nat \<Rightarrow> hevc_state \<Rightarrow> (bool \<times> hevc_state) option" where
  "config_pic e k s = do {
     (buf_size, bs) \<leftarrow> cal_current_buf_size e s;
     case first_buf (\<lambda>b. b_start_adr b \<noteq> 0 \<and> \<not> b_used_flag b \<and> buf_size \<le> b_size b) s of
       None \<Rightarrow> Some (False, s)
     | Some i \<Rightarrow> Some (True, upd_PIC k (\<lambda>p.
           (place_pic e s bs (b_start_adr (hv_m_BUF s ! i)) p)\<lparr>p_POC := INVALID_POC, p_BUF_index := int i\<rparr>)
         (upd_BUF i (b_used_flag_update (\<lambda>_. True)) s)) }"

definition get_dynamic_buf_num_margin :: "h265_env \<Rightarrow> hevc_state \<Rightarrow> int" where
  "get_dynamic_buf_num_margin e s = (if hv_m_ins_flag s \<and> \<not> bit (par_dynamic_buf_num_margin e) 31
     then sint (hv_dynamic_buf_num_margin s) else uint (par_dynamic_buf_num_margin e AND 0x7fffffff))"

definition get_work_pic_num :: "h265_env \<Rightarrow> hevc_state \<Rightarrow> int" where
  "get_work_pic_num e s = (let
     used_buf_num = s32 (rp_sps_max_dec_pic_buffering_minus1_0 (hv_param s) + 1 + 2
       + get_dynamic_buf_num_margin e s) in
     if used_buf_num > MAX_BUF_NUM then MAX_BUF_NUM else used_buf_num)"

definition get_alloc_pic_count :: "hevc_state \<Rightarrow> nat" where
  "get_alloc_pic_count s = length (filter (\<lambda>i. case pic_at s i of
     Some p \<Rightarrow> 0 \<le> p_index p | None \<Rightarrow> False) pic_ids)"

text \<open>\<open>init_pic_list\<close>: first the buffers, then a picture for each. A failed
  allocation ends a loop early. The list is set up when the size is known, as with \<open>use_cma\<close>
  (its value is 2); the branch of the slice header that sets it up when \<open>use_cma\<close> is 0 is left
  out.\<close>

fun init_bufs :: "h265_env \<Rightarrow> nat list \<Rightarrow> hevc_state \<Rightarrow> hevc_state option" where
  "init_bufs e [] s = Some s"
| "init_bufs e (i # is) s = do {
     (ret, s1) \<leftarrow> alloc_buf e s;
     if ret < 0 then Some (if i \<le> 8 then s1\<lparr>hv_fatal_no_mem := True\<rparr> else s1)
     else init_bufs e is s1 }"

definition set_pic :: "nat \<Rightarrow> PIC_s \<Rightarrow> hevc_state \<Rightarrow> hevc_state" where
  "set_pic i p s = s\<lparr>hv_m_PIC := (hv_m_PIC s)[i := Some p]\<rparr>"

fun init_pics :: "h265_env \<Rightarrow> nat list \<Rightarrow> hevc_state \<Rightarrow> hevc_state option" where
  "init_pics e [] s = Some s"
| "init_pics e (i # is) s = (if pic_at s i = None \<and> \<not> vmalloc_ok e i then Some s else do {
     (ok, s1) \<leftarrow> config_pic e i (set_pic i (zero_PIC\<lparr>p_index := int i, p_BUF_index := -1,
       p_mv_buf_index := -1, p_width := hv_pic_w s, p_height := hv_pic_h s,
       p_double_write_mode := get_double_write_mode e s, p_POC := INVALID_POC\<rparr>) s);
     if ok then init_pics e is s1 else Some (upd_PIC i (p_index_update (\<lambda>_. -1)) s1) })"

definition init_pic_list :: "h265_env \<Rightarrow> hevc_state \<Rightarrow> hevc_state option" where
  "init_pic_list e s = do {
     let is = [0..<nat (get_work_pic_num e s)];
     s1 \<leftarrow> init_bufs e is s;
     init_pics e is s1 }"

text \<open>\<open>pic_list_process\<close>. The first loop lets go of the buffer of every idle picture
  of another size, and of the picture itself beyond the number wanted; the second makes up the
  number. A picture of the second loop that is new comes from \<open>memset\<close>.\<close>

definition idle_pic :: "PIC_s \<Rightarrow> bool" where
  "idle_pic p = (\<not> p_output_mark p \<and> \<not> p_referenced p \<and> \<not> p_output_ready p)"

fun shrink_pics :: "int \<Rightarrow> nat list \<Rightarrow> nat \<Rightarrow> hevc_state \<Rightarrow> nat \<times> hevc_state" where
  "shrink_pics work [] n s = (n, s)"
| "shrink_pics work (i # is) n s = (case pic_at s i of
     None \<Rightarrow> shrink_pics work is n s
   | Some p \<Rightarrow> if \<not> listed p then shrink_pics work is n s
     else let m = n + 1 in
       if idle_pic p \<and> (p_width p \<noteq> hv_pic_w s \<or> p_height p \<noteq> hv_pic_h s) then
         shrink_pics work is m (upd_PIC i (\<lambda>p. if int m > work
             then p\<lparr>p_BUF_index := -1, p_width := 0, p_height := 0, p_index := -1\<rparr>
             else p\<lparr>p_BUF_index := -1, p_width := hv_pic_w s, p_height := hv_pic_h s\<rparr>)
           (set_buf_unused (p_BUF_index p) s))
       else shrink_pics work is m s)"

fun grow_pics :: "h265_env \<Rightarrow> int \<Rightarrow> nat list \<Rightarrow> int \<Rightarrow> hevc_state \<Rightarrow> hevc_state" where
  "grow_pics e work [] n s = s"
| "grow_pics e work (i # is) n s = (let fresh = (n < work \<and> pic_at s i = None) in
     if fresh \<and> \<not> vmalloc_ok e i then s
     else let s1 = (if fresh then set_pic i (zero_PIC\<lparr>p_index := -1\<rparr>) s else s) in
       case pic_at s1 i of
         Some p \<Rightarrow> if p_index p = -1 then
             let s2 = upd_PIC i (\<lambda>p. p\<lparr>p_index := int i, p_BUF_index := -1,
                 p_width := hv_pic_w s, p_height := hv_pic_h s\<rparr>) s1 in
             if n + 1 \<ge> work then s2 else grow_pics e work is (n + 1) s2
           else grow_pics e work is n s1
       | None \<Rightarrow> grow_pics e work is n s1)"

definition pic_list_process :: "h265_env \<Rightarrow> hevc_state \<Rightarrow> hevc_state" where
  "pic_list_process e s = (let work = get_work_pic_num e s;
     (n, s1) = shrink_pics work pic_ids 0 s in
     dealloc_unused_buf (if int n < work then grow_pics e work pic_ids (int n) s1 else s1))"

text \<open>The choice of a picture for decoding: of those that are idle, of the current size and
  not with the display, the first whose buffer holds no picture, else the one of the smallest
  count.\<close>

definition usable_pic :: "hevc_state \<Rightarrow> PIC_s \<Rightarrow> bool" where
  "usable_pic s p = (\<not> p_output_mark p \<and> \<not> p_referenced p \<and> \<not> p_output_ready p \<and>
     p_width p = hv_pic_w s \<and> p_height p = hv_pic_h s \<and> p_vf_ref p = 0)"

definition better_pic :: "PIC_s \<Rightarrow> PIC_s \<Rightarrow> bool" where
  "better_pic p q = (p_POC q \<noteq> INVALID_POC \<and> (p_POC p = INVALID_POC \<or> p_POC p < p_POC q))"

fun choose_pic :: "hevc_state \<Rightarrow> nat list \<Rightarrow> (nat \<times> PIC_s) option \<Rightarrow> (nat \<times> PIC_s) option" where
  "choose_pic s [] r = r"
| "choose_pic s (i # is) r = (case pic_at s i of
     None \<Rightarrow> choose_pic s is r
   | Some p \<Rightarrow> if listed p \<and> usable_pic s p then
       (case r of None \<Rightarrow> choose_pic s is (Some (i, p))
        | Some (j, q) \<Rightarrow> choose_pic s is (if better_pic p q then Some (i, p) else r))
     else choose_pic s is r)"

text \<open>The buffer of the chosen picture, when it has none.\<close>

definition provide_buf :: "h265_env \<Rightarrow> nat \<Rightarrow> hevc_state \<Rightarrow> (bool \<times> hevc_state) option" where
  "provide_buf e k s = do {
     p \<leftarrow> pic_at s k;
     if 0 \<le> p_BUF_index p then Some (True, s) else do {
       (ret, s1) \<leftarrow> alloc_buf e s;
       if ret < 0 then Some (False, s1) else do {
         (ok, s2) \<leftarrow> config_pic e k s1;
         if \<not> ok then Some (False, dealloc_pic_buf k s2)
         else Some (True, upd_PIC k (\<lambda>p. p\<lparr>p_width := hv_pic_w s, p_height := hv_pic_h s\<rparr>) s2) } } }"

definition hevc_mmu_page_num :: "h265_env \<Rightarrow> hevc_state \<Rightarrow> int \<Rightarrow> int \<Rightarrow> bool \<Rightarrow> int" where
  "hevc_mmu_page_num e s w h save_mode = (let
     page_num = (compute_losless_comp_body_size s w h save_mode + 4095) div 4096;
     max_frame_num = (if cpu_sm1_or_later e then 0x4880 else 0x1200) in
     if page_num > max_frame_num then -1 else page_num)"

definition H265_alloc_mmu :: "h265_env \<Rightarrow> hevc_state \<Rightarrow> PIC_s \<Rightarrow> (int \<Rightarrow> int \<Rightarrow> int) \<Rightarrow> int" where
  "H265_alloc_mmu e s p box = (if get_double_write_mode e s = 0x10 then 0
     else let n = hevc_mmu_page_num e s (p_width p) (p_height p) (rp_bit_depth (hv_param s) = 0) in
       if n < 0 then -1 else box (p_index p) n)"

definition start_pic :: "h265_env \<Rightarrow> hevc_state \<Rightarrow> PIC_s \<Rightarrow> PIC_s" where
  "start_pic e s p = p\<lparr>p_referenced := True, p_decode_idx := hv_decode_idx s, p_slice_idx := 0,
     p_output_mark := False, p_recon_mark := False, p_error_mark := False, p_dis_mark := False,
     p_num_reorder_pic := rp_sps_num_reorder_pics_0 (hv_param s),
     p_ip_mode := (rp_sps_num_reorder_pics_0 (hv_param s) = 0 \<and> \<not> hv_dual_layer s \<and> \<not> par_disable_ip_mode e),
     p_POC := hv_curr_POC s, p_pic_struct := hv_curr_pic_struct s,
     p_double_write_mode := get_double_write_mode e s\<rparr>"

text \<open>\<open>h265_get_new_pic\<close>; the result is \<open>None\<close> inside when the caller has to wait. On a
  failure of the scatter memory the motion vector buffer goes back. The picture keeps the double
  write mode that was set before the failure.\<close>

definition h265_get_new_pic :: "h265_env \<Rightarrow> hevc_state \<Rightarrow> (nat option \<times> hevc_state) option" where
  "h265_get_new_pic e s = (case choose_pic s pic_ids None of
     None \<Rightarrow> Some (None, s)
   | Some (k, _) \<Rightarrow> do {
       (ok, s1) \<leftarrow> provide_buf e k s;
       if \<not> ok then Some (None, s1) else do {
         let s2 = upd_PIC k (p_double_write_mode_update (\<lambda>_. get_double_write_mode e s)) s1;
         (ret, s3) \<leftarrow> get_mv_buf e k s2;
         if ret < 0 then Some (None, s3) else do {
           p \<leftarrow> pic_at s3 k;
           if hv_mmu_enable s \<and> H265_alloc_mmu e s p (mmu_alloc e) \<noteq> 0 then
             Some (None, put_mv_buf e k s3)
           else if hv_dw_mmu_enable s \<and> H265_alloc_mmu e s p (mmu_dw_alloc e) \<noteq> 0 then
             Some (None, put_mv_buf e k s3)
           else Some (Some k, upd_PIC k (start_pic e s) s3) } } })"

definition get_display_pic_num :: "hevc_state \<Rightarrow> nat" where
  "get_display_pic_num s = length (filter (\<lambda>i. case pic_at s i of
     Some p \<Rightarrow> listed p \<and> p_output_ready p | None \<Rightarrow> False) pic_ids)"

section \<open>References\<close>

definition unreference :: "h265_env \<Rightarrow> nat \<Rightarrow> hevc_state \<Rightarrow> hevc_state" where
  "unreference e i s = put_mv_buf e i (upd_PIC i (p_referenced_update (\<lambda>_. False)) s)"

definition clear_referenced_flag :: "h265_env \<Rightarrow> hevc_state \<Rightarrow> hevc_state" where
  "clear_referenced_flag e s = for_pics (\<lambda>i p t. if p_referenced p then unreference e i t else t) s"

definition clear_poc_flag :: "hevc_state \<Rightarrow> hevc_state" where
  "clear_poc_flag s = for_pics (\<lambda>i p t. upd_PIC i (p_POC_update (\<lambda>_. INVALID_POC)) t) s"

definition is_ref_long_term :: "hevc_state \<Rightarrow> int \<Rightarrow> bool" where
  "is_ref_long_term s poc = list_ex (\<lambda>i. case pic_at s i of
     Some p \<Rightarrow> has_buf p \<and> p_referenced p \<and> p_POC p = poc \<and> p_long_term_ref p | None \<Rightarrow> False) pic_ids"

definition RPS_END :: u16 where "RPS_END = 0x8000"
definition RPS_LT_BIT :: nat where "RPS_LT_BIT = 14"
definition RPS_USED_BIT :: nat where "RPS_USED_BIT = 13"

text \<open>The signed picture order count delta of an entry: a sign bit and 12 further bits.\<close>

definition rps_poc :: "int \<Rightarrow> u16 \<Rightarrow> int" where
  "rps_poc base w = (let delt = uint (w AND 0xfff) in
     if bit w (RPS_USED_BIT - 1) then s32 (base - (2 ^ (RPS_USED_BIT - 1) - delt)) else s32 (base + delt))"

text \<open>The scan of the sixteen entries for a picture order count: whether one matches, and
  whether the first that matches is a long-term one.\<close>

fun rps_find :: "u16 list \<Rightarrow> int \<Rightarrow> int \<Rightarrow> bool option" where
  "rps_find [] cur poc = None"
| "rps_find (w # ws) cur poc = (if w = RPS_END then None
     else if rps_poc cur w = poc then Some (bit w RPS_LT_BIT) else rps_find ws cur poc)"

definition apply_ref_pic_set :: "h265_env \<Rightarrow> int \<Rightarrow> hevc_state \<Rightarrow> hevc_state" where
  "apply_ref_pic_set e cur_poc s = for_pics (\<lambda>i p t. if p_BUF_index p = -1 then t
     else let t1 = upd_PIC i (p_long_term_ref_update (\<lambda>_. False)) t in
       if \<not> p_referenced p \<or> p_POC p = cur_poc then t1
       else case rps_find (take 16 (rp_CUR_RPS (hv_param s))) cur_poc (p_POC p) of
         Some lt \<Rightarrow> if lt then upd_PIC i (p_long_term_ref_update (\<lambda>_. True)) t1 else t1
       | None \<Rightarrow> unreference e i t1) s"

end
