(* ===== verification/H265_Output.thy ===== *)
theory H265_Output
  imports H265_Dpb
begin

text \<open>
  The output side of the H.265 decoder
  (\<open>drivers/frame_provider/decoder/h265/vh265.c\<close>): the frame queues to the display, the
  pairing of fields, the order in which pictures leave the picture list, and the flush.

  Fences are off (\<open>enable_fence\<close> 0) and the display is not bypassed
  (\<open>without_display_mode\<close> 0). A frame of a queue is represented by its contents, not by
  its address: no frame is in two places at once, and the code changes one only while it alone
  holds it.
\<close>

section \<open>Frame queues\<close>

definition kfifo_put :: "vframe \<Rightarrow> vframe list \<Rightarrow> vframe list" where
  "kfifo_put v q = (if length q < VF_POOL_SIZE then q @ [v] else q)"

definition to_display :: "vframe \<Rightarrow> hevc_state \<Rightarrow> hevc_state" where
  "to_display v s = s\<lparr>hv_display_q := kfifo_put v (hv_display_q s)\<rparr>"

definition count_vf :: "nat \<Rightarrow> hevc_state \<Rightarrow> hevc_state" where
  "count_vf n s = s\<lparr>hv_vf_pre_count := hv_vf_pre_count s + n\<rparr>"

definition put_vf_to_display_q :: "vframe \<Rightarrow> hevc_state \<Rightarrow> hevc_state" where
  "put_vf_to_display_q v s = to_display v (count_vf 1 s)"

definition vh265_vf_get :: "hevc_state \<Rightarrow> (vframe \<times> hevc_state) option" where
  "vh265_vf_get s = (case hv_display_q s of [] \<Rightarrow> None | v # q \<Rightarrow> Some (v, s\<lparr>hv_display_q := q\<rparr>))"

text \<open>One of the two halves of \<open>vh265_vf_put\<close>.\<close>

definition release_field :: "nat \<Rightarrow> hevc_state \<Rightarrow> hevc_state" where
  "release_field i s = (if i \<noteq> 0xff \<and> i < MAX_REF_PIC_NUM then
     (case pic_at s i of
        Some p \<Rightarrow> if 0 < p_vf_ref p then
          upd_PIC i (\<lambda>p. if p_vf_ref p = 1 then p\<lparr>p_vf_ref := 0, p_output_ready := False, p_show_frame := False\<rparr>
            else p\<lparr>p_vf_ref := p_vf_ref p - 1\<rparr>) s
          else s
      | None \<Rightarrow> s) else s)"

definition vh265_vf_put :: "vframe \<Rightarrow> hevc_state \<Rightarrow> hevc_state" where
  "vh265_vf_put v s = release_field (vf_bot v) (release_field (vf_top v)
     (s\<lparr>hv_newframe_q := kfifo_put v (hv_newframe_q s)\<rparr>))"

text \<open>A picture whose pending field is given up.\<close>

definition drop_field :: "nat \<Rightarrow> hevc_state \<Rightarrow> hevc_state" where
  "drop_field i s = (if i < MAX_REF_PIC_NUM then
     upd_PIC i (\<lambda>p. p\<lparr>p_vf_ref := 0, p_output_ready := False\<rparr>) s else s)"

text \<open>Giving up the oldest pending field when there are two. The answer is false when the
  function returns at once.\<close>

definition drop_pending :: "hevc_state \<Rightarrow> bool \<times> hevc_state" where
  "drop_pending s = (case hv_pending_q s of
     v # w # q \<Rightarrow> (let s1 = count_vf 1 (s\<lparr>hv_pending_q := w # q, hv_newframe_q := kfifo_put v (hv_newframe_q s)\<rparr>) in
       if MAX_REF_PIC_NUM \<le> vf_top v \<and> MAX_REF_PIC_NUM \<le> vf_bot v then (False, s1)
       else (True, drop_field (vf_bot v) (drop_field (vf_top v) s1)))
   | _ \<Rightarrow> (True, s))"

text \<open>Pairing the pending field with the field of a picture.\<close>

definition pair_pending :: "nat \<Rightarrow> bool \<Rightarrow> hevc_state \<Rightarrow> hevc_state" where
  "pair_pending k top_flag s = (case (hv_pending_q s, pic_at s k) of
     (v # q, Some p) \<Rightarrow>
       if p_vf_ref p \<le> 0 then to_display v (count_vf 1 (s\<lparr>hv_pending_q := q\<rparr>))
       else if \<not> top_flag \<and> vf_bot v = 0xff then
         count_vf 1 (to_display (v\<lparr>vf_bot := nat (p_index p)\<rparr>)
           (upd_PIC k (\<lambda>p. p\<lparr>p_vf_ref := p_vf_ref p + 1\<rparr>) (s\<lparr>hv_pending_q := q\<rparr>)))
       else if top_flag \<and> vf_top v = 0xff then
         count_vf 1 (to_display (v\<lparr>vf_top := nat (p_index p)\<rparr>)
           (upd_PIC k (\<lambda>p. p\<lparr>p_vf_ref := p_vf_ref p + 1\<rparr>) (s\<lparr>hv_pending_q := q\<rparr>)))
       else s
   | _ \<Rightarrow> s)"

definition process_pending_vframe :: "nat option \<Rightarrow> bool \<Rightarrow> hevc_state \<Rightarrow> hevc_state" where
  "process_pending_vframe pair top_flag s = (case pair of
     None \<Rightarrow> s
   | Some k \<Rightarrow> (let (go, s1) = drop_pending s in if go then pair_pending k top_flag s1 else s1))"

section \<open>Handing a picture to the display\<close>

definition set_vf_ref :: "nat \<Rightarrow> int \<Rightarrow> hevc_state \<Rightarrow> hevc_state" where
  "set_vf_ref k n s = upd_PIC k (p_vf_ref_update (\<lambda>_. n)) s"

definition shown :: "nat \<Rightarrow> hevc_state \<Rightarrow> bool" where
  "shown k s = (case pic_at s k of Some p \<Rightarrow> p_show_frame p | None \<Rightarrow> False)"

definition put_pending :: "vframe \<Rightarrow> hevc_state \<Rightarrow> hevc_state" where
  "put_pending v s = s\<lparr>hv_pending_q := kfifo_put v (hv_pending_q s)\<rparr>"

definition count_first :: "hevc_state \<Rightarrow> hevc_state" where
  "count_first s = (if hv_vf_pre_count s = 0 then count_vf 1 s else s)"

definition set_pre :: "bool \<Rightarrow> nat \<Rightarrow> hevc_state \<Rightarrow> hevc_state" where
  "set_pre is_top k s = (if is_top then s\<lparr>hv_pre_top_pic := Some k\<rparr> else s\<lparr>hv_pre_bot_pic := Some k\<rparr>)"

text \<open>A frame of two fields, of three fields, a field to be paired with the one before it, a
  field to be paired with the one after it, and anything else.\<close>

definition post_two :: "nat \<Rightarrow> vframe \<Rightarrow> hevc_state \<Rightarrow> bool \<times> hevc_state" where
  "post_two k v s = (case hv_newframe_q s of
     [] \<Rightarrow> (False, s)
   | v2 # q \<Rightarrow> (let w2 = v2\<lparr>vf_top := vf_top v, vf_bot := vf_bot v\<rparr>;
       s1 = set_vf_ref k 2 (s\<lparr>hv_newframe_q := q\<rparr>) in
     (True, if shown k s1 then to_display w2 (count_vf 1 (put_vf_to_display_q v s1))
       else count_vf 2 (vh265_vf_put w2 (vh265_vf_put v s1)))))"

definition post_three :: "nat \<Rightarrow> vframe \<Rightarrow> hevc_state \<Rightarrow> bool \<times> hevc_state" where
  "post_three k v s = (case hv_newframe_q s of
     [] \<Rightarrow> (False, s)
   | [v2] \<Rightarrow> (False, s\<lparr>hv_newframe_q := []\<rparr>)
   | v2 # v3 # q \<Rightarrow> (let w2 = v2\<lparr>vf_top := vf_top v, vf_bot := vf_bot v\<rparr>;
       w3 = v3\<lparr>vf_top := vf_top v, vf_bot := vf_bot v\<rparr>;
       s1 = set_vf_ref k 3 (s\<lparr>hv_newframe_q := q\<rparr>) in
     (True, if shown k s1 then to_display w3 (count_vf 1 (to_display w2 (count_vf 1 (put_vf_to_display_q v s1))))
       else count_vf 3 (vh265_vf_put w3 (vh265_vf_put w2 (vh265_vf_put v s1))))))"

definition bot_vf :: "PIC_s \<Rightarrow> vframe \<Rightarrow> vframe" where
  "bot_vf p v = v\<lparr>vf_top := 0xff, vf_bot := nat (p_index p)\<rparr>"

definition post_pair_before :: "nat \<Rightarrow> PIC_s \<Rightarrow> vframe \<Rightarrow> hevc_state \<Rightarrow> bool \<times> hevc_state" where
  "post_pair_before k p v s = (let is_top = (p_pic_struct p = 9);
     s1 = process_pending_vframe (Some k) is_top (set_vf_ref k 1 s) in
     (True, if shown k s1 then
         set_pre is_top k (count_first (process_pending_vframe
           (if is_top then hv_pre_bot_pic s1 else hv_pre_top_pic s1) (\<not> is_top)
           (put_pending (if is_top then v else bot_vf p v) s1)))
       else count_vf 1 (vh265_vf_put v s1)))"

definition post_pair_after :: "nat \<Rightarrow> PIC_s \<Rightarrow> vframe \<Rightarrow> hevc_state \<Rightarrow> bool \<times> hevc_state" where
  "post_pair_after k p v s = (let is_top = (p_pic_struct p = 11);
     s1 = process_pending_vframe (Some k) is_top (set_vf_ref k 1 s);
     w = (if is_top then v else bot_vf p v) in
     (True, if shown k s1 then set_pre is_top k (count_first (put_pending w s1))
       else count_vf 1 (vh265_vf_put w s1)))"

definition post_single :: "nat \<Rightarrow> PIC_s \<Rightarrow> vframe \<Rightarrow> hevc_state \<Rightarrow> bool \<times> hevc_state" where
  "post_single k p v s = (let s1 = set_vf_ref k 1 s;
     s2 = (if p_pic_struct p = 1 then set_pre True k (process_pending_vframe (Some k) True s1)
       else if p_pic_struct p = 2 then set_pre False k (process_pending_vframe (Some k) False s1)
       else s1) in
     (True, if shown k s2 then put_vf_to_display_q v s2 else count_vf 1 (vh265_vf_put v s2)))"

definition post_video_frame :: "nat \<Rightarrow> hevc_state \<Rightarrow> bool \<times> hevc_state" where
  "post_video_frame k s = (case (hv_newframe_q s, pic_at s k) of
     (v0 # q, Some p) \<Rightarrow> (let v = v0\<lparr>vf_top := nat (p_index p), vf_bot := 0xff\<rparr>;
         s1 = s\<lparr>hv_newframe_q := q\<rparr>; ps = p_pic_struct p in
       if ps = 3 \<or> ps = 4 then post_two k v s1
       else if ps = 5 \<or> ps = 6 then post_three k v s1
       else if ps = 9 \<or> ps = 10 then post_pair_before k p v s1
       else if ps = 11 \<or> ps = 12 then post_pair_after k p v s1
       else post_single k p v s1)
   | _ \<Rightarrow> (False, s))"

definition post_prepare_process :: "h265_env \<Rightarrow> nat \<Rightarrow> hevc_state \<Rightarrow> hevc_state" where
  "post_prepare_process e k s = upd_PIC k (\<lambda>p. if par_discard_frames e
     then p\<lparr>p_output_ready := False, p_show_frame := False\<rparr> else p\<lparr>p_show_frame := True\<rparr>) s"

definition prepare_display_buf :: "h265_env \<Rightarrow> nat \<Rightarrow> hevc_state \<Rightarrow> hevc_state" where
  "prepare_display_buf e k s = snd (post_video_frame k (post_prepare_process e k s))"

section \<open>The order of output\<close>

definition in_output :: "PIC_s \<Rightarrow> bool" where
  "in_output p = (has_buf p \<and> p_POC p \<noteq> INVALID_POC)"

text \<open>Decoding order, for the mode that outputs only that way.\<close>

fun first_decoded :: "hevc_state \<Rightarrow> nat list \<Rightarrow> (nat \<times> PIC_s) option \<Rightarrow> (nat \<times> PIC_s) option" where
  "first_decoded s [] r = r"
| "first_decoded s (i # is) r = (case pic_at s i of
     None \<Rightarrow> first_decoded s is r
   | Some p \<Rightarrow> if in_output p \<and> p_output_mark p then
       (case r of None \<Rightarrow> first_decoded s is (Some (i, p))
        | Some (j, q) \<Rightarrow> first_decoded s is (if p_decode_idx p < p_decode_idx q then Some (i, p) else r))
     else first_decoded s is r)"

text \<open>Output order: the smallest picture order count, on a tie the picture decoded first.\<close>

definition out_before :: "PIC_s \<Rightarrow> PIC_s \<Rightarrow> bool" where
  "out_before p q = (p_POC p < p_POC q \<or> p_POC p = p_POC q \<and> p_decode_idx p < p_decode_idx q)"

fun first_output :: "hevc_state \<Rightarrow> nat list \<Rightarrow> (nat \<times> PIC_s) option \<Rightarrow> (nat \<times> PIC_s) option" where
  "first_output s [] r = r"
| "first_output s (i # is) r = (case pic_at s i of
     None \<Rightarrow> first_output s is r
   | Some p \<Rightarrow> if in_output p \<and> p_output_mark p then
       (case r of None \<Rightarrow> first_output s is (Some (i, p))
        | Some (j, q) \<Rightarrow> first_output s is (if out_before p q then Some (i, p) else r))
     else first_output s is r)"

text \<open>The first loop of the usual mode counts the pictures that wait. Before anything has been
  sent to the display an I picture need not wait for others; with two layers the last one is
  preset for output, whether it waits or not.\<close>

definition not_yet_display :: "hevc_state \<Rightarrow> int" where
  "not_yet_display s = int (length (filter (\<lambda>i. case pic_at s i of
     Some p \<Rightarrow> in_output p \<and> p_output_mark p | None \<Rightarrow> False) pic_ids))"

definition fast_first :: "h265_env \<Rightarrow> hevc_state \<Rightarrow> PIC_s \<Rightarrow> bool" where
  "fast_first e s p = (in_output p \<and> p_slice_type p = 2 \<and> hv_vf_pre_count s = 0 \<and> bit (par_fast_output_enable e) 0)"

definition fast_first_ids :: "h265_env \<Rightarrow> hevc_state \<Rightarrow> nat list" where
  "fast_first_ids e s = filter (\<lambda>i. case pic_at s i of Some p \<Rightarrow> fast_first e s p | None \<Rightarrow> False) pic_ids"

definition no_reorder :: "h265_env \<Rightarrow> hevc_state \<Rightarrow> hevc_state" where
  "no_reorder e s = fold (\<lambda>i. upd_PIC i (p_num_reorder_pic_update (\<lambda>_. 0))) (fast_first_ids e s) s"

definition with_pic :: "hevc_state \<Rightarrow> nat \<Rightarrow> nat \<times> PIC_s" where
  "with_pic s i = (i, the (pic_at s i))"

definition preset_pic :: "h265_env \<Rightarrow> hevc_state \<Rightarrow> (nat \<times> PIC_s) option" where
  "preset_pic e s = (if hv_dual_layer s \<and> fast_first_ids e s \<noteq> []
     then Some (with_pic s (last (fast_first_ids e s))) else None)"

definition mark_ready :: "nat \<Rightarrow> hevc_state \<Rightarrow> hevc_state" where
  "mark_ready k s = upd_PIC k (\<lambda>p. p\<lparr>p_output_mark := False, p_recon_mark := False, p_output_ready := True\<rparr>) s"

text \<open>The last test of the function: the second picture of a stream whose first one went out
  early is held back once.\<close>

definition hold_back :: "nat option \<times> hevc_state \<Rightarrow> nat option \<times> hevc_state" where
  "hold_back r = (let (d, s) = r in
     if d \<noteq> None \<and> hv_sps_num_reorder_pics_0 s \<noteq> 0 \<and> hv_vf_pre_count s = 1 \<and> hv_first_pic_flag s = 1
     then (None, s\<lparr>hv_first_pic_flag := 2\<rparr>) else (d, s))"

definition output_decoded :: "h265_env \<Rightarrow> hevc_state \<Rightarrow> nat option \<times> hevc_state" where
  "output_decoded e s = (case first_decoded s pic_ids None of
     None \<Rightarrow> (None, s)
   | Some (k, _) \<Rightarrow> (Some k, unreference e k (mark_ready k s)))"

definition output_ordered :: "h265_env \<Rightarrow> bool \<Rightarrow> hevc_state \<Rightarrow> nat option \<times> hevc_state" where
  "output_ordered e flush s = (let
     n = not_yet_display s;
     s1 = no_reorder e s;
     first = first_output s1 pic_ids (map_option (\<lambda>(i, _). with_pic s1 i) (preset_pic e s));
     d = (if hv_dual_layer s \<and> map_option fst first = hv_cur_pic s \<and> \<not> flush \<and> hv_bypass_dvenl s
            \<and> \<not> par_dolby_meta_with_el e \<and> fast_first_ids e s = [] then None else first) in
     case d of
       None \<Rightarrow> (None, s1)
     | Some (k, p) \<Rightarrow> if p_num_reorder_pic p < n \<or> flush \<or> int MAX_REF_PIC_NUM - 1 \<le> n
         then (Some k, mark_ready k s1) else (None, s1))"

definition output_pic :: "h265_env \<Rightarrow> bool \<Rightarrow> hevc_state \<Rightarrow> nat option \<times> hevc_state" where
  "output_pic e flush s = hold_back (if bit (hv_i_only s) 2 then output_decoded e s
     else output_ordered e flush s)"

section \<open>Output loops\<close>

definition not_ready :: "nat \<Rightarrow> hevc_state \<Rightarrow> hevc_state" where
  "not_ready k s = upd_PIC k (p_output_ready_update (\<lambda>_. False)) s"

text \<open>What both loops do with a picture: one with an error is recycled while errors are not
  shown, and so is one that is not an I picture in the mode that shows only those.\<close>

definition show_or_recycle :: "h265_env \<Rightarrow> nat \<Rightarrow> hevc_state \<Rightarrow> hevc_state" where
  "show_or_recycle e k s = (case pic_at s k of
     None \<Rightarrow> s
   | Some p \<Rightarrow> if p_error_mark p \<and> \<not> bit (hv_ignore_bufmgr_error s) 1 then not_ready k s
       else if bit (hv_i_only s) 0 \<and> p_slice_type p \<noteq> 2 then not_ready k s
       else prepare_display_buf e k s)"

partial_function (option) flush_loop :: "h265_env \<Rightarrow> hevc_state \<Rightarrow> hevc_state option" where
  "flush_loop e s = (case output_pic e True s of
     (None, s1) \<Rightarrow> Some s1
   | (Some k, s1) \<Rightarrow> flush_loop e (show_or_recycle e k (unreference e k s1)))"

partial_function (option) output_loop :: "h265_env \<Rightarrow> hevc_state \<Rightarrow> hevc_state option" where
  "output_loop e s = (case output_pic e False s of
     (None, s1) \<Rightarrow> Some s1
   | (Some k, s1) \<Rightarrow> output_loop e (show_or_recycle e k s1))"

declare flush_loop.simps [code] output_loop.simps [code]

text \<open>The PB skip control: decoding starts after the first I picture without an error, showing
  after a number of further pictures.\<close>

definition PB_skip_control :: "PIC_s \<Rightarrow> hevc_state \<Rightarrow> hevc_state" where
  "PB_skip_control p s = (let
     s1 = (if \<not> p_error_mark p \<and> hv_PB_skip_mode s = 1
           then s\<lparr>hv_ignore_bufmgr_error := set_bit 0 (hv_ignore_bufmgr_error s)\<rparr> else s) in
     if bit (hv_ignore_bufmgr_error s1) 0 then
       (if hv_PB_skip_count_after_decoding s1 > 0
        then s1\<lparr>hv_PB_skip_count_after_decoding := hv_PB_skip_count_after_decoding s1 - 1\<rparr>
        else s1\<lparr>hv_ignore_bufmgr_error := set_bit 1 (hv_ignore_bufmgr_error s1)\<rparr>)
     else s1)"

definition interlace_clear_no_pair_pic :: "hevc_state \<Rightarrow> hevc_state" where
  "interlace_clear_no_pair_pic s = (if \<not> hv_interlace_flag s then s
     else for_pics (\<lambda>i p t. if p_vf_ref p = 1
       then upd_PIC i (\<lambda>p. p\<lparr>p_vf_ref := 0, p_output_ready := False\<rparr>) t else t) s)"

definition mark_flushed :: "nat option \<Rightarrow> hevc_state \<Rightarrow> hevc_state" where
  "mark_flushed pic s = (case pic of
     None \<Rightarrow> s
   | Some k \<Rightarrow> (case pic_at s k of
       None \<Rightarrow> s
     | Some p \<Rightarrow> upd_PIC k (\<lambda>p. p\<lparr>
         p_output_mark := (if p_POC p \<noteq> INVALID_POC \<and> \<not> p_ip_mode p then True else p_output_mark p),
         p_recon_mark := True\<rparr>) (PB_skip_control p s)))"

definition flush_output :: "h265_env \<Rightarrow> nat option \<Rightarrow> hevc_state \<Rightarrow> hevc_state option" where
  "flush_output e pic s = do {
     s1 \<leftarrow> flush_loop e (mark_flushed pic s);
     Some (interlace_clear_no_pair_pic (clear_referenced_flag e s1)) }"

end
