(* ===== verification/H265_Slice.thy ===== *)
theory H265_Slice
  imports H265_Output
begin

text \<open>
  The slice segment header of the H.265 decoder
  (\<open>drivers/frame_provider/decoder/h265/vh265.c\<close>): tiles, the picture order count, the
  reference lists, the collocated picture, and the steps of the driver around it: a header, a
  picture that is done, a picture that is given up.

  Writes to hardware registers and the statistics are left out. The sizes of the position in the
  stream that error detection reads from the hardware are arguments.
\<close>

section \<open>Tiles\<close>

definition MAX_TILE_COL_NUM :: nat where "MAX_TILE_COL_NUM = 10"
definition MAX_TILE_ROW_NUM :: nat where "MAX_TILE_ROW_NUM = 20"

text \<open>Starts and sizes of the tiles in one direction: the last one takes what is left. The size
  of another one is read from a table of the parameters, or is the same for all.\<close>

fun tile_spans :: "(nat \<Rightarrow> int option) \<Rightarrow> int \<Rightarrow> nat \<Rightarrow> nat \<Rightarrow> int \<Rightarrow> (int \<times> int) list option" where
  "tile_spans f len j 0 start = Some []"
| "tile_spans f len j (Suc 0) start = Some [(start, len - start)]"
| "tile_spans f len j (Suc (Suc n)) start = do {
     w \<leftarrow> f j;
     rest \<leftarrow> tile_spans f len (j + 1) (Suc n) (start + w);
     Some ((start, w) # rest) }"

definition table_at :: "int list \<Rightarrow> nat \<Rightarrow> int option" where
  "table_at t j = (if j < length t then Some (t ! j) else None)"

definition set_tiles :: "(int \<times> int) list \<Rightarrow> (int \<times> int) list \<Rightarrow> tile_s list list \<Rightarrow> tile_s list list" where
  "set_tiles cols rows m = map (\<lambda>i. if i < length rows then
       map (\<lambda>j. if j < length cols then \<lparr>t_width = snd (cols ! j), t_height = snd (rows ! i),
           t_start_cu_x = fst (cols ! j), t_start_cu_y = fst (rows ! i)\<rparr> else m ! i ! j)
         [0..<length (m ! i)]
     else m ! i) [0..<length m]"

definition tile_num :: "int \<Rightarrow> nat \<Rightarrow> int" where
  "tile_num n_minus1 max_num = (if n_minus1 + 1 > int max_num \<or> n_minus1 + 1 \<le> 0 then 1 else n_minus1 + 1)"

definition update_tile_info :: "int \<Rightarrow> int \<Rightarrow> hevc_state \<Rightarrow> hevc_state option" where
  "update_tile_info pic_width_cu pic_height_cu s = (let p = hv_param s in
     if odd (rp_tiles_enabled_flag p) then do {
       let cols = tile_num (rp_num_tile_columns_minus1 p) MAX_TILE_COL_NUM;
       let rows = tile_num (rp_num_tile_rows_minus1 p) MAX_TILE_ROW_NUM;
       let uniform = odd (rp_tiles_enabled_flag p div 2);
       cs \<leftarrow> tile_spans (if uniform then (\<lambda>j. Some (pic_width_cu div cols)) else table_at (rp_tile_width p))
         pic_width_cu 0 (nat cols) 0;
       rs \<leftarrow> tile_spans (if uniform then (\<lambda>i. Some (pic_height_cu div rows)) else table_at (rp_tile_height p))
         pic_height_cu 0 (nat rows) 0;
       Some (s\<lparr>hv_tile_enabled := True, hv_num_tile_col := cols, hv_num_tile_row := rows,
         hv_m_tile := set_tiles cs rs (hv_m_tile s)\<rparr>) }
     else Some (s\<lparr>hv_tile_enabled := False, hv_num_tile_col := 1, hv_num_tile_row := 1,
       hv_m_tile := set_tiles [(0, pic_width_cu)] [(0, pic_height_cu)] (hv_m_tile s)\<rparr>))"

text \<open>The last tile in a row of starts that begins at or before a position; the scan stops at
  the first one beyond it.\<close>

fun scan_tile :: "(nat \<Rightarrow> int) \<Rightarrow> int \<Rightarrow> nat list \<Rightarrow> nat \<Rightarrow> nat" where
  "scan_tile start x [] r = r"
| "scan_tile start x (i # is) r = (if start i \<le> x then scan_tile start x is i else r)"

definition get_tile_index :: "hevc_state \<Rightarrow> int \<Rightarrow> int \<Rightarrow> int" where
  "get_tile_index s cu_adr pic_width_lcu = (if pic_width_lcu = 0 then -1 else let
     cu_x = cu_adr mod pic_width_lcu;
     cu_y = cu_adr div pic_width_lcu;
     tile_x = (if hv_tile_enabled s
       then scan_tile (\<lambda>i. t_start_cu_x (hv_m_tile s ! 0 ! i)) cu_x [0..<nat (hv_num_tile_col s)] 0 else 0);
     tile_y = (if hv_tile_enabled s
       then scan_tile (\<lambda>i. t_start_cu_y (hv_m_tile s ! i ! 0)) cu_y [0..<nat (hv_num_tile_row s)] 0 else 0) in
     int tile_x + 2 ^ 8 * int tile_y)"

section \<open>Reference lists\<close>

definition H265_B_SLICE :: int where "H265_B_SLICE = 0"
definition H265_P_SLICE :: int where "H265_P_SLICE = 1"
definition H265_I_SLICE :: int where "H265_I_SLICE = 2"

text \<open>The entries of the reference picture set that the current picture uses: before it, after
  it, and long-term ones.\<close>

fun rps_sets :: "int \<Rightarrow> u16 list \<Rightarrow> int list \<times> int list \<times> int list" where
  "rps_sets base [] = ([], [], [])"
| "rps_sets base (w # ws) = (if w = RPS_END then ([], [], []) else
     let (neg, pos, lt) = rps_sets base ws; poc = rps_poc base w in
     if \<not> bit w RPS_USED_BIT then (neg, pos, lt)
     else if bit w RPS_LT_BIT then (neg, pos, poc # lt)
     else if bit w (RPS_USED_BIT - 1) then (poc # neg, pos, lt)
     else (neg, poc # pos, lt))"

text \<open>The candidate at a place of the concatenation of three lists. Past the end of the third
  the code reads an array entry that nothing has set.\<close>

definition cand_at :: "int list \<Rightarrow> int list \<Rightarrow> int list \<Rightarrow> nat \<Rightarrow> int option" where
  "cand_at a b lt c = (if c \<ge> length a + length b then
       (let k = c - length a - length b in if k < length lt then Some (lt ! k) else None)
     else if c \<ge> length a then Some (b ! (c - length a)) else Some (a ! c))"

definition set_row :: "nat \<Rightarrow> int list \<Rightarrow> int list list \<Rightarrow> int list list" where
  "set_row r xs m = m[r := xs @ drop (length xs) (m ! r)]"

definition min_active :: "int \<Rightarrow> nat" where
  "min_active n = nat (if n > MAX_REF_ACTIVE then MAX_REF_ACTIVE else n)"

text \<open>The places in the candidate list, given by the modification commands or in turn.\<close>

definition list_places :: "bool \<Rightarrow> nat list \<Rightarrow> nat \<Rightarrow> nat \<Rightarrow> nat \<Rightarrow> nat list" where
  "list_places modified ml skip n m = map (\<lambda>i. if modified then ml ! (skip + i) else i mod m) [0..<n]"

definition set_ref_pic_list :: "nat \<Rightarrow> hevc_state \<Rightarrow> hevc_state option" where
  "set_ref_pic_list k s = do {
     pic \<leftarrow> pic_at s k;
     let p = hv_param s;
     let n0 = min_active (rp_num_ref_idx_l0_active p);
     let n1 = min_active (rp_num_ref_idx_l1_active p);
     let (neg, pos, lt) = rps_sets (p_POC pic) (take 16 (rp_CUR_RPS p));
     let total = length neg + length pos + length lt;
     let mod0 = odd (rp_modification_flag p);
     let mod1 = odd (rp_modification_flag p div 2);
     let ml = rp_modification_list p;
     l0 \<leftarrow> (if total = 0 then Some [] else those (map (cand_at neg pos lt) (list_places mod0 ml 0 n0 total)));
     l1 \<leftarrow> (if total = 0 \<or> rp_slice_type p \<noteq> H265_B_SLICE then Some [] else
       those (map (cand_at pos neg lt) (list_places mod1 ml (if mod0 then n0 else 0) n1 total)));
     let r = p_slice_idx pic;
     Some (upd_PIC k (\<lambda>q. q\<lparr>
         p_m_aiRefPOCList0 := set_row r (l0 @ replicate (16 - length l0) 0) (p_m_aiRefPOCList0 q),
         p_m_aiRefPOCList1 := set_row r (l1 @ replicate (16 - length l1) 0) (p_m_aiRefPOCList1 q),
         p_slice_type := (if rp_slice_type p = H265_I_SLICE then 2 else if rp_slice_type p = H265_P_SLICE then 1
           else if rp_slice_type p = H265_B_SLICE then 0 else 3),
         p_RefNum_L0 := int n0, p_RefNum_L1 := int n1\<rparr>)
       (if int total > rp_sps_max_dec_pic_buffering_minus1_0 p
        then s\<lparr>hv_param := p\<lparr>rp_sps_max_dec_pic_buffering_minus1_0 := int total\<rparr>\<rparr> else s)) }"

section \<open>Picture order count\<close>

definition NAL_BLA :: int where "NAL_BLA = 16"
definition NAL_BLANT :: int where "NAL_BLANT = 17"
definition NAL_BLA_N_LP :: int where "NAL_BLA_N_LP = 18"
definition NAL_IDR :: int where "NAL_IDR = 19"
definition NAL_IDR_N_LP :: int where "NAL_IDR_N_LP = 20"
definition NAL_CRA :: int where "NAL_CRA = 21"
definition NAL_RASL_N :: int where "NAL_RASL_N = 8"
definition NAL_TFD :: int where "NAL_TFD = 9"

definition is_idr :: "int \<Rightarrow> bool" where
  "is_idr t = (t = NAL_IDR \<or> t = NAL_IDR_N_LP)"

definition is_bla :: "int \<Rightarrow> bool" where
  "is_bla t = (t = NAL_BLA \<or> t = NAL_BLANT \<or> t = NAL_BLA_N_LP)"

text \<open>The remainder of C, with the sign of the dividend.\<close>

definition hevc_crem :: "int \<Rightarrow> int \<Rightarrow> int" where
  "hevc_crem a b = a - b * cdiv a b"

definition poc_msb :: "int \<Rightarrow> int \<Rightarrow> int \<Rightarrow> int" where
  "poc_msb prev max_lsb lsb = (let
     iPrevPOClsb = hevc_crem prev max_lsb;
     iPrevPOCmsb = prev - iPrevPOClsb in
     if lsb < iPrevPOClsb \<and> cdiv max_lsb 2 \<le> iPrevPOClsb - lsb then s32 (iPrevPOCmsb + max_lsb)
     else if iPrevPOClsb < lsb \<and> cdiv max_lsb 2 < lsb - iPrevPOClsb then s32 (iPrevPOCmsb - max_lsb)
     else iPrevPOCmsb)"

text \<open>A shift into the sign bit or past it is undefined.\<close>

definition max_poc_lsb :: "h265_params \<Rightarrow> int option" where
  "max_poc_lsb p = (let n = rp_log2_max_pic_order_cnt_lsb_minus4 p + 4 in
     if n < 31 then Some (2 ^ n) else None)"

definition derive_POC :: "hevc_state \<Rightarrow> hevc_state option" where
  "derive_POC s = (let p = hv_param s; t = hv_m_nalUnitType s;
     remember = (\<lambda>s. if hv_m_temporalId s - 1 = 0 then s\<lparr>hv_iPrevTid0POC := hv_curr_POC s\<rparr> else s) in
     if is_idr t then Some (remember (s\<lparr>hv_curr_POC := 0\<rparr>))
     else do {
       max_lsb \<leftarrow> max_poc_lsb p;
       let msb = poc_msb (hv_iPrevTid0POC s) max_lsb (rp_POClsb p);
       Some (remember (s\<lparr>hv_curr_POC := s32 ((if is_bla t then 0 else msb) + rp_POClsb p)\<rparr>)) })"

text \<open>The pictures that precede a random access point in output order. The answer is true when
  the picture is skipped.\<close>

definition random_access :: "hevc_state \<Rightarrow> bool \<times> hevc_state" where
  "random_access s = (let t = hv_m_nalUnitType s in
     if hv_m_pocRandomAccess s = H265_MAX_INT then
       (False, s\<lparr>hv_m_pocRandomAccess := (if t = NAL_CRA \<or> is_bla t then hv_curr_POC s else - H265_MAX_INT)\<rparr>)
     else if is_bla t then (False, s\<lparr>hv_m_pocRandomAccess := hv_curr_POC s\<rparr>)
     else (hv_curr_POC s < hv_m_pocRandomAccess s \<and> 3 \<le> sint (hv_nal_skip_policy s) \<and>
       (t = NAL_RASL_N \<or> t = NAL_TFD), s))"

section \<open>The end of the picture before\<close>

definition mark_decoded :: "nat option \<Rightarrow> hevc_state \<Rightarrow> hevc_state" where
  "mark_decoded pic s = (case pic of
     None \<Rightarrow> s
   | Some k \<Rightarrow> (case pic_at s k of
       None \<Rightarrow> s
     | Some p \<Rightarrow> upd_PIC k (\<lambda>p. p\<lparr>p_output_mark := (\<not> p_ip_mode p \<or> p_output_mark p),
         p_recon_mark := True, p_dis_mark := True\<rparr>) (PB_skip_control p s)))"

definition hevc_pre_pic :: "h265_env \<Rightarrow> hevc_state \<Rightarrow> hevc_state option" where
  "hevc_pre_pic e s = (let
     poc = (if hv_m_ins_flag s then hv_decoded_poc s else hv_iPrevPOC s);
     s0 = (if hv_m_ins_flag s then s\<lparr>hv_decoded_poc := INVALID_POC\<rparr> else s) in
     if \<not> is_idr (hv_m_nalUnitType s) \<and> \<not> hv_res_change s then
       output_loop e (mark_decoded (get_pic_by_POC s0 poc) s0)
     else do {
       s1 \<leftarrow> (if hv_vf_pre_count s = 1 \<and> hv_first_pic_flag s = 1
         then flush_output e None (s0\<lparr>hv_first_pic_flag := 2\<rparr>)
         else flush_output e (get_pic_by_POC s0 poc) s0);
       Some (s1\<lparr>hv_res_change := False\<rparr>) })"

definition mark_error :: "nat option \<Rightarrow> hevc_state \<Rightarrow> hevc_state" where
  "mark_error k s = (case k of None \<Rightarrow> s | Some i \<Rightarrow> upd_PIC i (p_error_mark_update (\<lambda>_. True)) s)"

definition has_error :: "nat option \<Rightarrow> hevc_state \<Rightarrow> bool" where
  "has_error k s = (case k of None \<Rightarrow> False | Some i \<Rightarrow>
     (case pic_at s i of None \<Rightarrow> False | Some p \<Rightarrow> p_error_mark p))"

text \<open>Whether the picture before was decoded in full, from the number of the last coding tree
  block the hardware reached.\<close>

definition check_pic_decoded_error_pre :: "h265_env \<Rightarrow> int \<Rightarrow> hevc_state \<Rightarrow> hevc_state" where
  "check_pic_decoded_error_pre e lcu s = (if lcu < 0 then s else let
     last_lcu = hv_lcu_x_num_pre s * hv_lcu_y_num_pre s - 1;
     short = \<not> bit (par_error_handle_policy e) 5 \<and>
       (if hv_first_pic_after_recover s then lcu \<noteq> last_lcu
        else hv_lcu_x_num_pre s \<noteq> 0 \<and> hv_lcu_y_num_pre s \<noteq> 0 \<and> lcu \<noteq> 0 \<and> lcu < last_lcu);
     s1 = (if short then mark_error (hv_cur_pic s) s else s);
     s2 = (if hv_head_error_flag s then mark_error (hv_cur_pic s) s1 else s1);
     s3 = (if \<not> bit (par_error_handle_policy e) 7 \<and> hv_over_decode s then mark_error (hv_cur_pic s) s2 else s2) in
     s3\<lparr>hv_lcu_x_num_pre := hv_lcu_x_num s, hv_lcu_y_num_pre := hv_lcu_y_num s\<rparr>)"

definition check_pic_decoded_error :: "h265_env \<Rightarrow> int \<Rightarrow> hevc_state \<Rightarrow> hevc_state option" where
  "check_pic_decoded_error e lcu s = (if lcu < 0 then Some s else do {
     let short = (hv_lcu_x_num s \<noteq> 0 \<and> hv_lcu_y_num s \<noteq> 0 \<and> lcu \<noteq> 0 \<and>
       lcu < hv_lcu_x_num s * hv_lcu_y_num s - 1);
     s1 \<leftarrow> (if \<not> bit (par_error_handle_policy e) 5 \<and> hv_cur_pic s \<noteq> None then
       (let s0 = (if short then mark_error (hv_cur_pic s) s else s) in
        case pic_at s0 (the (hv_cur_pic s)) of
          None \<Rightarrow> None
        | Some c \<Rightarrow> if p_error_mark c \<and> \<not> bit (hv_i_only s) 2 \<and> p_POC c \<noteq> 0 \<and> p_slice_type c = 0 \<and>
            s32 (p_POC c + MAX_BUF_NUM) < hv_iPrevPOC s
            then flush_output e (get_pic_by_POC s0 (p_POC c)) s0 else Some s0) else Some s);
     let s2 = (if hv_head_error_flag s then mark_error (hv_cur_pic s) s1 else s1);
     Some (if \<not> bit (par_error_handle_policy e) 7 \<and> hv_over_decode s then mark_error (hv_cur_pic s) s2 else s2) })"

section \<open>The header\<close>

definition field_flag :: "h265_env \<Rightarrow> h265_params \<Rightarrow> bool" where
  "field_flag e p = (let
     st = uint (drop_bit 3 (rp_sei_frame_field_info p) AND 0xf);
     f1 = (bit (rp_profile_etc p) 2 \<and>
       \<not> (bit (rp_sei_frame_field_info p) 8 \<and> (st = 0 \<or> st = 7 \<or> st = 8)));
     f2 = (f1 \<and> par_interlace_enable e \<noteq> 0) in
     if bit (par_interlace_enable e) 8 then bit (par_interlace_enable e) 0 else f2)"

definition header_fields :: "h265_env \<Rightarrow> hevc_state \<Rightarrow> hevc_state" where
  "header_fields e s = (let p = hv_param s; f = field_flag e p;
     first = (rp_first_slice_segment_in_pic_flag p \<noteq> 0);
     adr = (if first then 0 else rp_slice_segment_address p) in
     s\<lparr>hv_sps_num_reorder_pics_0 := rp_sps_num_reorder_pics_0 p,
       hv_ip_mode := (rp_sps_num_reorder_pics_0 p = 0 \<and> \<not> hv_dual_layer s \<and> \<not> par_disable_ip_mode e),
       hv_m_temporalId := rp_m_temporalId p,
       hv_m_nalUnitType := rp_m_nalUnitType p,
       hv_interlace_flag := f,
       hv_curr_pic_struct := (if f then uint (drop_bit 3 (rp_sei_frame_field_info p) AND 0xf) else 0),
       hv_frame_field_info_present_flag := bit (rp_sei_frame_field_info p) 8,
       hv_misc_flag0 := rp_misc_flag0 p,
       hv_slice_segment_addr := adr,
       hv_slice_addr := (if first \<or> rp_dependent_slice_segment_flag p = 0 then adr else hv_slice_addr s),
       hv_iPrevPOC := hv_curr_POC s,
       hv_slice_type := (if rp_slice_type p = H265_I_SLICE then 2 else if rp_slice_type p = H265_P_SLICE then 1
         else if rp_slice_type p = H265_B_SLICE then 0 else 3),
       hv_TMVPFlag := rp_slice_temporal_mvp_enable_flag p,
       hv_isNextSliceSegment := (rp_dependent_slice_segment_flag p \<noteq> 0)\<rparr>)"

definition is_oversize_ex :: "h265_env \<Rightarrow> int \<Rightarrow> int \<Rightarrow> bool" where
  "is_oversize_ex e w h = (let max_size = (if cpu_sm1_or_later e then 8192 * 4608 else MAX_SIZE_4K) in
     w = 0 \<or> h = 0 \<or>
     (if cpu_sm1_or_later e then (if w \<ge> h then w > 8192 \<or> h > 4608 else w > 4608 \<or> h > 8192)
      else (if w \<ge> h then w > 4096 \<or> h > 2304 else w > 2304 \<or> h > 4096)) \<or>
     w < 0 \<or> h < 0 \<or> w > max_size div h)"

definition change_size :: "hevc_state \<Rightarrow> hevc_state" where
  "change_size s = (let w = rp_pic_width_in_luma_samples (hv_param s); h = rp_pic_height_in_luma_samples (hv_param s) in
     if hv_pic_w s \<noteq> w \<or> hv_pic_h s \<noteq> h then s\<lparr>hv_pic_w := w, hv_pic_h := h, hv_res_change := True\<rparr> else s)"

definition set_lcu :: "nat \<Rightarrow> hevc_state \<Rightarrow> hevc_state" where
  "set_lcu n s = (let lcu = 2 ^ n; x = lcu_num (hv_pic_w s) lcu; y = lcu_num (hv_pic_h s) lcu in
     s\<lparr>hv_lcu_size := lcu, hv_lcu_size_log2 := log2i (2 ^ n), hv_lcu_x_num := x, hv_lcu_y_num := y,
       hv_lcu_total := x * y\<rparr>)"

text \<open>The first part of the function returns a code when it is not 0.\<close>

definition header_start :: "h265_env \<Rightarrow> hevc_state \<Rightarrow> (int \<times> hevc_state) option" where
  "header_start e s0 = (let s = header_fields e s0; p = hv_param s;
     n = rp_log2_min_coding_block_size_minus3 p + 3 + rp_log2_diff_max_min_coding_block_size p in
     if is_oversize_ex e (rp_pic_width_in_luma_samples p) (rp_pic_height_in_luma_samples p) then Some (3, s)
     else let s1 = change_size s in
     if hv_bit_depth_chroma s1 > 10 \<or> hv_bit_depth_luma s1 > 10 then Some (4, s1\<lparr>hv_fatal_size_overflow := True\<rparr>)
     else if hv_pic_w s1 = 0 \<or> hv_pic_h s1 = 0 then Some (3, s1)
     else if n \<ge> 31 then None
     else do {
       s2 \<leftarrow> derive_POC (set_lcu n (pic_list_process e s1));
       let s3 = s2\<lparr>hv_RefNum_L0 := int (min_active (rp_num_ref_idx_l0_active p)),
           hv_RefNum_L1 := int (min_active (rp_num_ref_idx_l1_active p))\<rparr>;
       let (skip, s4) = random_access s3;
       Some (if skip then 1 else 0, s4) })"

definition take_new_pic :: "h265_env \<Rightarrow> hevc_state \<Rightarrow> (bool \<times> hevc_state) option" where
  "take_new_pic e s = do {
     (k, s1) \<leftarrow> h265_get_new_pic e s;
     let s2 = s1\<lparr>hv_cur_pic := k\<rparr>;
     Some (k \<noteq> None, if k \<noteq> None \<and> \<not> hv_m_ins_flag s2 then s2\<lparr>hv_over_decode := False\<rparr> else s2) }"

text \<open>The first slice segment of a picture ends the picture before and takes a new one. The
  error marks depend on the coding tree block the hardware reached.\<close>

definition header_first :: "h265_env \<Rightarrow> int \<Rightarrow> hevc_state \<Rightarrow> (int \<times> hevc_state) option" where
  "header_first e lcu s = do {
     let s1 = s\<lparr>hv_new_pic := True\<rparr>;
     let s2 = (if hv_m_ins_flag s1 then s1 else check_pic_decoded_error_pre e lcu s1);
     let s3 = (if par_stream_based e \<and> lcu \<noteq> 0 then mark_error (hv_cur_pic s2) s2 else s2);
     s4 \<leftarrow> hevc_pre_pic e (s3\<lparr>hv_first_pic_after_recover := False\<rparr>);
     (ok, s5) \<leftarrow> take_new_pic e (apply_ref_pic_set e (hv_curr_POC s4) s4);
     if ok then Some (0, s5\<lparr>hv_decoding_pic := hv_cur_pic s5\<rparr>)
     else Some (-1, s5\<lparr>hv_wait_buf := 1\<rparr>) }"

definition header_next :: "hevc_state \<Rightarrow> int \<times> hevc_state" where
  "header_next s = (case hv_cur_pic s of
     None \<Rightarrow> (3, s)
   | Some k \<Rightarrow> if hv_pic_list_init_flag s \<noteq> 3 then (3, s)
     else (0, upd_PIC k (\<lambda>p. p\<lparr>p_slice_idx := p_slice_idx p + 1\<rparr>) (s\<lparr>hv_new_pic := False\<rparr>)))"

definition header_retry :: "h265_env \<Rightarrow> hevc_state \<Rightarrow> (int \<times> hevc_state) option" where
  "header_retry e s = (if hv_wait_buf s = 1 then do {
       (ok, s1) \<leftarrow> take_new_pic e (pic_list_process e s);
       Some (if ok then (0, s1\<lparr>hv_wait_buf := 0\<rparr>) else (-1, s1)) }
     else if hv_wait_buf s = 2 then
       Some (if get_display_pic_num s > 1 then (-1, s) else (0, s\<lparr>hv_wait_buf := 0\<rparr>))
     else Some (0, s))"

definition header_pic :: "h265_env \<Rightarrow> int \<Rightarrow> hevc_state \<Rightarrow> (int \<times> hevc_state) option" where
  "header_pic e lcu s = (if hv_wait_buf s = 0 then do {
       (ret, s1) \<leftarrow> header_start e s;
       if ret \<noteq> 0 then Some (ret, s1)
       else if rp_slice_segment_address (hv_param s1) = 0 then header_first e lcu s1
       else Some (header_next s1) }
     else header_retry e s)"

section \<open>The tile and the collocated picture\<close>

definition header_tiles :: "hevc_state \<Rightarrow> hevc_state option" where
  "header_tiles s = (if hv_new_pic s then
       (if hv_lcu_size s = 0 then None else
        update_tile_info (cdiv (hv_pic_w s + hv_lcu_size s - 1) (hv_lcu_size s))
          (cdiv (hv_pic_h s + hv_lcu_size s - 1) (hv_lcu_size s)) (s\<lparr>hv_decode_idx := hv_decode_idx s + 1\<rparr>))
     else Some s)"

definition choose_tile :: "hevc_state \<Rightarrow> hevc_state" where
  "choose_tile s = (if hv_iPrevPOC s \<noteq> hv_curr_POC s then
       s\<lparr>hv_new_tile := True, hv_tile_x := 0, hv_tile_y := 0, hv_tile_y_x := 0\<rparr>
     else if hv_tile_enabled s then
       (let yx = get_tile_index s (rp_slice_segment_address (hv_param s))
             (cdiv (hv_pic_w s + hv_lcu_size s - 1) (hv_lcu_size s));
          s1 = s\<lparr>hv_tile_y_x := yx\<rparr> in
        if yx \<noteq> hv_tile_x s + 2 ^ 8 * hv_tile_y s \<and> yx \<noteq> -1 then
          s1\<lparr>hv_new_tile := True, hv_tile_x := yx mod 2 ^ 8, hv_tile_y := yx div 2 ^ 8 mod 2 ^ 8\<rparr>
        else s1\<lparr>hv_new_tile := False\<rparr>)
     else s\<lparr>hv_new_tile := False\<rparr>)"

definition enter_tile :: "hevc_state \<Rightarrow> hevc_state" where
  "enter_tile s = (if hv_new_tile s \<and> hv_tile_x s \<le> int MAX_TILE_COL_NUM - 1 \<and> hv_tile_y s \<le> int MAX_TILE_ROW_NUM - 1 then
       (let t = hv_m_tile s ! nat (hv_tile_y s) ! nat (hv_tile_x s) in
        s\<lparr>hv_tile_start_lcu_x := t_start_cu_x t, hv_tile_start_lcu_y := t_start_cu_y t,
          hv_tile_width_lcu := t_width t, hv_tile_height_lcu := t_height t\<rparr>)
     else s\<lparr>hv_new_tile := False\<rparr>)"

definition row0 :: "PIC_s \<Rightarrow> int list" where
  "row0 p = p_m_aiRefPOCList0 p ! p_slice_idx p"

definition row1 :: "PIC_s \<Rightarrow> int list" where
  "row1 p = p_m_aiRefPOCList1 p ! p_slice_idx p"

text \<open>No reference of the slice follows the picture in output order.\<close>

definition low_delay :: "hevc_state \<Rightarrow> PIC_s \<Rightarrow> bool" where
  "low_delay s c = (rp_slice_type (hv_param s) \<noteq> H265_I_SLICE \<and>
     list_all (\<lambda>i. row0 c ! i \<le> hv_curr_POC s) [0..<nat (hv_RefNum_L0 s)] \<and>
     (rp_slice_type (hv_param s) = H265_B_SLICE \<longrightarrow>
       list_all (\<lambda>i. row1 c ! i \<le> hv_curr_POC s) [0..<nat (hv_RefNum_L1 s)]))"

definition collocated :: "PIC_s \<Rightarrow> hevc_state \<Rightarrow> hevc_state" where
  "collocated c s = (let p = hv_param s; col = rp_collocated_ref_idx p;
     no = (if rp_slice_type p = H265_B_SLICE then 1 - rp_collocated_from_l0_flag p else 0) in
     s\<lparr>hv_LDCFlag := low_delay s c,
       hv_ColFromL0Flag := rp_collocated_from_l0_flag p,
       hv_plevel := rp_log2_parallel_merge_level p,
       hv_MaxNumMergeCand := 5 - rp_five_minus_max_num_merge_cand p,
       hv_list_no := no,
       hv_Col_POC := (if no = 0 then (if col < hv_RefNum_L0 s then row0 c ! nat col else INVALID_POC)
         else (if col < hv_RefNum_L1 s then row1 c ! nat col else INVALID_POC))\<rparr>)"

text \<open>A collocated picture that is missing, has an error or was never finished makes the current
  picture one with an error.\<close>

definition check_col_pic :: "nat \<Rightarrow> hevc_state \<Rightarrow> hevc_state" where
  "check_col_pic k s = (let col = get_ref_pic_by_POC s (hv_Col_POC s); s1 = s\<lparr>hv_col_pic := col\<rparr> in
     case col of
       None \<Rightarrow> mark_error (Some k) s1
     | Some j \<Rightarrow> (case pic_at s1 j of
         None \<Rightarrow> s1
       | Some q \<Rightarrow> if p_error_mark q \<or> \<not> p_dis_mark q then mark_error (Some k) (mark_error (Some j) s1)
           else if p_width q \<noteq> hv_pic_w s1 \<or> p_height q \<noteq> hv_pic_h s1 then mark_error (Some k) s1
           else s1))"

definition mc_ref :: "h265_env \<Rightarrow> nat \<Rightarrow> int \<Rightarrow> hevc_state \<Rightarrow> hevc_state" where
  "mc_ref e k poc s = (case get_ref_pic_by_POC s poc of
     None \<Rightarrow> mark_error (Some k) s
   | Some j \<Rightarrow> (case pic_at s j of
       None \<Rightarrow> s
     | Some q \<Rightarrow> if p_width q \<noteq> hv_pic_w s \<or> p_height q \<noteq> hv_pic_h s \<or>
           p_error_mark q \<and> par_ref_frame_mark_flag e
         then mark_error (Some k) s else s))"

definition config_mc_buffer :: "h265_env \<Rightarrow> nat \<Rightarrow> hevc_state \<Rightarrow> hevc_state" where
  "config_mc_buffer e k s = (case pic_at s k of
     None \<Rightarrow> s
   | Some c \<Rightarrow> (let
       s1 = (if p_slice_type c \<noteq> 2 then fold (mc_ref e k) (take (nat (p_RefNum_L0 c)) (row0 c)) s else s) in
       if p_slice_type c = 0 then fold (mc_ref e k) (take (nat (p_RefNum_L1 c)) (row1 c)) s1 else s1))"

definition skips :: "hevc_state \<Rightarrow> nat \<Rightarrow> bool" where
  "skips s k = (case pic_at s k of None \<Rightarrow> False | Some c \<Rightarrow> is_skip_decoding s c)"

definition header_refs :: "h265_env \<Rightarrow> nat \<Rightarrow> hevc_state \<Rightarrow> int \<times> hevc_state" where
  "header_refs e k s = (let
     s1 = (if hv_slice_type s = 2 then s
           else if hv_Col_POC s \<noteq> INVALID_POC then check_col_pic k s
           else s\<lparr>hv_col_pic := Some k\<rparr>) in
     if hv_slice_type s \<noteq> 2 \<and> hv_Col_POC s \<noteq> INVALID_POC \<and> skips s1 k then (2, s1)
     else let s2 = (if hv_col_pic s1 = None then s1\<lparr>hv_col_pic := Some k\<rparr> else s1);
       s3 = config_mc_buffer e k s2 in
     if skips s3 k then (2, s3)
     else if hv_tile_width_lcu s3 = 0 \<or> hv_tile_height_lcu s3 = 0 then (-1, s3)
     else if hv_slice_type s3 \<noteq> 2 \<and> bit (hv_i_only s3) 1 then (0xf, s3)
     else (0, s3))"

definition hevc_slice_segment_header_process :: "h265_env \<Rightarrow> int \<Rightarrow> hevc_state \<Rightarrow> (int \<times> hevc_state) option" where
  "hevc_slice_segment_header_process e lcu s = do {
     (ret, s1) \<leftarrow> header_pic e lcu s;
     if ret \<noteq> 0 then Some (ret, s1)
     else do {
       s2 \<leftarrow> header_tiles s1;
       let s3 = enter_tile (choose_tile s2);
       k \<leftarrow> hv_cur_pic s3;
       c \<leftarrow> pic_at s3 k;
       if MAX_SLICE_NUM \<le> p_slice_idx c then Some (3, s3)
       else do {
         s4 \<leftarrow> set_ref_pic_list k s3;
         c4 \<leftarrow> pic_at s4 k;
         Some (header_refs e k (collocated c4 s4)) } } }"

section \<open>Steps of the driver\<close>

definition backup_decode_state :: "hevc_state \<Rightarrow> hevc_state" where
  "backup_decode_state s = s\<lparr>hv_m_pocRandomAccess_bak := hv_m_pocRandomAccess s,
     hv_curr_POC_bak := hv_curr_POC s, hv_iPrevPOC_bak := hv_iPrevPOC s,
     hv_iPrevTid0POC_bak := hv_iPrevTid0POC s, hv_decode_idx_bak := hv_decode_idx s\<rparr>"

text \<open>Giving up a picture, when there is more input to try again with.\<close>

definition discard_decoding :: "h265_env \<Rightarrow> hevc_state \<Rightarrow> hevc_state" where
  "discard_decoding e s = (case hv_decoding_pic s of
     None \<Rightarrow> s
   | Some k \<Rightarrow> (put_mv_buf e k (upd_PIC k (\<lambda>p. p\<lparr>p_error_mark := False, p_output_ready := False,
         p_show_frame := False, p_output_mark := False, p_referenced := False, p_POC := INVALID_POC\<rparr>) s))
       \<lparr>hv_decoding_pic := None\<rparr>)"

definition restore_decode_state :: "h265_env \<Rightarrow> bool \<Rightarrow> hevc_state \<Rightarrow> hevc_state" where
  "restore_decode_state e more_input s = (if \<not> more_input then s
     else let s1 = discard_decoding e s in
       s1\<lparr>hv_decode_idx := hv_decode_idx_bak s, hv_m_pocRandomAccess := hv_m_pocRandomAccess_bak s,
         hv_curr_POC := hv_curr_POC_bak s, hv_iPrevPOC := hv_iPrevPOC_bak s,
         hv_iPrevTid0POC := hv_iPrevTid0POC_bak s,
         hv_pic_list_init_flag := (if hv_pic_list_init_flag s = 1 then 0 else hv_pic_list_init_flag s)\<rparr>)"

text \<open>The interrupt that brings a header, for an instance of the multi-instance decoder. A
  negative answer restores the state, a positive one drops the picture.\<close>

definition header_interrupt :: "h265_env \<Rightarrow> int \<Rightarrow> bool \<Rightarrow> hevc_state \<Rightarrow> (int \<times> hevc_state) option" where
  "header_interrupt e lcu more_input s = do {
     (ret, s1) \<leftarrow> hevc_slice_segment_header_process e lcu s;
     Some (ret, if ret < 0 then restore_decode_state e more_input (s1\<lparr>hv_wait_buf := 0\<rparr>)
       else if ret = 0 then s1
       else s1\<lparr>hv_decoded_poc := INVALID_POC, hv_decoding_pic := None\<rparr>) }"

text \<open>The interrupt at the end of a picture. While nothing has been shown (and the input is not
  a stream), or when nothing is reordered, the picture goes out at once.\<close>

definition mark_done :: "hevc_state \<Rightarrow> hevc_state" where
  "mark_done s = (case get_pic_by_POC s (hv_curr_POC s) of
     None \<Rightarrow> s
   | Some k \<Rightarrow> (case pic_at s k of
       None \<Rightarrow> s
     | Some p \<Rightarrow> upd_PIC k (\<lambda>p. p\<lparr>p_output_mark := True, p_recon_mark := True\<rparr>) (PB_skip_control p s)))"

definition output_early :: "h265_env \<Rightarrow> hevc_state \<Rightarrow> hevc_state" where
  "output_early e s = (case output_pic e True s of
     (None, s1) \<Rightarrow> s1
   | (Some k, s1) \<Rightarrow> (case pic_at s1 k of
       None \<Rightarrow> s1
     | Some p \<Rightarrow> if p_error_mark p \<and> \<not> bit (hv_ignore_bufmgr_error s1) 1 then not_ready k s1
         else if p_slice_type p \<noteq> 2 \<and> \<not> p_ip_mode p then not_ready k s1
         else (prepare_display_buf e k s1)\<lparr>hv_first_pic_flag := 1\<rparr>))"

definition picture_done :: "h265_env \<Rightarrow> int \<Rightarrow> hevc_state \<Rightarrow> hevc_state option" where
  "picture_done e lcu s = (let s1 = s\<lparr>hv_decoded_poc := hv_curr_POC s, hv_decoding_pic := None\<rparr> in
     if \<not> par_stream_based e \<and> hv_vf_pre_count s1 = 0 \<or> hv_ip_mode s1 then do {
       s2 \<leftarrow> check_pic_decoded_error e lcu (mark_done s1);
       let s3 = (if lcu = 0 \<and> hv_lcu_x_num s2 * hv_lcu_y_num s2 \<noteq> 1 then mark_error (hv_cur_pic s2) s2 else s2);
       Some (output_early e s3) }
     else Some s1)"

text \<open>An end of sequence or of bitstream NAL unit, and the end of the stream.\<close>

definition end_of_sequence :: "h265_env \<Rightarrow> int \<Rightarrow> hevc_state \<Rightarrow> hevc_state option" where
  "end_of_sequence e lcu s = do {
     s1 \<leftarrow> check_pic_decoded_error e lcu s;
     s2 \<leftarrow> flush_output e (get_pic_by_POC s1 (hv_curr_POC s1))
       (s1\<lparr>hv_curr_POC := INVALID_POC, hv_m_pocRandomAccess := H265_MAX_INT\<rparr>);
     Some ((clear_poc_flag s2)\<lparr>hv_decoded_poc := INVALID_POC, hv_decoding_pic := None\<rparr>) }"

definition end_of_stream :: "h265_env \<Rightarrow> int \<Rightarrow> hevc_state \<Rightarrow> hevc_state option" where
  "end_of_stream e lcu s = do {
     s1 \<leftarrow> check_pic_decoded_error e lcu s;
     flush_output e (get_pic_by_POC s1 (hv_curr_POC s1)) s1 }"

text \<open>Whether the decoder can be given another picture. When all pictures are taken and most of
  them not by the display, the list is flushed.\<close>

definition is_new_pic_available :: "h265_env \<Rightarrow> hevc_state \<Rightarrow> (bool \<times> hevc_state) option" where
  "is_new_pic_available e s = (if hv_pic_list_init_flag s \<noteq> 3 then Some (True, s)
     else if list_ex (\<lambda>i. case pic_at s i of None \<Rightarrow> False
         | Some p \<Rightarrow> listed p \<and> idle_pic p \<and> p_vf_ref p = 0) pic_ids then Some (True, s)
     else let n = length (filter (\<lambda>i. case pic_at s i of None \<Rightarrow> False
         | Some p \<Rightarrow> listed p \<and> \<not> p_output_ready p) pic_ids) in
       if int n \<ge> rp_sps_max_dec_pic_buffering_minus1_0 (hv_param s) + par_detect_stuck_buffer_margin e \<and>
          \<not> bit (par_error_handle_policy e) 10
       then do { s1 \<leftarrow> flush_output e None s; Some (True, s1) }
       else Some (False, s))"

end
