(* ===== verification/H265_Samples.thy ===== *)
theory H265_Samples
  imports H265_Slice
begin

text \<open>
  A small H.265 decoder on which the lemmas are evaluated: four pictures of 416 x 240 that are
  references, the buffers they hold, and the header of a slice that follows them.
\<close>

definition sample_pic :: "nat \<Rightarrow> int \<Rightarrow> PIC_s" where
  "sample_pic i poc = \<lparr>p_index = int i, p_BUF_index = int i, p_mv_buf_index = int i, p_POC = poc,
     p_decode_idx = int i + 1, p_slice_type = 0, p_RefNum_L0 = 0, p_RefNum_L1 = 0,
     p_num_reorder_pic = 0, p_referenced = True, p_output_mark = False, p_recon_mark = False,
     p_output_ready = False, p_error_mark = False, p_dis_mark = True, p_slice_idx = 0,
     p_m_aiRefPOCList0 = [replicate 16 0], p_m_aiRefPOCList1 = [replicate 16 0],
     p_long_term_ref = False, p_header_adr = 0, p_mpred_mv_wr_start_addr = 0, p_mv_size = 0,
     p_mc_y_adr = 0, p_mc_u_v_adr = 0, p_dw_y_adr = 0, p_dw_u_v_adr = 0, p_mc_canvas_y = 0,
     p_mc_canvas_u_v = 0, p_width = 416, p_height = 240, p_header_dw_adr = 0, p_pic_struct = 0,
     p_vf_ref = 0, p_double_write_mode = 0, p_ip_mode = False, p_show_frame = False\<rparr>"

definition no_buf :: BUF_s where
  "no_buf = \<lparr>b_start_adr = 0, b_size = 0, b_used_flag = False\<rparr>"

definition sample_buf :: "nat \<Rightarrow> BUF_s" where
  "sample_buf i = \<lparr>b_start_adr = 0x1000000 * int (Suc i), b_size = 0x3fc00, b_used_flag = True\<rparr>"

definition sample_params :: h265_params where
  "sample_params = \<lparr>rp_CUR_RPS = [0x3ffc, 0x3ff8, 0x2004, 0x8000], rp_num_ref_idx_l0_active = 2,
     rp_num_ref_idx_l1_active = 2, rp_slice_type = H265_B_SLICE,
     rp_slice_temporal_mvp_enable_flag = 0, rp_dependent_slice_segment_flag = 0,
     rp_slice_segment_address = 0, rp_pic_width_in_luma_samples = 416,
     rp_pic_height_in_luma_samples = 240, rp_log2_min_coding_block_size_minus3 = 0,
     rp_log2_diff_max_min_coding_block_size = 3, rp_log2_max_pic_order_cnt_lsb_minus4 = 4,
     rp_POClsb = 0, rp_collocated_from_l0_flag = 0, rp_collocated_ref_idx = 0,
     rp_log2_parallel_merge_level = 0, rp_five_minus_max_num_merge_cand = 0,
     rp_sps_num_reorder_pics_0 = 2, rp_modification_flag = 0, rp_tiles_enabled_flag = 3,
     rp_num_tile_columns_minus1 = 2, rp_num_tile_rows_minus1 = 1, rp_tile_width = [],
     rp_tile_height = [], rp_misc_flag0 = 0, rp_first_slice_segment_in_pic_flag = 1,
     rp_m_temporalId = 1, rp_m_nalUnitType = 1, rp_bit_depth = 0, rp_profile_etc = 0,
     rp_sei_frame_field_info = 0, rp_modification_list = [],
     rp_sps_max_dec_pic_buffering_minus1_0 = 4\<rparr>"

definition sample_env :: h265_env where
  "sample_env = \<lparr>bmmu_alloc = (\<lambda>i n. Some (0x100000 * int (Suc i))), vmalloc_ok = (\<lambda>i. True),
     mmu_alloc = (\<lambda>i n. 0), mmu_dw_alloc = (\<lambda>i n. 0), cpu_sm1_or_later = True,
     cpu_t5d = False, cpu_before_t3 = False, par_double_write_mode = 0,
     par_mv_buf_dynamic_alloc = False, par_dynamic_buf_num_margin = 0,
     par_fast_output_enable = 1, par_disable_ip_mode = False, par_interlace_enable = 1,
     par_dolby_meta_with_el = False, par_discard_frames = False, par_error_handle_policy = 0,
     par_ref_frame_mark_flag = True, par_stream_based = False, par_detect_stuck_buffer_margin = 0\<rparr>"

definition sample_state :: "PIC_s option list \<Rightarrow> hevc_state" where
  "sample_state pics = \<lparr>hv_m_PIC = pics, hv_m_BUF = map sample_buf [0..<4] @ replicate 28 no_buf,
     hv_m_mv_BUF = map sample_buf [0..<4] @ replicate 20 no_buf, hv_mv_buf_size = 0x3fc00,
     hv_param = sample_params, hv_cur_pic = None, hv_col_pic = None, hv_decoding_pic = None,
     hv_pre_top_pic = None, hv_pre_bot_pic = None,
     hv_newframe_q = map (\<lambda>i. \<lparr>vf_slot = i, vf_top = 0, vf_bot = 0\<rparr>) [0..<32],
     hv_display_q = [], hv_pending_q = [], hv_vf_pre_count = 2, hv_first_pic_flag = 2,
     hv_pic_list_init_flag = 3, hv_pic_w = 416, hv_pic_h = 240, hv_lcu_size = 64,
     hv_lcu_size_log2 = 6, hv_lcu_x_num = 7, hv_lcu_y_num = 4, hv_lcu_total = 28,
     hv_lcu_x_num_pre = 0, hv_lcu_y_num_pre = 0, hv_first_pic_after_recover = False,
     hv_num_tile_col = 1, hv_num_tile_row = 1, hv_tile_enabled = False, hv_tile_x = 0,
     hv_tile_y = 0, hv_tile_y_x = 0, hv_tile_start_lcu_x = 0, hv_tile_start_lcu_y = 0,
     hv_tile_width_lcu = 0, hv_tile_height_lcu = 0,
     hv_m_tile = replicate 20 (replicate 10 \<lparr>t_width = 0, t_height = 0, t_start_cu_x = 0, t_start_cu_y = 0\<rparr>),
     hv_slice_type = 0, hv_slice_addr = 0, hv_slice_segment_addr = 0, hv_interlace_flag = False,
     hv_curr_pic_struct = 0, hv_frame_field_info_present_flag = False,
     hv_sps_num_reorder_pics_0 = 2, hv_misc_flag0 = 0, hv_m_temporalId = 1, hv_m_nalUnitType = 1,
     hv_TMVPFlag = 0, hv_isNextSliceSegment = False, hv_LDCFlag = False,
     hv_m_pocRandomAccess = - H265_MAX_INT, hv_plevel = 0, hv_MaxNumMergeCand = 0,
     hv_new_pic = False, hv_new_tile = False, hv_curr_POC = 0, hv_iPrevPOC = 0,
     hv_decoded_poc = INVALID_POC, hv_iPrevTid0POC = 0, hv_list_no = 0, hv_RefNum_L0 = 0,
     hv_RefNum_L1 = 0, hv_ColFromL0Flag = 0, hv_Col_POC = 0, hv_m_pocRandomAccess_bak = 0,
     hv_curr_POC_bak = 0, hv_iPrevPOC_bak = 0, hv_iPrevTid0POC_bak = 0, hv_decode_idx_bak = 0,
     hv_decode_idx = 5, hv_wait_buf = 0, hv_ignore_bufmgr_error = 0, hv_PB_skip_mode = 0,
     hv_PB_skip_count_after_decoding = 0, hv_fatal_no_mem = False,
     hv_fatal_size_overflow = False, hv_i_only = 0, hv_ip_mode = False, hv_res_change = False,
     hv_mmu_enable = True, hv_dw_mmu_enable = False, hv_double_write_mode = 1,
     hv_bit_depth_luma = 8, hv_bit_depth_chroma = 8, hv_m_ins_flag = True, hv_dual_layer = False,
     hv_bypass_dvenl = False, hv_head_error_flag = False, hv_over_decode = False,
     hv_nal_skip_policy = 0, hv_dynamic_buf_num_margin = 0\<rparr>"

text \<open>The pictures have the counts 4, 8, 0 and 12 in decoding order.\<close>

definition sample_dec :: hevc_state where
  "sample_dec = sample_state (map Some [sample_pic 0 4, sample_pic 1 8, sample_pic 2 0, sample_pic 3 12] @ replicate 20 None)"

text \<open>The same decoder at its start: no pictures yet, room for one, and the header of an instant
  refresh picture; then with its frame buffers, and with its one picture.\<close>

definition one_pic_env :: h265_env where
  "one_pic_env = sample_env\<lparr>vmalloc_ok := (\<lambda>i. i = 0)\<rparr>"

definition sample_empty :: hevc_state where
  "sample_empty = (sample_state (replicate 24 None))\<lparr>hv_m_BUF := replicate 24 no_buf,
     hv_m_mv_BUF := replicate 24 no_buf, hv_curr_POC := INVALID_POC,
     hv_param := sample_params\<lparr>rp_m_nalUnitType := 19, rp_slice_type := H265_I_SLICE,
       rp_CUR_RPS := [0x8000], rp_tiles_enabled_flag := 0, rp_sps_max_dec_pic_buffering_minus1_0 := 0\<rparr>\<rparr>"

definition sample_idle_of :: "int list list \<Rightarrow> hevc_state" where
  "sample_idle_of rows = sample_empty\<lparr>
     hv_m_PIC := Some (zero_PIC\<lparr>p_BUF_index := 0, p_mv_buf_index := -1, p_POC := INVALID_POC, p_width := 416,
       p_height := 240, p_header_adr := 0x100000, p_dw_y_adr := 0x110000, p_dw_u_v_adr := 0x130000,
       p_double_write_mode := 1, p_m_aiRefPOCList0 := rows,
       p_m_aiRefPOCList1 := rows\<rparr>) # replicate 23 None,
     hv_m_BUF := [\<lparr>b_start_adr = 0x100000, b_size = 0x50000, b_used_flag = True\<rparr>,
       \<lparr>b_start_adr = 0x200000, b_size = 0x50000, b_used_flag = False\<rparr>,
       \<lparr>b_start_adr = 0x300000, b_size = 0x50000, b_used_flag = False\<rparr>] @ replicate 21 no_buf\<rparr>"

definition sample_idle :: hevc_state where
  "sample_idle = sample_idle_of (replicate MAX_SLICE_NUM (replicate 16 0))"

definition sample_bufs :: hevc_state where
  "sample_bufs = sample_empty\<lparr>hv_m_BUF := [\<lparr>b_start_adr = 0x100000, b_size = 0x50000, b_used_flag = False\<rparr>,
       \<lparr>b_start_adr = 0x200000, b_size = 0x50000, b_used_flag = False\<rparr>,
       \<lparr>b_start_adr = 0x300000, b_size = 0x50000, b_used_flag = False\<rparr>] @ replicate 21 no_buf\<rparr>"

end
