(* ===== verification/H265_Dpb_Correct.thy ===== *)
theory H265_Dpb_Correct
  imports H265_Samples
begin

text \<open>
  Facts about the pictures of the H.265 picture list: how the updates of the model are read
  back, which operations leave which parts of the state alone, and the loops over the list.
\<close>

section \<open>Reading updates back\<close>

named_theorems hevc_simps \<open>the pictures and fields of an updated state\<close>

lemma pic_at_upd_pic [hevc_simps]:
  "pic_at (upd_PIC i f s) j = (if j = i then map_option f (pic_at s i) else pic_at s j)"
  by (auto simp: pic_at_def upd_PIC_def nth_list_update)

lemma length_upd_pic [hevc_simps]: "length (hv_m_PIC (upd_PIC i f s)) = length (hv_m_PIC s)"
  by (simp add: upd_PIC_def)

lemma pic_at_cong: "hv_m_PIC s' = hv_m_PIC s \<Longrightarrow> pic_at s' = pic_at s"
  by (simp add: pic_at_def fun_eq_iff)

lemma pic_at_upd_mv [hevc_simps]: "pic_at (upd_mv i f s) = pic_at s"
  by (rule pic_at_cong) (simp add: upd_mv_def)

lemma pic_at_upd_buf [hevc_simps]: "pic_at (upd_BUF i f s) = pic_at s"
  by (rule pic_at_cong) (simp add: upd_BUF_def)

lemma pic_at_beyond: "length (hv_m_PIC s) \<le> i \<Longrightarrow> pic_at s i = None"
  by (simp add: pic_at_def)

lemma set_pic_ids [simp]: "set pic_ids = {..<24}"
  by (auto simp: pic_ids_def MAX_REF_PIC_NUM_def)

lemma distinct_pic_ids [simp]: "distinct pic_ids"
  by (simp add: pic_ids_def)

lemma sorted_pic_ids: "sorted_wrt (<) pic_ids"
  by (simp add: pic_ids_def)

text \<open>The rest of the state: everything but the pictures and the motion vector buffers.\<close>

definition frame_of :: "hevc_state \<Rightarrow> hevc_state" where
  "frame_of s = s\<lparr>hv_m_PIC := [], hv_m_mv_BUF := []\<rparr>"

lemma frame_of_upd_pic [hevc_simps]: "frame_of (upd_PIC i f s) = frame_of s"
  by (simp add: frame_of_def upd_PIC_def)

lemma frame_of_upd_mv [hevc_simps]: "frame_of (upd_mv i f s) = frame_of s"
  by (simp add: frame_of_def upd_mv_def)

lemma frame_of_fields:
  "hv_newframe_q (frame_of s) = hv_newframe_q s" "hv_display_q (frame_of s) = hv_display_q s"
  "hv_pending_q (frame_of s) = hv_pending_q s" "hv_vf_pre_count (frame_of s) = hv_vf_pre_count s"
  "hv_first_pic_flag (frame_of s) = hv_first_pic_flag s" "hv_param (frame_of s) = hv_param s"
  "hv_pic_w (frame_of s) = hv_pic_w s" "hv_pic_h (frame_of s) = hv_pic_h s"
  "hv_i_only (frame_of s) = hv_i_only s" "hv_dual_layer (frame_of s) = hv_dual_layer s"
  "hv_ignore_bufmgr_error (frame_of s) = hv_ignore_bufmgr_error s" "hv_sps_num_reorder_pics_0 (frame_of s) = hv_sps_num_reorder_pics_0 s"
  "hv_cur_pic (frame_of s) = hv_cur_pic s" "hv_interlace_flag (frame_of s) = hv_interlace_flag s"
  "hv_curr_POC (frame_of s) = hv_curr_POC s" "hv_decode_idx (frame_of s) = hv_decode_idx s"
  "hv_decoded_poc (frame_of s) = hv_decoded_poc s" "hv_m_BUF (frame_of s) = hv_m_BUF s"
  "hv_bypass_dvenl (frame_of s) = hv_bypass_dvenl s"
  by (simp_all add: frame_of_def)

lemma frame_ofD:
  assumes "frame_of s' = frame_of s"
  shows "hv_newframe_q s' = hv_newframe_q s" "hv_display_q s' = hv_display_q s"
    "hv_pending_q s' = hv_pending_q s" "hv_vf_pre_count s' = hv_vf_pre_count s"
    "hv_first_pic_flag s' = hv_first_pic_flag s" "hv_param s' = hv_param s"
    "hv_pic_w s' = hv_pic_w s" "hv_pic_h s' = hv_pic_h s" "hv_i_only s' = hv_i_only s"
    "hv_dual_layer s' = hv_dual_layer s" "hv_ignore_bufmgr_error s' = hv_ignore_bufmgr_error s"
    "hv_sps_num_reorder_pics_0 s' = hv_sps_num_reorder_pics_0 s" "hv_cur_pic s' = hv_cur_pic s"
    "hv_interlace_flag s' = hv_interlace_flag s" "hv_curr_POC s' = hv_curr_POC s"
    "hv_decode_idx s' = hv_decode_idx s" "hv_decoded_poc s' = hv_decoded_poc s"
    "hv_m_BUF s' = hv_m_BUF s" "hv_bypass_dvenl s' = hv_bypass_dvenl s"
  using assms frame_of_fields by metis+

section \<open>Motion vector buffers\<close>

lemma frame_of_put_mv_buf [hevc_simps]: "frame_of (put_mv_buf e i s) = frame_of s"
  by (simp add: put_mv_buf_def Let_def hevc_simps split: option.split)

lemma length_upd_mv [hevc_simps]: "length (hv_m_PIC (upd_mv i f s)) = length (hv_m_PIC s)"
  by (simp add: upd_mv_def)

lemma length_put_mv_buf [hevc_simps]: "length (hv_m_PIC (put_mv_buf e i s)) = length (hv_m_PIC s)"
  by (simp add: put_mv_buf_def Let_def hevc_simps split: option.split)

definition mv_free :: "PIC_s \<Rightarrow> PIC_s" where
  "mv_free p = (if 0 \<le> p_mv_buf_index p \<and> p_mv_buf_index p < int MAX_REF_PIC_NUM
     then p\<lparr>p_mv_buf_index := -1\<rparr> else p)"

lemma pic_at_put_mv_buf [hevc_simps]:
  "pic_at (put_mv_buf e i s) j = (if j = i then map_option mv_free (pic_at s i) else pic_at s j)"
  by (auto simp: put_mv_buf_def Let_def mv_free_def hevc_simps split: option.split)

lemma mv_free_simps [simp]:
  "p_index (mv_free p) = p_index p" "p_BUF_index (mv_free p) = p_BUF_index p"
  "p_POC (mv_free p) = p_POC p" "p_decode_idx (mv_free p) = p_decode_idx p"
  "p_slice_type (mv_free p) = p_slice_type p" "p_num_reorder_pic (mv_free p) = p_num_reorder_pic p"
  "p_referenced (mv_free p) = p_referenced p" "p_output_mark (mv_free p) = p_output_mark p"
  "p_output_ready (mv_free p) = p_output_ready p" "p_error_mark (mv_free p) = p_error_mark p"
  "p_dis_mark (mv_free p) = p_dis_mark p" "p_long_term_ref (mv_free p) = p_long_term_ref p"
  "p_width (mv_free p) = p_width p" "p_height (mv_free p) = p_height p"
  "p_pic_struct (mv_free p) = p_pic_struct p" "p_vf_ref (mv_free p) = p_vf_ref p"
  "p_ip_mode (mv_free p) = p_ip_mode p" "p_show_frame (mv_free p) = p_show_frame p"
  by (simp_all add: mv_free_def)

lemma frame_of_unreference [hevc_simps]: "frame_of (unreference e i s) = frame_of s"
  by (simp add: unreference_def hevc_simps)

lemma pic_at_unreference [hevc_simps]:
  "pic_at (unreference e i s) j = (if j = i
     then map_option (\<lambda>p. mv_free (p\<lparr>p_referenced := False\<rparr>)) (pic_at s i) else pic_at s j)"
  by (auto simp: unreference_def hevc_simps option.map_comp comp_def)

lemma length_unreference [hevc_simps]: "length (hv_m_PIC (unreference e i s)) = length (hv_m_PIC s)"
  by (simp add: unreference_def hevc_simps)

section \<open>Loops over the pictures\<close>

text \<open>A loop whose body changes only the picture at hand acts on every picture by itself.\<close>

definition for_step :: "(nat \<Rightarrow> PIC_s \<Rightarrow> hevc_state \<Rightarrow> hevc_state) \<Rightarrow> nat \<Rightarrow> hevc_state \<Rightarrow> hevc_state" where
  "for_step f i t = (case pic_at t i of None \<Rightarrow> t | Some p \<Rightarrow> if listed p then f i p t else t)"

lemma for_pics_fold: "for_pics f s = fold (for_step f) pic_ids s"
  unfolding for_pics_def for_step_def [abs_def] ..

definition local_body :: "(nat \<Rightarrow> PIC_s \<Rightarrow> hevc_state \<Rightarrow> hevc_state) \<Rightarrow> (PIC_s \<Rightarrow> PIC_s) \<Rightarrow> hevc_state \<Rightarrow> bool" where
  "local_body f g s = (\<forall>i p t. frame_of t = frame_of s \<longrightarrow> pic_at t i = Some p \<longrightarrow>
     frame_of (f i p t) = frame_of t \<and> length (hv_m_PIC (f i p t)) = length (hv_m_PIC t) \<and>
     pic_at (f i p t) = (pic_at t)(i := Some (g p)))"

lemma for_step_local:
  assumes "local_body f g s" "frame_of t = frame_of s"
  shows "frame_of (for_step f i t) = frame_of t"
    and "length (hv_m_PIC (for_step f i t)) = length (hv_m_PIC t)"
    and "pic_at (for_step f i t) = (pic_at t)(i := map_option (\<lambda>p. if listed p then g p else p) (pic_at t i))"
  using assms by (auto simp: for_step_def local_body_def fun_eq_iff split: option.split)

lemma fold_for_step:
  assumes "local_body f g s" "frame_of t = frame_of s" "distinct is"
  shows "frame_of (fold (for_step f) is t) = frame_of s \<and>
    length (hv_m_PIC (fold (for_step f) is t)) = length (hv_m_PIC t) \<and>
    (\<forall>j. pic_at (fold (for_step f) is t) j = (if j \<in> set is
       then map_option (\<lambda>p. if listed p then g p else p) (pic_at t j) else pic_at t j))"
  using assms(2,3)
proof (induction "is" arbitrary: t)
  case (Cons i "is")
  note st = for_step_local [OF assms(1) Cons.prems(1), of i]
  show ?case
    using Cons.IH [of "for_step f i t"] Cons.prems by (auto simp: st)
qed simp

lemma for_pics_local:
  assumes "local_body f g s"
  shows "frame_of (for_pics f s) = frame_of s"
    and "length (hv_m_PIC (for_pics f s)) = length (hv_m_PIC s)"
    and "pic_at (for_pics f s) j = (if j < 24
       then map_option (\<lambda>p. if listed p then g p else p) (pic_at s j) else pic_at s j)"
  using fold_for_step [OF assms refl distinct_pic_ids] by (simp_all add: for_pics_fold)

definition clear_ref :: "PIC_s \<Rightarrow> PIC_s" where
  "clear_ref p = (if p_referenced p then mv_free (p\<lparr>p_referenced := False\<rparr>) else p)"

lemma clear_referenced_local: "local_body (\<lambda>i p t. if p_referenced p then unreference e i t else t) clear_ref s"
  by (auto simp: local_body_def clear_ref_def hevc_simps)

lemma clear_referenced_flag_pics:
  "frame_of (clear_referenced_flag e s) = frame_of s"
  "length (hv_m_PIC (clear_referenced_flag e s)) = length (hv_m_PIC s)"
  "pic_at (clear_referenced_flag e s) j = (if j < 24
     then map_option (\<lambda>p. if listed p then clear_ref p else p) (pic_at s j) else pic_at s j)"
  unfolding clear_referenced_flag_def by (rule for_pics_local [OF clear_referenced_local])+

definition set_apply :: "u16 list \<Rightarrow> int \<Rightarrow> PIC_s \<Rightarrow> PIC_s" where
  "set_apply ws cur p = (if p_BUF_index p = -1 then p
     else let p1 = p\<lparr>p_long_term_ref := False\<rparr> in
     if \<not> p_referenced p \<or> p_POC p = cur then p1
     else case rps_find ws cur (p_POC p) of
       Some lt \<Rightarrow> if lt then p1\<lparr>p_long_term_ref := True\<rparr> else p1
     | None \<Rightarrow> mv_free (p1\<lparr>p_referenced := False\<rparr>))"

lemma apply_ref_local: "local_body (\<lambda>i p t. if p_BUF_index p = -1 then t
     else let t1 = upd_PIC i (p_long_term_ref_update (\<lambda>_. False)) t in
       if \<not> p_referenced p \<or> p_POC p = cur then t1
       else case rps_find ws cur (p_POC p) of
         Some lt \<Rightarrow> if lt then upd_PIC i (p_long_term_ref_update (\<lambda>_. True)) t1 else t1
       | None \<Rightarrow> unreference e i t1) (set_apply ws cur) s"
  by (auto simp: local_body_def set_apply_def Let_def hevc_simps fun_eq_iff split: option.split)

lemma apply_ref_pic_set_pics:
  "frame_of (apply_ref_pic_set e cur s) = frame_of s"
  "length (hv_m_PIC (apply_ref_pic_set e cur s)) = length (hv_m_PIC s)"
  "pic_at (apply_ref_pic_set e cur s) j = (if j < 24 then map_option (\<lambda>p. if listed p
     then set_apply (take 16 (rp_CUR_RPS (hv_param s))) cur p else p) (pic_at s j) else pic_at s j)"
  unfolding apply_ref_pic_set_def by (rule for_pics_local [OF apply_ref_local])+

section \<open>The reference picture set\<close>

text \<open>The entries before the end mark, and the picture order counts they name.\<close>

definition rps_entries :: "h265_params \<Rightarrow> u16 list" where
  "rps_entries p = takeWhile (\<lambda>w. w \<noteq> RPS_END) (take 16 (rp_CUR_RPS p))"

lemma rps_find_iff:
  "rps_find ws cur poc = map_option (\<lambda>w. bit w RPS_LT_BIT)
     (find (\<lambda>w. rps_poc cur w = poc) (takeWhile (\<lambda>w. w \<noteq> RPS_END) ws))"
  by (induction ws) auto

lemma rps_find_None:
  "rps_find (take 16 (rp_CUR_RPS p)) cur poc = None \<longleftrightarrow> poc \<notin> rps_poc cur ` set (rps_entries p)"
  by (auto simp: rps_find_iff rps_entries_def find_None_iff)

text \<open>The motion vector buffers. A buffer given back is freed in the dynamic mode and else marked
  as not used; the update gives back exactly the buffers of the pictures it drops.\<close>

definition given_back :: "h265_env \<Rightarrow> BUF_s \<Rightarrow> BUF_s" where
  "given_back e b = (if par_mv_buf_dynamic_alloc e then free_BUF b
     else if b_start_adr b \<noteq> 0 then b\<lparr>b_used_flag := False\<rparr> else b)"

definition dropped :: "h265_params \<Rightarrow> int \<Rightarrow> PIC_s \<Rightarrow> bool" where
  "dropped pm cur p \<longleftrightarrow> has_buf p \<and> p_referenced p \<and> p_POC p \<noteq> cur \<and>
     p_POC p \<notin> rps_poc cur ` set (rps_entries pm)"

lemma given_back_idem [simp]: "given_back e (given_back e b) = given_back e b"
  by (simp add: given_back_def free_BUF_def)

lemma unused_id: "\<not> b_used_flag b \<Longrightarrow> b\<lparr>b_used_flag := False\<rparr> = b"
  by (cases b) simp

lemma put_mv_buf_bufs:
  assumes "pic_at s i = Some p"
  shows "hv_m_mv_BUF (put_mv_buf e i s) =
    (if 0 \<le> p_mv_buf_index p \<and> p_mv_buf_index p < 24
     then (hv_m_mv_BUF s)[nat (p_mv_buf_index p) := given_back e (hv_m_mv_BUF s ! nat (p_mv_buf_index p))]
     else hv_m_mv_BUF s)"
  using assms by (auto simp: put_mv_buf_def Let_def upd_mv_def upd_PIC_def given_back_def MAX_REF_PIC_NUM_def
      unused_id)

definition apply_body :: "h265_env \<Rightarrow> u16 list \<Rightarrow> int \<Rightarrow> nat \<Rightarrow> PIC_s \<Rightarrow> hevc_state \<Rightarrow> hevc_state" where
  "apply_body e ws cur i p t = (if p_BUF_index p = -1 then t
     else let t1 = upd_PIC i (p_long_term_ref_update (\<lambda>_. False)) t in
       if \<not> p_referenced p \<or> p_POC p = cur then t1
       else case rps_find ws cur (p_POC p) of
         Some lt \<Rightarrow> if lt then upd_PIC i (p_long_term_ref_update (\<lambda>_. True)) t1 else t1
       | None \<Rightarrow> unreference e i t1)"

lemma apply_step_bufs:
  assumes "j < length (hv_m_mv_BUF t)"
  shows "hv_m_mv_BUF (for_step (apply_body e (take 16 (rp_CUR_RPS pm)) cur) i t) ! j =
    (if \<exists>p. pic_at t i = Some p \<and> dropped pm cur p \<and> p_mv_buf_index p = int j \<and> j < 24
     then given_back e (hv_m_mv_BUF t ! j) else hv_m_mv_BUF t ! j)"
    and "length (hv_m_mv_BUF (for_step (apply_body e (take 16 (rp_CUR_RPS pm)) cur) i t)) = length (hv_m_mv_BUF t)"
proof -
  have u: "hv_m_mv_BUF (upd_PIC i f w) = hv_m_mv_BUF w" for f w
    by (simp add: upd_PIC_def)
  have put: "hv_m_mv_BUF (put_mv_buf e i (upd_PIC i g (upd_PIC i f t))) =
    (if 0 \<le> p_mv_buf_index p \<and> p_mv_buf_index p < 24
     then (hv_m_mv_BUF t)[nat (p_mv_buf_index p) := given_back e (hv_m_mv_BUF t ! nat (p_mv_buf_index p))]
     else hv_m_mv_BUF t)"
    if "pic_at t i = Some p" "f = p_long_term_ref_update (\<lambda>_. False)" "g = p_referenced_update (\<lambda>_. False)" for p f g
    using put_mv_buf_bufs [of "upd_PIC i g (upd_PIC i f t)" i] that by (simp add: hevc_simps u)
  show "hv_m_mv_BUF (for_step (apply_body e (take 16 (rp_CUR_RPS pm)) cur) i t) ! j =
    (if \<exists>p. pic_at t i = Some p \<and> dropped pm cur p \<and> p_mv_buf_index p = int j \<and> j < 24
     then given_back e (hv_m_mv_BUF t ! j) else hv_m_mv_BUF t ! j)"
    using assms by (auto simp: for_step_def apply_body_def Let_def u unreference_def put dropped_def has_buf_def
        listed_def rps_find_None [symmetric] nth_list_update split: option.split)
  show "length (hv_m_mv_BUF (for_step (apply_body e (take 16 (rp_CUR_RPS pm)) cur) i t)) = length (hv_m_mv_BUF t)"
    by (auto simp: for_step_def apply_body_def Let_def u unreference_def put split: option.split)
qed

lemma apply_fold_bufs:
  assumes "distinct is" "j < length (hv_m_mv_BUF t)"
  shows "hv_m_mv_BUF (fold (for_step (apply_body e (take 16 (rp_CUR_RPS pm)) cur)) is t) ! j =
    (if \<exists>i\<in>set is. \<exists>p. pic_at t i = Some p \<and> dropped pm cur p \<and> p_mv_buf_index p = int j \<and> j < 24
     then given_back e (hv_m_mv_BUF t ! j) else hv_m_mv_BUF t ! j)"
  using assms
proof (induction "is" arbitrary: t)
  case (Cons i "is")
  let ?f = "apply_body e (take 16 (rp_CUR_RPS pm)) cur"
  let ?t = "for_step ?f i t"
  have "local_body ?f (set_apply (take 16 (rp_CUR_RPS pm)) cur) t"
    using apply_ref_local unfolding apply_body_def [abs_def] by simp
  then have at: "pic_at ?t k = pic_at t k" if "k \<in> set is" for k
    using for_step_local(3) [of ?f _ t t i] that Cons.prems(1) by auto
  show ?case
    using Cons.IH [of ?t] Cons.prems apply_step_bufs [OF Cons.prems(2), of e pm cur i]
    by (auto simp: at)
qed simp

lemma apply_ref_pic_set_bufs:
  assumes "j < length (hv_m_mv_BUF s)"
  shows "hv_m_mv_BUF (apply_ref_pic_set e cur s) ! j =
    (if \<exists>i<24. \<exists>p. pic_at s i = Some p \<and> dropped (hv_param s) cur p \<and> p_mv_buf_index p = int j \<and> j < 24
     then given_back e (hv_m_mv_BUF s ! j) else hv_m_mv_BUF s ! j)"
proof -
  have "apply_ref_pic_set e cur s = fold (for_step (apply_body e (take 16 (rp_CUR_RPS (hv_param s))) cur)) pic_ids s"
    unfolding apply_ref_pic_set_def for_pics_fold apply_body_def [abs_def] ..
  then show ?thesis
    using apply_fold_bufs [OF distinct_pic_ids assms] by auto
qed

text \<open>C31. The update of the references keeps of the earlier pictures exactly those whose picture
  order count one of the entries of the reference picture set names, and takes a picture for
  long-term use exactly when the first entry that names it is a long-term one; a picture
  that is dropped lets go of its motion vector buffer, and nothing else of a picture
  changes. Of the motion vector buffers exactly those of the dropped pictures are given back:
  freed in the dynamic mode, no longer marked as used in the static mode.\<close>

theorem apply_ref_pic_set_exact:
  assumes i: "i < 24" and p: "pic_at s i = Some p" and buf: "has_buf p" and other: "p_POC p \<noteq> cur"
  shows "\<exists>q. pic_at (apply_ref_pic_set e cur s) i = Some q \<and>
    p_referenced q = (p_referenced p \<and> p_POC p \<in> rps_poc cur ` set (rps_entries (hv_param s))) \<and>
    p_long_term_ref q = (p_referenced q \<and> (\<exists>w. find (\<lambda>w. rps_poc cur w = p_POC p) (rps_entries (hv_param s)) = Some w
      \<and> bit w RPS_LT_BIT)) \<and>
    (p_referenced p \<and> \<not> p_referenced q \<and> p_mv_buf_index p < 24 \<longrightarrow> p_mv_buf_index q < 0) \<and>
    q = p\<lparr>p_referenced := p_referenced q, p_long_term_ref := p_long_term_ref q,
      p_mv_buf_index := p_mv_buf_index q\<rparr> \<and>
    (\<forall>j<length (hv_m_mv_BUF s). hv_m_mv_BUF (apply_ref_pic_set e cur s) ! j =
      (if \<exists>k<24. \<exists>r. pic_at s k = Some r \<and> dropped (hv_param s) cur r \<and> p_mv_buf_index r = int j \<and> j < 24
       then (if par_mv_buf_dynamic_alloc e then free_BUF (hv_m_mv_BUF s ! j)
             else if b_start_adr (hv_m_mv_BUF s ! j) \<noteq> 0 then (hv_m_mv_BUF s ! j)\<lparr>b_used_flag := False\<rparr>
             else hv_m_mv_BUF s ! j)
       else hv_m_mv_BUF s ! j))"
proof -
  let ?ws = "take 16 (rp_CUR_RPS (hv_param s))"
  let ?q = "set_apply ?ws cur p"
  have at: "pic_at (apply_ref_pic_set e cur s) i = Some ?q"
    using i p buf by (simp add: apply_ref_pic_set_pics has_buf_def listed_def)
  have "\<exists>q. pic_at (apply_ref_pic_set e cur s) i = Some q \<and>
    p_referenced q = (p_referenced p \<and> p_POC p \<in> rps_poc cur ` set (rps_entries (hv_param s))) \<and>
    p_long_term_ref q = (p_referenced q \<and> (\<exists>w. find (\<lambda>w. rps_poc cur w = p_POC p) (rps_entries (hv_param s)) = Some w
      \<and> bit w RPS_LT_BIT)) \<and>
    (p_referenced p \<and> \<not> p_referenced q \<and> p_mv_buf_index p < 24 \<longrightarrow> p_mv_buf_index q < 0) \<and>
    q = p\<lparr>p_referenced := p_referenced q, p_long_term_ref := p_long_term_ref q,
      p_mv_buf_index := p_mv_buf_index q\<rparr>"
  proof (cases "p_referenced p")
    case False
    then show ?thesis
      using at buf other by (simp add: set_apply_def Let_def has_buf_def)
  next
    case ref: True
    show ?thesis
    proof (cases "rps_find ?ws cur (p_POC p)")
      case None
      then show ?thesis
        using at ref buf other rps_find_None [of "hv_param s" cur "p_POC p"]
        by (simp add: set_apply_def Let_def has_buf_def mv_free_def MAX_REF_PIC_NUM_def)
    next
      case (Some lt)
      then have "p_POC p \<in> rps_poc cur ` set (rps_entries (hv_param s))"
        using rps_find_None [of "hv_param s" cur "p_POC p"] by auto
      moreover have "lt = (\<exists>w. find (\<lambda>w. rps_poc cur w = p_POC p) (rps_entries (hv_param s)) = Some w
          \<and> bit w RPS_LT_BIT)"
        using Some by (auto simp: rps_find_iff rps_entries_def)
      ultimately show ?thesis
        using at ref buf other Some by (simp add: set_apply_def Let_def has_buf_def)
    qed
  qed
  then show ?thesis
    using apply_ref_pic_set_bufs [of _ s e cur] unfolding given_back_def by blast
qed

text \<open>The pictures with counts 4 and 0 are dropped and their buffers given back; the pictures
  with counts 8 and 12 keep theirs.\<close>

lemma apply_ref_pic_set_exact_witness:
  "\<exists>q. pic_at (apply_ref_pic_set sample_env 16 sample_dec) 0 = Some q \<and> \<not> p_referenced q \<and> p_mv_buf_index q < 0 \<and>
    b_used_flag (hv_m_mv_BUF sample_dec ! 0) \<and>
    \<not> b_used_flag (hv_m_mv_BUF (apply_ref_pic_set sample_env 16 sample_dec) ! 0) \<and>
    b_used_flag (hv_m_mv_BUF (apply_ref_pic_set sample_env 16 sample_dec) ! 1)"
proof -
  let ?t = "apply_ref_pic_set sample_env 16 sample_dec"
  have at: "pic_at sample_dec k = (if k < 4 then Some (sample_pic k ([4, 8, 0, 12] ! k)) else None)" for k
    by (auto simp: pic_at_def sample_dec_def sample_state_def nth_append less_Suc_eq numeral_2_eq_2 numeral_3_eq_3
        numeral_eq_Suc nth_Cons')
  let ?p = "sample_pic 0 4"
  have h: "(0 :: nat) < 24" "pic_at sample_dec 0 = Some ?p" "has_buf ?p" "p_POC ?p \<noteq> 16" "p_referenced ?p"
    "p_mv_buf_index ?p = 0"
    by (simp_all add: at sample_pic_def has_buf_def)
  have pocs: "4 \<notin> rps_poc 16 ` set (rps_entries (hv_param sample_dec))"
    "8 \<in> rps_poc 16 ` set (rps_entries (hv_param sample_dec))"
    by code_simp+
  have d0: "dropped (hv_param sample_dec) 16 ?p"
    using pocs(1) h by (simp add: dropped_def) (simp add: sample_pic_def)
  have d1: "\<not> (\<exists>k<24. \<exists>r. pic_at sample_dec k = Some r \<and> dropped (hv_param sample_dec) 16 r \<and>
      p_mv_buf_index r = int 1 \<and> (1 :: nat) < 24)"
    using pocs(2) by (auto simp: at dropped_def sample_pic_def split: if_splits)
  have mv: "length (hv_m_mv_BUF sample_dec) = 24" "hv_m_mv_BUF sample_dec ! 0 = sample_buf 0"
    "hv_m_mv_BUF sample_dec ! 1 = sample_buf 1" "\<not> par_mv_buf_dynamic_alloc sample_env"
    by (simp_all add: sample_dec_def sample_state_def nth_append sample_env_def)
  obtain q where q: "pic_at ?t 0 = Some q" "p_referenced q = (p_referenced ?p \<and> p_POC ?p \<in> rps_poc 16 ` set (rps_entries (hv_param sample_dec)))"
    "p_referenced ?p \<and> \<not> p_referenced q \<and> p_mv_buf_index ?p < 24 \<longrightarrow> p_mv_buf_index q < 0"
    and bufs: "\<forall>j<length (hv_m_mv_BUF sample_dec). hv_m_mv_BUF ?t ! j =
      (if \<exists>k<24. \<exists>r. pic_at sample_dec k = Some r \<and> dropped (hv_param sample_dec) 16 r \<and> p_mv_buf_index r = int j \<and> j < 24
       then (if par_mv_buf_dynamic_alloc sample_env then free_BUF (hv_m_mv_BUF sample_dec ! j)
             else if b_start_adr (hv_m_mv_BUF sample_dec ! j) \<noteq> 0 then (hv_m_mv_BUF sample_dec ! j)\<lparr>b_used_flag := False\<rparr>
             else hv_m_mv_BUF sample_dec ! j)
       else hv_m_mv_BUF sample_dec ! j)"
    using apply_ref_pic_set_exact [OF h(1,2,3,4), of sample_env] by (elim exE conjE) (rule that; assumption)
  have "p_POC ?p = 4"
    by (simp add: sample_pic_def)
  then have "\<not> p_referenced q" "p_mv_buf_index q < 0"
    using q(2,3) pocs(1) h by simp_all
  moreover have "hv_m_mv_BUF ?t ! 0 = (sample_buf 0)\<lparr>b_used_flag := False\<rparr>"
  proof -
    have "\<exists>k<24. \<exists>r. pic_at sample_dec k = Some r \<and> dropped (hv_param sample_dec) 16 r \<and> p_mv_buf_index r = int 0 \<and>
        (0 :: nat) < 24"
      by (rule exI [of _ 0]) (use h d0 in simp)
    then show ?thesis
      using bufs [rule_format, of 0] mv by (simp only: if_True) (simp add: sample_buf_def)
  qed
  moreover have "hv_m_mv_BUF ?t ! 1 = sample_buf 1"
  proof -
    have "hv_m_mv_BUF ?t ! 1 = hv_m_mv_BUF sample_dec ! 1"
      using bufs [rule_format, of 1] mv(1) unfolding if_not_P [OF d1] by simp
    then show ?thesis
      using mv(3) by simp
  qed
  ultimately show ?thesis
    using q(1) mv by (simp add: sample_buf_def)
qed

section \<open>Selection loops\<close>

text \<open>The searches of the list all keep the best candidate so far.\<close>

definition pick :: "('a \<Rightarrow> 'a \<Rightarrow> bool) \<Rightarrow> 'a \<Rightarrow> 'a option \<Rightarrow> 'a option" where
  "pick b x r = (case r of None \<Rightarrow> Some x | Some y \<Rightarrow> if b x y then Some x else Some y)"

definition cand :: "(PIC_s \<Rightarrow> bool) \<Rightarrow> hevc_state \<Rightarrow> nat list \<Rightarrow> (nat \<times> PIC_s) list" where
  "cand P s is = concat (map (\<lambda>i. case pic_at s i of Some p \<Rightarrow> if P p then [(i, p)] else [] | None \<Rightarrow> []) is)"

lemma cand_simps [simp]:
  "cand P s [] = []"
  "cand P s (i # is) = (case pic_at s i of Some p \<Rightarrow> if P p then (i, p) # cand P s is else cand P s is
     | None \<Rightarrow> cand P s is)"
  by (simp_all add: cand_def split: option.split)

lemma set_cand: "set (cand P s is) = {(i, p). i \<in> set is \<and> pic_at s i = Some p \<and> P p}"
  by (induction "is") (auto split: option.split)

lemma newest_eq: "newest P s is r = fold (pick (\<lambda>x y. p_decode_idx (snd y) < p_decode_idx (snd x)))
    (cand (\<lambda>p. has_buf p \<and> P p) s is) r"
  by (induction P s "is" r rule: newest.induct) (auto simp: pick_def split: option.split)

lemma choose_pic_eq: "choose_pic s is r = fold (pick (\<lambda>x y. better_pic (snd x) (snd y)))
    (cand (\<lambda>p. listed p \<and> usable_pic s p) s is) r"
  by (induction s "is" r rule: choose_pic.induct) (auto simp: pick_def split: option.split)

lemma first_output_eq: "first_output s is r = fold (pick (\<lambda>x y. out_before (snd x) (snd y)))
    (cand (\<lambda>p. in_output p \<and> p_output_mark p) s is) r"
  by (induction s "is" r rule: first_output.induct) (auto simp: pick_def split: option.split)

lemma first_decoded_eq: "first_decoded s is r =
    fold (pick (\<lambda>x y. p_decode_idx (snd x) < p_decode_idx (snd y)))
    (cand (\<lambda>p. in_output p \<and> p_output_mark p) s is) r"
  by (induction s "is" r rule: first_decoded.induct) (auto simp: pick_def split: option.split)

lemma fold_pick_mem: "fold (pick b) xs r = Some x \<Longrightarrow> x \<in> set xs \<or> r = Some x"
  by (induction xs arbitrary: r) (auto simp: pick_def split: option.splits if_splits)

lemma fold_pick_Some: "fold (pick b) xs (Some y) \<noteq> None"
  by (induction xs arbitrary: y) (auto simp: pick_def)

lemma fold_pick_None: "fold (pick b) xs None = None \<longleftrightarrow> xs = []"
  using fold_pick_Some [of b] by (cases xs) (auto simp: pick_def)

lemma fold_pick_chain:
  assumes "transp b" "fold (pick b) xs (Some y) = Some x"
  shows "x = y \<or> b x y"
  using assms(2)
proof (induction xs arbitrary: y)
  case (Cons z xs)
  have "pick b z (Some y) = Some (if b z y then z else y)"
    by (simp add: pick_def)
  with Cons.prems have "fold (pick b) xs (Some (if b z y then z else y)) = Some x"
    by simp
  from Cons.IH [OF this] show ?case
    using assms(1) by (auto simp: transp_def split: if_splits)
qed simp

lemma fold_pick_best:
  assumes b: "transp b" "irreflp b" and x: "fold (pick b) xs r = Some x"
    and z: "z \<in> set xs \<or> r = Some z"
  shows "\<not> b z x"
  using x z
proof (induction xs arbitrary: r)
  case Nil
  then show ?case
    using b(2) by (auto simp: irreflp_def)
next
  case (Cons y xs)
  have go: "fold (pick b) xs (pick b y r) = Some x"
    using Cons.prems(1) by simp
  show ?case
  proof (cases "z \<in> set xs")
    case True
    then show ?thesis
      using Cons.IH [OF go] by simp
  next
    case False
    then have z': "z = y \<or> r = Some z"
      using Cons.prems(2) by auto
    have "pick b y r \<noteq> None"
      by (simp add: pick_def split: option.split)
    then obtain w where w: "pick b y r = Some w"
      by blast
    have "x = w \<or> b x w"
      using fold_pick_chain [OF b(1)] go w by simp
    moreover have "z = w \<or> b w z \<or> \<not> b z w"
      using z' w by (auto simp: pick_def split: option.splits if_splits)
    moreover have "\<not> b z w"
      using z' w b by (auto simp: pick_def transp_def irreflp_def split: option.splits if_splits)
    ultimately show ?thesis
      using b(1) by (auto simp: transp_def)
  qed
qed

lemma out_before_order: "transp (\<lambda>x y. out_before (snd x) (snd y))" "irreflp (\<lambda>x y. out_before (snd x) (snd y))"
  by (auto simp: transp_def irreflp_def out_before_def)

end
