(* ===== verification/H265_Output_Correct.thy ===== *)
theory H265_Output_Correct
  imports H265_Dpb_Correct
begin

text \<open>
  Facts about the output side of the H.265 decoder: what the display changes of a picture, the
  order in which pictures leave the list, that a flush ends for a stream of one layer and
  leaves nothing behind, and that for two layers it need not end.
\<close>

section \<open>What the display leaves alone\<close>

text \<open>Everything but the marks of the display on a picture, the frame queues and the count of
  frames sent.\<close>

definition core :: "PIC_s \<Rightarrow> PIC_s" where
  "core p = p\<lparr>p_vf_ref := 0, p_output_ready := False, p_show_frame := False\<rparr>"

definition outer :: "hevc_state \<Rightarrow> hevc_state" where
  "outer s = s\<lparr>hv_m_PIC := map (map_option core) (hv_m_PIC s), hv_newframe_q := [], hv_display_q := [],
     hv_pending_q := [], hv_vf_pre_count := 0, hv_pre_top_pic := None, hv_pre_bot_pic := None\<rparr>"

named_theorems outer_simps \<open>steps of the display leave the rest of the state alone\<close>

lemma outer_upd_pic:
  assumes "\<And>p. core (f p) = core p"
  shows "outer (upd_PIC i f s) = outer s"
proof -
  have "map_option core (map_option f x) = map_option core x" for x
    using assms by (cases x) simp_all
  then have "map (map_option core) ((hv_m_PIC s)[i := map_option f (hv_m_PIC s ! i)]) =
      map (map_option core) (hv_m_PIC s)"
    by (cases "i < length (hv_m_PIC s)")
      (simp_all add: map_update list_update_same_conv list_update_beyond)
  then show ?thesis
    by (simp add: outer_def upd_PIC_def)
qed

lemma outer_queues [outer_simps]:
  "outer (s\<lparr>hv_newframe_q := a\<rparr>) = outer s" "outer (s\<lparr>hv_display_q := a\<rparr>) = outer s"
  "outer (s\<lparr>hv_pending_q := a\<rparr>) = outer s" "outer (s\<lparr>hv_vf_pre_count := n\<rparr>) = outer s"
  "outer (s\<lparr>hv_pre_top_pic := k\<rparr>) = outer s" "outer (s\<lparr>hv_pre_bot_pic := k\<rparr>) = outer s"
  by (simp_all add: outer_def)

lemma outer_display_ops [outer_simps]:
  "outer (count_vf n s) = outer s" "outer (to_display v s) = outer s"
  "outer (put_vf_to_display_q v s) = outer s" "outer (put_pending v s) = outer s"
  "outer (count_first s) = outer s" "outer (set_pre b k s) = outer s"
  by (simp_all add: count_vf_def to_display_def put_vf_to_display_q_def put_pending_def count_first_def
      set_pre_def outer_simps)

lemma outer_pic_ops [outer_simps]:
  "outer (set_vf_ref k n s) = outer s" "outer (drop_field i s) = outer s"
  "outer (not_ready i s) = outer s" "outer (post_prepare_process e i s) = outer s"
  by (simp_all add: set_vf_ref_def drop_field_def not_ready_def post_prepare_process_def outer_upd_pic core_def)

definition one_less :: "PIC_s \<Rightarrow> PIC_s" where
  "one_less p = (if p_vf_ref p = 1 then p\<lparr>p_vf_ref := 0, p_output_ready := False, p_show_frame := False\<rparr>
     else p\<lparr>p_vf_ref := p_vf_ref p - 1\<rparr>)"

lemma release_field_eq: "release_field i s = (if i < 24 then
     (case pic_at s i of Some p \<Rightarrow> if 0 < p_vf_ref p then upd_PIC i one_less s else s | None \<Rightarrow> s) else s)"
  by (simp add: release_field_def MAX_REF_PIC_NUM_def one_less_def [abs_def] split: option.split)

lemma outer_one_less [outer_simps]: "outer (upd_PIC k one_less s) = outer s"
  by (rule outer_upd_pic) (simp add: core_def one_less_def)

lemma outer_release_field [outer_simps]: "outer (release_field i s) = outer s"
  by (simp add: release_field_eq outer_simps split: option.split)

lemma outer_vf_put [outer_simps]: "outer (vh265_vf_put v s) = outer s"
  by (simp add: vh265_vf_put_def outer_simps)

lemma outer_drop_pending [outer_simps]: "outer (snd (drop_pending s)) = outer s"
  by (simp add: drop_pending_def Let_def outer_simps split: list.split)

lemma outer_one_more [outer_simps]: "outer (upd_PIC k (\<lambda>p. p\<lparr>p_vf_ref := p_vf_ref p + 1\<rparr>) s) = outer s"
  by (rule outer_upd_pic) (simp add: core_def)

lemma outer_pair_pending [outer_simps]: "outer (pair_pending k b s) = outer s"
  by (cases "hv_pending_q s"; cases "pic_at s k") (simp_all add: pair_pending_def outer_simps)

lemma outer_process_pending [outer_simps]: "outer (process_pending_vframe k b s) = outer s"
  by (simp add: process_pending_vframe_def split_beta outer_simps split: option.split)

lemma outer_post [outer_simps]:
  "outer (snd (post_two k v s)) = outer s" "outer (snd (post_three k v s)) = outer s"
  "outer (snd (post_pair_before k p v s)) = outer s" "outer (snd (post_pair_after k p v s)) = outer s"
  "outer (snd (post_single k p v s)) = outer s"
  by (simp_all add: post_two_def post_three_def post_pair_before_def post_pair_after_def post_single_def
      Let_def outer_simps split: list.split)

lemma outer_post_video_frame [outer_simps]: "outer (snd (post_video_frame k s)) = outer s"
  by (simp add: post_video_frame_def Let_def outer_simps split: list.split option.split)

lemma outer_prepare_display_buf [outer_simps]: "outer (prepare_display_buf e k s) = outer s"
  by (simp add: prepare_display_buf_def outer_simps)

lemma outer_show_or_recycle [outer_simps]: "outer (show_or_recycle e k s) = outer s"
  by (simp add: show_or_recycle_def outer_simps split: option.split)

lemma outer_pics:
  assumes "outer s' = outer s"
  shows "map_option core (pic_at s' i) = map_option core (pic_at s i)"
    and "length (hv_m_PIC s') = length (hv_m_PIC s)"
proof -
  have m: "map (map_option core) (hv_m_PIC s') = map (map_option core) (hv_m_PIC s)"
    using arg_cong [OF assms, of hv_m_PIC] by (simp add: outer_def)
  then show l: "length (hv_m_PIC s') = length (hv_m_PIC s)"
    by (metis length_map)
  show "map_option core (pic_at s' i) = map_option core (pic_at s i)"
    using arg_cong [OF m, of "\<lambda>xs. xs ! i"] l
    by (cases "i < length (hv_m_PIC s)") (simp_all add: pic_at_def)
qed

lemma outer_fields:
  "hv_first_pic_flag (outer s) = hv_first_pic_flag s" "hv_param (outer s) = hv_param s"
  "hv_pic_w (outer s) = hv_pic_w s" "hv_pic_h (outer s) = hv_pic_h s"
  "hv_i_only (outer s) = hv_i_only s" "hv_dual_layer (outer s) = hv_dual_layer s"
  "hv_ignore_bufmgr_error (outer s) = hv_ignore_bufmgr_error s" "hv_sps_num_reorder_pics_0 (outer s) = hv_sps_num_reorder_pics_0 s"
  "hv_cur_pic (outer s) = hv_cur_pic s" "hv_interlace_flag (outer s) = hv_interlace_flag s"
  "hv_curr_POC (outer s) = hv_curr_POC s" "hv_decode_idx (outer s) = hv_decode_idx s"
  "hv_decoded_poc (outer s) = hv_decoded_poc s" "hv_m_BUF (outer s) = hv_m_BUF s"
  "hv_m_mv_BUF (outer s) = hv_m_mv_BUF s" "hv_bypass_dvenl (outer s) = hv_bypass_dvenl s"
  by (simp_all add: outer_def)

lemma outerD:
  assumes "outer s' = outer s"
  shows "hv_first_pic_flag s' = hv_first_pic_flag s" "hv_param s' = hv_param s"
    "hv_pic_w s' = hv_pic_w s" "hv_pic_h s' = hv_pic_h s" "hv_i_only s' = hv_i_only s"
    "hv_dual_layer s' = hv_dual_layer s" "hv_ignore_bufmgr_error s' = hv_ignore_bufmgr_error s"
    "hv_sps_num_reorder_pics_0 s' = hv_sps_num_reorder_pics_0 s" "hv_cur_pic s' = hv_cur_pic s"
    "hv_interlace_flag s' = hv_interlace_flag s" "hv_curr_POC s' = hv_curr_POC s"
    "hv_decode_idx s' = hv_decode_idx s" "hv_decoded_poc s' = hv_decoded_poc s"
    "hv_m_BUF s' = hv_m_BUF s" "hv_m_mv_BUF s' = hv_m_mv_BUF s" "hv_bypass_dvenl s' = hv_bypass_dvenl s"
  using assms outer_fields by metis+

lemma core_fields [simp]:
  "p_index (core p) = p_index p" "p_BUF_index (core p) = p_BUF_index p"
  "p_POC (core p) = p_POC p" "p_decode_idx (core p) = p_decode_idx p"
  "p_output_mark (core p) = p_output_mark p" "p_referenced (core p) = p_referenced p"
  "p_mv_buf_index (core p) = p_mv_buf_index p" "p_slice_type (core p) = p_slice_type p"
  "p_error_mark (core p) = p_error_mark p" "p_pic_struct (core p) = p_pic_struct p"
  "p_ip_mode (core p) = p_ip_mode p" "p_width (core p) = p_width p"
  "p_height (core p) = p_height p" "p_num_reorder_pic (core p) = p_num_reorder_pic p"
  by (simp_all add: core_def)

lemma core_eqD:
  assumes "core p = core q"
  shows "p_index p = p_index q" "p_BUF_index p = p_BUF_index q" "p_POC p = p_POC q"
    "p_decode_idx p = p_decode_idx q" "p_output_mark p = p_output_mark q" "p_referenced p = p_referenced q"
    "p_mv_buf_index p = p_mv_buf_index q" "p_slice_type p = p_slice_type q"
    "p_error_mark p = p_error_mark q" "p_pic_struct p = p_pic_struct q" "p_ip_mode p = p_ip_mode q"
    "p_width p = p_width q" "p_height p = p_height q" "p_num_reorder_pic p = p_num_reorder_pic q"
  using assms core_fields by metis+

section \<open>The order of output\<close>

definition waiting :: "hevc_state \<Rightarrow> nat set" where
  "waiting s = {i. i < 24 \<and> (\<exists>p. pic_at s i = Some p \<and> in_output p \<and> p_output_mark p)}"

lemma finite_waiting [simp]: "finite (waiting s)"
  by (rule finite_subset [of _ "{..<24}"]) (auto simp: waiting_def)

lemma waiting_cand: "waiting s = fst ` set (cand (\<lambda>p. in_output p \<and> p_output_mark p) s pic_ids)"
  by (force simp: waiting_def set_cand)

text \<open>Whether a picture waits does not depend on the marks of the display, its references or how
  long it was to wait.\<close>

definition wait_key :: "PIC_s \<Rightarrow> bool \<times> int \<times> int" where
  "wait_key p = (in_output p \<and> p_output_mark p, p_POC p, p_decode_idx p)"

lemma waiting_cong:
  assumes "\<And>i. i < 24 \<Longrightarrow> map_option wait_key (pic_at s' i) = map_option wait_key (pic_at s i)"
  shows "waiting s' = waiting s"
proof -
  have "(\<exists>p. pic_at s' i = Some p \<and> in_output p \<and> p_output_mark p) =
      (\<exists>p. pic_at s i = Some p \<and> in_output p \<and> p_output_mark p)" if "i < 24" for i
    using assms [OF that] by (cases "pic_at s' i"; cases "pic_at s i") (auto simp: wait_key_def)
  then show ?thesis
    by (auto simp: waiting_def)
qed

lemma wait_key_core: "core p = core q \<Longrightarrow> wait_key p = wait_key q"
  using core_eqD [of p q] by (simp add: wait_key_def in_output_def has_buf_def)

lemma wait_key_outer:
  assumes "outer s' = outer s"
  shows "map_option wait_key (pic_at s' i) = map_option wait_key (pic_at s i)"
  using outer_pics(1) [OF assms, of i]
  by (cases "pic_at s' i"; cases "pic_at s i") (simp_all, rule wait_key_core)

lemma wait_key_simps [simp]:
  "wait_key (p\<lparr>p_num_reorder_pic := n\<rparr>) = wait_key p" "wait_key (p\<lparr>p_referenced := b\<rparr>) = wait_key p"
  "wait_key (mv_free p) = wait_key p"
  by (simp_all add: wait_key_def in_output_def has_buf_def)

lemma waiting_unreference [simp]: "waiting (unreference e k s) = waiting s"
  by (rule waiting_cong) (simp add: hevc_simps option.map_comp comp_def)

lemma waiting_show_or_recycle [simp]: "waiting (show_or_recycle e k s) = waiting s"
  by (rule waiting_cong) (rule wait_key_outer, rule outer_show_or_recycle)

lemma fold_upd_pic:
  "distinct is \<Longrightarrow> frame_of (fold (\<lambda>i. upd_PIC i f) is s) = frame_of s \<and>
    length (hv_m_PIC (fold (\<lambda>i. upd_PIC i f) is s)) = length (hv_m_PIC s) \<and>
    pic_at (fold (\<lambda>i. upd_PIC i f) is s) j = (if j \<in> set is then map_option f (pic_at s j) else pic_at s j)"
  by (induction "is" arbitrary: s) (auto simp: hevc_simps)

lemma no_reorder_pics:
  "frame_of (no_reorder e s) = frame_of s"
  "length (hv_m_PIC (no_reorder e s)) = length (hv_m_PIC s)"
  "pic_at (no_reorder e s) j = (if j \<in> set (fast_first_ids e s)
     then map_option (p_num_reorder_pic_update (\<lambda>_. 0)) (pic_at s j) else pic_at s j)"
  using fold_upd_pic [of "fast_first_ids e s" "p_num_reorder_pic_update (\<lambda>_. 0)" s j]
  by (simp_all add: no_reorder_def fast_first_ids_def)

lemma waiting_no_reorder [simp]: "waiting (no_reorder e s) = waiting s"
  by (rule waiting_cong) (simp add: no_reorder_pics option.map_comp comp_def)

lemma waiting_mark_ready [simp]: "waiting (mark_ready k s) = waiting s - {k}"
  by (auto simp: waiting_def mark_ready_def hevc_simps)

lemma first_output_waiting:
  assumes "first_output s pic_ids None = Some (k, p)"
  shows "k \<in> waiting s" "pic_at s k = Some p"
    and "\<And>j q. j \<in> waiting s \<Longrightarrow> pic_at s j = Some q \<Longrightarrow> \<not> out_before q p"
proof -
  have f: "fold (pick (\<lambda>x y. out_before (snd x) (snd y)))
      (cand (\<lambda>p. in_output p \<and> p_output_mark p) s pic_ids) None = Some (k, p)"
    using assms by (simp add: first_output_eq)
  from fold_pick_mem [OF f] show "k \<in> waiting s" "pic_at s k = Some p"
    by (auto simp: set_cand waiting_def)
  fix j q assume "j \<in> waiting s" "pic_at s j = Some q"
  then have "(j, q) \<in> set (cand (\<lambda>p. in_output p \<and> p_output_mark p) s pic_ids)"
    by (auto simp: set_cand waiting_def)
  then show "\<not> out_before q p"
    using fold_pick_best [OF out_before_order f, of "(j, q)"] by simp
qed

lemma first_output_None: "first_output s pic_ids None = None \<longleftrightarrow> waiting s = {}"
  by (simp add: first_output_eq fold_pick_None waiting_cand)

lemma first_decoded_waiting: "first_decoded s pic_ids None = Some (k, p) \<Longrightarrow> k \<in> waiting s"
  unfolding first_decoded_eq by (drule fold_pick_mem) (auto simp: set_cand waiting_def)

text \<open>An output takes a waiting picture off the list, when there is one layer.\<close>

lemma hold_back_cases:
  "hold_back r = r \<or> (fst r \<noteq> None \<and> hold_back r = (None, (snd r)\<lparr>hv_first_pic_flag := 2\<rparr>))"
  by (cases r) (auto simp: hold_back_def)

lemma output_ordered_Some:
  assumes "\<not> hv_dual_layer s" "output_ordered e fl s = (Some k, s')"
  shows "k \<in> waiting s" "s' = mark_ready k (no_reorder e s)"
proof -
  have "preset_pic e s = None"
    using assms(1) by (simp add: preset_pic_def)
  then obtain p where "first_output (no_reorder e s) pic_ids None = Some (k, p)"
      "s' = mark_ready k (no_reorder e s)"
    using assms by (auto simp: output_ordered_def Let_def split: option.splits if_splits)
  then show "k \<in> waiting s" "s' = mark_ready k (no_reorder e s)"
    using first_output_waiting(1) [of "no_reorder e s" k p] by simp_all
qed

lemma output_pic_Some:
  assumes "\<not> hv_dual_layer s" "output_pic e fl s = (Some k, s')"
  shows "k \<in> waiting s" "waiting s' = waiting s - {k}" "hv_dual_layer s' = hv_dual_layer s"
proof -
  let ?r = "if bit (hv_i_only s) 2 then output_decoded e s else output_ordered e fl s"
  have r: "?r = (Some k, s')"
    using assms(2) hold_back_cases [of ?r] by (auto simp: output_pic_def)
  have "k \<in> waiting s \<and> waiting s' = waiting s - {k} \<and> frame_of s' = frame_of s"
  proof (cases "bit (hv_i_only s) 2")
    case True
    then show ?thesis
      using r first_decoded_waiting [of s k]
      by (auto simp: output_decoded_def hevc_simps mark_ready_def [of k s] split: option.splits)
        (auto simp flip: mark_ready_def)
  next
    case False
    then have "output_ordered e fl s = (Some k, s')"
      using r by simp
    from output_ordered_Some [OF assms(1) this] show ?thesis
      by (simp add: mark_ready_def hevc_simps no_reorder_pics) (simp flip: mark_ready_def)
  qed
  then show "k \<in> waiting s" "waiting s' = waiting s - {k}" "hv_dual_layer s' = hv_dual_layer s"
    by (auto dest: frame_ofD)
qed

lemma dual_steps [simp]:
  "hv_dual_layer (show_or_recycle e k s) = hv_dual_layer s"
  "hv_dual_layer (unreference e k s) = hv_dual_layer s"
  using outerD(6) [OF outer_show_or_recycle] frame_ofD(10) [OF frame_of_unreference] by simp_all

text \<open>One layer: every loop of outputs ends.\<close>

lemma flush_loop_ends:
  assumes "\<not> hv_dual_layer s"
  shows "\<exists>s'. flush_loop e s = Some s'"
  using assms
proof (induction "card (waiting s)" arbitrary: s rule: less_induct)
  case less
  obtain r s1 where o: "output_pic e True s = (r, s1)"
    by (cases "output_pic e True s")
  show ?case
  proof (cases r)
    case None
    then show ?thesis
      using o by (subst flush_loop.simps) simp
  next
    case (Some k)
    note out = output_pic_Some [OF less.prems o [unfolded Some]]
    let ?s2 = "show_or_recycle e k (unreference e k s1)"
    have "card (waiting ?s2) < card (waiting s)"
      using card_Diff1_less [OF finite_waiting out(1)] out(2) by simp
    moreover have "\<not> hv_dual_layer ?s2"
      using out(3) less.prems by simp
    ultimately show ?thesis
      using less.hyps o Some by (subst flush_loop.simps) simp
  qed
qed

lemma output_loop_ends:
  assumes "\<not> hv_dual_layer s"
  shows "\<exists>s'. output_loop e s = Some s'"
  using assms
proof (induction "card (waiting s)" arbitrary: s rule: less_induct)
  case less
  obtain r s1 where o: "output_pic e False s = (r, s1)"
    by (cases "output_pic e False s")
  show ?case
  proof (cases r)
    case None
    then show ?thesis
      using o by (subst output_loop.simps) simp
  next
    case (Some k)
    note out = output_pic_Some [OF less.prems o [unfolded Some]]
    let ?s2 = "show_or_recycle e k s1"
    have "card (waiting ?s2) < card (waiting s)"
      using card_Diff1_less [OF finite_waiting out(1)] out(2) by simp
    moreover have "\<not> hv_dual_layer ?s2"
      using out(3) less.prems by simp
    ultimately show ?thesis
      using less.hyps o Some by (subst output_loop.simps) simp
  qed
qed

section \<open>Two layers\<close>

text \<open>With two layers the flush presets the I picture, whether it waits or not. When every picture
  has an error and errors are not shown, nothing is ever sent and the state of the preset picture
  stays the same.\<close>

definition stuck :: "h265_env \<Rightarrow> hevc_state \<Rightarrow> bool" where
  "stuck e s = (hv_dual_layer s \<and> hv_vf_pre_count s = 0 \<and> bit (par_fast_output_enable e) 0 \<and>
     \<not> bit (hv_i_only s) 2 \<and> \<not> bit (hv_ignore_bufmgr_error s) 1 \<and>
     (\<exists>i<24. \<exists>p. pic_at s i = Some p \<and> in_output p \<and> p_slice_type p = 2) \<and>
     (\<forall>i<24. \<forall>p. pic_at s i = Some p \<longrightarrow> in_output p \<longrightarrow> p_error_mark p))"

text \<open>What \<open>stuck\<close> looks at.\<close>

definition stuck_key :: "PIC_s \<Rightarrow> bool \<times> int \<times> bool" where
  "stuck_key p = (in_output p, p_slice_type p, p_error_mark p)"

lemma stuck_key_simps [simp]:
  "stuck_key (p\<lparr>p_num_reorder_pic := n\<rparr>) = stuck_key p" "stuck_key (p\<lparr>p_referenced := b\<rparr>) = stuck_key p"
  "stuck_key (mv_free p) = stuck_key p" "stuck_key (p\<lparr>p_output_ready := b\<rparr>) = stuck_key p"
  "stuck_key (p\<lparr>p_output_mark := c\<rparr>) = stuck_key p" "stuck_key (p\<lparr>p_recon_mark := d\<rparr>) = stuck_key p"
  by (simp_all add: stuck_key_def in_output_def has_buf_def)

lemma stuck_cong:
  assumes "stuck e s" "frame_of s' = frame_of s"
    and keys: "\<And>i. i < 24 \<Longrightarrow> map_option stuck_key (pic_at s' i) = map_option stuck_key (pic_at s i)"
  shows "stuck e s'"
proof -
  have k1: "\<exists>q. pic_at s' i = Some q \<and> stuck_key q = stuck_key p" if "i < 24" "pic_at s i = Some p" for i p
    using keys [OF that(1)] that(2) by (cases "pic_at s' i") auto
  have k2: "\<exists>p. pic_at s i = Some p \<and> stuck_key q = stuck_key p" if "i < 24" "pic_at s' i = Some q" for i q
    using keys [OF that(1)] that(2) by (cases "pic_at s i") auto
  from assms(1) obtain i p where i: "i < 24" "pic_at s i = Some p" "in_output p" "p_slice_type p = 2"
    by (auto simp: stuck_def)
  then obtain q where "pic_at s' i = Some q" "in_output q" "p_slice_type q = 2"
    using k1 [OF i(1,2)] by (auto simp: stuck_key_def)
  then have "\<exists>i<24. \<exists>p. pic_at s' i = Some p \<and> in_output p \<and> p_slice_type p = 2"
    using i(1) by blast
  moreover have "p_error_mark q" if q: "j < 24" "pic_at s' j = Some q" "in_output q" for j q
    using k2 [OF q(1,2)] q assms(1) by (auto simp: stuck_key_def stuck_def)
  ultimately show ?thesis
    using assms(1) frame_ofD [OF assms(2)] by (simp add: stuck_def)
qed

lemma stuck_first: "stuck e s \<Longrightarrow> fast_first_ids e s \<noteq> []"
  by (force simp: stuck_def fast_first_ids_def fast_first_def filter_empty_conv)

lemma stuck_preset:
  assumes "stuck e s"
  obtains j q where "preset_pic e s = Some (j, q)" "pic_at s j = Some q" "j < 24" "in_output q"
proof -
  let ?j = "last (fast_first_ids e s)"
  have "?j \<in> set (fast_first_ids e s)"
    using stuck_first [OF assms] by simp
  then obtain q where "pic_at s ?j = Some q" "?j < 24" "in_output q"
    by (auto simp: fast_first_ids_def fast_first_def split: option.splits)
  then show thesis
    using that stuck_first [OF assms] assms by (simp add: preset_pic_def with_pic_def stuck_def)
qed

lemma stuck_output:
  assumes "stuck e s"
  obtains k p where "output_pic e True s = (Some k, mark_ready k (no_reorder e s))"
    "k < 24" "pic_at (no_reorder e s) k = Some p" "in_output p"
proof -
  obtain j q where j: "preset_pic e s = Some (j, q)" "pic_at s j = Some q" "j < 24" "in_output q"
    by (rule stuck_preset [OF assms])
  define q' where "q' = (if j \<in> set (fast_first_ids e s) then q\<lparr>p_num_reorder_pic := 0\<rparr> else q)"
  then have q': "with_pic (no_reorder e s) j = (j, q')" "pic_at (no_reorder e s) j = Some q'" "in_output q'"
    using j by (simp_all add: with_pic_def no_reorder_pics in_output_def has_buf_def)
  let ?f = "first_output (no_reorder e s) pic_ids (Some (j, q'))"
  have "?f \<noteq> None"
    by (simp add: first_output_eq fold_pick_Some)
  then obtain k p where f: "?f = Some (k, p)"
    by auto
  have "k < 24 \<and> pic_at (no_reorder e s) k = Some p \<and> in_output p"
    using fold_pick_mem [OF f [unfolded first_output_eq]] j(3) q' by (auto simp: set_cand)
  moreover have "output_ordered e True s = (Some k, mark_ready k (no_reorder e s))"
    using f j(1) q'(1) by (simp add: output_ordered_def Let_def)
  moreover have "hv_vf_pre_count (mark_ready k (no_reorder e s)) \<noteq> 1"
    using assms frame_ofD(4) [OF no_reorder_pics(1), of e s] by (simp add: mark_ready_def stuck_def upd_PIC_def)
  ultimately show thesis
    using that [of k p] assms by (simp add: output_pic_def hold_back_def stuck_def)
qed

lemma stuck_step:
  assumes "stuck e s"
  obtains k s1 where "output_pic e True s = (Some k, s1)" "stuck e (show_or_recycle e k (unreference e k s1))"
proof -
  obtain k p where k: "output_pic e True s = (Some k, mark_ready k (no_reorder e s))"
    "k < 24" "pic_at (no_reorder e s) k = Some p" "in_output p"
    by (rule stuck_output [OF assms])
  let ?s2 = "unreference e k (mark_ready k (no_reorder e s))"
  have fr: "frame_of ?s2 = frame_of s"
    by (simp add: mark_ready_def hevc_simps no_reorder_pics)
  have key: "map_option stuck_key (pic_at ?s2 i) = map_option stuck_key (pic_at s i)" for i
    by (cases "pic_at s i"; cases "i = k") (simp_all add: mark_ready_def hevc_simps no_reorder_pics)
  have st: "stuck e ?s2"
    by (rule stuck_cong [OF assms fr key])
  obtain q where q: "pic_at ?s2 k = Some q" "stuck_key q = stuck_key p"
    using k(3) by (auto simp: mark_ready_def hevc_simps)
  then have err: "p_error_mark q"
    using st k(2,4) by (auto simp: stuck_def stuck_key_def)
  then have "show_or_recycle e k ?s2 = not_ready k ?s2"
    using q(1) st by (simp add: show_or_recycle_def stuck_def)
  moreover have "stuck e (not_ready k ?s2)"
    by (rule stuck_cong [OF st]) (simp_all add: not_ready_def hevc_simps option.map_comp comp_def)
  ultimately show thesis
    using that [OF k(1)] by simp
qed

lemma stuck_never_ends:
  assumes "stuck e s"
  shows "flush_loop e s = None"
proof (rule ccontr)
  assume "flush_loop e s \<noteq> None"
  then obtain r where "flush_loop e s = Some r"
    by blast
  have "\<not> stuck e s"
  proof (rule flush_loop.raw_induct [of "\<lambda>e s _. \<not> stuck e s" e s r])
    show "flush_loop e s = Some r"
      by fact
  next
    fix fl e s r
    assume IH: "\<And>e s r. fl e s = Some r \<Longrightarrow> \<not> stuck e s"
      and body: "(case output_pic e True s of (None, s1) \<Rightarrow> Some s1
        | (Some k, s1) \<Rightarrow> fl e (show_or_recycle e k (unreference e k s1))) = Some r"
    show "\<not> stuck e s"
    proof
      assume "stuck e s"
      then obtain k s1 where o: "output_pic e True s = (Some k, s1)"
        and st: "stuck e (show_or_recycle e k (unreference e k s1))"
        by (rule stuck_step)
      have "fl e (show_or_recycle e k (unreference e k s1)) = Some r"
        using body o by simp
      with st show False
        using IH by blast
    qed
  qed
  with assms show False
    by simp
qed

lemma get_pic_by_POC_Some:
  assumes "get_pic_by_POC s poc = Some k"
  shows "\<exists>p. pic_at s k = Some p \<and> k < 24 \<and> has_buf p \<and> p_POC p = poc \<and> poc \<noteq> INVALID_POC"
proof -
  obtain p where "newest (\<lambda>p. p_POC p = poc) s pic_ids None = Some (k, p)" "poc \<noteq> INVALID_POC"
    using assms by (auto simp: get_pic_by_POC_def split: if_splits)
  then show ?thesis
    using fold_pick_mem [of _ _ None "(k, p)"] by (force simp: newest_eq set_cand)
qed

lemma stuck_field_updates [simp]:
  "stuck e (s\<lparr>hv_decoded_poc := c\<rparr>) = stuck e s"
  by (simp add: stuck_def pic_at_def)

lemma stuck_key_marks [simp]:
  "stuck_key (p\<lparr>p_output_mark := a, p_recon_mark := b\<rparr>) = stuck_key p"
  by (simp add: stuck_key_def in_output_def has_buf_def)

lemma stuck_mark_flushed:
  assumes "stuck e s" "\<not> bit (hv_ignore_bufmgr_error s) 0" "k = None \<or> k = get_pic_by_POC s poc"
  shows "stuck e (mark_flushed k s)"
proof (cases k)
  case None
  then show ?thesis
    using assms(1) by (simp add: mark_flushed_def)
next
  case (Some i)
  then have "get_pic_by_POC s poc = Some i"
    using assms(3) by simp
  then obtain p where p: "pic_at s i = Some p" "i < 24" "has_buf p" "p_POC p \<noteq> INVALID_POC"
    using get_pic_by_POC_Some by blast
  then have "p_error_mark p"
    using assms(1) by (simp add: stuck_def in_output_def)
  then have "PB_skip_control p s = s"
    using assms(2) by (simp add: PB_skip_control_def Let_def)
  then show ?thesis
    using stuck_cong [OF assms(1)] p(1) Some
    by (simp add: mark_flushed_def hevc_simps option.map_comp comp_def)
qed

text \<open>C33. With two layers a flush need not return. When an IDR picture arrives while nothing has
  been sent to the display, an I picture with a buffer is in the list, the first I picture is
  to be shown early (bit 0 of \<open>fast_output_enable\<close>), every picture of the list has an error,
  errors are not shown (bits 0 and 1 of \<open>ignore_bufmgr_error\<close> are clear) and pictures are output in
  their order (bit 2 of \<open>i_only\<close> is clear), the I picture is offered again and again and the
  flush never returns.\<close>

theorem idr_flush_two_layers_never_returns:
  assumes "stuck e s" "\<not> bit (hv_ignore_bufmgr_error s) 0" "is_idr (hv_m_nalUnitType s)"
  shows "hevc_pre_pic e s = None"
proof -
  let ?s0 = "if hv_m_ins_flag s then s\<lparr>hv_decoded_poc := INVALID_POC\<rparr> else s"
  have st: "stuck e ?s0" "\<not> bit (hv_ignore_bufmgr_error ?s0) 0"
    using assms(1,2) by simp_all
  have none: "flush_output e (get_pic_by_POC ?s0 poc) ?s0 = None" for poc
    using stuck_never_ends [OF stuck_mark_flushed [OF st disjI2, OF refl, of poc]]
    by (simp add: flush_output_def)
  have "hv_vf_pre_count s \<noteq> 1"
    using assms(1) by (simp add: stuck_def)
  then show ?thesis
    using none assms(3) by (simp add: hevc_pre_pic_def Let_def split del: if_split)
qed

lemma idr_flush_two_layers_never_returns_witness:
  "hevc_pre_pic sample_env (sample_state (map (map_option (\<lambda>p. p\<lparr>p_error_mark := True, p_slice_type := 2\<rparr>)) (hv_m_PIC sample_dec))
    \<lparr>hv_dual_layer := True, hv_vf_pre_count := 0, hv_m_nalUnitType := NAL_IDR\<rparr>) = None"
proof (rule idr_flush_two_layers_never_returns)
  let ?s = "sample_state (map (map_option (\<lambda>p. p\<lparr>p_error_mark := True, p_slice_type := 2\<rparr>)) (hv_m_PIC sample_dec))
    \<lparr>hv_dual_layer := True, hv_vf_pre_count := 0, hv_m_nalUnitType := NAL_IDR\<rparr>"
  have "\<exists>i<24. \<exists>p. pic_at ?s i = Some p \<and> in_output p \<and> p_slice_type p = 2"
    by (intro exI [of _ 0] conjI) (simp_all add: pic_at_def sample_dec_def sample_state_def sample_pic_def
        in_output_def has_buf_def INVALID_POC_def)
  moreover have "\<forall>p\<in>set (hv_m_PIC ?s). case p of None \<Rightarrow> True | Some q \<Rightarrow> p_error_mark q"
    by (simp add: sample_dec_def sample_state_def)
  then have "p_error_mark p" if "pic_at ?s i = Some p" for i p
    using that nth_mem [of i "hv_m_PIC ?s"] by (fastforce simp: pic_at_def split: if_splits)
  ultimately show "stuck sample_env ?s"
    unfolding stuck_def by (auto simp: sample_env_def sample_state_def)
qed (simp_all add: sample_state_def is_idr_def NAL_IDR_def)

section \<open>One layer: everything goes out in order\<close>

text \<open>A picture that goes to the display as one frame.\<close>

lemma pic_at_queues [hevc_simps]:
  "pic_at (s\<lparr>hv_newframe_q := a\<rparr>) = pic_at s" "pic_at (s\<lparr>hv_display_q := a\<rparr>) = pic_at s"
  "pic_at (s\<lparr>hv_pending_q := a\<rparr>) = pic_at s" "pic_at (s\<lparr>hv_vf_pre_count := n\<rparr>) = pic_at s"
  "pic_at (count_vf n s) = pic_at s" "pic_at (to_display v s) = pic_at s"
  "pic_at (put_vf_to_display_q v s) = pic_at s"
  by (simp_all add: pic_at_def fun_eq_iff count_vf_def to_display_def put_vf_to_display_q_def)

definition single_frame :: "PIC_s \<Rightarrow> bool" where
  "single_frame p \<longleftrightarrow> p_pic_struct p \<notin> {1, 2, 3, 4, 5, 6, 9, 10, 11, 12}"

definition sent :: "PIC_s \<Rightarrow> PIC_s" where
  "sent p = p\<lparr>p_show_frame := True, p_vf_ref := 1\<rparr>"

lemma prepare_single:
  assumes p: "pic_at s k = Some p" "p_index p = int k" "single_frame p"
    and q: "hv_newframe_q s = v # q" and "\<not> par_discard_frames e"
  shows "prepare_display_buf e k s =
    put_vf_to_display_q (v\<lparr>vf_top := k, vf_bot := 0xff\<rparr>) (upd_PIC k sent (s\<lparr>hv_newframe_q := q\<rparr>))"
proof -
  let ?s1 = "post_prepare_process e k s"
  have s1: "pic_at ?s1 k = Some (p\<lparr>p_show_frame := True\<rparr>)" "hv_newframe_q ?s1 = v # q"
    using p(1) q assms(5) by (simp_all add: post_prepare_process_def hevc_simps) (simp add: upd_PIC_def)
  have "set_vf_ref k 1 (?s1\<lparr>hv_newframe_q := q\<rparr>) = upd_PIC k sent (s\<lparr>hv_newframe_q := q\<rparr>)"
    using p(1) assms(5)
    by (simp add: set_vf_ref_def post_prepare_process_def upd_PIC_def sent_def [abs_def] option.map_comp
        comp_def pic_at_def split: if_splits)
  moreover have "shown k (upd_PIC k sent (s\<lparr>hv_newframe_q := q\<rparr>))"
    using p(1) by (simp add: shown_def hevc_simps sent_def)
  ultimately show ?thesis
    using s1 p by (simp add: prepare_display_buf_def post_video_frame_def post_single_def single_frame_def Let_def)
qed

text \<open>A picture is displayed unless it has an error and errors are not shown, or is not an I
  picture in the mode that shows only those; such a picture is recycled.\<close>

definition displayed :: "hevc_state \<Rightarrow> PIC_s \<Rightarrow> bool" where
  "displayed s p \<longleftrightarrow> (p_error_mark p \<longrightarrow> bit (hv_ignore_bufmgr_error s) 1) \<and>
     (bit (hv_i_only s) 0 \<longrightarrow> p_slice_type p = 2)"

definition to_show :: "hevc_state \<Rightarrow> nat \<Rightarrow> bool" where
  "to_show s i = (case pic_at s i of None \<Rightarrow> False | Some p \<Rightarrow> displayed s p)"

definition ready :: "hevc_state \<Rightarrow> nat \<Rightarrow> bool" where
  "ready s i = (case pic_at s i of None \<Rightarrow> False | Some p \<Rightarrow> p_output_ready p)"

text \<open>One layer, output in picture order, the second picture not held back, no frames
  discarded, the pictures to be displayed are single frames, and the queues have room for
  them.\<close>

definition showable :: "h265_env \<Rightarrow> hevc_state \<Rightarrow> bool" where
  "showable e s = (\<not> hv_dual_layer s \<and> \<not> bit (hv_i_only s) 2 \<and>
     (hv_first_pic_flag s \<noteq> 1 \<or> hv_sps_num_reorder_pics_0 s = 0) \<and> \<not> par_discard_frames e \<and>
     (\<forall>i\<in>waiting s. \<forall>p. pic_at s i = Some p \<longrightarrow> displayed s p \<longrightarrow> p_index p = int i \<and> single_frame p) \<and>
     card {i \<in> waiting s. to_show s i} \<le> length (hv_newframe_q s) \<and>
     length (hv_display_q s) + card {i \<in> waiting s. to_show s i} \<le> VF_POOL_SIZE)"

text \<open>What of a picture decides how it is handled.\<close>

definition fate :: "PIC_s \<Rightarrow> int \<times> int \<times> bool \<times> int \<times> int \<times> int" where
  "fate p = (p_index p, p_pic_struct p, p_error_mark p, p_slice_type p, p_POC p, p_decode_idx p)"

lemma showable_pics:
  "showable e s \<Longrightarrow> i \<in> waiting s \<Longrightarrow> pic_at s i = Some p \<Longrightarrow> displayed s p \<Longrightarrow>
   p_index p = int i \<and> single_frame p"
  by (simp add: showable_def)

lemma fate_single: "fate q = fate p \<Longrightarrow> p_index q = p_index p \<and> single_frame q = single_frame p"
  by (simp add: fate_def single_frame_def)

lemma frame_of_mark_ready [hevc_simps]: "frame_of (mark_ready k s) = frame_of s"
  by (simp add: mark_ready_def hevc_simps)

text \<open>What the order of output depends on.\<close>

definition order_key :: "PIC_s \<Rightarrow> int \<times> int" where
  "order_key p = (p_POC p, p_decode_idx p)"

definition keys_of :: "hevc_state \<Rightarrow> nat \<Rightarrow> (int \<times> int) option" where
  "keys_of s i = map_option order_key (pic_at s i)"

lemma showable_chosen:
  assumes sh: "showable e s" and ne: "waiting s \<noteq> {}"
  obtains k p where "output_pic e True s = (Some k, mark_ready k (no_reorder e s))" "k \<in> waiting s" "pic_at s k = Some p"
    "\<And>j q. j \<in> waiting s \<Longrightarrow> pic_at s j = Some q \<Longrightarrow> \<not> out_before q p"
proof -
  let ?n = "no_reorder e s"
  have fr: "frame_of ?n = frame_of s"
    by (simp add: no_reorder_pics)
  have "first_output ?n pic_ids None \<noteq> None"
    using ne by (simp add: first_output_None)
  then obtain k p' where f: "first_output ?n pic_ids None = Some (k, p')"
    by auto
  note best = first_output_waiting [OF f]
  have kw: "k \<in> waiting s"
    using best(1) by simp
  then obtain p where p: "pic_at s k = Some p"
    by (auto simp: waiting_def)
  have p': "order_key p' = order_key p"
    using best(2) p by (auto simp: no_reorder_pics order_key_def split: if_splits)
  have order: "\<not> out_before q p" if q: "j \<in> waiting s" "pic_at s j = Some q" for j q
  proof -
    obtain q' where "pic_at ?n j = Some q'" "order_key q' = order_key q"
      using q(2) by (cases "j \<in> set (fast_first_ids e s)") (simp_all add: no_reorder_pics order_key_def)
    then show ?thesis
      using best(3) [of j q'] q(1) p' by (auto simp: order_key_def out_before_def)
  qed
  have out: "output_pic e True s = (Some k, mark_ready k ?n)"
    using f sh frame_ofD [OF fr]
    by (auto simp: output_pic_def output_ordered_def preset_pic_def Let_def hold_back_def showable_def
        frame_ofD [OF frame_of_mark_ready])
  from that [OF out kw p order] show thesis .
qed

lemma fate_simps [simp]:
  "fate (mv_free p) = fate p" "fate (sent p) = fate p" "fate (p\<lparr>p_num_reorder_pic := n\<rparr>) = fate p"
  "fate (p\<lparr>p_output_ready := b\<rparr>) = fate p"
  "fate (p\<lparr>p_output_mark := False, p_recon_mark := False, p_output_ready := True, p_referenced := False\<rparr>) = fate p"
  by (simp_all add: fate_def mv_free_def sent_def)

lemma fate_keys:
  assumes "\<And>j. map_option fate (pic_at t j) = map_option fate (pic_at s j)"
  shows "keys_of t = keys_of s"
proof
  fix j
  show "keys_of t j = keys_of s j"
    using assms [of j] by (cases "pic_at t j"; cases "pic_at s j") (simp_all add: keys_of_def order_key_def fate_def)
qed

lemma fate_displayed:
  assumes "\<And>j. map_option fate (pic_at t j) = map_option fate (pic_at s j)" "outer t = outer u" "frame_of u = frame_of s"
  shows "to_show t = to_show s"
    and "pic_at t i = Some q \<Longrightarrow> \<exists>p. pic_at s i = Some p \<and> fate p = fate q \<and> displayed s p = displayed t q"
proof -
  note f = outerD(5,7) [OF assms(2)] frame_ofD(9,11) [OF assms(3)]
  have d: "displayed t q = displayed s p" if "fate q = fate p" for p q
    using that f by (simp add: displayed_def fate_def)
  show "to_show t = to_show s"
  proof
    fix i
    show "to_show t i = to_show s i"
      using assms(1) [of i] d by (cases "pic_at t i"; cases "pic_at s i") (simp_all add: to_show_def)
  qed
  show "\<exists>p. pic_at s i = Some p \<and> fate p = fate q \<and> displayed s p = displayed t q" if "pic_at t i = Some q"
    using assms(1) [of i] d [of q] that by (cases "pic_at s i") auto
qed

lemma ready_cong:
  "map_option p_output_ready (pic_at t j) = map_option p_output_ready (pic_at s j) \<Longrightarrow> ready t j = ready s j"
  by (cases "pic_at t j"; cases "pic_at s j") (simp_all add: ready_def)

lemma pic_at_not_ready:
  "pic_at (not_ready k s) j = (if j = k then map_option (p_output_ready_update (\<lambda>_. False)) (pic_at s j) else pic_at s j)"
  by (simp add: not_ready_def hevc_simps)

lemma pic_at_sent:
  "pic_at (put_vf_to_display_q v (upd_PIC k sent (s\<lparr>hv_newframe_q := q\<rparr>))) j =
    (if j = k then map_option sent (pic_at s j) else pic_at s j)"
  by (simp add: hevc_simps)

text \<open>One turn of the flush: the chosen picture goes to the display or is recycled.\<close>

definition flush_turn :: "h265_env \<Rightarrow> nat \<Rightarrow> hevc_state \<Rightarrow> hevc_state" where
  "flush_turn e k s = show_or_recycle e k (unreference e k (mark_ready k (no_reorder e s)))"

lemma flush_turn_cases:
  assumes sh: "showable e s" and k: "k \<in> waiting s" "pic_at s k = Some p"
  shows "hv_newframe_q (flush_turn e k s) = (if displayed s p then tl (hv_newframe_q s) else hv_newframe_q s)"
    and "map vf_top (hv_display_q (flush_turn e k s)) =
      map vf_top (hv_display_q s) @ (if displayed s p then [k] else [])"
    and "map_option fate (pic_at (flush_turn e k s) j) = map_option fate (pic_at s j)"
    and "j \<noteq> k \<Longrightarrow> ready (flush_turn e k s) j = ready s j"
    and "\<not> displayed s p \<Longrightarrow> \<not> ready (flush_turn e k s) k"
proof -
  let ?n = "no_reorder e s"
  let ?u = "unreference e k (mark_ready k ?n)"
  have fu: "frame_of ?u = frame_of s"
    by (simp add: hevc_simps no_reorder_pics)
  have pu: "pic_at ?u j = map_option (\<lambda>q. if j = k then mv_free (q\<lparr>p_output_mark := False, p_recon_mark := False,
      p_output_ready := True, p_referenced := False\<rparr>) else q) (pic_at ?n j)" for j
    by (cases "pic_at ?n j") (auto simp: mark_ready_def hevc_simps)
  have keep: "map_option fate (pic_at ?u j) = map_option fate (pic_at s j)" for j
    by (cases "pic_at s j") (simp_all add: pu no_reorder_pics)
  have rdy: "map_option p_output_ready (pic_at ?u j) = map_option p_output_ready (pic_at s j)" if "j \<noteq> k" for j
    using that by (cases "pic_at s j") (simp_all add: pu no_reorder_pics)
  obtain q where q: "pic_at ?u k = Some q" "fate q = fate p"
    using keep [of k] k(2) by (cases "pic_at ?u k") auto
  have d: "displayed ?u q = displayed s p" "displayed ?u q \<longleftrightarrow> \<not> (p_error_mark q \<and> \<not> bit (hv_ignore_bufmgr_error ?u) 1) \<and>
      \<not> (bit (hv_i_only ?u) 0 \<and> p_slice_type q \<noteq> 2)"
    using q(2) frame_ofD(9,11) [OF fu] by (auto simp: displayed_def fate_def)
  have "hv_newframe_q (flush_turn e k s) = (if displayed s p then tl (hv_newframe_q s) else hv_newframe_q s) \<and>
    map vf_top (hv_display_q (flush_turn e k s)) = map vf_top (hv_display_q s) @ (if displayed s p then [k] else []) \<and>
    (\<forall>j. map_option fate (pic_at (flush_turn e k s) j) = map_option fate (pic_at s j)) \<and>
    (\<forall>j. j \<noteq> k \<longrightarrow> map_option p_output_ready (pic_at (flush_turn e k s) j) = map_option p_output_ready (pic_at s j)) \<and>
    (\<not> displayed s p \<longrightarrow> \<not> ready (flush_turn e k s) k)"
  proof (cases "displayed s p")
    case False
    then have t: "flush_turn e k s = not_ready k ?u"
      using d q(1) unfolding flush_turn_def by (auto simp: show_or_recycle_def)
    have at: "pic_at (flush_turn e k s) j = (if j = k then Some (q\<lparr>p_output_ready := False\<rparr>) else pic_at ?u j)" for j
      unfolding t pic_at_not_ready using q(1) by simp
    have "hv_newframe_q (not_ready k ?u) = hv_newframe_q ?u" "hv_display_q (not_ready k ?u) = hv_display_q ?u"
      by (simp_all add: not_ready_def upd_PIC_def)
    then show ?thesis
      using False keep rdy q(2) k(2) frame_ofD(1,2) [OF fu]
      by (auto simp: at ready_def t [symmetric])
  next
    case True
    then have "k \<in> {i \<in> waiting s. to_show s i}"
      using k by (simp add: to_show_def)
    then have card: "0 < card {i \<in> waiting s. to_show s i}"
      by (auto simp: card_gt_0_iff)
    have "card {i \<in> waiting s. to_show s i} \<le> length (hv_newframe_q s)"
      using sh by (simp add: showable_def)
    with card have "0 < length (hv_newframe_q s)"
      by (rule less_le_trans)
    then obtain v0 r where nq: "hv_newframe_q s = v0 # r"
      by (cases "hv_newframe_q s") simp_all
    have single: "p_index q = int k" "single_frame q"
      using showable_pics [OF sh k True] fate_single [OF q(2)] by simp_all
    define v where "v = v0\<lparr>vf_top := k, vf_bot := 0xff\<rparr>"
    have "flush_turn e k s = prepare_display_buf e k ?u"
      using d True q(1) unfolding flush_turn_def by (auto simp: show_or_recycle_def)
    also have "\<dots> = put_vf_to_display_q v (upd_PIC k sent (?u\<lparr>hv_newframe_q := r\<rparr>))"
      unfolding v_def using q single nq sh frame_ofD(1) [OF fu]
      by (intro prepare_single) (simp_all add: showable_def)
    finally have t: "flush_turn e k s = put_vf_to_display_q v (upd_PIC k sent (?u\<lparr>hv_newframe_q := r\<rparr>))" .
    have less: "length (hv_display_q s) < VF_POOL_SIZE"
      using sh card by (simp add: showable_def)
    have dq: "hv_display_q (flush_turn e k s) = hv_display_q s @ [v]" "hv_newframe_q (flush_turn e k s) = r"
      using less frame_ofD(2) [OF fu]
      by (simp_all add: t put_vf_to_display_q_def to_display_def count_vf_def upd_PIC_def kfifo_put_def)
    have at: "pic_at (flush_turn e k s) j = (if j = k then Some (sent q) else pic_at ?u j)" for j
      unfolding t pic_at_sent using q(1) by simp
    show ?thesis
    proof (intro conjI allI impI)
      show "map_option fate (pic_at (flush_turn e k s) j) = map_option fate (pic_at s j)" for j
        using keep [of j] q k(2) by (cases "j = k") (simp_all add: at)
      show "map_option p_output_ready (pic_at (flush_turn e k s) j) = map_option p_output_ready (pic_at s j)" if "j \<noteq> k" for j
        using rdy [OF that] that by (simp add: at)
      show "hv_newframe_q (flush_turn e k s) = (if displayed s p then tl (hv_newframe_q s) else hv_newframe_q s)"
        by (simp only: True if_True dq nq list.sel)
      show "map vf_top (hv_display_q (flush_turn e k s)) = map vf_top (hv_display_q s) @ (if displayed s p then [k] else [])"
        by (simp only: True if_True dq) (simp add: v_def)
      show "\<not> ready (flush_turn e k s) k" if "\<not> displayed s p"
        using that True by blast
    qed
  qed
  note facts = this
  show "hv_newframe_q (flush_turn e k s) = (if displayed s p then tl (hv_newframe_q s) else hv_newframe_q s)"
    using facts by (rule conjunct1)
  show "map vf_top (hv_display_q (flush_turn e k s)) =
      map vf_top (hv_display_q s) @ (if displayed s p then [k] else [])"
    using facts by (elim conjE) assumption
  show "map_option fate (pic_at (flush_turn e k s) j) = map_option fate (pic_at s j)"
    using facts by (elim conjE) (erule spec)
  show "ready (flush_turn e k s) j = ready s j" if "j \<noteq> k"
    by (rule ready_cong) (use facts that in blast)
  show "\<not> ready (flush_turn e k s) k" if "\<not> displayed s p"
    using facts that by blast
qed

lemma flush_turn_frame:
  "\<exists>u. outer (flush_turn e k s) = outer u \<and> frame_of u = frame_of s"
  unfolding flush_turn_def
  by (rule exI [of _ "unreference e k (mark_ready k (no_reorder e s))"])
    (simp add: outer_show_or_recycle hevc_simps no_reorder_pics)

lemma waiting_flush_turn [simp]: "waiting (flush_turn e k s) = waiting s - {k}"
  by (simp add: flush_turn_def)

lemma flush_turn_showable:
  assumes sh: "showable e s" and k: "k \<in> waiting s" "pic_at s k = Some p"
  shows "showable e (flush_turn e k s)" "to_show (flush_turn e k s) = to_show s" "keys_of (flush_turn e k s) = keys_of s"
proof -
  let ?t = "flush_turn e k s"
  note c = flush_turn_cases [OF assms]
  obtain u where u: "outer ?t = outer u" "frame_of u = frame_of s"
    using flush_turn_frame by blast
  show ts: "to_show ?t = to_show s"
    by (rule fate_displayed(1) [OF c(3) u])
  show "keys_of ?t = keys_of s"
    by (rule fate_keys) (rule c(3))
  have pics: "p_index q = int i \<and> single_frame q"
    if i: "i \<in> waiting s - {k}" and q: "pic_at ?t i = Some q" "displayed ?t q" for i q
  proof -
    obtain p' where "pic_at s i = Some p'" "fate p' = fate q" "displayed s p'"
      using fate_displayed(2) [OF c(3) u q(1)] q(2) by blast
    then show ?thesis
      using showable_pics [OF sh] fate_single i by (metis DiffD1)
  qed
  define N where "N = card {i \<in> waiting s. to_show s i}"
  have set: "{i \<in> waiting ?t. to_show ?t i} = {i \<in> waiting s. to_show s i} - {k}"
    unfolding ts waiting_flush_turn by blast
  have kt: "k \<in> {i \<in> waiting s. to_show s i} \<longleftrightarrow> displayed s p"
    using k by (simp add: to_show_def)
  have num: "card {i \<in> waiting ?t. to_show ?t i} = N - (if displayed s p then 1 else 0)"
    unfolding set N_def by (subst card_Diff_singleton_if) (simp only: kt split: if_split, simp)
  have pos: "displayed s p \<Longrightarrow> 0 < N"
    unfolding N_def using kt by (subst card_gt_0_iff) auto
  have len: "length (hv_display_q ?t) = length (hv_display_q s) + (if displayed s p then 1 else 0)"
    using arg_cong [OF c(2), of length] by simp
  have room: "N \<le> length (hv_newframe_q s)" "length (hv_display_q s) + N \<le> VF_POOL_SIZE"
    using sh by (simp_all add: showable_def N_def)
  have q: "card {i \<in> waiting ?t. to_show ?t i} \<le> length (hv_newframe_q ?t)"
    "length (hv_display_q ?t) + card {i \<in> waiting ?t. to_show ?t i} \<le> VF_POOL_SIZE"
    unfolding num len c(1) using room pos by (cases "displayed s p"; simp)+
  have "hv_dual_layer ?t = hv_dual_layer s" "hv_i_only ?t = hv_i_only s" "hv_first_pic_flag ?t = hv_first_pic_flag s"
    "hv_sps_num_reorder_pics_0 ?t = hv_sps_num_reorder_pics_0 s"
    using outerD(1,5,6,8) [OF u(1)] frame_ofD(5,9,10,12) [OF u(2)] by simp_all
  note flags = this
  show "showable e ?t"
    unfolding showable_def flags
  proof (intro conjI ballI allI impI)
    fix i q
    assume "i \<in> waiting ?t" "pic_at ?t i = Some q" "displayed ?t q"
    then show "p_index q = int i" "single_frame q"
      using pics [of i q] unfolding waiting_flush_turn by blast+
  qed (use sh q in \<open>simp_all only: showable_def simp_thms\<close>)
qed

definition key_le :: "(int \<times> int) option \<Rightarrow> (int \<times> int) option \<Rightarrow> bool" where
  "key_le a b = (case (a, b) of (Some (x, m), Some (y, n)) \<Rightarrow> x < y \<or> x = y \<and> m \<le> n | _ \<Rightarrow> False)"

lemma flush_loop_in_order:
  assumes "showable e s"
  shows "\<exists>s' ks. flush_loop e s = Some s' \<and> waiting s' = {} \<and> set ks = waiting s \<and> distinct ks \<and>
    sorted_wrt (\<lambda>i j. key_le (keys_of s i) (keys_of s j)) ks \<and>
    map vf_top (hv_display_q s') = map vf_top (hv_display_q s) @ filter (to_show s) ks \<and>
    (\<forall>i. i \<notin> waiting s \<longrightarrow> ready s' i = ready s i) \<and>
    (\<forall>i\<in>waiting s. \<not> to_show s i \<longrightarrow> \<not> ready s' i)"
  using assms
proof (induction "card (waiting s)" arbitrary: s rule: less_induct)
  case less
  show ?case
  proof (cases "waiting s = {}")
    case True
    then have "first_output (no_reorder e s) pic_ids None = None"
      by (simp add: first_output_None)
    then have "output_pic e True s = (None, no_reorder e s)"
      using less.prems by (simp add: output_pic_def output_ordered_def preset_pic_def Let_def hold_back_def showable_def)
    then have "flush_loop e s = Some (no_reorder e s)"
      by (subst flush_loop.simps) simp
    moreover have "ready (no_reorder e s) i = ready s i" for i
      by (rule ready_cong) (cases "pic_at s i"; simp add: no_reorder_pics)
    ultimately show ?thesis
      using True frame_ofD(2) [OF no_reorder_pics(1)] by simp
  next
    case False
    obtain k p where o: "output_pic e True s = (Some k, mark_ready k (no_reorder e s))"
      and k: "k \<in> waiting s" "pic_at s k = Some p"
      and best: "\<And>j q. j \<in> waiting s \<Longrightarrow> pic_at s j = Some q \<Longrightarrow> \<not> out_before q p"
      using showable_chosen [OF less.prems False] by blast
    let ?t = "flush_turn e k s"
    note c = flush_turn_cases [OF less.prems k] and t = flush_turn_showable [OF less.prems k]
    have "card (waiting ?t) < card (waiting s)"
      using card_Diff1_less [OF finite_waiting k(1)] by simp
    from less.hyps [OF this t(1), unfolded t(2,3) waiting_flush_turn] obtain s' ks where ks: "flush_loop e ?t = Some s'"
      "waiting s' = {}" "set ks = waiting s - {k}" "distinct ks"
      "sorted_wrt (\<lambda>i j. key_le (keys_of s i) (keys_of s j)) ks"
      "map vf_top (hv_display_q s') = map vf_top (hv_display_q ?t) @ filter (to_show s) ks"
      "\<forall>i. i \<notin> waiting s - {k} \<longrightarrow> ready s' i = ready ?t i"
      "\<forall>i\<in>waiting s - {k}. \<not> to_show s i \<longrightarrow> \<not> ready s' i"
      by blast
    have loop: "flush_loop e s = Some s'"
      using o ks(1) by (subst flush_loop.simps) (simp add: flush_turn_def)
    have first: "key_le (keys_of s k) (keys_of s j)" if "j \<in> set ks" for j
    proof -
      have j: "j \<in> waiting s"
        using that ks(3) by simp
      then obtain q where q: "pic_at s j = Some q"
        by (auto simp: waiting_def)
      then show ?thesis
        using best [OF j q] k(2) by (auto simp: key_le_def keys_of_def order_key_def out_before_def)
    qed
    have shown: "to_show s k = displayed s p"
      using k(2) by (simp add: to_show_def)
    show ?thesis
    proof (intro exI [of _ s'] exI [of _ "k # ks"] conjI)
      show "map vf_top (hv_display_q s') = map vf_top (hv_display_q s) @ filter (to_show s) (k # ks)"
        using ks(6) c(2) shown by simp
      show "\<forall>i. i \<notin> waiting s \<longrightarrow> ready s' i = ready s i"
      proof (intro allI impI)
        fix i
        assume "i \<notin> waiting s"
        then have "i \<noteq> k" "i \<notin> waiting s - {k}"
          using k(1) by auto
        then show "ready s' i = ready s i"
          using ks(7) c(4) by metis
      qed
      show "\<forall>i\<in>waiting s. \<not> to_show s i \<longrightarrow> \<not> ready s' i"
        using ks(7,8) c(5) shown by auto
    qed (use loop ks first k(1) in auto)
  qed
qed

lemma interlace_clear_local:
  "local_body (\<lambda>i p t. if p_vf_ref p = 1 then upd_PIC i (\<lambda>p. p\<lparr>p_vf_ref := 0, p_output_ready := False\<rparr>) t else t)
    (\<lambda>p. if p_vf_ref p = 1 then p\<lparr>p_vf_ref := 0, p_output_ready := False\<rparr> else p) s"
  by (auto simp: local_body_def hevc_simps)

lemma interlace_clear_pics:
  "frame_of (interlace_clear_no_pair_pic s) = frame_of s"
  "map_option core (pic_at (interlace_clear_no_pair_pic s) j) = map_option core (pic_at s j)"
proof -
  show "frame_of (interlace_clear_no_pair_pic s) = frame_of s"
    by (simp add: interlace_clear_no_pair_pic_def for_pics_local [OF interlace_clear_local])
  show "map_option core (pic_at (interlace_clear_no_pair_pic s) j) = map_option core (pic_at s j)"
    by (cases "pic_at s j") (simp_all add: interlace_clear_no_pair_pic_def for_pics_local [OF interlace_clear_local] core_def)
qed

lemma wait_key_clear_ref [simp]: "wait_key (clear_ref p) = wait_key p"
  by (simp add: clear_ref_def)

lemma waiting_clear_referenced: "waiting (clear_referenced_flag e s) = waiting s"
  by (rule waiting_cong) (simp add: clear_referenced_flag_pics option.map_comp comp_def if_distrib cong: if_cong)

lemma waiting_interlace_clear: "waiting (interlace_clear_no_pair_pic s) = waiting s"
proof (rule waiting_cong)
  fix i
  show "map_option wait_key (pic_at (interlace_clear_no_pair_pic s) i) = map_option wait_key (pic_at s i)"
    using interlace_clear_pics(2) [of s i]
    by (cases "pic_at (interlace_clear_no_pair_pic s) i"; cases "pic_at s i") (simp_all, rule wait_key_core)
qed

lemma flush_end_unreferenced:
  assumes "pic_at (interlace_clear_no_pair_pic (clear_referenced_flag e s)) i = Some p" "i < 24" "listed p"
  shows "\<not> p_referenced p"
proof -
  let ?c = "clear_referenced_flag e s"
  obtain q where q: "pic_at ?c i = Some q" "core p = core q"
    using interlace_clear_pics(2) [of ?c i] assms(1) by (cases "pic_at ?c i") auto
  then obtain r where r: "pic_at s i = Some r" "q = (if listed r then clear_ref r else r)"
    using assms(2) by (cases "pic_at s i") (simp_all add: clear_referenced_flag_pics)
  have "listed q"
    using core_eqD(1) [OF q(2)] assms(3) by (simp add: listed_def)
  then have "\<not> p_referenced q"
    using r(2) by (auto simp: clear_ref_def listed_def split: if_splits)
  then show ?thesis
    using core_eqD(6) [OF q(2)] by simp
qed

lemma flush_end_ready:
  assumes "\<not> ready s i"
  shows "\<not> ready (interlace_clear_no_pair_pic (clear_referenced_flag e s)) i"
proof -
  let ?c = "clear_referenced_flag e s"
  have "\<not> ready ?c i"
    using assms by (cases "pic_at s i")
      (auto simp: ready_def clear_referenced_flag_pics clear_ref_def mv_free_def)
  then show ?thesis
    by (cases "pic_at ?c i")
      (auto simp: ready_def interlace_clear_no_pair_pic_def for_pics_local [OF interlace_clear_local])
qed

text \<open>C32. A flush of a stream of one layer ends, and takes every waiting picture off the list
  exactly once, in ascending order of the picture order count and then of decoding. The pictures that
  are to be displayed are sent in this order; those with an error while errors are not shown,
  and those that are not I pictures in the I only mode, are recycled: they are not sent and no
  longer count as output. Afterwards no picture waits and none is a reference. The conditions:
  pictures are output in picture order (bit 2 of \<open>i_only\<close> is clear), the second picture is not
  held back (\<open>first_pic_flag\<close> is not 1, or the stream does not reorder), no frames are discarded,
  the pictures to be displayed are single frames (a \<open>pic_struct\<close> that names no field, pair
  or repetition) listed at their own index, and the queues have a frame and room for each of them,
  all in the state in which the picture just decoded is marked.\<close>

theorem flush_output_in_order:
  assumes "showable e (mark_flushed pic s)"
  shows "\<exists>s' ks. flush_output e pic s = Some s' \<and>
    set ks = waiting (mark_flushed pic s) \<and> distinct ks \<and>
    sorted_wrt (\<lambda>i j. key_le (keys_of (mark_flushed pic s) i) (keys_of (mark_flushed pic s) j)) ks \<and>
    map vf_top (hv_display_q s') =
      map vf_top (hv_display_q (mark_flushed pic s)) @ filter (to_show (mark_flushed pic s)) ks \<and>
    (\<forall>i\<in>waiting (mark_flushed pic s). \<not> to_show (mark_flushed pic s) i \<longrightarrow> \<not> ready s' i) \<and>
    waiting s' = {} \<and> (\<forall>i<24. \<forall>p. pic_at s' i = Some p \<longrightarrow> listed p \<longrightarrow> \<not> p_referenced p)"
proof -
  let ?m = "mark_flushed pic s"
  obtain t ks where t: "flush_loop e ?m = Some t" "waiting t = {}"
    "set ks = waiting ?m" "distinct ks"
    "sorted_wrt (\<lambda>i j. key_le (keys_of ?m i) (keys_of ?m j)) ks"
    "map vf_top (hv_display_q t) = map vf_top (hv_display_q ?m) @ filter (to_show ?m) ks"
    "\<forall>i\<in>waiting ?m. \<not> to_show ?m i \<longrightarrow> \<not> ready t i"
    using flush_loop_in_order [OF assms] by blast
  let ?s' = "interlace_clear_no_pair_pic (clear_referenced_flag e t)"
  have fr: "frame_of ?s' = frame_of t"
    by (simp add: interlace_clear_pics clear_referenced_flag_pics)
  have "flush_output e pic s = Some ?s'"
    using t(1) by (simp add: flush_output_def)
  moreover have "map vf_top (hv_display_q ?s') = map vf_top (hv_display_q ?m) @ filter (to_show ?m) ks"
    using t(6) by (simp only: frame_ofD(2) [OF fr])
  moreover have "waiting ?s' = {}"
    using t(2) by (simp add: waiting_interlace_clear waiting_clear_referenced)
  ultimately show ?thesis
    using t(3-5,7) flush_end_unreferenced flush_end_ready by blast
qed

text \<open>Four pictures wait; the one with count 8 has an error and is recycled, the others go out in
  the order of their counts 0, 4 and 12.\<close>

definition sample_wait :: "nat \<Rightarrow> int \<Rightarrow> PIC_s" where
  "sample_wait i poc = (sample_pic i poc)\<lparr>p_output_mark := True, p_error_mark := (i = 1)\<rparr>"

definition sample_flush :: hevc_state where
  "sample_flush = sample_state (map Some [sample_wait 0 4, sample_wait 1 8, sample_wait 2 0, sample_wait 3 12] @ replicate 20 None)
     \<lparr>hv_ignore_bufmgr_error := 0\<rparr>"

lemma sample_flush_at:
  "pic_at sample_flush i = (if i < 4 then Some (sample_wait i ([4, 8, 0, 12] ! i)) else None)"
  by (auto simp: pic_at_def sample_flush_def sample_state_def nth_append less_Suc_eq numeral_eq_Suc nth_Cons')

lemma sample_flush_waiting: "waiting sample_flush = {0, 1, 2, 3}"
  by (auto simp: waiting_def sample_flush_at sample_wait_def sample_pic_def in_output_def has_buf_def INVALID_POC_def
      less_Suc_eq numeral_eq_Suc)

lemma sample_flush_shown: "to_show sample_flush i = (i \<in> {0, 2, 3})"
proof -
  have "hv_ignore_bufmgr_error sample_flush = 0" "hv_i_only sample_flush = 0"
    by (simp_all add: sample_flush_def sample_state_def)
  then show ?thesis
    by (auto simp: to_show_def displayed_def sample_flush_at sample_wait_def sample_pic_def)
qed

lemma sample_flush_keys: "i < 4 \<Longrightarrow> keys_of sample_flush i = Some ([4, 8, 0, 12] ! i, int i + 1)"
  by (simp add: keys_of_def sample_flush_at order_key_def sample_wait_def sample_pic_def)

lemma sample_flush_showable: "showable sample_env sample_flush"
proof -
  have q: "length (hv_newframe_q sample_flush) = 32" "hv_display_q sample_flush = []" "\<not> hv_dual_layer sample_flush"
    "hv_i_only sample_flush = 0" "hv_first_pic_flag sample_flush = 2" "\<not> par_discard_frames sample_env"
    by (simp_all add: sample_flush_def sample_state_def sample_env_def)
  have "\<forall>i\<in>waiting sample_flush. \<forall>p. pic_at sample_flush i = Some p \<longrightarrow> displayed sample_flush p \<longrightarrow>
      p_index p = int i \<and> single_frame p"
    by (auto simp: sample_flush_at sample_wait_def sample_pic_def single_frame_def split: if_splits)
  moreover have "{i \<in> waiting sample_flush. to_show sample_flush i} = {0, 2, 3}"
    by (auto simp: sample_flush_waiting sample_flush_shown)
  ultimately show ?thesis
    unfolding showable_def by (intro conjI) (simp_all add: q VF_POOL_SIZE_def)
qed

lemma flush_output_in_order_witness:
  "\<exists>s'. flush_output sample_env None sample_flush = Some s' \<and> map vf_top (hv_display_q s') = [2, 0, 3] \<and>
    \<not> ready s' 1 \<and> waiting s' = {}"
proof -
  let ?f = "\<lambda>i. [4, 8, 0, 12 :: int] ! i"
  have none: "mark_flushed None sample_flush = sample_flush" and dq: "hv_display_q sample_flush = []"
    by (simp_all add: mark_flushed_def sample_flush_def sample_state_def)
  from flush_output_in_order [of sample_env None sample_flush, unfolded none, OF sample_flush_showable]
  obtain s' ks where r: "flush_output sample_env None sample_flush = Some s'" "set ks = {0, 1, 2, 3}" "distinct ks"
    "sorted_wrt (\<lambda>i j. key_le (keys_of sample_flush i) (keys_of sample_flush j)) ks"
    "map vf_top (hv_display_q s') = filter (to_show sample_flush) ks"
    "\<forall>i\<in>{0, 1, 2, 3}. \<not> to_show sample_flush i \<longrightarrow> \<not> ready s' i" "waiting s' = {}"
    unfolding sample_flush_waiting dq by auto
  have "sorted_wrt (\<lambda>i j. ?f i \<le> ?f j) ks"
  proof (rule sorted_wrt_mono_rel [OF _ r(4)])
    fix i j
    assume "i \<in> set ks" "j \<in> set ks" "key_le (keys_of sample_flush i) (keys_of sample_flush j)"
    then show "?f i \<le> ?f j"
      using sample_flush_keys [of i] sample_flush_keys [of j] r(2) by (auto simp: key_le_def)
  qed
  then have s: "sorted (map ?f ks)"
    by (simp add: sorted_map)
  have inj: "inj_on ?f {0, 1, 2, 3}"
    by (auto simp: inj_on_def numeral_eq_Suc)
  have "ks = [2, 0, 1, 3]"
  proof (rule map_sorted_distinct_set_unique [of ?f])
    show "inj_on ?f (set ks \<union> set [2, 0, 1, 3])"
      using inj r(2) by (simp add: insert_commute)
    show "distinct (map ?f ks)"
      using inj r(2,3) by (simp add: distinct_map)
  qed (use s r(2) in \<open>auto simp: numeral_eq_Suc\<close>)
  then show ?thesis
    using r by (simp add: sample_flush_shown)
qed

end
