(* ===== verification/H265_Buffers_Correct.thy ===== *)
theory H265_Buffers_Correct
  imports H265_Dpb_Correct
begin

text \<open>
  The frame buffers of the H.265 decoder: the places of the parts of a picture in the buffer
  whose size was computed for it.
\<close>

section \<open>Places in a frame buffer\<close>

lemma align_64k_bounds:
  assumes "0 \<le> a" "a + 0xffff < 2 ^ 32"
  shows "a \<le> align_64k a" "align_64k a \<le> a + 0xffff"
proof -
  let ?x = "(a + 0xffff) div 2 ^ 16 * 2 ^ 16"
  have "?x = (a + 0xffff) - (a + 0xffff) mod 2 ^ 16"
    by (simp add: minus_mod_eq_div_mult)
  then have x: "a \<le> ?x" "?x \<le> a + 0xffff"
    using pos_mod_bound [of "2 ^ 16" "a + 0xffff"] pos_mod_sign [of "2 ^ 16" "a + 0xffff"] by simp_all
  have "align_64k a = ?x"
    using assms x by (simp add: align_64k_def u32_id)
  with x show "a \<le> align_64k a" "align_64k a \<le> a + 0xffff"
    by simp_all
qed

lemma up_64k: "(x :: int) \<le> (x + 0xffff) div 2 ^ 16 * 2 ^ 16"
proof -
  have "(x + 0xffff) div 2 ^ 16 * 2 ^ 16 = (x + 0xffff) - (x + 0xffff) mod 2 ^ 16"
    by (simp add: minus_mod_eq_div_mult)
  then show ?thesis
    using pos_mod_bound [of "2 ^ 16" "x + 0xffff"] by simp
qed

lemma lcu_num_nonneg: "0 \<le> x \<Longrightarrow> 0 < lcu \<Longrightarrow> 0 \<le> lcu_num x lcu"
  by (simp add: lcu_num_def pos_imp_zdiv_nonneg_iff)

lemma header_size_pos: "0 < hevc_get_header_size e w h"
  by (simp add: hevc_get_header_size_def)

lemma ratio_pos: "0 < get_double_write_ratio d"
  by (simp add: get_double_write_ratio_def)

definition mc_size :: "hevc_state \<Rightarrow> int" where
  "mc_size s = compute_losless_comp_header_size (hv_pic_w s) (hv_pic_h s) +
     compute_losless_comp_body_size s (hv_pic_w s) (hv_pic_h s) False"

lemma buf_size_parts:
  assumes cal: "cal_current_buf_size e s = Some (bsz, bs)" and pos: "0 \<le> hv_pic_w s" "0 \<le> hv_pic_h s" "0 < hv_lcu_size s"
    and dw: "hv_dw_mmu_enable s \<longrightarrow> hv_mmu_enable s"
  defines "d \<equiv> get_double_write_mode e s" and "hdr \<equiv> hevc_get_header_size e (hv_pic_w s) (hv_pic_h s)"
  shows "0 \<le> bs_mc_buffer_size_u_v_h bs" "mc_size s \<le> bs_mc_buffer_size_h bs * 2 ^ 16" "0 \<le> bs_mc_buffer_size_h bs"
    "0 < (if hv_mmu_enable s then hdr else 0) + (if hv_dw_mmu_enable s then hdr else 0) +
        (if \<not> hv_mmu_enable s \<and> \<not> bit d 4 then bs_mc_buffer_size_h bs * 2 ^ 16 else 0) +
        (if d \<noteq> 0 \<and> \<not> bit d 5 then bs_mc_buffer_size_u_v_h bs * 2 ^ 16 * 3 else 0) \<Longrightarrow>
      (if hv_mmu_enable s then hdr else 0) + (if hv_dw_mmu_enable s then hdr else 0) +
        (if \<not> hv_mmu_enable s \<and> \<not> bit d 4 then bs_mc_buffer_size_h bs * 2 ^ 16 else 0) +
        (if d \<noteq> 0 \<and> \<not> bit d 5 then bs_mc_buffer_size_u_v_h bs * 2 ^ 16 * 3 else 0) + 0x10000 \<le> bsz"
proof -
  let ?lcu = "hv_lcu_size s" and ?r = "get_double_write_ratio d"
  let ?tot = "lcu_num (hv_pic_w s div ?r) ?lcu * lcu_num (hv_pic_h s div ?r) ?lcu"
  have "0 \<le> ?tot * ?lcu * ?lcu"
    using pos ratio_pos [of d] by (intro mult_nonneg_nonneg lcu_num_nonneg) (simp_all add: pos_imp_zdiv_nonneg_iff)
  then have uv0: "0 \<le> (?tot * ?lcu * ?lcu div 2 + 0xffff) div 2 ^ 16"
    by (simp add: pos_imp_zdiv_nonneg_iff)
  have mc0: "0 \<le> mc_size s"
    using pos by (simp add: mc_size_def compute_losless_comp_header_size_def compute_losless_comp_body_size_def
        pos_imp_zdiv_nonneg_iff)
  define uv where "uv = (if d \<noteq> 0 \<and> \<not> bit d 5 then (?tot * ?lcu * ?lcu div 2 + 0xffff) div 2 ^ 16 else 0)"
  define mc where "mc = (mc_size s + 0xffff) div 2 ^ 16"
  define b0 where "b0 = (if hv_mmu_enable s then hdr else 0)"
  define b1 where "b1 = (if hv_dw_mmu_enable s then (b0 + 0xffff) div 2 ^ 16 * 2 ^ 16 * 2 else b0)"
  define b2 where "b2 = (if d \<noteq> 0 \<and> \<not> bit d 5 then b1 + uv * 2 ^ 16 * 3 else b1)"
  define b3 where "b3 = (if \<not> hv_mmu_enable s \<and> \<not> bit d 4 then b2 + mc * 2 ^ 16 else b2)"
  have nz: "(hv_lcu_size s = 0) = False"
    using pos(3) by simp
  have cal': "cal_current_buf_size e s = Some (if b3 > 0 then b3 + 0x10000 else b3,
      \<lparr>bs_lcu_total = lcu_num (hv_pic_w s) ?lcu * lcu_num (hv_pic_h s) ?lcu,
        bs_mc_buffer_size_h = mc, bs_mc_buffer_size_u_v_h = uv\<rparr>)"
    unfolding b3_def b2_def b1_def b0_def uv_def mc_def mc_size_def d_def hdr_def cal_current_buf_size_def Let_def
    by (simp only: nz if_False)
  have bs: "bs_mc_buffer_size_u_v_h bs = uv" "bs_mc_buffer_size_h bs = mc"
    and size: "bsz = (if b3 > 0 then b3 + 0x10000 else b3)"
    using cal unfolding cal' by (simp_all split del: if_split) auto
  have uv_nonneg: "0 \<le> uv"
    using uv0 by (simp add: uv_def)
  have mc_nonneg: "0 \<le> mc" "mc_size s \<le> mc * 2 ^ 16"
    using up_64k [of "mc_size s"] mc0 by (simp_all add: mc_def pos_imp_zdiv_nonneg_iff)
  show "0 \<le> bs_mc_buffer_size_u_v_h bs" "mc_size s \<le> bs_mc_buffer_size_h bs * 2 ^ 16"
    "0 \<le> bs_mc_buffer_size_h bs"
    using uv_nonneg mc_nonneg by (simp_all add: bs)
  have hdr: "0 < hdr" "hdr \<le> (hdr + 0xffff) div 2 ^ 16 * 2 ^ 16"
    using header_size_pos up_64k by (simp_all add: hdr_def)
  have b1: "b0 + (if hv_dw_mmu_enable s then hdr else 0) \<le> b1"
    using hdr dw by (simp add: b1_def b0_def)
  show "0 < (if hv_mmu_enable s then hdr else 0) + (if hv_dw_mmu_enable s then hdr else 0) +
        (if \<not> hv_mmu_enable s \<and> \<not> bit d 4 then bs_mc_buffer_size_h bs * 2 ^ 16 else 0) +
        (if d \<noteq> 0 \<and> \<not> bit d 5 then bs_mc_buffer_size_u_v_h bs * 2 ^ 16 * 3 else 0) \<Longrightarrow>
      (if hv_mmu_enable s then hdr else 0) + (if hv_dw_mmu_enable s then hdr else 0) +
        (if \<not> hv_mmu_enable s \<and> \<not> bit d 4 then bs_mc_buffer_size_h bs * 2 ^ 16 else 0) +
        (if d \<noteq> 0 \<and> \<not> bit d 5 then bs_mc_buffer_size_u_v_h bs * 2 ^ 16 * 3 else 0) + 0x10000 \<le> bsz"
  proof -
    let ?m = "if \<not> hv_mmu_enable s \<and> \<not> bit d 4 then mc * 2 ^ 16 else 0"
    let ?u = "if d \<noteq> 0 \<and> \<not> bit d 5 then uv * 2 ^ 16 * 3 else 0"
    let ?h = "if hv_dw_mmu_enable s then hdr else 0"
    have b3: "b3 = b1 + ?u + ?m"
      by (simp add: b3_def b2_def)
    assume "0 < (if hv_mmu_enable s then hdr else 0) + ?h +
        (if \<not> hv_mmu_enable s \<and> \<not> bit d 4 then bs_mc_buffer_size_h bs * 2 ^ 16 else 0) +
        (if d \<noteq> 0 \<and> \<not> bit d 5 then bs_mc_buffer_size_u_v_h bs * 2 ^ 16 * 3 else 0)"
    then have "0 < b0 + ?h + ?m + ?u"
      unfolding bs b0_def .
    then have "0 < b3" "b0 + ?h + ?m + ?u \<le> b3"
      unfolding b3 using b1 by linarith+
    then show ?thesis
      unfolding bs size b0_def [symmetric] by simp
  qed
qed

text \<open>The addresses do not wrap and follow one another, when there is room up to \<open>top\<close>.\<close>

lemma place_addresses:
  fixes adr H D M U top :: int
  assumes nn: "0 \<le> H" "0 \<le> D" "0 \<le> M" "0 \<le> U" "0 \<le> adr"
    and room: "adr + (H + (if a then D else 0) + (if b then M else 0) + (if c then U * 3 else 0)) + 0x10000 \<le> top"
    and top: "top \<le> 2 ^ 32"
    and y0: "y0 = align_64k (u32 (adr + H))" and y1: "y1 = (if a then u32 (y0 + D) else y0)"
    and y2: "y2 = (if b then u32 (y1 + M) else y1)" and y3: "y3 = u32 (y2 + U * 2)"
  shows "adr + H \<le> y0 \<and> y1 = y0 + (if a then D else 0) \<and> y2 = y1 + (if b then M else 0) \<and> y2 \<le> top \<and>
    (c \<longrightarrow> y3 = y2 + 2 * U \<and> y3 + U \<le> top)"
proof -
  let ?D = "if a then D else 0" and ?M = "if b then M else 0" and ?P = "if c then U * 3 else 0"
  have pos: "0 \<le> ?D" "0 \<le> ?M" "0 \<le> ?P"
    using nn by simp_all
  have b0: "0 \<le> adr + H" "adr + H + 0xffff < 2 ^ 32"
    using room top nn pos by linarith+
  then have "u32 (adr + H) = adr + H"
    by (simp add: u32_id)
  then have l0: "adr + H \<le> y0" "y0 \<le> adr + H + 0xffff"
    unfolding y0 using align_64k_bounds [OF b0] by simp_all
  have up: "0 \<le> y0 + ?D" "y0 + ?D + ?M < 2 ^ 32"
    using l0 b0 room top pos by linarith+
  have l1: "y1 = y0 + ?D"
    using up pos by (cases a) (simp_all add: y1 u32_id)
  have l2: "y2 = y1 + ?M"
    using up pos l1 by (cases b) (simp_all add: y2 u32_id)
  have "y3 = y2 + 2 * U \<and> y3 + U \<le> top" if c
  proof -
    have P: "?P = U * 3"
      using that by simp
    have "y3 = y2 + U * 2"
      unfolding y3 by (rule u32_id) (use P l0 l1 l2 b0 room top nn pos in linarith)+
    then show ?thesis
      using P l0 l1 l2 room by linarith
  qed
  moreover have "y2 \<le> top"
    using l0 l1 l2 room pos by linarith
  ultimately show ?thesis
    using l0 l1 l2 by blast
qed

text \<open>The fields that \<open>place_pic\<close> sets, with the addresses named.\<close>

lemma place_pic_fields:
  fixes s :: hevc_state and e :: h265_env and p :: PIC_s and bs :: buf_stru_s and adr bsz :: int
  defines "d \<equiv> get_double_write_mode e s" and "hdr \<equiv> hevc_get_header_size e (hv_pic_w s) (hv_pic_h s)"
  assumes y0: "y0 = align_64k (if hv_mmu_enable s then u32 (adr + hdr) else u32 adr)"
    and y1: "y1 = (if hv_dw_mmu_enable s then u32 (y0 + hdr) else y0)"
    and y2: "y2 = (if \<not> hv_mmu_enable s \<and> \<not> bit d 4 then u32 (y1 + bs_mc_buffer_size_h bs * 2 ^ 16) else y1)"
  shows "hv_mmu_enable s \<Longrightarrow> p_header_adr (place_pic e s bs adr p) = u32 adr"
    "hv_dw_mmu_enable s \<Longrightarrow> p_header_dw_adr (place_pic e s bs adr p) = y0"
    "\<not> hv_mmu_enable s \<Longrightarrow> \<not> bit d 4 \<Longrightarrow> p_mc_y_adr (place_pic e s bs adr p) = y1"
    "d \<noteq> 0 \<Longrightarrow> \<not> bit d 5 \<Longrightarrow> p_dw_y_adr (place_pic e s bs adr p) = y2"
    "d \<noteq> 0 \<Longrightarrow> \<not> bit d 5 \<Longrightarrow>
      p_dw_u_v_adr (place_pic e s bs adr p) = u32 (y2 + bs_mc_buffer_size_u_v_h bs * 2 ^ 16 * 2)"
  unfolding y0 y1 y2 d_def hdr_def by (simp_all add: place_pic_def Let_def)

text \<open>C38. The parts of a picture lie inside the buffer whose size was computed for it, and do not
  overlap: the header, the header of the double write picture, the compressed picture, and the
  two double write planes, the first twice as large as the second.\<close>

theorem place_pic_inside_buffer:
  fixes s :: hevc_state and e :: h265_env and p :: PIC_s and bs :: buf_stru_s and adr bsz :: int
  defines "d \<equiv> get_double_write_mode e s" and "hdr \<equiv> hevc_get_header_size e (hv_pic_w s) (hv_pic_h s)"
  assumes cal: "cal_current_buf_size e s = Some (bsz, bs)"
    and pos: "0 < hv_pic_w s" "0 < hv_pic_h s" "0 < hv_lcu_size s"
    and dw: "hv_dw_mmu_enable s \<longrightarrow> hv_mmu_enable s"
    and adr: "0 \<le> adr" "adr + bsz \<le> 2 ^ 32"
  defines "q \<equiv> place_pic e s bs adr p" and "U \<equiv> bs_mc_buffer_size_u_v_h bs * 2 ^ 16"
  shows "(hv_mmu_enable s \<longrightarrow> p_header_adr q = adr \<and> adr + hdr \<le> adr + bsz) \<and>
    (hv_dw_mmu_enable s \<longrightarrow> adr + hdr \<le> p_header_dw_adr q \<and> p_header_dw_adr q + hdr \<le> adr + bsz) \<and>
    (\<not> hv_mmu_enable s \<and> \<not> bit d 4 \<longrightarrow> adr \<le> p_mc_y_adr q \<and> p_mc_y_adr q + mc_size s \<le> adr + bsz) \<and>
    (d \<noteq> 0 \<and> \<not> bit d 5 \<and> 0 < U \<longrightarrow> adr \<le> p_dw_y_adr q \<and>
      p_dw_u_v_adr q = p_dw_y_adr q + 2 * U \<and> p_dw_u_v_adr q + U \<le> adr + bsz \<and>
      (hv_mmu_enable s \<longrightarrow> adr + hdr \<le> p_dw_y_adr q) \<and>
      (hv_dw_mmu_enable s \<longrightarrow> p_header_dw_adr q + hdr \<le> p_dw_y_adr q) \<and>
      (\<not> hv_mmu_enable s \<and> \<not> bit d 4 \<longrightarrow> p_mc_y_adr q + mc_size s \<le> p_dw_y_adr q))"
proof (intro conjI)
  let ?M = "bs_mc_buffer_size_h bs * 2 ^ 16"
  define own where "own = (\<not> hv_mmu_enable s \<and> \<not> bit d 4)"
  define planes where "planes = (d \<noteq> 0 \<and> \<not> bit d 5)"
  define S where "S = (if hv_mmu_enable s then hdr else 0) + (if hv_dw_mmu_enable s then hdr else 0) +
    (if own then ?M else 0) + (if planes then U * 3 else 0)"
  have nonneg: "0 \<le> hv_pic_w s" "0 \<le> hv_pic_h s"
    using pos by simp_all
  note parts = buf_size_parts [OF cal nonneg pos(3) dw, folded d_def hdr_def]
  have U: "0 \<le> U"
    using parts(1) by (simp add: U_def)
  have M: "mc_size s \<le> ?M" "0 < ?M"
  proof -
    show "mc_size s \<le> ?M"
      by (rule parts(2))
    have "0 < mc_size s"
      using pos by (simp add: mc_size_def compute_losless_comp_header_size_def compute_losless_comp_body_size_def
          add_pos_pos pos_imp_zdiv_pos_iff)
    with \<open>mc_size s \<le> ?M\<close> show "0 < ?M"
      by linarith
  qed
  have hdr: "0 < hdr"
    by (simp add: hdr_def header_size_pos)
  have "S + 0x10000 \<le> bsz" if "0 < S"
    using parts(4) [OF that [unfolded S_def own_def planes_def U_def]] unfolding S_def own_def planes_def U_def .
  then have room: "0 < S \<Longrightarrow> adr + S + 0x10000 \<le> adr + bsz"
    by simp
  define y0 where "y0 = align_64k (if hv_mmu_enable s then u32 (adr + hdr) else u32 adr)"
  define y1 where "y1 = (if hv_dw_mmu_enable s then u32 (y0 + hdr) else y0)"
  define y2 where "y2 = (if own then u32 (y1 + ?M) else y1)"
  define y3 where "y3 = u32 (y2 + U * 2)"
  note fields = place_pic_fields [OF y0_def [unfolded hdr_def] y1_def [unfolded hdr_def]
      y2_def [unfolded own_def d_def], of p, folded q_def d_def U_def, folded y3_def]
  have addr: "0 < S \<Longrightarrow> adr + (if hv_mmu_enable s then hdr else 0) \<le> y0 \<and>
      y1 = y0 + (if hv_dw_mmu_enable s then hdr else 0) \<and> y2 = y1 + (if own then ?M else 0) \<and> y2 \<le> adr + bsz \<and>
      (planes \<longrightarrow> y3 = y2 + 2 * U \<and> y3 + U \<le> adr + bsz)"
    by (rule place_addresses [where D = hdr and M = ?M and H = "if hv_mmu_enable s then hdr else 0"])
      (use hdr M(2) U adr room y0_def y1_def y2_def y3_def in \<open>simp_all add: S_def\<close>)
  have low: "0 < S \<Longrightarrow> adr \<le> y0"
    using addr hdr by (cases "hv_mmu_enable s") auto
  have S_mmu: "hv_mmu_enable s \<Longrightarrow> hdr \<le> S" and S_own: "own \<Longrightarrow> ?M \<le> S"
    and S_planes: "planes \<Longrightarrow> 3 * U \<le> S"
    using hdr M(2) U by (auto simp: S_def)
  show "hv_mmu_enable s \<longrightarrow> p_header_adr q = adr \<and> adr + hdr \<le> adr + bsz"
    using fields(1) S_mmu hdr room adr by (auto simp: u32_id)
  show "hv_dw_mmu_enable s \<longrightarrow> adr + hdr \<le> p_header_dw_adr q \<and> p_header_dw_adr q + hdr \<le> adr + bsz"
    using fields(2) S_mmu hdr addr dw M(2) by (auto simp: own_def)
  show "\<not> hv_mmu_enable s \<and> \<not> bit d 4 \<longrightarrow> adr \<le> p_mc_y_adr q \<and> p_mc_y_adr q + mc_size s \<le> adr + bsz"
    using fields(3) S_own M addr low dw by (auto simp: own_def)
  show "d \<noteq> 0 \<and> \<not> bit d 5 \<and> 0 < U \<longrightarrow> adr \<le> p_dw_y_adr q \<and>
      p_dw_u_v_adr q = p_dw_y_adr q + 2 * U \<and> p_dw_u_v_adr q + U \<le> adr + bsz \<and>
      (hv_mmu_enable s \<longrightarrow> adr + hdr \<le> p_dw_y_adr q) \<and>
      (hv_dw_mmu_enable s \<longrightarrow> p_header_dw_adr q + hdr \<le> p_dw_y_adr q) \<and>
      (\<not> hv_mmu_enable s \<and> \<not> bit d 4 \<longrightarrow> p_mc_y_adr q + mc_size s \<le> p_dw_y_adr q)"
    using fields S_planes M addr low hdr dw by (auto simp: own_def planes_def)
qed

lemma place_pic_inside_buffer_witness:
  "\<exists>bsz bs. cal_current_buf_size sample_env sample_dec = Some (bsz, bs) \<and>
    (let q = place_pic sample_env sample_dec bs 0x1000000 (sample_pic 0 4) in
      p_header_adr q = 0x1000000 \<and> p_dw_u_v_adr q = p_dw_y_adr q + 0x20000 \<and>
      p_dw_u_v_adr q + 0x10000 \<le> 0x1000000 + bsz)"
proof -
  have cal: "cal_current_buf_size sample_env sample_dec = Some (327680,
      \<lparr>bs_lcu_total = 28, bs_mc_buffer_size_h = 4, bs_mc_buffer_size_u_v_h = 1\<rparr>)"
    by code_simp
  have h: "0 < hv_pic_w sample_dec" "0 < hv_pic_h sample_dec" "0 < hv_lcu_size sample_dec"
    "hv_dw_mmu_enable sample_dec \<longrightarrow> hv_mmu_enable sample_dec" "hv_mmu_enable sample_dec"
    "get_double_write_mode sample_env sample_dec = 1"
    by code_simp+
  show ?thesis
    using place_pic_inside_buffer [OF cal h(1-4), where adr = "0x1000000" and p = "sample_pic 0 4"] cal h(5,6) by (auto simp: Let_def)
qed

end
