(* ===== verification/H265_Mv_Correct.thy ===== *)
theory H265_Mv_Correct
  imports H265_Output_Correct H265_Buffers_Correct
begin

text \<open>
  The motion vector buffers of the H.265 decoder, \<open>get_mv_buf\<close> and \<open>put_mv_buf\<close> in
  \<open>decoder/h265/vh265.c\<close>: an invariant that says which picture holds which buffer, that no
  buffer is lost and that none is shared, and that every operation of the picture list keeps it.
\<close>

section \<open>The invariant\<close>

text \<open>A picture that was taken from \<open>memset\<close> has the index 0 of a motion vector buffer that it
  does not hold. Such a picture is never given back, as it has no frame buffer or no count.\<close>

definition fresh :: "PIC_s \<Rightarrow> bool" where
  "fresh p = (\<not> p_output_mark p \<and> (p_BUF_index p = -1 \<or> p_POC p = INVALID_POC))"

definition in_use :: "BUF_s list \<Rightarrow> int \<Rightarrow> bool" where
  "in_use bs j = (0 \<le> j \<and> j < 24 \<and> b_start_adr (bs ! nat j) \<noteq> 0 \<and> b_used_flag (bs ! nat j))"

text \<open>The pictures of \<open>R\<close> hold a buffer or none, two of them never the same one, and every
  buffer in use is held; the pictures of \<open>D\<close> are in the list and not fresh.\<close>

definition mv_ok :: "nat set \<Rightarrow> nat set \<Rightarrow> hevc_state \<Rightarrow> bool" where
  "mv_ok R D s = (length (hv_m_mv_BUF s) = 24 \<and> length (hv_m_PIC s) = 24 \<and>
     (\<forall>i p. pic_at s i = Some p \<longrightarrow> p_mv_buf_index p = -1 \<or>
        i \<in> R \<and> in_use (hv_m_mv_BUF s) (p_mv_buf_index p) \<or> i \<notin> R \<and> i \<notin> D \<and> fresh p) \<and>
     (\<forall>i\<in>R. \<forall>j\<in>R. \<forall>p q. pic_at s i = Some p \<longrightarrow> pic_at s j = Some q \<longrightarrow>
        p_mv_buf_index p = p_mv_buf_index q \<longrightarrow> p_mv_buf_index p \<noteq> -1 \<longrightarrow> i = j) \<and>
     (\<forall>b<24. b_used_flag (hv_m_mv_BUF s ! b) \<longrightarrow>
        (\<exists>i\<in>R. \<exists>p. pic_at s i = Some p \<and> p_mv_buf_index p = int b)) \<and>
     (\<forall>i\<in>D. pic_at s i \<noteq> None))"

definition refs :: "hevc_state \<Rightarrow> nat set" where
  "refs s = {i. \<exists>p. pic_at s i = Some p \<and> p_referenced p}"

definition mv_inv :: "hevc_state \<Rightarrow> bool" where
  "mv_inv s = mv_ok (refs s) (set_option (hv_decoding_pic s)) s"

text \<open>Memory boxes give no buffer at address 0.\<close>

definition boxes_ok :: "h265_env \<Rightarrow> bool" where
  "boxes_ok e = (\<forall>i n. bmmu_alloc e i n \<noteq> Some 0)"

text \<open>What the output hands on is a picture of the list that is not fresh.\<close>

definition outputs :: "nat option \<Rightarrow> hevc_state \<Rightarrow> bool" where
  "outputs d s = (\<forall>k. d = Some k \<longrightarrow> (\<exists>p. pic_at s k = Some p \<and> \<not> fresh p))"

text \<open>Steps that leave the buffers and their holders alone; those of the second kind leave the
  references and the picture being decoded alone too.\<close>

definition mv_same :: "hevc_state \<Rightarrow> hevc_state \<Rightarrow> bool" where
  "mv_same s s' = (hv_m_mv_BUF s' = hv_m_mv_BUF s \<and> length (hv_m_PIC s') = length (hv_m_PIC s) \<and>
     (\<forall>i. rel_option (\<lambda>p q. p_mv_buf_index q = p_mv_buf_index p \<and> (fresh p \<longrightarrow> fresh q)) (pic_at s i) (pic_at s' i)))"

definition mv_keeps :: "hevc_state \<Rightarrow> hevc_state \<Rightarrow> bool" where
  "mv_keeps s s' = (hv_m_mv_BUF s' = hv_m_mv_BUF s \<and> length (hv_m_PIC s') = length (hv_m_PIC s) \<and>
     hv_decoding_pic s' = hv_decoding_pic s \<and>
     (\<forall>i. rel_option (\<lambda>p q. p_mv_buf_index q = p_mv_buf_index p \<and> p_referenced q = p_referenced p \<and>
        (fresh p \<longrightarrow> fresh q)) (pic_at s i) (pic_at s' i)))"

lemma mv_okI:
  assumes "length (hv_m_mv_BUF s) = 24" "length (hv_m_PIC s) = 24"
    and "\<And>i p. pic_at s i = Some p \<Longrightarrow> p_mv_buf_index p = -1 \<or>
        i \<in> R \<and> in_use (hv_m_mv_BUF s) (p_mv_buf_index p) \<or> i \<notin> R \<and> i \<notin> D \<and> fresh p"
    and "\<And>i j p q. i \<in> R \<Longrightarrow> j \<in> R \<Longrightarrow> pic_at s i = Some p \<Longrightarrow> pic_at s j = Some q \<Longrightarrow>
        p_mv_buf_index p = p_mv_buf_index q \<Longrightarrow> p_mv_buf_index p \<noteq> -1 \<Longrightarrow> i = j"
    and "\<And>b. b < 24 \<Longrightarrow> b_used_flag (hv_m_mv_BUF s ! b) \<Longrightarrow>
        \<exists>i\<in>R. \<exists>p. pic_at s i = Some p \<and> p_mv_buf_index p = int b"
    and "\<And>i. i \<in> D \<Longrightarrow> pic_at s i \<noteq> None"
  shows "mv_ok R D s"
  using assms unfolding mv_ok_def by blast

lemma mv_okD:
  assumes "mv_ok R D s"
  shows "length (hv_m_mv_BUF s) = 24" "length (hv_m_PIC s) = 24"
    and "\<And>i p. pic_at s i = Some p \<Longrightarrow> p_mv_buf_index p = -1 \<or>
        i \<in> R \<and> in_use (hv_m_mv_BUF s) (p_mv_buf_index p) \<or> i \<notin> R \<and> i \<notin> D \<and> fresh p"
    and "\<And>i j p q. i \<in> R \<Longrightarrow> j \<in> R \<Longrightarrow> pic_at s i = Some p \<Longrightarrow> pic_at s j = Some q \<Longrightarrow>
        p_mv_buf_index p = p_mv_buf_index q \<Longrightarrow> p_mv_buf_index p \<noteq> -1 \<Longrightarrow> i = j"
    and "\<And>b. b < 24 \<Longrightarrow> b_used_flag (hv_m_mv_BUF s ! b) \<Longrightarrow>
        \<exists>i\<in>R. \<exists>p. pic_at s i = Some p \<and> p_mv_buf_index p = int b"
    and "\<And>i. i \<in> D \<Longrightarrow> pic_at s i \<noteq> None"
  using assms unfolding mv_ok_def by blast+

lemma mv_ok_mono: "mv_ok R D s \<Longrightarrow> D' \<subseteq> D \<Longrightarrow> mv_ok R D' s"
  unfolding mv_ok_def by blast

lemma used_in_use:
  assumes "mv_ok R D s" "b < 24" "b_used_flag (hv_m_mv_BUF s ! b)"
  shows "b_start_adr (hv_m_mv_BUF s ! b) \<noteq> 0"
proof -
  obtain i p where "i \<in> R" "pic_at s i = Some p" "p_mv_buf_index p = int b"
    using mv_okD(5) [OF assms] by blast
  then show ?thesis
    using mv_okD(3) [OF assms(1), of i p] by (auto simp: in_use_def)
qed

section \<open>Steps that leave the buffers alone\<close>

lemma mv_ok_same:
  assumes ok: "mv_ok R D s" and same: "mv_same s s'"
  shows "mv_ok R D s'"
proof -
  have rel: "rel_option (\<lambda>p q. p_mv_buf_index q = p_mv_buf_index p \<and> (fresh p \<longrightarrow> fresh q)) (pic_at s i) (pic_at s' i)" for i
    using same by (simp add: mv_same_def)
  have fwd: "\<exists>p. pic_at s i = Some p \<and> p_mv_buf_index q = p_mv_buf_index p \<and> (fresh p \<longrightarrow> fresh q)"
    if "pic_at s' i = Some q" for i q
    using rel [of i] that by (cases "pic_at s i") simp_all
  have bwd: "\<exists>q. pic_at s' i = Some q \<and> p_mv_buf_index q = p_mv_buf_index p" if "pic_at s i = Some p" for i p
    using rel [of i] that by (cases "pic_at s' i") simp_all
  have b: "hv_m_mv_BUF s' = hv_m_mv_BUF s" "length (hv_m_PIC s') = length (hv_m_PIC s)"
    using same by (simp_all add: mv_same_def)
  show ?thesis
  proof (rule mv_okI)
    show "length (hv_m_mv_BUF s') = 24" "length (hv_m_PIC s') = 24"
      unfolding b by (rule mv_okD [OF ok])+
  next
    fix i q
    assume "pic_at s' i = Some q"
    then obtain p where p: "pic_at s i = Some p" "p_mv_buf_index q = p_mv_buf_index p" "fresh p \<longrightarrow> fresh q"
      using fwd by blast
    show "p_mv_buf_index q = -1 \<or> i \<in> R \<and> in_use (hv_m_mv_BUF s') (p_mv_buf_index q) \<or> i \<notin> R \<and> i \<notin> D \<and> fresh q"
      unfolding b p(2) using mv_okD(3) [OF ok p(1)] p(3) by blast
  next
    fix i j p q
    assume ij: "i \<in> R" "j \<in> R" and "pic_at s' i = Some p" "pic_at s' j = Some q"
      and eq: "p_mv_buf_index p = p_mv_buf_index q" "p_mv_buf_index p \<noteq> -1"
    then obtain p' q' where "pic_at s i = Some p'" "pic_at s j = Some q'"
      "p_mv_buf_index p = p_mv_buf_index p'" "p_mv_buf_index q = p_mv_buf_index q'"
      using fwd by blast
    then show "i = j"
      using mv_okD(4) [OF ok ij] eq by simp
  next
    fix b
    assume "b < 24" "b_used_flag (hv_m_mv_BUF s' ! b)"
    then obtain i p where "i \<in> R" "pic_at s i = Some p" "p_mv_buf_index p = int b"
      using mv_okD(5) [OF ok] unfolding b by blast
    then show "\<exists>i\<in>R. \<exists>p. pic_at s' i = Some p \<and> p_mv_buf_index p = int b"
      using bwd by metis
  next
    fix i
    assume "i \<in> D"
    then show "pic_at s' i \<noteq> None"
      using mv_okD(6) [OF ok] bwd by (metis not_None_eq)
  qed
qed

lemma mv_keeps_same: "mv_keeps s s' \<Longrightarrow> mv_same s s'"
  unfolding mv_keeps_def mv_same_def by (auto elim: option.rel_mono_strong)

lemma refs_keeps:
  assumes "mv_keeps s s'"
  shows "refs s' = refs s"
proof -
  have "(\<exists>q. pic_at s' i = Some q \<and> p_referenced q) = (\<exists>p. pic_at s i = Some p \<and> p_referenced p)" for i
    using assms by (cases "pic_at s i"; cases "pic_at s' i") (auto simp: mv_keeps_def dest: spec [of _ i])
  then show ?thesis
    by (simp add: refs_def)
qed

lemma mv_inv_keeps: "mv_inv s \<Longrightarrow> mv_keeps s s' \<Longrightarrow> mv_inv s'"
  using mv_ok_same [OF _ mv_keeps_same] refs_keeps by (fastforce simp: mv_inv_def mv_keeps_def)

lemma mv_keeps_refl [simp]: "mv_keeps s s"
  by (simp add: mv_keeps_def option.rel_refl)

lemma mv_keeps_trans [trans]:
  assumes "mv_keeps s t" "mv_keeps t u"
  shows "mv_keeps s u"
proof -
  have "rel_option (\<lambda>p q. p_mv_buf_index q = p_mv_buf_index p \<and> p_referenced q = p_referenced p \<and>
        (fresh p \<longrightarrow> fresh q)) (pic_at s i) (pic_at u i)" for i
  proof -
    have "rel_option (\<lambda>p q. p_mv_buf_index q = p_mv_buf_index p \<and> p_referenced q = p_referenced p \<and>
        (fresh p \<longrightarrow> fresh q)) (pic_at s i) (pic_at t i)"
      "rel_option (\<lambda>p q. p_mv_buf_index q = p_mv_buf_index p \<and> p_referenced q = p_referenced p \<and>
        (fresh p \<longrightarrow> fresh q)) (pic_at t i) (pic_at u i)"
      using assms by (simp_all add: mv_keeps_def)
    then show ?thesis
      by (cases "pic_at s i"; cases "pic_at t i"; cases "pic_at u i") simp_all
  qed
  then show ?thesis
    using assms by (simp add: mv_keeps_def)
qed

lemma mv_keeps_eq:
  "hv_m_PIC s' = hv_m_PIC s \<Longrightarrow> hv_m_mv_BUF s' = hv_m_mv_BUF s \<Longrightarrow> hv_decoding_pic s' = hv_decoding_pic s \<Longrightarrow>
    mv_keeps s s'"
  by (simp add: mv_keeps_def pic_at_def option.rel_refl)

lemma mv_keeps_upd:
  assumes "\<And>p. pic_at s k = Some p \<Longrightarrow> p_mv_buf_index (f p) = p_mv_buf_index p \<and> p_referenced (f p) = p_referenced p \<and>
    (fresh p \<longrightarrow> fresh (f p))"
  shows "mv_keeps s (upd_PIC k f s)"
proof -
  have "rel_option (\<lambda>p q. p_mv_buf_index q = p_mv_buf_index p \<and> p_referenced q = p_referenced p \<and>
        (fresh p \<longrightarrow> fresh q)) (pic_at s i) (pic_at (upd_PIC k f s) i)" for i
    using assms by (cases "pic_at s i") (auto simp: hevc_simps option.rel_refl)
  then show ?thesis
    by (simp add: mv_keeps_def hevc_simps) (simp add: upd_PIC_def)
qed

lemma mv_keeps_outer:
  assumes "outer s' = outer s"
  shows "mv_keeps s s'"
proof -
  have "rel_option (\<lambda>p q. p_mv_buf_index q = p_mv_buf_index p \<and> p_referenced q = p_referenced p \<and>
        (fresh p \<longrightarrow> fresh q)) (pic_at s i) (pic_at s' i)" for i
    using outer_pics(1) [OF assms, of i]
    by (cases "pic_at s i"; cases "pic_at s' i") (auto dest: core_eqD simp: fresh_def)
  moreover have "hv_decoding_pic s' = hv_decoding_pic s"
    using arg_cong [OF assms, of hv_decoding_pic] by (simp add: outer_def)
  ultimately show ?thesis
    using outerD(15) [OF assms] outer_pics(2) [OF assms] by (simp add: mv_keeps_def)
qed

section \<open>Giving a buffer back\<close>

lemma mv_ok_unowned:
  assumes ok: "mv_ok R D s" and p: "pic_at s k = Some p" and none: "p_mv_buf_index p = -1"
  shows "mv_ok (R - {k}) (insert k D) s"
proof (rule mv_okI)
  fix i q
  assume "pic_at s i = Some q"
  then show "p_mv_buf_index q = -1 \<or> i \<in> R - {k} \<and> in_use (hv_m_mv_BUF s) (p_mv_buf_index q) \<or>
      i \<notin> R - {k} \<and> i \<notin> insert k D \<and> fresh q"
    using mv_okD(3) [OF ok, of i q] p none by auto
next
  fix b
  assume "b < 24" "b_used_flag (hv_m_mv_BUF s ! b)"
  then show "\<exists>i\<in>R - {k}. \<exists>p. pic_at s i = Some p \<and> p_mv_buf_index p = int b"
    using mv_okD(5) [OF ok] p none by fastforce
qed (use mv_okD [OF ok] p in auto)

lemma length_upd_mv_buf [hevc_simps]: "length (hv_m_mv_BUF (upd_mv i f s)) = length (hv_m_mv_BUF s)"
  by (simp add: upd_mv_def)

lemma mv_BUF_upd_pic [hevc_simps]: "hv_m_mv_BUF (upd_PIC i f s) = hv_m_mv_BUF s"
  by (simp add: upd_PIC_def)

lemma mv_BUF_upd_mv [hevc_simps]:
  "hv_m_mv_BUF (upd_mv i f s) = (hv_m_mv_BUF s)[i := f (hv_m_mv_BUF s ! i)]"
  by (simp add: upd_mv_def)

lemma decoding_upd [hevc_simps]:
  "hv_decoding_pic (upd_PIC i f s) = hv_decoding_pic s" "hv_decoding_pic (upd_mv j g s) = hv_decoding_pic s"
  "hv_decoding_pic (upd_BUF k h s) = hv_decoding_pic s"
  by (simp_all add: upd_PIC_def upd_mv_def upd_BUF_def)

lemma decoding_put_mv_buf [hevc_simps]: "hv_decoding_pic (put_mv_buf e k s) = hv_decoding_pic s"
  by (simp add: put_mv_buf_def Let_def hevc_simps split: option.split)

text \<open>A picture that holds a buffer gives it back.\<close>

lemma mv_ok_give:
  assumes ok: "mv_ok R D s" and p: "pic_at s k = Some p" and k: "k \<in> R" "p_mv_buf_index p = int j"
    and g: "\<And>b. \<not> b_used_flag (g b)" and f: "p_mv_buf_index (f p) = -1"
  shows "mv_ok (R - {k}) (insert k D) (upd_PIC k f (upd_mv j g s))"
proof -
  have j: "j < 24" "length (hv_m_mv_BUF s) = 24"
    using mv_okD(3) [OF ok p] mv_okD(1) [OF ok] k by (auto simp: in_use_def)
  have other: "p_mv_buf_index q \<noteq> int j" if "i \<noteq> k" "i \<in> R" "pic_at s i = Some q" for i q
    using mv_okD(4) [OF ok that(2) k(1) that(3) p] k(2) that(1) by auto
  show ?thesis
  proof (rule mv_okI)
    fix i q
    assume at: "pic_at (upd_PIC k f (upd_mv j g s)) i = Some q"
    show "p_mv_buf_index q = -1 \<or> i \<in> R - {k} \<and> in_use (hv_m_mv_BUF (upd_PIC k f (upd_mv j g s))) (p_mv_buf_index q) \<or>
        i \<notin> R - {k} \<and> i \<notin> insert k D \<and> fresh q"
    proof (cases "i = k")
      case True
      then show ?thesis
        using at p f by (simp add: hevc_simps)
    next
      case False
      then have q: "pic_at s i = Some q"
        using at by (simp add: hevc_simps)
      show ?thesis
        using mv_okD(3) [OF ok q] other [OF False _ q] False j by (auto simp: hevc_simps in_use_def nth_list_update)
    qed
  next
    fix i l q r
    assume "i \<in> R - {k}" "l \<in> R - {k}" "pic_at (upd_PIC k f (upd_mv j g s)) i = Some q"
      "pic_at (upd_PIC k f (upd_mv j g s)) l = Some r" "p_mv_buf_index q = p_mv_buf_index r" "p_mv_buf_index q \<noteq> -1"
    then show "i = l"
      using mv_okD(4) [OF ok, of i l q r] by (simp add: hevc_simps)
  next
    fix b
    assume b: "b < 24" "b_used_flag (hv_m_mv_BUF (upd_PIC k f (upd_mv j g s)) ! b)"
    then have "b \<noteq> j" "b_used_flag (hv_m_mv_BUF s ! b)"
      using g j by (auto simp: hevc_simps nth_list_update split: if_splits)
    then obtain i q where "i \<in> R" "pic_at s i = Some q" "p_mv_buf_index q = int b"
      using mv_okD(5) [OF ok b(1)] by blast
    moreover from this have "i \<noteq> k"
      using p k(2) \<open>b \<noteq> j\<close> by auto
    ultimately show "\<exists>i\<in>R - {k}. \<exists>p. pic_at (upd_PIC k f (upd_mv j g s)) i = Some p \<and> p_mv_buf_index p = int b"
      by (auto simp: hevc_simps)
  qed (use mv_okD [OF ok] p in \<open>auto simp: hevc_simps\<close>)
qed

lemma put_mv_ok:
  assumes ok: "mv_ok R D s" and p: "pic_at s k = Some p" and held: "p_mv_buf_index p = -1 \<or> k \<in> R"
  shows "mv_ok (R - {k}) (insert k D) (put_mv_buf e k s)"
proof (cases "p_mv_buf_index p = -1")
  case True
  then show ?thesis
    using mv_ok_unowned [OF ok p True] by (simp add: put_mv_buf_def p)
next
  case False
  with held mv_okD(3) [OF ok p] have k: "k \<in> R" and u: "in_use (hv_m_mv_BUF s) (p_mv_buf_index p)"
    by auto
  define j where "j = nat (p_mv_buf_index p)"
  have j: "p_mv_buf_index p = int j" "j < 24"
    using u by (simp_all add: j_def in_use_def nat_less_iff)
  have "put_mv_buf e k s = upd_PIC k (p_mv_buf_index_update (\<lambda>_. -1))
      (upd_mv j (if par_mv_buf_dynamic_alloc e then free_BUF else b_used_flag_update (\<lambda>_. False)) s)"
    using u j by (simp add: put_mv_buf_def p Let_def in_use_def MAX_REF_PIC_NUM_def)
  then show ?thesis
    using mv_ok_give [OF ok p k j(1)] by (simp add: free_BUF_def)
qed

lemma mv_ok_upd:
  assumes ok: "mv_ok R D s"
    and f: "\<And>p. pic_at s k = Some p \<Longrightarrow> p_mv_buf_index (f p) = p_mv_buf_index p \<and> (fresh p \<longrightarrow> fresh (f p))"
  shows "mv_ok R D (upd_PIC k f s)"
proof (rule mv_ok_same [OF ok])
  have "rel_option (\<lambda>p q. p_mv_buf_index q = p_mv_buf_index p \<and> (fresh p \<longrightarrow> fresh q)) (pic_at s i)
      (pic_at (upd_PIC k f s) i)" for i
    using f by (cases "pic_at s i") (auto simp: hevc_simps option.rel_refl)
  then show "mv_same s (upd_PIC k f s)"
    by (simp add: mv_same_def hevc_simps)
qed

lemma refs_unreference: "refs (unreference e k s) = refs s - {k}"
proof -
  have "i \<in> refs (unreference e k s) \<longleftrightarrow> i \<in> refs s - {k}" for i
    by (cases "pic_at s i") (auto simp: refs_def hevc_simps)
  then show ?thesis
    by blast
qed

lemma decoding_unreference [hevc_simps]: "hv_decoding_pic (unreference e k s) = hv_decoding_pic s"
  by (simp add: unreference_def hevc_simps)

lemma mv_inv_unreference:
  assumes inv: "mv_inv s" and held: "\<And>p. pic_at s k = Some p \<Longrightarrow> p_mv_buf_index p = -1 \<or> p_referenced p"
  shows "mv_inv (unreference e k s)"
proof (cases "pic_at s k")
  case None
  then have "put_mv_buf e k (upd_PIC k f s) = upd_PIC k f s" for f
    by (simp add: put_mv_buf_def hevc_simps)
  moreover have "mv_keeps s (upd_PIC k f s)" for f
    using None by (intro mv_keeps_upd) simp
  ultimately show ?thesis
    using mv_inv_keeps [OF inv] by (simp add: unreference_def)
next
  case (Some p)
  let ?s = "upd_PIC k (p_referenced_update (\<lambda>_. False)) s"
  have ok: "mv_ok (refs s) (set_option (hv_decoding_pic s)) ?s"
    using inv by (intro mv_ok_upd) (simp_all add: mv_inv_def fresh_def)
  have at: "pic_at ?s k = Some (p\<lparr>p_referenced := False\<rparr>)"
    using Some by (simp add: hevc_simps)
  have "mv_ok (refs s - {k}) (insert k (set_option (hv_decoding_pic s))) (put_mv_buf e k ?s)"
    using held [OF Some] Some by (intro put_mv_ok [OF ok at]) (auto simp: refs_def)
  then show ?thesis
    by (auto simp: mv_inv_def refs_unreference hevc_simps intro: mv_ok_mono) (simp add: unreference_def mv_ok_mono subset_insertI)
qed

lemma settled:
  assumes "mv_inv s" "pic_at s k = Some p" "\<not> fresh p"
  shows "p_mv_buf_index p = -1 \<or> p_referenced p"
  using mv_okD(3) [OF assms(1) [unfolded mv_inv_def] assms(2)] assms(2,3) by (auto simp: refs_def)

lemma for_pics_inv:
  assumes "\<And>i p t. P t \<Longrightarrow> pic_at t i = Some p \<Longrightarrow> listed p \<Longrightarrow> P (f i p t)" "P s"
  shows "P (for_pics f s)"
proof -
  have "P (fold (for_step f) is s)" for "is"
    using assms(2)
  proof (induction "is" arbitrary: s)
    case (Cons i "is")
    then show ?case
      using assms(1) by (auto simp: for_step_def split: option.split)
  qed simp
  then show ?thesis
    by (simp add: for_pics_fold)
qed

lemma mv_inv_clear_referenced: "mv_inv s \<Longrightarrow> mv_inv (clear_referenced_flag e s)"
  unfolding clear_referenced_flag_def by (rule for_pics_inv) (auto intro: mv_inv_unreference)

lemma mv_inv_apply_ref_pic_set: "mv_inv s \<Longrightarrow> mv_inv (apply_ref_pic_set e cur s)"
  unfolding apply_ref_pic_set_def
proof (rule for_pics_inv)
  fix i p t
  assume inv: "mv_inv t" and at: "pic_at t i = Some p"
  let ?t = "upd_PIC i (p_long_term_ref_update (\<lambda>_. False)) t"
  have k: "mv_keeps t (upd_PIC i (p_long_term_ref_update (\<lambda>_. b)) t)" for b t
    by (rule mv_keeps_upd) (simp add: fresh_def)
  have inv': "mv_inv (upd_PIC i (p_long_term_ref_update (\<lambda>_. True)) ?t)" "mv_inv ?t"
    by (rule mv_inv_keeps [OF mv_inv_keeps [OF inv k] k], rule mv_inv_keeps [OF inv k])
  have "mv_inv (unreference e i ?t)" if "p_referenced p"
    using that at by (intro mv_inv_unreference [OF inv'(2)]) (auto simp: hevc_simps)
  then show "mv_inv (if p_BUF_index p = - 1 then t
     else let t1 = ?t in if \<not> p_referenced p \<or> p_POC p = cur then t1
       else case rps_find (take 16 (rp_CUR_RPS (hv_param s))) cur (p_POC p) of
         None \<Rightarrow> unreference e i t1
       | Some lt \<Rightarrow> if lt then upd_PIC i (p_long_term_ref_update (\<lambda>_. True)) t1 else t1)"
    using inv inv' by (auto simp: Let_def split: option.split)
qed

section \<open>Output\<close>

lemma in_output_not_fresh: "in_output p \<Longrightarrow> \<not> fresh p"
  by (simp add: in_output_def has_buf_def fresh_def)

lemma mv_keeps_no_reorder: "mv_keeps s (no_reorder e s)"
proof -
  have "mv_keeps s (fold (\<lambda>i. upd_PIC i (p_num_reorder_pic_update (\<lambda>_. 0))) is s)" for "is"
  proof (induction "is" arbitrary: s)
    case (Cons i "is")
    have "mv_keeps s (upd_PIC i (p_num_reorder_pic_update (\<lambda>_. 0)) s)"
      by (rule mv_keeps_upd) (simp add: fresh_def)
    then show ?case
      using mv_keeps_trans Cons by simp
  qed simp
  then show ?thesis
    by (simp add: no_reorder_def)
qed

lemma mv_keeps_mark_ready: "mv_keeps s (mark_ready k s)"
  unfolding mark_ready_def by (rule mv_keeps_upd) (auto simp: fresh_def)

lemma mv_keeps_show_or_recycle: "mv_keeps s (show_or_recycle e k s)"
  by (rule mv_keeps_outer) (rule outer_show_or_recycle)

lemma output_ordered_mv:
  assumes inv: "mv_inv s" and r: "output_ordered e fl s = (d, s')"
  shows "mv_inv s'" "outputs d s'"
proof -
  let ?n = "no_reorder e s"
  have n: "mv_inv ?n"
    by (rule mv_inv_keeps [OF inv mv_keeps_no_reorder])
  define f where "f = first_output ?n pic_ids (map_option (\<lambda>(i, _). with_pic ?n i) (preset_pic e s))"
  have "\<exists>C P. output_ordered e fl s = (case (if C then None else f) of None \<Rightarrow> (None, ?n)
      | Some (k, p) \<Rightarrow> if P p then (Some k, mark_ready k ?n) else (None, ?n))"
    unfolding output_ordered_def Let_def f_def by (intro exI) (rule refl)
  then obtain C P where o: "output_ordered e fl s = (case (if C then None else f) of None \<Rightarrow> (None, ?n)
      | Some (k, p) \<Rightarrow> if P p then (Some k, mark_ready k ?n) else (None, ?n))"
    by (elim exE)
  have d: "s' = ?n \<and> d = None \<or> (\<exists>k p. s' = mark_ready k ?n \<and> d = Some k \<and> f = Some (k, p))"
  proof (cases "if C then None else f")
    case None
    then show ?thesis
      using o r by simp
  next
    case (Some x)
    then show ?thesis
      using o r by (cases x; cases C; cases "P (snd x)") simp_all
  qed
  then show "mv_inv s'"
    using n mv_inv_keeps [OF n mv_keeps_mark_ready] by auto
  show "outputs d s'"
    unfolding outputs_def
  proof (intro allI impI)
    fix k
    assume "d = Some k"
    then obtain p where s': "s' = mark_ready k ?n" and f: "f = Some (k, p)"
      using d by auto
    have "\<exists>p. pic_at ?n k = Some p \<and> in_output p"
    proof (cases "(k, p) \<in> set (cand (\<lambda>p. in_output p \<and> p_output_mark p) ?n pic_ids)")
      case False
      then have "map_option (\<lambda>(i, _). with_pic ?n i) (preset_pic e s) = Some (k, p)"
        using fold_pick_mem [OF f [unfolded f_def first_output_eq]] by blast
      then have "k = last (fast_first_ids e s)" "fast_first_ids e s \<noteq> []"
        by (auto simp: preset_pic_def with_pic_def split: if_splits)
      then have "k \<in> set (fast_first_ids e s)"
        by simp
      then obtain q where "pic_at s k = Some q" "in_output q"
        by (auto simp: fast_first_ids_def fast_first_def split: option.splits)
      then have "pic_at ?n k = Some (if k \<in> set (fast_first_ids e s) then q\<lparr>p_num_reorder_pic := 0\<rparr> else q)"
        by (simp add: no_reorder_pics(3))
      then show ?thesis
        using \<open>in_output q\<close> by (auto simp: in_output_def has_buf_def)
    qed (auto simp: set_cand)
    then show "\<exists>p. pic_at s' k = Some p \<and> \<not> fresh p"
      by (auto simp: s' mark_ready_def hevc_simps fresh_def in_output_def has_buf_def)
  qed
qed

lemma output_decoded_mv:
  assumes inv: "mv_inv s" and r: "output_decoded e s = (d, s')"
  shows "mv_inv s'" "outputs d s'"
proof -
  have "mv_inv s' \<and> outputs d s'"
  proof (cases "first_decoded s pic_ids None")
    case None
    then show ?thesis
      using r inv by (simp add: output_decoded_def outputs_def)
  next
    case (Some kp)
    then obtain k q where f: "first_decoded s pic_ids None = Some (k, q)"
      by (cases kp) auto
    have eq: "d = Some k" "s' = unreference e k (mark_ready k s)"
      using r f by (simp_all add: output_decoded_def)
    obtain p where p: "pic_at s k = Some p" "in_output p" "p_output_mark p"
      using first_decoded_waiting [OF f] by (auto simp: waiting_def)
    have inv1: "mv_inv (mark_ready k s)"
      by (rule mv_inv_keeps [OF inv mv_keeps_mark_ready])
    have "p_mv_buf_index p = -1 \<or> p_referenced p"
      using settled [OF inv p(1)] p(2) by (simp add: in_output_not_fresh)
    then have "mv_inv s'"
      unfolding eq using p(1) by (intro mv_inv_unreference [OF inv1]) (auto simp: mark_ready_def hevc_simps)
    moreover have "outputs d s'"
      using p by (auto simp: outputs_def eq mark_ready_def hevc_simps fresh_def in_output_def has_buf_def)
    ultimately show ?thesis ..
  qed
  then show "mv_inv s'" "outputs d s'"
    by simp_all
qed

lemma output_pic_mv:
  assumes inv: "mv_inv s" and r: "output_pic e fl s = (d, s')"
  shows "mv_inv s'" "outputs d s'"
proof -
  define q where "q = (if bit (hv_i_only s) 2 then output_decoded e s else output_ordered e fl s)"
  obtain d1 s1 where q1: "q = (d1, s1)"
    by (cases q)
  have i: "mv_inv s1" "outputs d1 s1"
    using q1 output_decoded_mv [OF inv] output_ordered_mv [OF inv] by (auto simp: q_def split: if_splits)
  have "hold_back q = (d, s')"
    using r by (simp add: output_pic_def q_def)
  then have "(d, s') = q \<or> (d, s') = (None, s1\<lparr>hv_first_pic_flag := 2\<rparr>)"
    using hold_back_cases [of q] q1 by auto
  moreover have "mv_inv (s1\<lparr>hv_first_pic_flag := 2\<rparr>)"
    by (rule mv_inv_keeps [OF i(1)]) (rule mv_keeps_eq; simp)
  ultimately show "mv_inv s'" "outputs d s'"
    using i q1 by (auto simp: outputs_def)
qed

lemma mv_inv_unreference_output:
  assumes "mv_inv s" "outputs (Some k) s"
  shows "mv_inv (unreference e k s)"
  using assms settled [OF assms(1), of k] by (intro mv_inv_unreference [OF assms(1)]) (auto simp: outputs_def)

lemma flush_loop_mv:
  assumes "flush_loop e s = Some s'" "mv_inv s"
  shows "mv_inv s'"
proof -
  have "mv_inv s \<longrightarrow> mv_inv s'"
  proof (rule flush_loop.raw_induct [of "\<lambda>e s s'. mv_inv s \<longrightarrow> mv_inv s'" e s s', OF _ assms(1)], intro impI)
    fix loop :: "h265_env \<Rightarrow> hevc_state \<Rightarrow> hevc_state option" and e s s'
    assume IH: "\<And>e s s'. loop e s = Some s' \<Longrightarrow> mv_inv s \<longrightarrow> mv_inv s'"
      and r: "(case output_pic e True s of (None, s1) \<Rightarrow> Some s1
        | (Some k, s1) \<Rightarrow> loop e (show_or_recycle e k (unreference e k s1))) = Some s'"
      and inv: "mv_inv s"
    obtain d s1 where o: "output_pic e True s = (d, s1)"
      by (cases "output_pic e True s")
    note i = output_pic_mv [OF inv o]
    show "mv_inv s'"
    proof (cases d)
      case None
      then show ?thesis
        using r i o by simp
    next
      case (Some k)
      have "mv_inv (show_or_recycle e k (unreference e k s1))"
        using mv_inv_keeps [OF mv_inv_unreference_output mv_keeps_show_or_recycle] i Some by simp
      moreover have "loop e (show_or_recycle e k (unreference e k s1)) = Some s'"
        using r o Some by simp
      ultimately show ?thesis
        using IH by blast
    qed
  qed
  then show ?thesis
    using assms(2) by blast
qed

lemma output_loop_mv:
  assumes "output_loop e s = Some s'" "mv_inv s"
  shows "mv_inv s'"
proof -
  have "mv_inv s \<longrightarrow> mv_inv s'"
  proof (rule output_loop.raw_induct [of "\<lambda>e s s'. mv_inv s \<longrightarrow> mv_inv s'" e s s', OF _ assms(1)], intro impI)
    fix loop :: "h265_env \<Rightarrow> hevc_state \<Rightarrow> hevc_state option" and e s s'
    assume IH: "\<And>e s s'. loop e s = Some s' \<Longrightarrow> mv_inv s \<longrightarrow> mv_inv s'"
      and r: "(case output_pic e False s of (None, s1) \<Rightarrow> Some s1
        | (Some k, s1) \<Rightarrow> loop e (show_or_recycle e k s1)) = Some s'"
      and inv: "mv_inv s"
    obtain d s1 where o: "output_pic e False s = (d, s1)"
      by (cases "output_pic e False s")
    note i = output_pic_mv [OF inv o]
    show "mv_inv s'"
    proof (cases d)
      case None
      then show ?thesis
        using r i o by simp
    next
      case (Some k)
      have "mv_inv (show_or_recycle e k s1)"
        using mv_inv_keeps [OF i(1) mv_keeps_show_or_recycle] by simp
      moreover have "loop e (show_or_recycle e k s1) = Some s'"
        using r o Some by simp
      ultimately show ?thesis
        using IH by blast
    qed
  qed
  then show ?thesis
    using assms(2) by blast
qed

lemma mv_keeps_PB_skip_control: "mv_keeps s (PB_skip_control p s)"
  by (rule mv_keeps_eq) (simp_all add: PB_skip_control_def Let_def)

lemma mv_keeps_upd_settled:
  assumes "\<And>p. pic_at s k = Some p \<Longrightarrow> \<not> fresh p"
    and "\<And>p. p_mv_buf_index (f p) = p_mv_buf_index p \<and> p_referenced (f p) = p_referenced p"
  shows "mv_keeps s (upd_PIC k f (PB_skip_control q s))"
proof (rule mv_keeps_trans [OF mv_keeps_PB_skip_control mv_keeps_upd])
  fix p
  assume "pic_at (PB_skip_control q s) k = Some p"
  then have "pic_at s k = Some p"
    using pic_at_cong [of "PB_skip_control q s" s] by (simp add: PB_skip_control_def Let_def)
  then show "p_mv_buf_index (f p) = p_mv_buf_index p \<and> p_referenced (f p) = p_referenced p \<and> (fresh p \<longrightarrow> fresh (f p))"
    using assms by simp
qed

lemma found_not_fresh: "get_pic_by_POC s poc = Some k \<Longrightarrow> pic_at s k = Some p \<Longrightarrow> \<not> fresh p"
  using get_pic_by_POC_Some [of s poc k] by (auto simp: fresh_def has_buf_def)

lemma mv_keeps_marks:
  "mv_keeps s (mark_flushed (get_pic_by_POC s poc) s)" "mv_keeps s (mark_flushed None s)"
  "mv_keeps s (mark_decoded (get_pic_by_POC s poc) s)" "mv_keeps s (mark_done s)"
  unfolding mark_flushed_def mark_decoded_def mark_done_def
  by (auto split: option.split intro!: mv_keeps_upd_settled dest: found_not_fresh)

lemma mv_keeps_interlace_clear: "mv_keeps s (interlace_clear_no_pair_pic s)"
proof -
  have "mv_keeps s (for_pics (\<lambda>i p t. if p_vf_ref p = 1
       then upd_PIC i (\<lambda>p. p\<lparr>p_vf_ref := 0, p_output_ready := False\<rparr>) t else t) s)"
  proof (rule for_pics_inv [of "mv_keeps s"])
    fix i p t
    assume "mv_keeps s t"
    moreover have "mv_keeps t (upd_PIC i (\<lambda>p. p\<lparr>p_vf_ref := 0, p_output_ready := False\<rparr>) t)"
      by (rule mv_keeps_upd) (simp add: fresh_def)
    ultimately show "mv_keeps s (if p_vf_ref p = 1 then upd_PIC i (\<lambda>p. p\<lparr>p_vf_ref := 0, p_output_ready := False\<rparr>) t else t)"
      using mv_keeps_trans by simp
  qed simp
  then show ?thesis
    by (simp add: interlace_clear_no_pair_pic_def)
qed

lemma flush_output_mv:
  assumes r: "flush_output e d s = Some s'" and inv: "mv_inv s" and d: "d = None \<or> d = get_pic_by_POC s poc"
  shows "mv_inv s'"
proof -
  obtain t where t: "flush_loop e (mark_flushed d s) = Some t"
      "s' = interlace_clear_no_pair_pic (clear_referenced_flag e t)"
    using r by (auto simp: flush_output_def elim!: bind_SomeE)
  have "mv_inv (mark_flushed d s)"
    using d mv_inv_keeps [OF inv mv_keeps_marks(1)] mv_inv_keeps [OF inv mv_keeps_marks(2)] by auto
  then have "mv_inv (clear_referenced_flag e t)"
    using flush_loop_mv [OF t(1)] by (simp add: mv_inv_clear_referenced)
  then show ?thesis
    using t(2) mv_inv_keeps mv_keeps_interlace_clear by simp
qed

section \<open>Taking a buffer\<close>

lemma mv_ok_take:
  assumes ok: "mv_ok R D s" and k: "k \<notin> R" "pic_at s k = Some p"
    and j: "j < 24" "\<not> b_used_flag (hv_m_mv_BUF s ! j)"
    and b: "b_start_adr b \<noteq> 0" "b_used_flag b" and f: "p_mv_buf_index (f p) = int j"
  shows "mv_ok (insert k R) D (upd_PIC k f (upd_mv j (\<lambda>_. b) s))"
proof -
  let ?s = "upd_PIC k f (upd_mv j (\<lambda>_. b) s)"
  have len: "length (hv_m_mv_BUF s) = 24"
    using mv_okD(1) [OF ok] .
  have other: "p_mv_buf_index q \<noteq> int j" if "i \<in> R" "pic_at s i = Some q" for i q
    using mv_okD(3) [OF ok that(2)] that(1) j(2) by (auto simp: in_use_def)
  show ?thesis
  proof (rule mv_okI)
    fix i q
    assume at: "pic_at ?s i = Some q"
    show "p_mv_buf_index q = -1 \<or> i \<in> insert k R \<and> in_use (hv_m_mv_BUF ?s) (p_mv_buf_index q) \<or>
        i \<notin> insert k R \<and> i \<notin> D \<and> fresh q"
    proof (cases "i = k")
      case True
      then show ?thesis
        using at k f j(1) b len by (auto simp: hevc_simps in_use_def)
    next
      case False
      then have q: "pic_at s i = Some q"
        using at by (simp add: hevc_simps)
      show ?thesis
        using mv_okD(3) [OF ok q] other [OF _ q] False len by (auto simp: hevc_simps in_use_def nth_list_update)
    qed
  next
    fix i l q r
    assume il: "i \<in> insert k R" "l \<in> insert k R" and at: "pic_at ?s i = Some q" "pic_at ?s l = Some r"
      and eq: "p_mv_buf_index q = p_mv_buf_index r" "p_mv_buf_index q \<noteq> -1"
    show "i = l"
    proof (cases "i = k \<or> l = k")
      case True
      have "p_mv_buf_index q \<noteq> int j" if "i \<noteq> k"
        using other [of i q] that il(1) at(1) by (simp add: hevc_simps)
      moreover have "p_mv_buf_index r \<noteq> int j" if "l \<noteq> k"
        using other [of l r] that il(2) at(2) by (simp add: hevc_simps)
      moreover have "p_mv_buf_index q = int j" if "i = k"
        using at(1) k(2) f that by (auto simp: hevc_simps)
      moreover have "p_mv_buf_index r = int j" if "l = k"
        using at(2) k(2) f that by (auto simp: hevc_simps)
      ultimately show ?thesis
        using True eq(1) by metis
    next
      case False
      then show ?thesis
        using mv_okD(4) [OF ok, of i l q r] il at eq by (simp add: hevc_simps)
    qed
  next
    fix c
    assume c: "c < 24" "b_used_flag (hv_m_mv_BUF ?s ! c)"
    show "\<exists>i\<in>insert k R. \<exists>p. pic_at ?s i = Some p \<and> p_mv_buf_index p = int c"
    proof (cases "c = j")
      case True
      then show ?thesis
        using k(2) f by (auto simp: hevc_simps)
    next
      case False
      then have "b_used_flag (hv_m_mv_BUF s ! c)"
        using c by (simp add: hevc_simps)
      then obtain i q where "i \<in> R" "pic_at s i = Some q" "p_mv_buf_index q = int c"
        using mv_okD(5) [OF ok c(1)] by blast
      moreover from this have "i \<noteq> k"
        using k(1) by blast
      ultimately show ?thesis
        by (auto simp: hevc_simps)
    qed
  qed (use mv_okD [OF ok] in \<open>auto simp: hevc_simps\<close>)
qed

lemma pic_at_dealloc_mv_bufs: "pic_at (dealloc_mv_bufs s) i = map_option (p_mv_buf_index_update (\<lambda>_. -1)) (pic_at s i)"
  by (simp add: pic_at_def dealloc_mv_bufs_def)

lemma dealloc_mv_ok:
  assumes ok: "mv_ok R D s"
  shows "mv_ok R D (dealloc_mv_bufs s)"
proof (rule mv_okI)
  fix b
  assume "b < 24" "b_used_flag (hv_m_mv_BUF (dealloc_mv_bufs s) ! b)"
  then have "b_used_flag (hv_m_mv_BUF s ! b)" "b_start_adr (hv_m_mv_BUF s ! b) = 0" "b < 24"
    using mv_okD(1) [OF ok] by (auto simp: dealloc_mv_bufs_def free_BUF_def split: if_splits)
  then show "\<exists>i\<in>R. \<exists>p. pic_at (dealloc_mv_bufs s) i = Some p \<and> p_mv_buf_index p = int b"
    using used_in_use [OF ok] by blast
qed (use mv_okD [OF ok] in \<open>auto simp: pic_at_dealloc_mv_bufs\<close>, simp_all add: dealloc_mv_bufs_def)

lemma mv_buf_resize_ok:
  assumes "mv_ok R D s" "mv_buf_resize e p s = Some s'"
  shows "mv_ok R D s'"
proof -
  have size: "mv_same t (t\<lparr>hv_mv_buf_size := n\<rparr>)" for t n
    by (simp add: mv_same_def pic_at_def option.rel_refl)
  show ?thesis
    using assms mv_ok_same [OF _ size] dealloc_mv_ok by (auto simp: mv_buf_resize_def split: if_splits)
qed

lemma first_mv_Some:
  "first_mv P s = Some j \<Longrightarrow> j < length (hv_m_mv_BUF s) \<and> P (hv_m_mv_BUF s ! j)"
  by (auto simp: first_mv_def find_Some_iff)

lemma mv_buf_choose_cases:
  assumes ok: "mv_ok R D s" and e: "boxes_ok e" and c: "mv_buf_choose e s = (r, s')"
  shows "r = None \<and> mv_same s s' \<or>
    (\<exists>j b. r = Some j \<and> j < 24 \<and> \<not> b_used_flag (hv_m_mv_BUF s ! j) \<and> b_start_adr b \<noteq> 0 \<and> b_used_flag b \<and>
      s' = upd_mv j (\<lambda>_. b) s)"
proof (cases "if par_mv_buf_dynamic_alloc e then None else first_mv unused_mv s")
  case (Some j)
  then have f: "first_mv unused_mv s = Some j"
    by (simp split: if_splits)
  have "s' = upd_mv j (\<lambda>_. (hv_m_mv_BUF s ! j)\<lparr>b_used_flag := True\<rparr>) s" "r = Some j"
    using c by (simp_all add: mv_buf_choose_def Some upd_mv_def)
  moreover have "j < 24" "b_start_adr (hv_m_mv_BUF s ! j) \<noteq> 0" "\<not> b_used_flag (hv_m_mv_BUF s ! j)"
    using first_mv_Some [OF f] mv_okD(1) [OF ok] by (simp_all add: unused_mv_def)
  ultimately show ?thesis
    by (intro disjI2 exI [of _ j] exI [of _ "(hv_m_mv_BUF s ! j)\<lparr>b_used_flag := True\<rparr>"]) simp
next
  case None
  then have new: "mv_buf_new e s = (r, s')"
    using c by (simp add: mv_buf_choose_def)
  show ?thesis
  proof (cases "first_mv (\<lambda>b. b_start_adr b = 0) s")
    case None
    then show ?thesis
      using new by (simp add: mv_buf_new_def mv_same_def option.rel_refl)
  next
    case (Some j)
    then have j: "j < 24" "b_start_adr (hv_m_mv_BUF s ! j) = 0"
      using first_mv_Some [OF Some] mv_okD(1) [OF ok] by simp_all
    then have "\<not> b_used_flag (hv_m_mv_BUF s ! j)"
      using used_in_use [OF ok j(1)] by blast
    moreover have "mv_same s (upd_mv j (b_start_adr_update (\<lambda>_. 0)) s)"
    proof -
      have "(hv_m_mv_BUF s ! j)\<lparr>b_start_adr := 0\<rparr> = hv_m_mv_BUF s ! j"
        using j(2) by (cases "hv_m_mv_BUF s ! j") simp
      then show ?thesis
        by (simp add: mv_same_def hevc_simps option.rel_refl)
    qed
    ultimately show ?thesis
    proof (cases "bmmu_alloc e (MV_BUFFER_IDX j) (hv_mv_buf_size s)")
      case None
      then have "r = None" "s' = upd_mv j (b_start_adr_update (\<lambda>_. 0)) s"
        using new by (simp_all add: mv_buf_new_def Some alloc_mv_buf_def)
      then show ?thesis
        using \<open>mv_same s (upd_mv j (b_start_adr_update (\<lambda>_. 0)) s)\<close> by simp
    next
      case a: (Some adr)
      let ?b = "\<lparr>b_start_adr = adr, b_size = hv_mv_buf_size s, b_used_flag = True\<rparr>"
      have "s' = upd_mv j (\<lambda>_. ?b) s" "r = Some j"
        using new j mv_okD(1) [OF ok] by (simp_all add: mv_buf_new_def Some alloc_mv_buf_def a upd_mv_def)
      moreover have "adr \<noteq> 0"
        using e a unfolding boxes_ok_def by metis
      ultimately show ?thesis
        using j \<open>\<not> b_used_flag (hv_m_mv_BUF s ! j)\<close>
        by (intro disjI2 exI [of _ j] exI [of _ ?b]) simp
    qed
  qed
qed

lemma refs_cong:
  "(\<And>i. map_option p_referenced (pic_at s' i) = map_option p_referenced (pic_at s i)) \<Longrightarrow> refs s' = refs s"
proof -
  assume "\<And>i. map_option p_referenced (pic_at s' i) = map_option p_referenced (pic_at s i)"
  then have "(\<exists>q. pic_at s' i = Some q \<and> p_referenced q) = (\<exists>p. pic_at s i = Some p \<and> p_referenced p)" for i
    by (metis option.map_disc_iff option.collapse option.map_sel option.sel not_None_eq)
  then show ?thesis
    by (simp add: refs_def)
qed

lemma mv_buf_resize_refs:
  "mv_buf_resize e p s = Some s' \<Longrightarrow> map_option p_referenced (pic_at s' i) = map_option p_referenced (pic_at s i) \<and>
    hv_decoding_pic s' = hv_decoding_pic s"
  by (auto simp: mv_buf_resize_def pic_at_def dealloc_mv_bufs_def option.map_comp comp_def split: if_splits)

lemma mv_buf_choose_refs:
  "pic_at (snd (mv_buf_choose e s)) = pic_at s \<and> hv_decoding_pic (snd (mv_buf_choose e s)) = hv_decoding_pic s"
  by (auto simp: mv_buf_choose_def mv_buf_new_def alloc_mv_buf_def Let_def hevc_simps split: option.split)

lemma get_mv_buf_ok:
  assumes ok: "mv_ok R D s" and e: "boxes_ok e" and k: "k \<notin> R" and g: "get_mv_buf e k s = Some (r, s')"
  shows "mv_ok (if r < 0 then R else insert k R) D s'"
    and "map_option p_referenced (pic_at s' i) = map_option p_referenced (pic_at s i)"
    and "hv_decoding_pic s' = hv_decoding_pic s"
proof -
  obtain p s1 where p: "pic_at s k = Some p" and s1: "mv_buf_resize e p s = Some s1"
    using g by (auto simp: get_mv_buf_def elim!: bind_SomeE)
  obtain c s2 where c: "mv_buf_choose e s1 = (c, s2)"
    by (cases "mv_buf_choose e s1")
  have ok1: "mv_ok R D s1"
    by (rule mv_buf_resize_ok [OF ok s1])
  note r1 = mv_buf_resize_refs [OF s1]
  have r2: "pic_at s2 = pic_at s1" "hv_decoding_pic s2 = hv_decoding_pic s1"
    using mv_buf_choose_refs [of e s1] c by simp_all
  obtain p1 where p1: "pic_at s1 k = Some p1"
    using r1 [of k] p by (cases "pic_at s1 k") auto
  have res: "(r, s') = (case c of None \<Rightarrow> (-1, s2) | Some j \<Rightarrow> (int j, upd_PIC k (\<lambda>p. p\<lparr>
         p_mv_buf_index := int j,
         p_mv_size := b_size (hv_m_mv_BUF s2 ! j),
         p_mpred_mv_wr_start_addr := u32 ((b_start_adr (hv_m_mv_BUF s2 ! j) + 0xffff) div 2 ^ 16 * 2 ^ 16)\<rparr>) s2))"
    using g by (cases c) (auto simp: get_mv_buf_def p s1 c)
  consider "c = None" "mv_same s1 s2" | j b where "c = Some j" "j < 24" "\<not> b_used_flag (hv_m_mv_BUF s1 ! j)"
      "b_start_adr b \<noteq> 0" "b_used_flag b" "s2 = upd_mv j (\<lambda>_. b) s1"
    using mv_buf_choose_cases [OF ok1 e c] by blast
  then show "mv_ok (if r < 0 then R else insert k R) D s'"
  proof cases
    case 1
    then show ?thesis
      using res mv_ok_same [OF ok1] by simp
  next
    case 2
    then show ?thesis
      using res mv_ok_take [OF ok1 k p1 2(2-5)] by simp
  qed
  show "map_option p_referenced (pic_at s' i) = map_option p_referenced (pic_at s i)"
    "hv_decoding_pic s' = hv_decoding_pic s"
    using res r1 r2 by (cases c; auto simp: hevc_simps option.map_comp comp_def)+
qed

section \<open>Taking a picture\<close>

lemma place_pic_keeps [simp]:
  "p_mv_buf_index (place_pic e s bs adr p) = p_mv_buf_index p"
  "p_referenced (place_pic e s bs adr p) = p_referenced p"
  "p_output_mark (place_pic e s bs adr p) = p_output_mark p"
  by (simp_all add: place_pic_def Let_def)

lemma mv_keeps_upd_buf: "mv_keeps s (upd_BUF i f s)"
  by (rule mv_keeps_eq) (simp_all add: upd_BUF_def)

lemma alloc_buf_keeps: "alloc_buf e s = Some (r, s') \<Longrightarrow> mv_keeps s s'"
  by (rule mv_keeps_eq) (auto simp: alloc_buf_def upd_BUF_def Let_def elim!: bind_SomeE split: if_splits option.splits)

lemma config_pic_keeps:
  assumes "config_pic e k s = Some (ok, s')" and "\<And>p. pic_at s k = Some p \<Longrightarrow> \<not> p_output_mark p"
  shows "mv_keeps s s'"
proof -
  obtain n bs where c: "cal_current_buf_size e s = Some (n, bs)"
    using assms(1) by (auto simp: config_pic_def elim!: bind_SomeE)
  show ?thesis
  proof (cases "first_buf (\<lambda>b. b_start_adr b \<noteq> 0 \<and> \<not> b_used_flag b \<and> n \<le> b_size b) s")
    case None
    then show ?thesis
      using assms(1) by (simp add: config_pic_def c)
  next
    case (Some i)
    let ?t = "upd_BUF i (b_used_flag_update (\<lambda>_. True)) s"
    have "s' = upd_PIC k (\<lambda>p. (place_pic e s bs (b_start_adr (hv_m_BUF s ! i)) p)\<lparr>p_POC := INVALID_POC, p_BUF_index := int i\<rparr>) ?t"
      using assms(1) by (simp add: config_pic_def c Some)
    moreover have "mv_keeps ?t (upd_PIC k (\<lambda>p. (place_pic e s bs (b_start_adr (hv_m_BUF s ! i)) p)\<lparr>p_POC := INVALID_POC, p_BUF_index := int i\<rparr>) ?t)"
      using assms(2) by (intro mv_keeps_upd) (auto simp: hevc_simps fresh_def)
    ultimately show ?thesis
      using mv_keeps_trans [OF mv_keeps_upd_buf] by blast
  qed
qed

lemma mv_keeps_dealloc_pic_buf: "mv_keeps s (dealloc_pic_buf k s)"
proof -
  have "mv_keeps s (upd_PIC k (p_BUF_index_update (\<lambda>_. -1)) s)"
    by (rule mv_keeps_upd) (simp add: fresh_def)
  then show ?thesis
    using mv_keeps_trans mv_keeps_upd_buf by (auto simp: dealloc_pic_buf_def Let_def split: option.split)
qed

lemma mv_keeps_pic:
  assumes "mv_keeps s s'" "pic_at s k = Some p"
  obtains q where "pic_at s' k = Some q" "p_mv_buf_index q = p_mv_buf_index p" "p_referenced q = p_referenced p"
proof -
  have "rel_option (\<lambda>p q. p_mv_buf_index q = p_mv_buf_index p \<and> p_referenced q = p_referenced p \<and>
        (fresh p \<longrightarrow> fresh q)) (pic_at s k) (pic_at s' k)"
    using assms(1) by (simp add: mv_keeps_def)
  then show ?thesis
    using assms(2) that by (cases "pic_at s' k") auto
qed

lemma provide_buf_keeps:
  assumes "provide_buf e k s = Some (ok, s')" "pic_at s k = Some p" "\<not> p_output_mark p"
  shows "mv_keeps s s'"
proof (cases "0 \<le> p_BUF_index p")
  case True
  then show ?thesis
    using assms by (simp add: provide_buf_def)
next
  case False
  then obtain r s1 where a: "alloc_buf e s = Some (r, s1)"
    using assms by (auto simp: provide_buf_def elim!: bind_SomeE)
  have k1: "mv_keeps s s1"
    by (rule alloc_buf_keeps [OF a])
  have at1: "pic_at s1 = pic_at s"
    using a by (intro pic_at_cong)
      (auto simp: alloc_buf_def upd_BUF_def Let_def elim!: bind_SomeE split: if_splits option.splits)
  show ?thesis
  proof (cases "r < 0")
    case True
    then show ?thesis
      using assms False a k1 by (simp add: provide_buf_def)
  next
    case r: False
    then obtain c s2 where c: "config_pic e k s1 = Some (c, s2)"
      using assms False a by (auto simp: provide_buf_def elim!: bind_SomeE)
    have k2: "mv_keeps s s2"
      using config_pic_keeps [OF c] assms(2,3) at1 mv_keeps_trans [OF k1] by simp
    have "s' = (if \<not> c then dealloc_pic_buf k s2
        else upd_PIC k (\<lambda>p. p\<lparr>p_width := hv_pic_w s, p_height := hv_pic_h s\<rparr>) s2)"
      using assms False r a c by (simp add: provide_buf_def split: if_splits)
    moreover have "mv_keeps s2 (upd_PIC k (\<lambda>p. p\<lparr>p_width := hv_pic_w s, p_height := hv_pic_h s\<rparr>) s2)"
      by (rule mv_keeps_upd) (simp add: fresh_def)
    ultimately show ?thesis
      using mv_keeps_trans [OF k2] mv_keeps_dealloc_pic_buf by auto
  qed
qed

lemma choose_pic_usable:
  assumes "choose_pic s pic_ids None = Some (k, p)"
  shows "k < 24 \<and> pic_at s k = Some p \<and> listed p \<and> usable_pic s p"
  using fold_pick_mem [OF assms [unfolded choose_pic_eq]] by (auto simp: set_cand)

text \<open>The steps of \<open>h265_get_new_pic\<close>, each with its result.\<close>

lemma h265_get_new_pic_cases:
  assumes "h265_get_new_pic e s = Some (r, s')"
  obtains "r = None" "s' = s"
  | k p s1 where "choose_pic s pic_ids None = Some (k, p)" "provide_buf e k s = Some (False, s1)" "r = None" "s' = s1"
  | k p s1 m s3 where "choose_pic s pic_ids None = Some (k, p)" "provide_buf e k s = Some (True, s1)"
      "get_mv_buf e k (upd_PIC k (p_double_write_mode_update (\<lambda>_. get_double_write_mode e s)) s1) = Some (m, s3)"
      "m < 0" "r = None" "s' = s3"
  | k p s1 m s3 where "choose_pic s pic_ids None = Some (k, p)" "provide_buf e k s = Some (True, s1)"
      "get_mv_buf e k (upd_PIC k (p_double_write_mode_update (\<lambda>_. get_double_write_mode e s)) s1) = Some (m, s3)"
      "\<not> m < 0" "r = None \<and> s' = put_mv_buf e k s3 \<or> r = Some k \<and> s' = upd_PIC k (start_pic e s) s3"
proof (cases "choose_pic s pic_ids None")
  case None
  then show thesis
    using assms that(1) by (simp add: h265_get_new_pic_def)
next
  case (Some kp)
  then obtain k p where c: "choose_pic s pic_ids None = Some (k, p)"
    by (cases kp) auto
  obtain ok s1 where pr: "provide_buf e k s = Some (ok, s1)"
    using assms c by (auto simp: h265_get_new_pic_def elim!: bind_SomeE)
  show thesis
  proof (cases ok)
    case False
    then show thesis
      using assms c pr that(2) by (simp add: h265_get_new_pic_def)
  next
    case True
    let ?s2 = "upd_PIC k (p_double_write_mode_update (\<lambda>_. get_double_write_mode e s)) s1"
    obtain m s3 where g: "get_mv_buf e k ?s2 = Some (m, s3)"
      using assms c pr True by (auto simp: h265_get_new_pic_def Let_def elim!: bind_SomeE)
    show thesis
    proof (cases "m < 0")
      case m: True
      then show thesis
        using assms c pr True g that(3) by (simp add: h265_get_new_pic_def)
    next
      case m: False
      then have res: "r = None \<and> s' = put_mv_buf e k s3 \<or> r = Some k \<and> s' = upd_PIC k (start_pic e s) s3"
        using assms c pr True g by (auto simp: h265_get_new_pic_def elim!: bind_SomeE split: if_splits)
      have "provide_buf e k s = Some (True, s1)"
        using pr True by simp
      from that(4) [OF c this g m res] show thesis .
    qed
  qed
qed

lemma refs_put_mv_buf [simp]: "refs (put_mv_buf e k s) = refs s"
  by (rule refs_cong) (auto simp: hevc_simps option.map_comp comp_def)

lemma chosen_usable:
  assumes "choose_pic s pic_ids None = Some (k, p)"
  shows "pic_at s k = Some p" "\<not> p_output_mark p" "\<not> p_referenced p"
  using choose_pic_usable [OF assms] by (simp_all add: usable_pic_def)

text \<open>The state after a picture was chosen and the attempt to get a motion vector buffer for it.\<close>

lemma new_pic_taken:
  assumes inv: "mv_inv s" and e: "boxes_ok e" and c: "choose_pic s pic_ids None = Some (k, p)"
    and pr: "provide_buf e k s = Some (ok, s1)"
    and g: "get_mv_buf e k (upd_PIC k (p_double_write_mode_update (\<lambda>_. d)) s1) = Some (m, s3)"
  shows "mv_ok (if m < 0 then refs s else insert k (refs s)) (set_option (hv_decoding_pic s)) s3"
    and "refs s3 = refs s" "hv_decoding_pic s3 = hv_decoding_pic s" "\<exists>p. pic_at s3 k = Some p" "k \<notin> refs s"
proof -
  let ?s2 = "upd_PIC k (p_double_write_mode_update (\<lambda>_. d)) s1"
  note u = chosen_usable [OF c]
  have "mv_keeps s1 ?s2"
    by (rule mv_keeps_upd) (simp add: fresh_def)
  then have k2: "mv_keeps s ?s2"
    using mv_keeps_trans [OF provide_buf_keeps [OF pr u(1,2)]] by blast
  have r2: "refs ?s2 = refs s" "hv_decoding_pic ?s2 = hv_decoding_pic s"
    using refs_keeps [OF k2] k2 by (simp_all add: mv_keeps_def)
  show k: "k \<notin> refs s"
    using u by (simp add: refs_def)
  have ok2: "mv_ok (refs s) (set_option (hv_decoding_pic s)) ?s2"
    using mv_inv_keeps [OF inv k2] by (simp add: mv_inv_def r2)
  note g' = get_mv_buf_ok [OF ok2 e k g]
  show "mv_ok (if m < 0 then refs s else insert k (refs s)) (set_option (hv_decoding_pic s)) s3"
    by (rule g'(1))
  show "refs s3 = refs s"
    using refs_cong [OF g'(2)] r2(1) by simp
  show "hv_decoding_pic s3 = hv_decoding_pic s"
    using g'(3) r2(2) by simp
  obtain q where "pic_at ?s2 k = Some q"
    by (rule mv_keeps_pic [OF k2 u(1)])
  then show "\<exists>p. pic_at s3 k = Some p"
    using g'(2) [of k] by (cases "pic_at s3 k") auto
qed

lemma mv_ok_start_pic:
  assumes ok: "mv_ok R D s" and q: "pic_at s k = Some q" and k: "k \<in> R"
  shows "mv_ok R D (upd_PIC k (start_pic e s0) s)"
proof (rule mv_okI)
  let ?u = "upd_PIC k (start_pic e s0) s"
  have old: "\<exists>p0. pic_at s i = Some p0 \<and> p_mv_buf_index p0 = p_mv_buf_index p" if "pic_at ?u i = Some p" for i p
    using that by (auto simp: hevc_simps start_pic_def split: if_splits)
  fix i p
  assume i: "pic_at ?u i = Some p"
  show "p_mv_buf_index p = -1 \<or> i \<in> R \<and> in_use (hv_m_mv_BUF ?u) (p_mv_buf_index p) \<or> i \<notin> R \<and> i \<notin> D \<and> fresh p"
    using mv_okD(3) [OF ok, of i] i q k by (cases "i = k") (auto simp: hevc_simps start_pic_def)
  fix j p'
  assume "i \<in> R" "j \<in> R" "pic_at ?u j = Some p'" "p_mv_buf_index p = p_mv_buf_index p'" "p_mv_buf_index p \<noteq> -1"
  then show "i = j"
    using old [OF i] old [of j p'] mv_okD(4) [OF ok, of i j] by auto
next
  fix b
  assume b: "b < 24" "b_used_flag (hv_m_mv_BUF (upd_PIC k (start_pic e s0) s) ! b)"
  then have "b_used_flag (hv_m_mv_BUF s ! b)"
    by (simp add: hevc_simps)
  then obtain i p where "i \<in> R" "pic_at s i = Some p" "p_mv_buf_index p = int b"
    using mv_okD(5) [OF ok b(1)] by blast
  then show "\<exists>i\<in>R. \<exists>p. pic_at (upd_PIC k (start_pic e s0) s) i = Some p \<and> p_mv_buf_index p = int b"
    by (intro bexI [of _ i]) (auto simp: hevc_simps start_pic_def)
qed (use mv_okD [OF ok] in \<open>auto simp: hevc_simps\<close>)

lemma h265_get_new_pic_mv:
  assumes inv: "mv_inv s" and e: "boxes_ok e" and r: "h265_get_new_pic e s = Some (r, s')"
  shows "mv_inv s' \<and> (\<forall>k. r = Some k \<longrightarrow> (\<exists>p. pic_at s' k = Some p \<and> p_referenced p))"
proof -
  note usable = chosen_usable
  from r show ?thesis
  proof (cases rule: h265_get_new_pic_cases)
    case 1
    then show ?thesis
      using inv by simp
  next
    case (2 k p s1)
    then show ?thesis
      using mv_inv_keeps [OF inv provide_buf_keeps [OF 2(2) usable(1,2) [OF 2(1)]]] by simp
  next
    case (3 k p s1 m s3)
    show ?thesis
      using new_pic_taken [OF inv e 3(1-3)] 3(4-6) by (simp add: mv_inv_def)
  next
    case (4 k p s1 m s3)
    note t = new_pic_taken [OF inv e 4(1-3)]
    have ok3: "mv_ok (insert k (refs s)) (set_option (hv_decoding_pic s)) s3"
      using t(1) 4(4) by simp
    obtain q where q: "pic_at s3 k = Some q"
      using t(4) by blast
    have "mv_ok (refs s) (set_option (hv_decoding_pic s)) (put_mv_buf e k s3)"
      using mv_ok_mono [OF put_mv_ok [OF ok3 q], of "set_option (hv_decoding_pic s)"] t(5) by auto
    then have put: "mv_inv (put_mv_buf e k s3)"
      by (simp add: mv_inv_def t(2,3) hevc_simps)
    let ?u = "upd_PIC k (start_pic e s) s3"
    have "refs ?u = insert k (refs s)"
      using q t(2) by (auto simp: refs_def hevc_simps start_pic_def)
    moreover have "mv_ok (insert k (refs s)) (set_option (hv_decoding_pic s)) ?u"
      by (rule mv_ok_start_pic [OF ok3 q]) simp
    ultimately have "mv_inv ?u"
      by (simp add: mv_inv_def hevc_simps t(3))
    moreover have "\<exists>p. pic_at ?u k = Some p \<and> p_referenced p"
      using q by (simp add: hevc_simps start_pic_def)
    ultimately show ?thesis
      using put 4(5) by auto
  qed
qed

section \<open>The list of pictures\<close>

lemma mv_keeps_set_buf_unused: "mv_keeps s (set_buf_unused i s)"
  by (simp add: set_buf_unused_def mv_keeps_upd_buf)

lemma shrink_pics_keeps: "mv_keeps s (snd (shrink_pics work is n s))"
proof (induction "is" arbitrary: n s)
  case (Cons i "is")
  have step: "mv_keeps s (upd_PIC i (\<lambda>p. if P then p\<lparr>p_BUF_index := -1, p_width := 0, p_height := 0, p_index := -1\<rparr>
      else p\<lparr>p_BUF_index := -1, p_width := w, p_height := h\<rparr>) (set_buf_unused b s))" for P w h b
    by (rule mv_keeps_trans [OF mv_keeps_set_buf_unused mv_keeps_upd]) (simp add: fresh_def)
  show ?case
    by (cases "pic_at s i") (auto simp: Let_def intro: Cons mv_keeps_trans [OF step Cons])
qed simp

lemma pic_at_set_pic: "pic_at (set_pic i p s) j = (if j = i \<and> i < length (hv_m_PIC s) then Some p else pic_at s j)"
  by (auto simp: pic_at_def set_pic_def nth_list_update)

text \<open>A new picture of the list is fresh.\<close>

lemma mv_ok_new_pic:
  assumes ok: "mv_ok R D s" and none: "pic_at s i = None" and R: "i \<notin> R"
    and new: "\<And>j. pic_at s' j = (if j = i \<and> i < 24 then Some p else pic_at s j)"
    and same: "hv_m_mv_BUF s' = hv_m_mv_BUF s" "length (hv_m_PIC s') = length (hv_m_PIC s)"
    and p: "fresh p \<or> p_mv_buf_index p = -1"
  shows "mv_ok R D s'"
proof (rule mv_okI)
  have D: "i \<notin> D"
    using mv_okD(6) [OF ok] none by blast
  fix l q
  assume "pic_at s' l = Some q"
  then show "p_mv_buf_index q = -1 \<or> l \<in> R \<and> in_use (hv_m_mv_BUF s') (p_mv_buf_index q) \<or> l \<notin> R \<and> l \<notin> D \<and> fresh q"
    using mv_okD(3) [OF ok, of l q] p D R by (auto simp: new same split: if_splits)
next
  fix l j q r
  assume "l \<in> R" "j \<in> R" "pic_at s' l = Some q" "pic_at s' j = Some r"
    "p_mv_buf_index q = p_mv_buf_index r" "p_mv_buf_index q \<noteq> -1"
  then show "l = j"
    using mv_okD(4) [OF ok, of l j q r] R by (auto simp: new split: if_splits)
next
  fix b
  assume "b < 24" "b_used_flag (hv_m_mv_BUF s' ! b)"
  then have "b < 24" "b_used_flag (hv_m_mv_BUF s ! b)"
    by (simp_all add: same)
  from mv_okD(5) [OF ok this] obtain l q where l: "l \<in> R" "pic_at s l = Some q" "p_mv_buf_index q = int b"
    by blast
  then have "pic_at s' l = Some q"
    using R by (auto simp: new)
  with l show "\<exists>i\<in>R. \<exists>p. pic_at s' i = Some p \<and> p_mv_buf_index p = int b"
    by blast
qed (use mv_okD [OF ok] in \<open>auto simp: new same\<close>)

lemma mv_inv_new_pic:
  assumes inv: "mv_inv s" and none: "pic_at s i = None"
    and new: "\<And>j. pic_at s' j = (if j = i \<and> i < 24 then Some p else pic_at s j)"
    and same: "hv_m_mv_BUF s' = hv_m_mv_BUF s" "length (hv_m_PIC s') = length (hv_m_PIC s)"
      "hv_decoding_pic s' = hv_decoding_pic s"
    and p: "fresh p \<or> p_mv_buf_index p = -1" "\<not> p_referenced p"
  shows "mv_inv s'"
proof -
  have "j \<in> refs s' \<longleftrightarrow> j \<in> refs s" for j
    using none p(2) by (auto simp: refs_def new split: if_splits)
  then have "refs s' = refs s"
    by blast
  moreover have "i \<notin> refs s"
    using none by (simp add: refs_def)
  ultimately show ?thesis
    using mv_ok_new_pic [OF inv [unfolded mv_inv_def] none _ new same(1,2) p(1)] by (simp add: mv_inv_def same(3))
qed

lemma grow_pics_mv:
  assumes "mv_inv s" "\<forall>i\<in>set is. i < 24"
  shows "mv_inv (grow_pics e work is n s)"
  using assms
proof (induction "is" arbitrary: n s)
  case (Cons i "is")
  let ?z = "zero_PIC\<lparr>p_index := -1\<rparr>"
  let ?f = "\<lambda>p. p\<lparr>p_index := int i, p_BUF_index := -1, p_width := hv_pic_w s, p_height := hv_pic_h s\<rparr>"
  note inv = Cons.prems(1)
  have i: "i < 24" and len: "length (hv_m_PIC s) = 24"
    using Cons.prems mv_okD(2) [OF inv [unfolded mv_inv_def]] by simp_all
  have IH: "mv_inv t \<Longrightarrow> mv_inv (grow_pics e work is m t)" for m t
    using Cons by simp
  have size: "hv_pic_w (set_pic i p s) = hv_pic_w s" "hv_pic_h (set_pic i p s) = hv_pic_h s" for p
    by (simp_all add: set_pic_def)
  have at: "pic_at (set_pic i p s) i = Some p" for p
    by (simp add: pic_at_set_pic len i)
  have new: "mv_inv (upd_PIC i ?f (set_pic i ?z s))" if none: "pic_at s i = None"
  proof (rule mv_inv_new_pic [OF inv none])
    show "pic_at (upd_PIC i ?f (set_pic i ?z s)) j = (if j = i \<and> i < 24 then Some (?f ?z) else pic_at s j)" for j
      using i by (simp add: hevc_simps pic_at_set_pic len)
  qed (simp_all add: hevc_simps fresh_def zero_PIC_def set_pic_def)
  have old: "mv_inv (upd_PIC i ?f s)"
    by (rule mv_inv_keeps [OF inv mv_keeps_upd]) (simp add: fresh_def)
  show ?case
  proof (cases "pic_at s i")
    case None
    then show ?thesis
      using new IH inv by (simp add: Let_def at size)
  next
    case (Some p)
    then show ?thesis
      using old IH inv by (simp add: Let_def)
  qed
qed simp

lemma mv_keeps_dealloc_unused: "mv_keeps s (dealloc_unused_buf s)"
  by (rule mv_keeps_eq) (simp_all add: dealloc_unused_buf_def)

lemma pic_list_process_mv:
  assumes "mv_inv s"
  shows "mv_inv (pic_list_process e s)"
proof -
  obtain n s1 where s: "shrink_pics (get_work_pic_num e s) pic_ids 0 s = (n, s1)"
    by (cases "shrink_pics (get_work_pic_num e s) pic_ids 0 s")
  then have "mv_inv s1"
    using mv_inv_keeps [OF assms] shrink_pics_keeps by (metis snd_conv)
  then show ?thesis
    using mv_inv_keeps [OF _ mv_keeps_dealloc_unused] grow_pics_mv by (simp add: pic_list_process_def s Let_def)
qed

end
