(* ===== verification/H265_Slice_Correct.thy ===== *)
theory H265_Slice_Correct
  imports H265_Dpb_Correct
begin

text \<open>
  Properties of the slice header of the H.265 decoder: the picture order count, the reference
  lists and the tiles.
\<close>

section \<open>Picture order count\<close>

lemma cdiv_half: "0 < n \<Longrightarrow> cdiv (2 ^ n) 2 = 2 ^ (n - 1)" for n :: nat
  by (cases n) (simp_all add: cdiv_nonneg)

lemma hevc_crem_nonneg: "0 \<le> a \<Longrightarrow> 0 < b \<Longrightarrow> hevc_crem a b = a mod b"
  by (simp add: hevc_crem_def cdiv_nonneg minus_mult_div_eq_mod)

lemma hevc_crem_neg:
  assumes "a < 0" "0 < b"
  shows "hevc_crem a b = - ((- a) mod b)"
proof -
  have "cdiv a b = - ((- a) div b)"
    using assms by (simp add: cdiv_def)
  then have "hevc_crem a b = - ((- a) - b * ((- a) div b))"
    by (simp add: hevc_crem_def)
  then show ?thesis
    by (simp only: minus_mult_div_eq_mod)
qed

text \<open>The reference: of the values with the given low bits, the one within half a period of the
  count before.\<close>

lemma near_unique:
  fixes m :: int
  assumes "0 < m" "x mod m = y mod m" "- m < 2 * (x - prev)" "2 * (x - prev) \<le> m"
    "- m < 2 * (y - prev)" "2 * (y - prev) \<le> m"
  shows "x = y"
proof -
  have "m dvd x - y"
    using assms(2) by (simp add: mod_eq_dvd_iff)
  moreover have "x - y < m" and "y - x < m"
    using assms(3-6) by presburger+
  then have "\<bar>x - y\<bar> < m"
    by simp
  ultimately show ?thesis
    using dvd_imp_le_int [of "x - y" m] assms(1) by auto
qed

lemma poc_msb_near:
  fixes prev lsb m :: int
  assumes m: "m = 2 ^ n" "0 < n" and lsb: "0 \<le> lsb" "lsb < m" and prev: "0 \<le> prev" "prev < 2 ^ 31 - 2 * m"
    and small: "m \<le> 2 ^ 16"
  shows "- m < 2 * (poc_msb prev m lsb + lsb - prev)" "2 * (poc_msb prev m lsb + lsb - prev) \<le> m"
    "(poc_msb prev m lsb + lsb) mod m = lsb"
proof -
  obtain h where h: "m = 2 * h" "0 < h" "cdiv m 2 = h"
    using m cdiv_half [OF m(2)] by (cases n) auto
  define r where "r = prev mod m"
  have r: "0 \<le> r" "r < m" "hevc_crem prev m = r"
    using h prev(1) by (simp_all add: r_def hevc_crem_nonneg)
  define q where "q = prev - r"
  have "r \<le> prev"
    unfolding r_def by (rule zmod_le_nonneg_dividend) (rule prev(1))
  then have q: "m dvd q" "0 \<le> q" "q \<le> prev"
    using r(1) by (simp_all add: q_def) (simp add: r_def dvd_minus_mod)
  have s: "s32 (q + m) = q + m" "s32 (q - m) = q - m"
    using q prev(2) h(2) small h(1) by (intro s32_id; linarith)+
  have msb: "poc_msb prev m lsb = (if lsb < r \<and> h \<le> r - lsb then q + m
      else if r < lsb \<and> h < lsb - r then q - m else q)"
    by (simp add: poc_msb_def Let_def r(3) h(3) s flip: q_def)
  show "- m < 2 * (poc_msb prev m lsb + lsb - prev)" "2 * (poc_msb prev m lsb + lsb - prev) \<le> m"
    using msb r h lsb by (auto simp: q_def)
  have "m dvd poc_msb prev m lsb"
    using q(1) by (simp add: msb)
  then show "(poc_msb prev m lsb + lsb) mod m = lsb"
    using lsb by (simp add: mod_add_left_eq [symmetric])
qed

text \<open>C34. The picture order count of a picture that is neither IDR nor BLA is recovered from its
  low bits (at most 16), when it lies within half a period of the count remembered from the last
  picture of the lowest temporal layer and that count is not negative and below \<open>2 ^ 30\<close>. For
  a negative remembered count this fails, as the next property shows.\<close>

theorem derive_POC_recovers_count:
  assumes n: "n = rp_log2_max_pic_order_cnt_lsb_minus4 (hv_param s) + 4" "n \<le> 16"
    and t: "\<not> is_idr (hv_m_nalUnitType s)" "\<not> is_bla (hv_m_nalUnitType s)"
    and prev: "0 \<le> hv_iPrevTid0POC s" "hv_iPrevTid0POC s < 2 ^ 30"
    and near: "- (2 ^ n) < 2 * (poc - hv_iPrevTid0POC s)" "2 * (poc - hv_iPrevTid0POC s) \<le> 2 ^ n"
    and lsb: "rp_POClsb (hv_param s) = poc mod 2 ^ n"
  shows "\<exists>s'. derive_POC s = Some s' \<and> hv_curr_POC s' = poc \<and>
    hv_iPrevTid0POC s' = (if hv_m_temporalId s = 1 then poc else hv_iPrevTid0POC s)"
proof -
  let ?m = "2 ^ n :: int" and ?prev = "hv_iPrevTid0POC s" and ?lsb = "rp_POClsb (hv_param s)"
  have m: "max_poc_lsb (hv_param s) = Some ?m" "?m \<le> 2 ^ 16"
    using n power_increasing [of n 16 "2 :: int"] by (simp_all add: max_poc_lsb_def Let_def)
  have l: "0 \<le> ?lsb" "?lsb < ?m"
    using lsb by simp_all
  have p: "?prev < 2 ^ 31 - 2 * ?m"
    using prev(2) m(2) by simp
  note near' = poc_msb_near [OF refl _ l prev(1) p m(2)]
  have eq: "poc_msb ?prev ?m ?lsb + ?lsb = poc"
    by (rule near_unique [of ?m _ _ ?prev]) (use near' near lsb n in simp_all)
  have "s32 poc = poc"
    by (rule s32_id) (use near prev m(2) in simp_all)
  then show ?thesis
    using t m(1) eq by (simp add: derive_POC_def Let_def)
qed

lemma derive_POC_recovers_count_witness:
  "\<exists>s'. derive_POC (sample_dec\<lparr>hv_iPrevTid0POC := 250, hv_param := sample_params\<lparr>rp_POClsb := 3\<rparr>\<rparr>) = Some s' \<and>
    hv_curr_POC s' = 259"
  using derive_POC_recovers_count [of 8 "sample_dec\<lparr>hv_iPrevTid0POC := 250, hv_param := sample_params\<lparr>rp_POClsb := 3\<rparr>\<rparr>" 259]
  by (auto simp: sample_dec_def sample_state_def sample_params_def is_idr_def is_bla_def NAL_BLA_def NAL_BLANT_def
      NAL_BLA_N_LP_def NAL_IDR_def NAL_IDR_N_LP_def)

lemma poc_msb_negative:
  fixes prev lsb poc m :: int
  assumes m: "m = 2 ^ n" "0 < n" "m \<le> 2 ^ 16"
    and prev: "- (2 ^ 30) < prev" "prev < 0" "prev mod m \<noteq> 0"
    and near: "- m < 2 * (poc - prev)" "poc div m < prev div m" and lsb: "lsb = poc mod m"
  shows "poc_msb prev m lsb + lsb = poc + m" "poc < prev"
proof -
  obtain h where h: "m = 2 * h" "0 < h" "cdiv m 2 = h"
    using m(1,2) cdiv_half [OF m(2)] by (cases n) auto
  define k where "k = prev div m"
  define r where "r = prev mod m"
  have m0: "0 < m"
    using h by simp
  have "0 \<le> r" "r < m" "r \<noteq> 0"
    using m0 prev(3) by (simp_all add: r_def)
  then have r: "0 < r" "r < m" "prev = k * m + r"
    unfolding k_def r_def by simp_all
  have "(- prev) mod m = m - r"
    using prev(3) by (simp add: r_def zmod_zminus1_eq_if)
  then have rem: "hevc_crem prev m = r - m"
    using prev(2) h by (simp add: hevc_crem_neg)
  have kp: "poc div m = k - 1"
  proof -
    have "(k - 1) * m \<le> poc"
      using near(1) r h(1,2) by (simp add: algebra_simps)
    then have "(k - 1) * m div m \<le> poc div m"
      by (rule zdiv_mono1) (use h in simp)
    then show ?thesis
      using near(2) h by (simp add: k_def)
  qed
  have poc: "poc = (k - 1) * m + lsb"
    using div_mult_mod_eq [of poc m] unfolding lsb kp by simp
  have l: "0 \<le> lsb" "lsb < m"
    using lsb h by simp_all
  have gap: "h < lsb - (r - m)"
    using near(1) poc r(3) h(1,2) by (simp add: algebra_simps)
  have base: "prev - (r - m) = k * m + m"
    using r(3) by simp
  have "s32 (k * m + m - m) = k * m"
    by (simp, rule s32_id) (use prev(1,2) r m(3) in simp_all)
  then have "poc_msb prev m lsb = k * m"
    using gap r(2) l h(2) by (simp add: poc_msb_def Let_def rem h(3) base)
  then show "poc_msb prev m lsb + lsb = poc + m"
    using poc by (simp add: algebra_simps)
  show "poc < prev"
    using poc l r h(2) by (simp add: algebra_simps)
qed

text \<open>C35. When the remembered count is negative, as it is after a leading picture, C's remainder
  is negative too, and a count that falls back into the period below is one period too
  high.\<close>

theorem negative_previous_POC_goes_wrong:
  assumes n: "n = rp_log2_max_pic_order_cnt_lsb_minus4 (hv_param s) + 4" "n \<le> 16"
    and t: "\<not> is_idr (hv_m_nalUnitType s)" "\<not> is_bla (hv_m_nalUnitType s)"
    and prev: "- (2 ^ 30) < hv_iPrevTid0POC s" "hv_iPrevTid0POC s < 0" "hv_iPrevTid0POC s mod 2 ^ n \<noteq> 0"
    and near: "- (2 ^ n) < 2 * (poc - hv_iPrevTid0POC s)" "poc div 2 ^ n < hv_iPrevTid0POC s div 2 ^ n"
    and lsb: "rp_POClsb (hv_param s) = poc mod 2 ^ n"
  shows "\<exists>s'. derive_POC s = Some s' \<and> hv_curr_POC s' = poc + 2 ^ n"
proof -
  let ?m = "2 ^ n :: int" and ?prev = "hv_iPrevTid0POC s" and ?lsb = "rp_POClsb (hv_param s)"
  have m: "max_poc_lsb (hv_param s) = Some ?m" "?m \<le> 2 ^ 16" "0 < n"
    using n power_increasing [of n 16 "2 :: int"] by (simp_all add: max_poc_lsb_def Let_def)
  note eq = poc_msb_negative [OF refl m(3,2) prev near lsb]
  have "s32 (poc + ?m) = poc + ?m"
    by (rule s32_id) (use prev(1,2) near(1) eq(2) m(2) in simp_all)
  then show ?thesis
    using t m(1) eq by (simp add: derive_POC_def Let_def)
qed

lemma negative_previous_POC_goes_wrong_witness:
  "\<exists>s'. derive_POC (sample_dec\<lparr>hv_iPrevTid0POC := -250, hv_param := sample_params\<lparr>rp_POClsb := 250\<rparr>\<rparr>) = Some s' \<and>
    hv_curr_POC s' = - 262 + 256"
  using negative_previous_POC_goes_wrong [of 8 "sample_dec\<lparr>hv_iPrevTid0POC := -250, hv_param := sample_params\<lparr>rp_POClsb := 250\<rparr>\<rparr>" "-262"]
  by (auto simp: sample_dec_def sample_state_def sample_params_def is_idr_def is_bla_def NAL_BLA_def NAL_BLANT_def
      NAL_BLA_N_LP_def NAL_IDR_def NAL_IDR_N_LP_def)

section \<open>Reference lists\<close>

text \<open>The subsets of the reference picture set that the current picture uses, and the candidate
  lists of the standard: before, after, long-term for list 0, after, before, long-term for
  list 1.\<close>

definition rps_used :: "(u16 \<Rightarrow> bool) \<Rightarrow> int \<Rightarrow> h265_params \<Rightarrow> int list" where
  "rps_used P base p = map (rps_poc base) (filter (\<lambda>w. bit w RPS_USED_BIT \<and> P w) (rps_entries p))"

definition st_before :: "int \<Rightarrow> h265_params \<Rightarrow> int list" where
  "st_before = rps_used (\<lambda>w. \<not> bit w RPS_LT_BIT \<and> bit w (RPS_USED_BIT - 1))"

definition st_after :: "int \<Rightarrow> h265_params \<Rightarrow> int list" where
  "st_after = rps_used (\<lambda>w. \<not> bit w RPS_LT_BIT \<and> \<not> bit w (RPS_USED_BIT - 1))"

definition lt_curr :: "int \<Rightarrow> h265_params \<Rightarrow> int list" where
  "lt_curr = rps_used (\<lambda>w. bit w RPS_LT_BIT)"

lemma rps_sets_eq:
  "rps_sets base (take 16 (rp_CUR_RPS p)) = (st_before base p, st_after base p, lt_curr base p)"
proof -
  have "rps_sets base ws =
      (map (rps_poc base) (filter (\<lambda>w. bit w RPS_USED_BIT \<and> \<not> bit w RPS_LT_BIT \<and> bit w (RPS_USED_BIT - 1))
         (takeWhile (\<lambda>w. w \<noteq> RPS_END) ws)),
       map (rps_poc base) (filter (\<lambda>w. bit w RPS_USED_BIT \<and> \<not> bit w RPS_LT_BIT \<and> \<not> bit w (RPS_USED_BIT - 1))
         (takeWhile (\<lambda>w. w \<noteq> RPS_END) ws)),
       map (rps_poc base) (filter (\<lambda>w. bit w RPS_USED_BIT \<and> bit w RPS_LT_BIT)
         (takeWhile (\<lambda>w. w \<noteq> RPS_END) ws)))" for ws
    by (induction ws) (auto simp: Let_def)
  then show ?thesis
    by (simp add: st_before_def st_after_def lt_curr_def rps_used_def rps_entries_def)
qed

lemma cand_at_eq: "cand_at a b l c = (if c < length (a @ b @ l) then Some ((a @ b @ l) ! c) else None)"
  by (auto simp: cand_at_def nth_append Let_def)

lemma those_map:
  "those (map f xs) = (if \<forall>x\<in>set xs. f x \<noteq> None then Some (map (\<lambda>x. the (f x)) xs) else None)"
  by (induction xs) (auto split: option.split)

lemma those_cand:
  "those (map (cand_at a b l) cs) = (if \<forall>c\<in>set cs. c < length (a @ b @ l)
     then Some (map (\<lambda>c. (a @ b @ l) ! c) cs) else None)"
  by (auto simp: those_map cand_at_eq)

text \<open>The places that a slice takes from the candidate lists.\<close>

definition places0 :: "h265_params \<Rightarrow> nat \<Rightarrow> nat list" where
  "places0 p m = list_places (odd (rp_modification_flag p)) (rp_modification_list p) 0
     (min_active (rp_num_ref_idx_l0_active p)) m"

definition places1 :: "h265_params \<Rightarrow> nat \<Rightarrow> nat list" where
  "places1 p m = list_places (odd (rp_modification_flag p div 2)) (rp_modification_list p)
     (if odd (rp_modification_flag p) then min_active (rp_num_ref_idx_l0_active p) else 0)
     (min_active (rp_num_ref_idx_l1_active p)) m"

lemma length_places:
  "length (places0 p m) = min_active (rp_num_ref_idx_l0_active p)"
  "length (places1 p m) = min_active (rp_num_ref_idx_l1_active p)"
  by (simp_all add: places0_def places1_def list_places_def)

lemma min_active_le: "min_active n \<le> 16"
  by (auto simp: min_active_def MAX_REF_ACTIVE_def)

text \<open>The function for a picture with candidates, and the rows that it writes.\<close>

definition put_rows :: "h265_params \<Rightarrow> nat \<Rightarrow> int list \<Rightarrow> int list \<Rightarrow> PIC_s \<Rightarrow> PIC_s" where
  "put_rows p r a b q = q\<lparr>
     p_m_aiRefPOCList0 := set_row r (a @ replicate (16 - length a) 0) (p_m_aiRefPOCList0 q),
     p_m_aiRefPOCList1 := set_row r (b @ replicate (16 - length b) 0) (p_m_aiRefPOCList1 q),
     p_slice_type := (if rp_slice_type p = H265_I_SLICE then 2 else if rp_slice_type p = H265_P_SLICE then 1
       else if rp_slice_type p = H265_B_SLICE then 0 else 3),
     p_RefNum_L0 := int (min_active (rp_num_ref_idx_l0_active p)),
     p_RefNum_L1 := int (min_active (rp_num_ref_idx_l1_active p))\<rparr>"

lemma put_rows_rows:
  assumes "p_slice_idx q < length (p_m_aiRefPOCList0 q)" "p_slice_idx q < length (p_m_aiRefPOCList1 q)"
    and "length (row0 q) = 16" "length (row1 q) = 16" "length a \<le> 16" "length b \<le> 16"
  shows "row0 (put_rows p (p_slice_idx q) a b q) = a @ replicate (16 - length a) 0"
    and "row1 (put_rows p (p_slice_idx q) a b q) = b @ replicate (16 - length b) 0"
  using assms by (simp_all add: put_rows_def row0_def row1_def set_row_def)

lemma set_ref_pic_list_eq:
  fixes s :: hevc_state and pic :: PIC_s
  defines "p \<equiv> hv_param s"
  defines "neg \<equiv> st_before (p_POC pic) p" and "pos \<equiv> st_after (p_POC pic) p" and "lt \<equiv> lt_curr (p_POC pic) p"
  defines "tot \<equiv> length neg + length pos + length lt"
  assumes pic: "pic_at s k = Some pic" and tot: "tot \<noteq> 0"
  shows "\<exists>t. pic_at t = pic_at s \<and> set_ref_pic_list k s = do {
      a \<leftarrow> those (map (cand_at neg pos lt) (places0 p tot));
      b \<leftarrow> (if rp_slice_type p \<noteq> H265_B_SLICE then Some [] else those (map (cand_at pos neg lt) (places1 p tot)));
      Some (upd_PIC k (put_rows p (p_slice_idx pic) a b) t) }"
proof -
  have nz: "(neg = [] \<and> pos = [] \<and> lt = []) = False"
    using tot by (auto simp: tot_def)
  have at: "pic_at (if c then s\<lparr>hv_param := x\<rparr> else s) = pic_at s" for c x
    by (simp add: pic_at_def fun_eq_iff)
  show ?thesis
    unfolding tot_def neg_def pos_def lt_def p_def places0_def places1_def put_rows_def
    by (rule exI, rule conjI, rule at)
      (simp add: set_ref_pic_list_def pic rps_sets_eq Let_def nz [unfolded neg_def pos_def lt_def p_def]
        split del: if_split del: of_nat_add)
qed

text \<open>C36. The reference lists of a slice with references are those of the standard: the candidate
  list of list 0 is the pictures before, those after and the long-term ones, for list 1 the
  first two change places; the entries are taken in turn, or as the modification commands
  say. A command beyond the candidates makes the code read an array entry that was never
  written.\<close>

theorem set_ref_pic_list_follows_standard:
  fixes s :: hevc_state and pic :: PIC_s
  defines "p \<equiv> hv_param s"
  defines "temp0 \<equiv> st_before (p_POC pic) p @ st_after (p_POC pic) p @ lt_curr (p_POC pic) p"
    and "temp1 \<equiv> st_after (p_POC pic) p @ st_before (p_POC pic) p @ lt_curr (p_POC pic) p"
  defines "valid \<equiv> (\<forall>c\<in>set (places0 p (length temp0)). c < length temp0) \<and>
    (rp_slice_type p = H265_B_SLICE \<longrightarrow> (\<forall>c\<in>set (places1 p (length temp0)). c < length temp0))"
  assumes pic: "pic_at s k = Some pic" and refs: "temp0 \<noteq> []"
    and rows: "p_slice_idx pic < length (p_m_aiRefPOCList0 pic)" "p_slice_idx pic < length (p_m_aiRefPOCList1 pic)"
      "length (row0 pic) = 16" "length (row1 pic) = 16"
  shows "if valid then \<exists>s' q. set_ref_pic_list k s = Some s' \<and> pic_at s' k = Some q \<and>
      row0 q = map (\<lambda>c. temp0 ! c) (places0 p (length temp0)) @ replicate (16 - length (places0 p (length temp0))) 0 \<and>
      row1 q = (if rp_slice_type p = H265_B_SLICE
        then map (\<lambda>c. temp1 ! c) (places1 p (length temp0)) @ replicate (16 - length (places1 p (length temp0))) 0
        else replicate 16 0)
    else set_ref_pic_list k s = None"
proof -
  let ?neg = "st_before (p_POC pic) p" and ?pos = "st_after (p_POC pic) p" and ?lt = "lt_curr (p_POC pic) p"
  let ?tot = "length ?neg + length ?pos + length ?lt"
  have tot: "length temp0 = ?tot" "length temp1 = ?tot"
    by (simp_all add: temp0_def temp1_def)
  have tot0: "?tot \<noteq> 0"
    using refs tot(1) by (metis length_0_conv)
  have l0: "those (map (cand_at ?neg ?pos ?lt) (places0 p ?tot)) =
      (if \<forall>c\<in>set (places0 p ?tot). c < ?tot then Some (map ((!) temp0) (places0 p ?tot)) else None)"
    unfolding those_cand temp0_def by (simp add: add.assoc)
  have l1: "those (map (cand_at ?pos ?neg ?lt) (places1 p ?tot)) =
      (if \<forall>c\<in>set (places1 p ?tot). c < ?tot then Some (map ((!) temp1) (places1 p ?tot)) else None)"
    unfolding those_cand temp1_def by (simp add: ac_simps)
  have len: "length (places0 p ?tot) \<le> 16" "length (places1 p ?tot) \<le> 16"
    by (simp_all add: length_places min_active_le)
  obtain u where u: "pic_at u = pic_at s" and eq: "set_ref_pic_list k s = do {
      a \<leftarrow> those (map (cand_at ?neg ?pos ?lt) (places0 p ?tot));
      b \<leftarrow> (if rp_slice_type p \<noteq> H265_B_SLICE then Some [] else those (map (cand_at ?pos ?neg ?lt) (places1 p ?tot)));
      Some (upd_PIC k (put_rows p (p_slice_idx pic) a b) u) }"
    using set_ref_pic_list_eq [OF pic] tot0 unfolding p_def by blast
  show ?thesis
  proof (cases valid)
    case True
    then have v: "\<forall>c\<in>set (places0 p ?tot). c < ?tot" "rp_slice_type p = H265_B_SLICE \<longrightarrow> (\<forall>c\<in>set (places1 p ?tot). c < ?tot)"
      unfolding valid_def tot by simp_all
    define a where "a = map ((!) temp0) (places0 p ?tot)"
    define b where "b = (if rp_slice_type p = H265_B_SLICE then map ((!) temp1) (places1 p ?tot) else [])"
    have ab: "those (map (cand_at ?neg ?pos ?lt) (places0 p ?tot)) = Some a"
      "(if rp_slice_type p \<noteq> H265_B_SLICE then Some [] else those (map (cand_at ?pos ?neg ?lt) (places1 p ?tot))) = Some b"
      using v by (simp_all add: l0 l1 a_def b_def)
    have "length a \<le> 16" "length b \<le> 16"
      using len by (simp_all add: a_def b_def)
    note r = put_rows_rows [OF rows this, of p]
    have "set_ref_pic_list k s = Some (upd_PIC k (put_rows p (p_slice_idx pic) a b) u)"
      unfolding eq ab by simp
    moreover have "pic_at (upd_PIC k (put_rows p (p_slice_idx pic) a b) u) k = Some (put_rows p (p_slice_idx pic) a b pic)"
      by (simp add: pic_at_upd_pic u pic)
    ultimately show ?thesis
      using True r unfolding tot by (simp add: a_def b_def)
  next
    case False
    then show ?thesis
      using l0 l1 unfolding eq valid_def tot by (auto simp: bind_eq_None_conv)
  qed
qed

lemma set_ref_pic_list_follows_standard_witness:
  "\<exists>s' q. set_ref_pic_list 3 sample_dec = Some s' \<and> pic_at s' 3 = Some q \<and>
    row0 q = [8, 4] @ replicate 14 0 \<and> row1 q = [16, 8] @ replicate 14 0"
proof -
  let ?pic = "sample_pic 3 12" and ?p = "hv_param sample_dec"
  have at: "pic_at sample_dec 3 = Some ?pic"
    by (simp add: pic_at_def sample_dec_def sample_state_def)
  have l: "st_before 12 ?p = [8, 4]" "st_after 12 ?p = [16]" "lt_curr 12 ?p = []"
    "places0 ?p 3 = [0, 1]" "places1 ?p 3 = [0, 1]" "rp_slice_type ?p = H265_B_SLICE"
    by code_simp+
  have rows: "p_slice_idx ?pic < length (p_m_aiRefPOCList0 ?pic)" "p_slice_idx ?pic < length (p_m_aiRefPOCList1 ?pic)"
    "length (row0 ?pic) = 16" "length (row1 ?pic) = 16" "p_POC ?pic = 12"
    by (simp_all add: sample_pic_def row0_def row1_def)
  have len: "length ([8, 4] @ [16] @ [] :: int list) = 3"
    by simp
  show ?thesis
    using set_ref_pic_list_follows_standard [OF at _ rows(1-4), unfolded rows(5) l len] by simp
qed

section \<open>Tiles\<close>

text \<open>Spans that follow one another from a start up to an end.\<close>

fun chained :: "int \<Rightarrow> int \<Rightarrow> (int \<times> int) list \<Rightarrow> bool" where
  "chained start fin [] = (start = fin)"
| "chained start fin ((x, w) # xs) = (x = start \<and> chained (start + w) fin xs)"

lemma tile_spans_chained:
  "tile_spans f len j n start = Some xs \<Longrightarrow> 0 < n \<Longrightarrow> length xs = n \<and> chained start len xs"
proof (induction f len j n start arbitrary: xs rule: tile_spans.induct)
  case (3 f len j n start)
  then show ?case
    by (auto elim!: bind_SomeE)
qed auto

lemma chained_nth:
  "chained start fin xs \<Longrightarrow> i < length xs \<Longrightarrow>
    fst (xs ! i) + snd (xs ! i) = (if Suc i = length xs then fin else fst (xs ! Suc i))"
  by (induction start fin xs arbitrary: i rule: chained.induct)
    (auto simp: nth_Cons split: nat.split list.split elim: chained.elims)

lemma chained_first: "chained start fin xs \<Longrightarrow> xs \<noteq> [] \<Longrightarrow> fst (xs ! 0) = start"
  by (cases xs) auto

lemma scan_tile_next:
  assumes "st r \<le> x" "Suc r \<le> n"
  shows "scan_tile st x [Suc r..<n] r < n \<and> st (scan_tile st x [Suc r..<n] r) \<le> x \<and>
    (Suc (scan_tile st x [Suc r..<n] r) < n \<longrightarrow> x < st (Suc (scan_tile st x [Suc r..<n] r)))"
  using assms
proof (induction "n - Suc r" arbitrary: r)
  case 0
  then show ?case
    by simp
next
  case (Suc m)
  then have "[Suc r..<n] = Suc r # [Suc (Suc r)..<n]"
    by (simp add: upt_rec)
  then show ?case
    using Suc.hyps(1) [of "Suc r"] Suc.hyps(2) Suc.prems by auto
qed

lemma scan_tile_span:
  assumes "chained 0 len xs" "xs \<noteq> []" "0 \<le> x" "x < len"
  shows "scan_tile (\<lambda>i. fst (xs ! i)) x [0..<length xs] 0 < length xs"
    and "fst (xs ! scan_tile (\<lambda>i. fst (xs ! i)) x [0..<length xs] 0) \<le> x"
    and "x < fst (xs ! scan_tile (\<lambda>i. fst (xs ! i)) x [0..<length xs] 0) +
      snd (xs ! scan_tile (\<lambda>i. fst (xs ! i)) x [0..<length xs] 0)"
proof -
  have n: "[0..<length xs] = 0 # [Suc 0..<length xs]"
    using assms(2) by (simp add: upt_rec)
  have first: "fst (xs ! 0) \<le> x"
    using chained_first [OF assms(1,2)] assms(3) by simp
  define r where "r = scan_tile (\<lambda>i. fst (xs ! i)) x [0..<length xs] 0"
  have r: "r < length xs" "fst (xs ! r) \<le> x" "Suc r < length xs \<longrightarrow> x < fst (xs ! Suc r)"
    using scan_tile_next [of "\<lambda>i. fst (xs ! i)" 0 x "length xs"] first assms(2)
    by (simp_all add: r_def n Suc_le_eq)
  moreover have "x < fst (xs ! r) + snd (xs ! r)"
    using chained_nth [OF assms(1) r(1)] r(1,3) assms(4) by (auto split: if_splits)
  ultimately show "scan_tile (\<lambda>i. fst (xs ! i)) x [0..<length xs] 0 < length xs"
    "fst (xs ! scan_tile (\<lambda>i. fst (xs ! i)) x [0..<length xs] 0) \<le> x"
    "x < fst (xs ! scan_tile (\<lambda>i. fst (xs ! i)) x [0..<length xs] 0) +
      snd (xs ! scan_tile (\<lambda>i. fst (xs ! i)) x [0..<length xs] 0)"
    by (simp_all add: r_def)
qed

definition tile_grid :: "hevc_state \<Rightarrow> bool" where
  "tile_grid s = (length (hv_m_tile s) = MAX_TILE_ROW_NUM \<and>
     (\<forall>r\<in>set (hv_m_tile s). length r = MAX_TILE_COL_NUM))"

lemma set_tiles_nth:
  assumes "i < length rows" "i < length m" "j < length cols" "j < length (m ! i)"
  shows "set_tiles cols rows m ! i ! j = \<lparr>t_width = snd (cols ! j), t_height = snd (rows ! i),
           t_start_cu_x = fst (cols ! j), t_start_cu_y = fst (rows ! i)\<rparr>"
  using assms by (simp add: set_tiles_def)

lemma tile_num_range: "0 < m \<Longrightarrow> 0 < tile_num n m \<and> tile_num n m \<le> int m"
  by (simp add: tile_num_def)

lemma scan_tile_cong:
  "(\<And>i. i \<in> set is \<Longrightarrow> f i = g i) \<Longrightarrow> scan_tile f x is r = scan_tile g x is r"
  by (induction "is" arbitrary: r) auto

lemma block_place:
  fixes a w h :: int
  assumes "0 \<le> a" "a < w * h" "0 < w"
  shows "0 \<le> a mod w" "a mod w < w" "0 \<le> a div w" "a div w < h"
proof -
  show "0 \<le> a mod w" "a mod w < w" "0 \<le> a div w"
    using assms by (simp_all add: pos_imp_zdiv_nonneg_iff)
  have "a div w * w = a - a mod w"
    by (simp add: minus_mod_eq_div_mult)
  then have "a div w * w < h * w"
    using assms(2) pos_mod_sign [OF assms(3), of a] mult.commute [of w h] by linarith
  then show "a div w < h"
    using assms(3) mult_less_cancel_right_pos by blast
qed

text \<open>C37. The index found for the address of a coding tree block is that of a tile, and of the one
  that contains the block.\<close>

theorem get_tile_index_finds_tile:
  assumes grid: "tile_grid s" and up: "update_tile_info w h s = Some s'"
    and tiles: "odd (rp_tiles_enabled_flag (hv_param s))"
    and a: "0 \<le> a" "a < w * h" "0 < w"
  shows "\<exists>x y. get_tile_index s' a w = int x + 2 ^ 8 * int y \<and>
    int x < hv_num_tile_col s' \<and> int y < hv_num_tile_row s' \<and>
    (let t = hv_m_tile s' ! y ! x in
      t_start_cu_x t \<le> a mod w \<and> a mod w < t_start_cu_x t + t_width t \<and>
      t_start_cu_y t \<le> a div w \<and> a div w < t_start_cu_y t + t_height t)"
proof -
  let ?p = "hv_param s"
  let ?c = "tile_num (rp_num_tile_columns_minus1 ?p) MAX_TILE_COL_NUM"
  let ?r = "tile_num (rp_num_tile_rows_minus1 ?p) MAX_TILE_ROW_NUM"
  obtain f g cs rs where cs: "tile_spans f w 0 (nat ?c) 0 = Some cs" and rs: "tile_spans g h 0 (nat ?r) 0 = Some rs"
    and s': "s' = s\<lparr>hv_tile_enabled := True, hv_num_tile_col := ?c, hv_num_tile_row := ?r,
         hv_m_tile := set_tiles cs rs (hv_m_tile s)\<rparr>"
    using up tiles by (auto simp: update_tile_info_def Let_def elim!: bind_SomeE)
  have c: "0 < ?c" "?c \<le> 10" "0 < ?r" "?r \<le> 20"
    using tile_num_range [of MAX_TILE_COL_NUM] tile_num_range [of MAX_TILE_ROW_NUM]
    by (simp_all add: MAX_TILE_COL_NUM_def MAX_TILE_ROW_NUM_def)
  have lc: "length cs = nat ?c" "chained 0 w cs" "cs \<noteq> []"
    using tile_spans_chained [OF cs] c by auto
  have lr: "length rs = nat ?r" "chained 0 h rs" "rs \<noteq> []"
    using tile_spans_chained [OF rs] c by auto
  note ax = block_place [OF a]
  have at: "hv_m_tile s' ! i ! j = \<lparr>t_width = snd (cs ! j), t_height = snd (rs ! i),
      t_start_cu_x = fst (cs ! j), t_start_cu_y = fst (rs ! i)\<rparr>" if "i < length rs" "j < length cs" for i j
  proof -
    have "i < length (hv_m_tile s)"
      using grid that(1) lr(1) c by (simp add: tile_grid_def MAX_TILE_ROW_NUM_def)
    moreover from this have "j < length (hv_m_tile s ! i)"
      using grid that(2) lc(1) c by (simp add: tile_grid_def MAX_TILE_COL_NUM_def)
    ultimately show ?thesis
      using that by (simp add: s' set_tiles_nth)
  qed
  define x where "x = scan_tile (\<lambda>i. fst (cs ! i)) (a mod w) [0..<length cs] 0"
  define y where "y = scan_tile (\<lambda>i. fst (rs ! i)) (a div w) [0..<length rs] 0"
  have sx: "scan_tile (\<lambda>i. t_start_cu_x (hv_m_tile s' ! 0 ! i)) (a mod w) [0..<length cs] 0 = x"
    unfolding x_def by (rule scan_tile_cong) (use at lr(3) in simp)
  have sy: "scan_tile (\<lambda>i. t_start_cu_y (hv_m_tile s' ! i ! 0)) (a div w) [0..<length rs] 0 = y"
    unfolding y_def by (rule scan_tile_cong) (use at lc(3) in simp)
  note fx = scan_tile_span [OF lc(2,3) ax(1,2), folded x_def]
  note fy = scan_tile_span [OF lr(2,3) ax(3,4), folded y_def]
  have en: "hv_tile_enabled s'" "nat (hv_num_tile_col s') = length cs" "nat (hv_num_tile_row s') = length rs"
    using lc(1) lr(1) by (simp_all add: s')
  have "get_tile_index s' a w = int x + 2 ^ 8 * int y"
    using a(3) by (simp add: get_tile_index_def Let_def en sx sy)
  moreover have "int x < hv_num_tile_col s'" "int y < hv_num_tile_row s'"
    using fx(1) fy(1) en(2,3) by simp_all
  ultimately show ?thesis
    using fx fy at [OF fy(1) fx(1)] by (intro exI [of _ x] exI [of _ y]) (simp add: Let_def)
qed

lemma get_tile_index_finds_tile_witness:
  "\<exists>s' x y. update_tile_info 7 4 sample_dec = Some s' \<and> get_tile_index s' 18 7 = int x + 2 ^ 8 * int y \<and>
    (let t = hv_m_tile s' ! y ! x in t_start_cu_x t \<le> 4 \<and> 4 < t_start_cu_x t + t_width t \<and>
      t_start_cu_y t \<le> 2 \<and> 2 < t_start_cu_y t + t_height t)"
proof -
  have grid: "tile_grid sample_dec"
    by (simp add: tile_grid_def sample_dec_def sample_state_def MAX_TILE_ROW_NUM_def MAX_TILE_COL_NUM_def)
  have tiles: "odd (rp_tiles_enabled_flag (hv_param sample_dec))"
    by code_simp
  have "update_tile_info 7 4 sample_dec \<noteq> None"
    by code_simp
  then obtain s' where up: "update_tile_info 7 4 sample_dec = Some s'"
    by auto
  show ?thesis
    using get_tile_index_finds_tile [OF grid up tiles, where a = 18] up by (simp add: Let_def) blast
qed

text \<open>Equal tiles are cut differently from the standard, whose column \<open>j\<close> of \<open>n\<close> goes
  from \<open>j * w div n\<close> to \<open>(j + 1) * w div n\<close>; and the table of tile heights has eight
  entries, fewer than the rows the code allows.\<close>

lemma uniform_tiles_not_standard:
  "map_option (map snd) (tile_spans (\<lambda>j. Some (10 div 4)) 10 0 4 0) = Some [2, 2, 2, 4]"
  "map (\<lambda>j. (j + 1) * 10 div 4 - j * 10 div 4) [0, 1, 2, 3] = [2, 3, 2, 3 :: int]"
  by (simp_all add: eval_nat_numeral)

lemma tile_heights_beyond_table:
  assumes "length t = 8"
  shows "tile_spans (table_at t) h 0 10 0 = None"
  using assms by (simp add: eval_nat_numeral table_at_def)

end
