(* ===== verification/H265_Run_Correct.thy ===== *)
theory H265_Run_Correct
  imports H265_Mv_Correct H265_Slice_Correct
begin

text \<open>
  Runs of the H.265 decoder: the steps that its driver takes with the pictures, the invariant of
  the motion vector buffers over every run, and that there are always enough of them.
\<close>

section \<open>Runs\<close>

text \<open>The states of the decoder: after the picture list was set up, the interrupts with a slice
  header, with the end of a picture, of a sequence or of the stream, the question whether a
  picture is free, the display that takes and returns frames, and anything else that leaves the
  pictures and the motion vector buffers alone. The answers of the memory boxes may differ from
  step to step.\<close>

inductive hevc_run :: "hevc_state \<Rightarrow> bool" where
  run_start: "hv_m_PIC s = replicate 24 None \<Longrightarrow> length (hv_m_mv_BUF s) = 24 \<Longrightarrow>
    \<forall>b\<in>set (hv_m_mv_BUF s). \<not> b_used_flag b \<Longrightarrow> hv_decoding_pic s = None \<Longrightarrow>
    init_pic_list e s = Some s' \<Longrightarrow> hevc_run s'"
| run_slice: "hevc_run s \<Longrightarrow> boxes_ok e \<Longrightarrow> hevc_slice_segment_header_process e lcu s = Some (c, s') \<Longrightarrow> hevc_run s'"
| run_header: "hevc_run s \<Longrightarrow> boxes_ok e \<Longrightarrow> header_interrupt e lcu more_input s = Some (c, s') \<Longrightarrow> hevc_run s'"
| run_picture: "hevc_run s \<Longrightarrow> picture_done e lcu s = Some s' \<Longrightarrow> hevc_run s'"
| run_sequence: "hevc_run s \<Longrightarrow> end_of_sequence e lcu s = Some s' \<Longrightarrow> hevc_run s'"
| run_stream: "hevc_run s \<Longrightarrow> end_of_stream e lcu s = Some s' \<Longrightarrow> hevc_run s'"
| run_available: "hevc_run s \<Longrightarrow> is_new_pic_available e s = Some (a, s') \<Longrightarrow> hevc_run s'"
| run_get: "hevc_run s \<Longrightarrow> vh265_vf_get s = Some (v, s') \<Longrightarrow> hevc_run s'"
| run_put: "hevc_run s \<Longrightarrow> hevc_run (vh265_vf_put v s)"
| run_backup: "hevc_run s \<Longrightarrow> hevc_run (backup_decode_state s)"
| run_restore: "hevc_run s \<Longrightarrow> hevc_run (restore_decode_state e more_input s)"
| run_other: "hevc_run s \<Longrightarrow> hv_m_PIC s' = hv_m_PIC s \<Longrightarrow> hv_m_mv_BUF s' = hv_m_mv_BUF s \<Longrightarrow>
    hv_decoding_pic s' = hv_decoding_pic s \<Longrightarrow> hevc_run s'"

section \<open>The slice header\<close>

lemma mv_inv_decoding:
  assumes inv: "mv_inv s" and d: "\<And>k. d = Some k \<Longrightarrow> \<exists>p. pic_at s k = Some p \<and> p_referenced p"
  shows "mv_inv (s\<lparr>hv_decoding_pic := d\<rparr>)"
proof -
  have at: "pic_at (s\<lparr>hv_decoding_pic := d\<rparr>) = pic_at s"
    by (rule pic_at_cong) simp
  have D: "set_option d \<subseteq> refs s"
    using d by (auto simp: refs_def)
  have ok: "mv_ok (refs s) {} s"
    using inv unfolding mv_inv_def by (rule mv_ok_mono) simp
  have "mv_ok (refs s) (set_option d) s"
    by (rule mv_okI) (use mv_okD [OF ok] D d in \<open>blast+\<close>)
  then have "mv_ok (refs s) (set_option d) (s\<lparr>hv_decoding_pic := d\<rparr>)"
    unfolding mv_ok_def at by simp
  then show ?thesis
    unfolding mv_inv_def refs_def at by simp
qed

lemma mv_inv_fields [simp]:
  "mv_inv (s\<lparr>hv_wait_buf := x0\<rparr>) = mv_inv s" "mv_inv (s\<lparr>hv_m_pocRandomAccess := x1\<rparr>) = mv_inv s"
  "mv_inv (s\<lparr>hv_decoded_poc := x2\<rparr>) = mv_inv s" "mv_inv (s\<lparr>hv_curr_POC := x3\<rparr>) = mv_inv s"
  "mv_inv (s\<lparr>hv_first_pic_flag := x4\<rparr>) = mv_inv s" "mv_inv (s\<lparr>hv_col_pic := x5\<rparr>) = mv_inv s"
  "mv_inv (s\<lparr>hv_res_change := x6\<rparr>) = mv_inv s" "mv_inv (s\<lparr>hv_new_pic := x7\<rparr>) = mv_inv s"
  "mv_inv (s\<lparr>hv_first_pic_after_recover := x8\<rparr>) = mv_inv s" "mv_inv (s\<lparr>hv_fatal_size_overflow := x9\<rparr>) = mv_inv s"
  "mv_inv (s\<lparr>hv_cur_pic := x10\<rparr>) = mv_inv s" "mv_inv (s\<lparr>hv_over_decode := x11\<rparr>) = mv_inv s"
  "mv_inv (s\<lparr>hv_pic_list_init_flag := x12\<rparr>) = mv_inv s" "mv_inv (s\<lparr>hv_param := x13\<rparr>) = mv_inv s"
  "mv_inv (s\<lparr>hv_iPrevPOC := x14\<rparr>) = mv_inv s"
  by (simp_all add: mv_inv_def mv_ok_def refs_def pic_at_def)

lemma mark_error_keeps: "mv_keeps s (mark_error k s)"
  by (cases k) (auto simp: mark_error_def fresh_def intro!: mv_keeps_upd)

lemma mv_inv_mark_error: "mv_inv s \<Longrightarrow> mv_inv (if b then mark_error k s else s)"
  using mv_inv_keeps [OF _ mark_error_keeps] by simp

lemma newest_cong: "pic_at s' = pic_at s \<Longrightarrow> newest P s' is r = newest P s is r"
  by (simp add: newest_eq cand_def)

lemma get_pic_by_POC_cong:
  assumes "pic_at s' = pic_at s"
  shows "get_pic_by_POC s' poc = get_pic_by_POC s poc"
  unfolding get_pic_by_POC_def newest_cong [OF assms] ..

lemma check_pre_mv:
  assumes "mv_inv s"
  shows "mv_inv (check_pic_decoded_error_pre e lcu s)"
proof (cases "lcu < 0")
  case False
  have f: "mv_inv (t\<lparr>hv_lcu_x_num_pre := a, hv_lcu_y_num_pre := b\<rparr>)" if "mv_inv t" for t a b
    by (rule mv_inv_keeps [OF that mv_keeps_eq]) simp_all
  show ?thesis
    unfolding check_pic_decoded_error_pre_def Let_def if_not_P [OF False]
    by (intro f mv_inv_mark_error assms)
qed (use assms in \<open>simp add: check_pic_decoded_error_pre_def\<close>)

lemma check_pic_decoded_error_mv:
  assumes r: "check_pic_decoded_error e lcu s = Some s'" and inv: "mv_inv s"
  shows "mv_inv s'"
proof -
  note me = mv_inv_mark_error
  show ?thesis
  proof (cases "lcu < 0")
    case True
    then show ?thesis
      using r inv by (simp add: check_pic_decoded_error_def)
  next
    case False
    let ?short = "hv_lcu_x_num s \<noteq> 0 \<and> hv_lcu_y_num s \<noteq> 0 \<and> lcu \<noteq> 0 \<and> lcu < hv_lcu_x_num s * hv_lcu_y_num s - 1"
    let ?s0 = "if ?short then mark_error (hv_cur_pic s) s else s"
    obtain s1 where s1: "(if \<not> bit (par_error_handle_policy e) 5 \<and> hv_cur_pic s \<noteq> None then
         (case pic_at ?s0 (the (hv_cur_pic s)) of
            None \<Rightarrow> None
          | Some c \<Rightarrow> if p_error_mark c \<and> \<not> bit (hv_i_only s) 2 \<and> p_POC c \<noteq> 0 \<and> p_slice_type c = 0 \<and>
              s32 (p_POC c + MAX_BUF_NUM) < hv_iPrevPOC s
              then flush_output e (get_pic_by_POC ?s0 (p_POC c)) ?s0 else Some ?s0) else Some s) = Some s1"
      and s': "s' = (if \<not> bit (par_error_handle_policy e) 7 \<and> hv_over_decode s
         then mark_error (hv_cur_pic s) (if hv_head_error_flag s then mark_error (hv_cur_pic s) s1 else s1)
         else if hv_head_error_flag s then mark_error (hv_cur_pic s) s1 else s1)"
      using r False unfolding check_pic_decoded_error_def Let_def by (auto elim!: bind_SomeE split del: if_split)
    have inv0: "mv_inv ?s0"
      by (rule me [OF inv])
    have "mv_inv s1"
      using s1 inv inv0 flush_output_mv [OF _ inv0 disjI2, OF _ refl]
      by (auto split: if_split_asm option.split_asm simp del: option.case_eq_if)
    then show ?thesis
      unfolding s' by (intro me)
  qed
qed

lemma hevc_pre_pic_mv:
  assumes r: "hevc_pre_pic e s = Some s'" and inv: "mv_inv s"
  shows "mv_inv s'"
proof -
  define s0 where "s0 = (if hv_m_ins_flag s then s\<lparr>hv_decoded_poc := INVALID_POC\<rparr> else s)"
  have inv0: "mv_inv s0"
    unfolding s0_def by (rule mv_inv_keeps [OF inv mv_keeps_eq]) simp_all
  have flag: "mv_inv (s0\<lparr>hv_first_pic_flag := n\<rparr>)" for n
    by (rule mv_inv_keeps [OF inv0 mv_keeps_eq]) simp_all
  have res: "mv_inv (t\<lparr>hv_res_change := b\<rparr>)" if "mv_inv t" for t b
    by (rule mv_inv_keeps [OF that mv_keeps_eq]) simp_all
  define poc where "poc = (if hv_m_ins_flag s then hv_decoded_poc s else hv_iPrevPOC s)"
  have eq: "hevc_pre_pic e s = (if \<not> is_idr (hv_m_nalUnitType s) \<and> \<not> hv_res_change s then
       output_loop e (mark_decoded (get_pic_by_POC s0 poc) s0)
     else do {
       s1 \<leftarrow> (if hv_vf_pre_count s = 1 \<and> hv_first_pic_flag s = 1
         then flush_output e None (s0\<lparr>hv_first_pic_flag := 2\<rparr>)
         else flush_output e (get_pic_by_POC s0 poc) s0);
       Some (s1\<lparr>hv_res_change := False\<rparr>) })"
    by (simp only: hevc_pre_pic_def Let_def s0_def poc_def)
  show ?thesis
  proof (cases "\<not> is_idr (hv_m_nalUnitType s) \<and> \<not> hv_res_change s")
    case True
    then show ?thesis
      using r output_loop_mv mv_inv_keeps [OF inv0 mv_keeps_marks(3)] by (simp add: eq)
  next
    case False
    then obtain s1 where s1: "(if hv_vf_pre_count s = 1 \<and> hv_first_pic_flag s = 1
         then flush_output e None (s0\<lparr>hv_first_pic_flag := 2\<rparr>)
         else flush_output e (get_pic_by_POC s0 poc) s0) = Some s1" "s' = s1\<lparr>hv_res_change := False\<rparr>"
      using r unfolding eq by (auto elim!: bind_SomeE split del: if_split)
    then have "mv_inv s1"
      using flush_output_mv [OF _ flag disjI1, OF _ refl] flush_output_mv [OF _ inv0 disjI2, OF _ refl]
      by (auto split: if_split_asm)
    then show ?thesis
      using s1(2) res by simp
  qed
qed

lemma header_start_mv:
  assumes r: "header_start e s = Some (c, s')" and inv: "mv_inv s"
  shows "mv_inv s'"
proof -
  have h: "mv_inv (header_fields e s)"
    by (rule mv_inv_keeps [OF inv mv_keeps_eq]) (simp_all add: header_fields_def Let_def)
  have c: "mv_inv (change_size (header_fields e s))"
    by (rule mv_inv_keeps [OF h mv_keeps_eq]) (simp_all add: change_size_def Let_def)
  have l: "mv_inv (set_lcu n (pic_list_process e (change_size (header_fields e s))))" for n
    by (rule mv_inv_keeps [OF pic_list_process_mv [OF c] mv_keeps_eq]) (simp_all add: set_lcu_def Let_def)
  have d: "mv_inv t'" if "derive_POC t = Some t'" "mv_inv t" for t t'
    by (rule mv_inv_keeps [OF that(2) mv_keeps_eq]; use that(1) in \<open>auto simp: derive_POC_def Let_def elim!: bind_SomeE split: if_splits\<close>)
  have a: "mv_inv (snd (random_access (t\<lparr>hv_RefNum_L0 := m, hv_RefNum_L1 := n\<rparr>)))" if "mv_inv t" for t m n
    by (rule mv_inv_keeps [OF that mv_keeps_eq]) (simp_all add: random_access_def Let_def)
  have f: "mv_inv (t\<lparr>hv_fatal_size_overflow := b\<rparr>)" if "mv_inv t" for t b
    by (rule mv_inv_keeps [OF that mv_keeps_eq]) simp_all
  show ?thesis
    using r h c f [OF c] d [OF _ l] a
    by (auto simp: header_start_def Let_def split_beta elim!: bind_SomeE split: if_split_asm)
qed

lemma take_new_pic_mv:
  assumes r: "take_new_pic e s = Some (ok, s')" and inv: "mv_inv s" and e: "boxes_ok e"
  shows "mv_inv s'" "\<And>k. hv_cur_pic s' = Some k \<Longrightarrow> \<exists>p. pic_at s' k = Some p \<and> p_referenced p"
proof -
  obtain k s1 where n: "h265_get_new_pic e s = Some (k, s1)"
    and s': "s' = (if k \<noteq> None \<and> \<not> hv_m_ins_flag s1 then s1\<lparr>hv_cur_pic := k, hv_over_decode := False\<rparr> else s1\<lparr>hv_cur_pic := k\<rparr>)"
    using r by (auto simp: take_new_pic_def Let_def elim!: bind_SomeE split del: if_split)
  note m = h265_get_new_pic_mv [OF inv e n]
  have at: "pic_at s' = pic_at s1" and c: "hv_cur_pic s' = k"
    by (auto simp: s' intro: pic_at_cong)
  show "mv_inv s'"
    by (rule mv_inv_keeps [OF m [THEN conjunct1] mv_keeps_eq]) (simp_all add: s')
  show "\<exists>p. pic_at s' j = Some p \<and> p_referenced p" if "hv_cur_pic s' = Some j" for j
    using m that by (simp add: at c)
qed

lemma header_first_mv:
  assumes r: "header_first e lcu s = Some (c, s')" and inv: "mv_inv s" and e: "boxes_ok e"
  shows "mv_inv s'"
proof -
  let ?s1 = "s\<lparr>hv_new_pic := True\<rparr>"
  let ?s2 = "if hv_m_ins_flag ?s1 then ?s1 else check_pic_decoded_error_pre e lcu ?s1"
  let ?s3 = "if par_stream_based e \<and> lcu \<noteq> 0 then mark_error (hv_cur_pic ?s2) ?s2 else ?s2"
  have "mv_inv ?s2"
    using inv check_pre_mv [of ?s1] by simp
  then have inv3: "mv_inv (?s3\<lparr>hv_first_pic_after_recover := False\<rparr>)"
    unfolding mv_inv_fields by (rule mv_inv_mark_error)
  obtain s4 ok s5 where s4: "hevc_pre_pic e (?s3\<lparr>hv_first_pic_after_recover := False\<rparr>) = Some s4"
    and s5: "take_new_pic e (apply_ref_pic_set e (hv_curr_POC s4) s4) = Some (ok, s5)"
    and s': "s' = (if ok then s5\<lparr>hv_decoding_pic := hv_cur_pic s5\<rparr> else s5\<lparr>hv_wait_buf := 1\<rparr>)"
    using r unfolding header_first_def Let_def by (auto elim!: bind_SomeE split del: if_split) (auto split: if_splits)
  have inv4: "mv_inv (apply_ref_pic_set e (hv_curr_POC s4) s4)"
    by (rule mv_inv_apply_ref_pic_set [OF hevc_pre_pic_mv [OF s4 inv3]])
  note t = take_new_pic_mv [OF s5 inv4 e]
  show ?thesis
    unfolding s' using t(1) mv_inv_decoding [OF t] by simp
qed

lemma header_next_mv:
  assumes "mv_inv s"
  shows "mv_inv (snd (header_next s))"
proof -
  have "mv_inv (upd_PIC k (\<lambda>p. p\<lparr>p_slice_idx := p_slice_idx p + 1\<rparr>) (s\<lparr>hv_new_pic := False\<rparr>))" for k
    by (rule mv_inv_keeps [of "s\<lparr>hv_new_pic := False\<rparr>"]; (rule mv_keeps_upd)?) (simp_all add: assms fresh_def)
  then show ?thesis
    using assms by (simp add: header_next_def split: option.split)
qed

lemma header_retry_mv:
  assumes r: "header_retry e s = Some (c, s')" and inv: "mv_inv s" and e: "boxes_ok e"
  shows "mv_inv s'"
proof -
  have "mv_inv s1" if "take_new_pic e (pic_list_process e s) = Some (ok, s1)" for ok s1
    by (rule take_new_pic_mv [OF that pic_list_process_mv [OF inv] e])
  then show ?thesis
    using r inv by (auto simp: header_retry_def elim!: bind_SomeE split: if_splits)
qed

lemma header_pic_mv:
  assumes r: "header_pic e lcu s = Some (c, s')" and inv: "mv_inv s" and e: "boxes_ok e"
  shows "mv_inv s'"
proof (cases "hv_wait_buf s = 0")
  case True
  then obtain ret s1 where s1: "header_start e s = Some (ret, s1)"
    and r1: "(if ret \<noteq> 0 then Some (ret, s1)
       else if rp_slice_segment_address (hv_param s1) = 0 then header_first e lcu s1
       else Some (header_next s1)) = Some (c, s')"
    using r by (auto simp: header_pic_def elim!: bind_SomeE split del: if_split)
  have inv1: "mv_inv s1"
    by (rule header_start_mv [OF s1 inv])
  show ?thesis
    using r1 inv1 header_first_mv [OF _ inv1 e] header_next_mv [OF inv1] by (auto split: if_split_asm)
next
  case False
  then show ?thesis
    using r header_retry_mv [OF _ inv e] by (simp add: header_pic_def)
qed

lemma tiles_mv:
  "update_tile_info w h s = Some s' \<Longrightarrow> mv_inv s \<Longrightarrow> mv_inv s'"
  "mv_inv s \<Longrightarrow> mv_inv (enter_tile (choose_tile s))"
proof -
  assume r: "update_tile_info w h s = Some s'" and inv: "mv_inv s"
  show "mv_inv s'"
    by (rule mv_inv_keeps [OF inv mv_keeps_eq]; use r in \<open>auto simp: update_tile_info_def Let_def elim!: bind_SomeE split: if_splits\<close>)
next
  assume inv: "mv_inv s"
  show "mv_inv (enter_tile (choose_tile s))"
    by (rule mv_inv_keeps [OF inv mv_keeps_eq]) (simp_all add: enter_tile_def choose_tile_def Let_def)
qed

lemma header_tiles_mv:
  assumes "header_tiles s = Some s'" "mv_inv s"
  shows "mv_inv s'"
proof -
  have "mv_inv (s\<lparr>hv_decode_idx := n\<rparr>)" for n
    by (rule mv_inv_keeps [OF assms(2) mv_keeps_eq]) simp_all
  then show ?thesis
    using assms tiles_mv(1) by (auto simp: header_tiles_def split: if_splits)
qed

lemma set_ref_pic_list_mv:
  assumes r: "set_ref_pic_list k s = Some s'" and inv: "mv_inv s"
  shows "mv_inv s'"
proof -
  have k: "mv_inv (upd_PIC k (\<lambda>q. q\<lparr>p_m_aiRefPOCList0 := A q, p_m_aiRefPOCList1 := B q, p_slice_type := t,
      p_RefNum_L0 := m, p_RefNum_L1 := n\<rparr>) T)" if "mv_inv T" for A B t m n T
    by (rule mv_inv_keeps [OF that mv_keeps_upd]) (simp add: fresh_def)
  have T: "mv_inv (if b then s\<lparr>hv_param := p\<rparr> else s)" for b p
    using inv by simp
  show ?thesis
    using r unfolding set_ref_pic_list_def Let_def split_beta
    by (elim bind_SomeE, unfold option.inject, elim subst) (intro k T)
qed

lemma mark_error_mv: "mv_inv s \<Longrightarrow> mv_inv (mark_error k s)"
  by (rule mv_inv_keeps [OF _ mark_error_keeps])

lemma snd_branches:
  assumes "P x" "P y"
  shows "P (snd (if A then (a, x) else if B then (b, y) else if C then (c, y) else if D then (d, y) else (f, y)))"
  using assms by simp

lemma header_refs_mv:
  assumes inv: "mv_inv s"
  shows "mv_inv (snd (header_refs e k s))"
proof -
  have col: "mv_inv (check_col_pic k s)"
    using inv by (auto simp: check_col_pic_def Let_def intro!: mark_error_mv split: option.split)
  have mc: "mv_inv (mc_ref e k poc t)" if "mv_inv t" for poc t
    using that by (auto simp: mc_ref_def intro!: mark_error_mv split: option.split)
  have fold: "mv_inv (fold (mc_ref e k) ps t)" if "mv_inv t" for ps t
    using that by (induction ps arbitrary: t) (simp_all add: mc)
  have conf: "mv_inv (config_mc_buffer e k t)" if "mv_inv t" for t
    using that by (auto simp: config_mc_buffer_def Let_def intro!: fold split: option.split)
  let ?s1 = "if hv_slice_type s = 2 then s else if hv_Col_POC s \<noteq> INVALID_POC then check_col_pic k s
      else s\<lparr>hv_col_pic := Some k\<rparr>"
  have s1: "mv_inv ?s1"
    using inv col by simp
  have "mv_inv (if hv_col_pic ?s1 = None then ?s1\<lparr>hv_col_pic := Some k\<rparr> else ?s1)"
    using s1 by simp
  from conf [OF this] have s3: "mv_inv (config_mc_buffer e k (if hv_col_pic ?s1 = None then ?s1\<lparr>hv_col_pic := Some k\<rparr> else ?s1))" .
  have "\<exists>A B C D. header_refs e k s = (if A then (2, ?s1)
      else if B then (2, config_mc_buffer e k (if hv_col_pic ?s1 = None then ?s1\<lparr>hv_col_pic := Some k\<rparr> else ?s1))
      else if C then (-1, config_mc_buffer e k (if hv_col_pic ?s1 = None then ?s1\<lparr>hv_col_pic := Some k\<rparr> else ?s1))
      else if D then (0xf, config_mc_buffer e k (if hv_col_pic ?s1 = None then ?s1\<lparr>hv_col_pic := Some k\<rparr> else ?s1))
      else (0, config_mc_buffer e k (if hv_col_pic ?s1 = None then ?s1\<lparr>hv_col_pic := Some k\<rparr> else ?s1)))"
    unfolding header_refs_def Let_def by (intro exI) (rule refl)
  then show ?thesis
    by (elim exE) (simp only: snd_branches [where P = mv_inv, OF s1 s3])
qed

lemma slice_header_mv:
  assumes r: "hevc_slice_segment_header_process e lcu s = Some (c, s')" and inv: "mv_inv s" and e: "boxes_ok e"
  shows "mv_inv s'"
proof -
  obtain ret s1 where s1: "header_pic e lcu s = Some (ret, s1)"
    using r by (auto simp: hevc_slice_segment_header_process_def elim!: bind_SomeE)
  have inv1: "mv_inv s1"
    by (rule header_pic_mv [OF s1 inv e])
  show ?thesis
  proof (cases "ret = 0")
    case False
    then show ?thesis
      using r s1 inv1 by (simp add: hevc_slice_segment_header_process_def)
  next
    case True
    then obtain s2 where s2: "header_tiles s1 = Some s2"
      using r s1 by (auto simp: hevc_slice_segment_header_process_def elim!: bind_SomeE)
    obtain k where k: "hv_cur_pic (enter_tile (choose_tile s2)) = Some k"
      using r s1 s2 True by (auto simp: hevc_slice_segment_header_process_def Let_def elim!: bind_SomeE)
    obtain pic where pic: "pic_at (enter_tile (choose_tile s2)) k = Some pic"
      using r s1 s2 True k by (auto simp: hevc_slice_segment_header_process_def Let_def elim!: bind_SomeE)
    have r2: "(if MAX_SLICE_NUM \<le> p_slice_idx pic then Some (3, enter_tile (choose_tile s2)) else do {
         s4 \<leftarrow> set_ref_pic_list k (enter_tile (choose_tile s2));
         c4 \<leftarrow> pic_at s4 k;
         Some (header_refs e k (collocated c4 s4)) }) = Some (c, s')"
      using r s1 s2 True k pic by (simp add: hevc_slice_segment_header_process_def Let_def split del: if_split)
    have inv3: "mv_inv (enter_tile (choose_tile s2))"
      by (rule tiles_mv(2) [OF header_tiles_mv [OF s2 inv1]])
    have col: "mv_inv (collocated q t)" if "mv_inv t" for q t
      by (rule mv_inv_keeps [OF that mv_keeps_eq]) (simp_all add: collocated_def Let_def)
    show ?thesis
      using r2 inv3 header_refs_mv [OF col [OF set_ref_pic_list_mv [OF _ inv3]]]
      by (auto elim!: bind_SomeE split: if_split_asm) (metis snd_conv)
  qed
qed

section \<open>The steps of the driver\<close>

lemma init_bufs_keeps: "init_bufs e is s = Some s' \<Longrightarrow> mv_keeps s s' \<and> hv_m_PIC s' = hv_m_PIC s"
proof (induction e "is" s rule: init_bufs.induct)
  case (2 e i "is" s)
  obtain r s1 where a: "alloc_buf e s = Some (r, s1)"
    using 2(2) by (auto elim!: bind_SomeE)
  have m: "hv_m_PIC s1 = hv_m_PIC s"
    using a by (auto simp: alloc_buf_def upd_BUF_def Let_def elim!: bind_SomeE split: if_splits option.splits)
  have k: "mv_keeps s1 (s1\<lparr>hv_fatal_no_mem := b\<rparr>)" for b
    by (rule mv_keeps_eq) simp_all
  show ?case
    using 2 a m mv_keeps_trans [OF alloc_buf_keeps [OF a]] k alloc_buf_keeps [OF a] by (auto split: if_splits)
qed simp

lemma init_pics_mv:
  assumes "init_pics e is s = Some s'" "mv_inv s" "distinct is" "\<forall>i\<in>set is. i < 24 \<and> pic_at s i = None"
  shows "mv_inv s'"
  using assms
proof (induction "is" arbitrary: s)
  case (Cons i "is")
  let ?p = "zero_PIC\<lparr>p_index := int i, p_BUF_index := -1, p_mv_buf_index := -1, p_width := hv_pic_w s,
      p_height := hv_pic_h s, p_double_write_mode := get_double_write_mode e s, p_POC := INVALID_POC\<rparr>"
  have i: "i < 24" "pic_at s i = None" "length (hv_m_PIC s) = 24"
    using Cons.prems mv_okD(2) [OF Cons.prems(2) [unfolded mv_inv_def]] by simp_all
  show ?case
  proof (cases "vmalloc_ok e i")
    case False
    then show ?thesis
      using Cons.prems i by simp
  next
    case True
    obtain ok s1 where c: "config_pic e i (set_pic i ?p s) = Some (ok, s1)"
      using Cons.prems(1) True i by (auto elim!: bind_SomeE)
    have inv0: "mv_inv (set_pic i ?p s)"
    proof (rule mv_inv_new_pic [where p = ?p, OF Cons.prems(2) i(2)])
      show "pic_at (set_pic i ?p s) j = (if j = i \<and> i < 24 then Some ?p else pic_at s j)" for j
        using i by (simp add: pic_at_set_pic)
    qed (simp_all add: set_pic_def zero_PIC_def)
    have k: "mv_keeps (set_pic i ?p s) s1"
      by (rule config_pic_keeps [OF c]) (use i in \<open>auto simp: pic_at_set_pic zero_PIC_def\<close>)
    have inv1: "mv_inv s1"
      by (rule mv_inv_keeps [OF inv0 k])
    show ?thesis
    proof (cases ok)
      case False
      have "mv_inv (upd_PIC i (p_index_update (\<lambda>_. -1)) s1)"
        by (rule mv_inv_keeps [OF inv1 mv_keeps_upd]) (simp add: fresh_def)
      then show ?thesis
        using Cons.prems(1) True i c False by simp
    next
      case ok: True
      have "pic_at s1 j = None" if "j \<in> set is" for j
      proof -
        have "j \<noteq> i" "pic_at s j = None"
          using that Cons.prems(3,4) by auto
        then have "pic_at (set_pic i ?p s) j = None"
          by (simp add: pic_at_set_pic)
        moreover have "rel_option (\<lambda>p q. p_mv_buf_index q = p_mv_buf_index p \<and> p_referenced q = p_referenced p \<and>
            (fresh p \<longrightarrow> fresh q)) (pic_at (set_pic i ?p s) j) (pic_at s1 j)"
          using k by (simp add: mv_keeps_def)
        ultimately show ?thesis
          by simp
      qed
      then show ?thesis
        using Cons.IH [OF _ inv1] Cons.prems True i c ok by simp
    qed
  qed
qed simp

lemma get_work_pic_num_le: "get_work_pic_num e s \<le> 24"
  by (simp add: get_work_pic_num_def Let_def MAX_BUF_NUM_def)

lemma init_pic_list_mv:
  assumes "hv_m_PIC s = replicate 24 None" "length (hv_m_mv_BUF s) = 24" "\<forall>b\<in>set (hv_m_mv_BUF s). \<not> b_used_flag b"
    "hv_decoding_pic s = None" "init_pic_list e s = Some s'"
  shows "mv_inv s'"
proof -
  have none: "pic_at s i = None" for i
    using assms(1) by (simp add: pic_at_def)
  have inv: "mv_inv s"
    unfolding mv_inv_def assms(4) by (rule mv_okI) (use assms none in \<open>auto\<close>)
  obtain s1 where s1: "init_bufs e [0..<nat (get_work_pic_num e s)] s = Some s1"
    and s': "init_pics e [0..<nat (get_work_pic_num e s)] s1 = Some s'"
    using assms(5) by (auto simp: init_pic_list_def Let_def elim!: bind_SomeE)
  have k: "mv_keeps s s1" and same: "hv_m_PIC s1 = hv_m_PIC s"
    using init_bufs_keeps [OF s1] by simp_all
  have "pic_at s1 = pic_at s"
    by (rule pic_at_cong) (rule same)
  moreover have "nat (get_work_pic_num e s) \<le> 24"
    using get_work_pic_num_le [of e s] by linarith
  ultimately show ?thesis
    using init_pics_mv [OF s' mv_inv_keeps [OF inv k]] none by simp
qed

lemma restore_mv:
  assumes inv: "mv_inv s"
  shows "mv_inv (restore_decode_state e more_input s)"
proof -
  have disc: "mv_inv (discard_decoding e s)"
  proof (cases "hv_decoding_pic s")
    case None
    then show ?thesis
      using inv by (simp add: discard_decoding_def)
  next
    case (Some k)
    let ?f = "\<lambda>p. p\<lparr>p_error_mark := False, p_output_ready := False, p_show_frame := False,
        p_output_mark := False, p_referenced := False, p_POC := INVALID_POC\<rparr>"
    have ok: "mv_ok (refs s) {k} s"
      using inv Some by (simp add: mv_inv_def)
    obtain p where p: "pic_at s k = Some p"
      using mv_okD(6) [OF ok] by auto
    have held: "p_mv_buf_index p = -1 \<or> k \<in> refs s"
      using mv_okD(3) [OF ok p] by auto
    have "mv_ok (refs s) {k} (upd_PIC k ?f s)"
      by (rule mv_ok_upd [OF ok]) (simp add: fresh_def)
    then have "mv_ok (refs s - {k}) (insert k {k}) (put_mv_buf e k (upd_PIC k ?f s))"
      using p held by (intro put_mv_ok [where p = "?f p"]) (simp_all add: hevc_simps)
    then have "mv_ok (refs s - {k}) {} (put_mv_buf e k (upd_PIC k ?f s))"
      by (rule mv_ok_mono) simp
    moreover have "refs (put_mv_buf e k (upd_PIC k ?f s)) = refs s - {k}"
    proof -
      have "i \<in> refs (upd_PIC k ?f s) \<longleftrightarrow> i \<in> refs s - {k}" for i
        using p by (auto simp: refs_def hevc_simps)
      then show ?thesis
        by (simp add: set_eq_iff)
    qed
    moreover have at: "pic_at (t\<lparr>hv_decoding_pic := None\<rparr>) = pic_at t" for t
      by (rule pic_at_cong) simp
    ultimately show ?thesis
      by (simp add: discard_decoding_def Some mv_inv_def mv_ok_def refs_def at)
  qed
  show ?thesis
  proof (cases more_input)
    case True
    show ?thesis
      by (rule mv_inv_keeps [OF disc mv_keeps_eq]) (simp_all add: restore_decode_state_def True Let_def)
  qed (use inv in \<open>simp add: restore_decode_state_def\<close>)
qed

lemma mv_inv_idle: "mv_inv s \<Longrightarrow> mv_inv (s\<lparr>hv_decoding_pic := None\<rparr>)"
  by (rule mv_inv_decoding) simp_all

lemma header_interrupt_mv:
  assumes r: "header_interrupt e lcu more_input s = Some (c, s')" and inv: "mv_inv s" and e: "boxes_ok e"
  shows "mv_inv s'"
proof -
  obtain s1 where s1: "hevc_slice_segment_header_process e lcu s = Some (c, s1)"
    and s': "s' = (if c < 0 then restore_decode_state e more_input (s1\<lparr>hv_wait_buf := 0\<rparr>)
       else if c = 0 then s1 else s1\<lparr>hv_decoded_poc := INVALID_POC, hv_decoding_pic := None\<rparr>)"
    using r by (auto simp: header_interrupt_def elim!: bind_SomeE split del: if_split)
  have "mv_inv s1"
    by (rule slice_header_mv [OF s1 inv e])
  then show ?thesis
    unfolding s' using restore_mv [of "s1\<lparr>hv_wait_buf := 0\<rparr>"] mv_inv_idle [of "s1\<lparr>hv_decoded_poc := INVALID_POC\<rparr>"] by simp
qed

lemma output_early_mv:
  assumes inv: "mv_inv s"
  shows "mv_inv (output_early e s)"
proof -
  obtain d s1 where o: "output_pic e True s = (d, s1)"
    by (cases "output_pic e True s")
  have i: "mv_inv s1"
    by (rule output_pic_mv [OF inv o])
  have "mv_inv (not_ready k s1)" "mv_inv (prepare_display_buf e k s1)" for k
    by (rule mv_inv_keeps [OF i mv_keeps_outer]; simp only: outer_simps)+
  then show ?thesis
    using i by (simp add: output_early_def o split: option.split)
qed

lemma picture_done_mv:
  assumes r: "picture_done e lcu s = Some s'" and inv: "mv_inv s"
  shows "mv_inv s'"
proof -
  let ?s1 = "s\<lparr>hv_decoded_poc := hv_curr_POC s, hv_decoding_pic := None\<rparr>"
  have i1: "mv_inv ?s1"
    using mv_inv_idle [of "s\<lparr>hv_decoded_poc := hv_curr_POC s\<rparr>"] inv by simp
  have i2: "mv_inv (mark_done ?s1)"
    by (rule mv_inv_keeps [OF i1 mv_keeps_marks(4)])
  show ?thesis
  proof (cases "\<not> par_stream_based e \<and> hv_vf_pre_count ?s1 = 0 \<or> hv_ip_mode ?s1")
    case False
    have "s' = ?s1"
      using r unfolding picture_done_def Let_def if_not_P [OF False] by (simp only: option.inject)
    then show ?thesis
      using i1 by (simp only:)
  next
    case True
    obtain s2 where s2: "check_pic_decoded_error e lcu (mark_done ?s1) = Some s2"
      and s': "s' = output_early e (if lcu = 0 \<and> hv_lcu_x_num s2 * hv_lcu_y_num s2 \<noteq> 1
          then mark_error (hv_cur_pic s2) s2 else s2)"
      using r unfolding picture_done_def Let_def if_P [OF True] by (elim bind_SomeE) (unfold option.inject, blast)
    have "mv_inv s2"
      by (rule check_pic_decoded_error_mv [OF s2 i2])
    then show ?thesis
      unfolding s' by (intro output_early_mv mv_inv_mark_error)
  qed
qed

lemma clear_poc_keeps: "mv_keeps s (clear_poc_flag s)"
  unfolding clear_poc_flag_def
proof (rule for_pics_inv [of "mv_keeps s"])
  fix i p t
  assume "mv_keeps s t"
  moreover have "mv_keeps t (upd_PIC i (p_POC_update (\<lambda>_. INVALID_POC)) t)"
    by (rule mv_keeps_upd) (simp add: fresh_def)
  ultimately show "mv_keeps s (upd_PIC i (p_POC_update (\<lambda>_. INVALID_POC)) t)"
    by (rule mv_keeps_trans)
qed simp

lemma end_of_sequence_mv:
  assumes r: "end_of_sequence e lcu s = Some s'" and inv: "mv_inv s"
  shows "mv_inv s'"
proof -
  obtain s1 s2 where s1: "check_pic_decoded_error e lcu s = Some s1"
    and s2: "flush_output e (get_pic_by_POC s1 (hv_curr_POC s1))
       (s1\<lparr>hv_curr_POC := INVALID_POC, hv_m_pocRandomAccess := H265_MAX_INT\<rparr>) = Some s2"
    and s': "s' = (clear_poc_flag s2)\<lparr>hv_decoded_poc := INVALID_POC, hv_decoding_pic := None\<rparr>"
    using r by (auto simp: end_of_sequence_def elim!: bind_SomeE)
  let ?t = "s1\<lparr>hv_curr_POC := INVALID_POC, hv_m_pocRandomAccess := H265_MAX_INT\<rparr>"
  have "mv_inv ?t"
    using check_pic_decoded_error_mv [OF s1 inv] by simp
  moreover have "get_pic_by_POC s1 (hv_curr_POC s1) = get_pic_by_POC ?t (hv_curr_POC s1)"
    by (rule get_pic_by_POC_cong [symmetric], rule pic_at_cong) simp
  ultimately have "mv_inv s2"
    using flush_output_mv [OF s2] by blast
  then have "mv_inv (clear_poc_flag s2)"
    by (rule mv_inv_keeps [OF _ clear_poc_keeps])
  then show ?thesis
    using mv_inv_idle [of "(clear_poc_flag s2)\<lparr>hv_decoded_poc := INVALID_POC\<rparr>"] by (simp add: s')
qed

lemma end_of_stream_mv:
  assumes r: "end_of_stream e lcu s = Some s'" and inv: "mv_inv s"
  shows "mv_inv s'"
proof -
  obtain s1 where s1: "check_pic_decoded_error e lcu s = Some s1"
    and s2: "flush_output e (get_pic_by_POC s1 (hv_curr_POC s1)) s1 = Some s'"
    using r by (auto simp: end_of_stream_def elim!: bind_SomeE)
  show ?thesis
    using flush_output_mv [OF s2 check_pic_decoded_error_mv [OF s1 inv]] by blast
qed

lemma is_new_pic_available_mv:
  assumes "is_new_pic_available e s = Some (a, s')" "mv_inv s"
  shows "mv_inv s'"
  using assms flush_output_mv [OF _ assms(2), of e None]
  by (auto simp: is_new_pic_available_def Let_def elim!: bind_SomeE split: if_splits)

lemma hevc_run_mv_inv: "hevc_run s \<Longrightarrow> mv_inv s"
proof (induction rule: hevc_run.induct)
  case (run_get s v s')
  then have "outer s' = outer s"
    by (auto simp: vh265_vf_get_def outer_simps split: list.splits)
  then show ?case
    by (rule mv_inv_keeps [OF run_get.IH mv_keeps_outer])
next
  case (run_put s v)
  then show ?case
    by (intro mv_inv_keeps [OF run_put.IH mv_keeps_outer] outer_vf_put)
next
  case (run_backup s)
  show ?case
    by (rule mv_inv_keeps [OF run_backup.IH mv_keeps_eq]) (simp_all add: backup_decode_state_def)
next
  case (run_other s s')
  then show ?case
    using mv_inv_keeps mv_keeps_eq by blast
qed (blast intro: init_pic_list_mv slice_header_mv header_interrupt_mv picture_done_mv end_of_sequence_mv
      end_of_stream_mv is_new_pic_available_mv restore_mv)+

section \<open>Enough buffers\<close>

lemma pic_at_bound: "pic_at s i = Some p \<Longrightarrow> i < length (hv_m_PIC s)"
  by (simp add: pic_at_def split: if_splits)

lemma free_mv_buf:
  assumes ok: "mv_ok R D s" and k: "k \<notin> R" "k < 24"
  shows "\<exists>j<24. \<not> b_used_flag (hv_m_mv_BUF s ! j)"
proof (rule ccontr)
  assume "\<not> ?thesis"
  then have "\<forall>b\<in>{..<24}. \<exists>i. i \<in> R \<and> (\<exists>p. pic_at s i = Some p \<and> p_mv_buf_index p = int b)"
    using mv_okD(5) [OF ok] by (auto simp: Bex_def)
  then obtain f where f: "\<forall>b\<in>{..<24}. f b \<in> R \<and> (\<exists>p. pic_at s (f b) = Some p \<and> p_mv_buf_index p = int b)"
    by (rule bchoice [THEN exE])
  have "inj_on f {..<24}"
    by (rule inj_onI) (use f in \<open>metis of_nat_eq_iff option.inject\<close>)
  moreover have "f ` {..<24} \<subseteq> {..<24} - {k}"
    using f k(1) pic_at_bound [of s] mv_okD(2) [OF ok] by fastforce
  ultimately have "card {..<24::nat} \<le> card ({..<24} - {k})"
    by (metis card_image card_mono finite_Diff finite_lessThan)
  then show False
    using k(2) by simp
qed

lemma first_mv_ex: "j < length (hv_m_mv_BUF s) \<Longrightarrow> P (hv_m_mv_BUF s ! j) \<Longrightarrow> first_mv P s \<noteq> None"
  by (auto simp: first_mv_def find_None_iff)

lemma mv_buf_choose_gives:
  assumes ok: "mv_ok R D s" and k: "k \<notin> R" "k < 24" and e: "\<not> par_mv_buf_dynamic_alloc e"
    and mem: "\<And>i n. bmmu_alloc e i n \<noteq> None"
  shows "fst (mv_buf_choose e s) \<noteq> None"
proof -
  obtain j where j: "j < 24" "\<not> b_used_flag (hv_m_mv_BUF s ! j)"
    using free_mv_buf [OF ok k] by blast
  have len: "j < length (hv_m_mv_BUF s)"
    using j(1) mv_okD(1) [OF ok] by simp
  show ?thesis
  proof (cases "first_mv unused_mv s")
    case None
    then have "b_start_adr (hv_m_mv_BUF s ! j) = 0"
      using first_mv_ex [of j s unused_mv] len j(2) by (auto simp: unused_mv_def)
    then obtain i where i: "first_mv (\<lambda>b. b_start_adr b = 0) s = Some i"
      using first_mv_ex [of j s "\<lambda>b. b_start_adr b = 0"] len by auto
    obtain a where "bmmu_alloc e (MV_BUFFER_IDX i) (hv_mv_buf_size s) = Some a"
      using mem by blast
    then show ?thesis
      using None i by (simp add: mv_buf_choose_def mv_buf_new_def alloc_mv_buf_def)
  qed (simp add: mv_buf_choose_def e)
qed

section \<open>A run of the small decoder\<close>

lemma sample_work: "get_work_pic_num one_pic_env sample_empty = 3"
  by code_simp

lemma sample_init_bufs: "init_bufs one_pic_env [0..<3] sample_empty = Some sample_bufs"
  by code_simp

lemma sample_buf_size: "cal_current_buf_size one_pic_env (set_pic 0 p sample_bufs) =
    Some (0x50000, \<lparr>bs_lcu_total = 28, bs_mc_buffer_size_h = 4, bs_mc_buffer_size_u_v_h = 1\<rparr>)"
  by code_simp

lemma sample_first_buf: "first_buf (\<lambda>b. b_start_adr b \<noteq> 0 \<and> \<not> b_used_flag b \<and> 0x50000 \<le> b_size b) (set_pic 0 p sample_bufs) = Some 0"
  by code_simp

lemma sample_dw_mode: "get_double_write_mode one_pic_env (set_pic 0 p sample_bufs) = 1" "get_double_write_mode one_pic_env sample_bufs = 1"
  by code_simp+

lemma sample_init_pics: "init_pics one_pic_env [0..<3] sample_bufs = Some sample_idle"
proof -
  let ?p = "zero_PIC\<lparr>p_index := 0, p_BUF_index := -1, p_mv_buf_index := -1, p_width := 416,
      p_height := 240, p_double_write_mode := 1, p_POC := INVALID_POC\<rparr>"
  have upt: "[0..<3] = [0, 1, 2::nat]"
    by (simp add: upt_rec)
  have none: "pic_at sample_bufs 0 = None" "vmalloc_ok one_pic_env 0" "\<not> vmalloc_ok one_pic_env (Suc 0)"
    by code_simp+
  have s: "hv_pic_w sample_bufs = 416" "hv_pic_h sample_bufs = 240"
    by code_simp+
  have c: "config_pic one_pic_env 0 (set_pic 0 ?p sample_bufs) = Some (True, sample_idle)"
  proof -
    let ?t = "set_pic 0 ?p sample_bufs"
    have at: "hv_pic_w ?t = 416" "hv_pic_h ?t = 240" "hv_mmu_enable ?t" "\<not> hv_dw_mmu_enable ?t"
      "b_start_adr (hv_m_BUF ?t ! 0) = 0x100000" "hevc_get_header_size one_pic_env 416 240 = 0x10000"
      by code_simp+
    have r: "config_pic one_pic_env 0 ?t = Some (True, upd_PIC 0 (\<lambda>p. (place_pic one_pic_env ?t
        \<lparr>bs_lcu_total = 28, bs_mc_buffer_size_h = 4, bs_mc_buffer_size_u_v_h = 1\<rparr> 0x100000 p)
        \<lparr>p_POC := INVALID_POC, p_BUF_index := 0\<rparr>) (upd_BUF 0 (b_used_flag_update (\<lambda>_. True)) ?t))"
      by (simp add: config_pic_def sample_buf_size sample_first_buf at)
    have pl: "place_pic one_pic_env ?t
        \<lparr>bs_lcu_total = 28, bs_mc_buffer_size_h = 4, bs_mc_buffer_size_u_v_h = 1\<rparr> 0x100000 ?p =
       ?p\<lparr>p_header_adr := 0x100000, p_dw_y_adr := 0x110000, p_dw_u_v_adr := 0x130000,
         p_mc_canvas_y := 0, p_mc_canvas_u_v := 0\<rparr>"
      by (simp add: place_pic_def sample_dw_mode at align_64k_def u32_def)
    have b: "upd_BUF 0 (b_used_flag_update (\<lambda>_. True)) ?t = sample_idle\<lparr>hv_m_PIC := Some ?p # replicate 23 None\<rparr>"
      by (simp add: upd_BUF_def set_pic_def sample_bufs_def sample_idle_def sample_idle_of_def sample_empty_def sample_state_def numeral_eq_Suc)
    show ?thesis
      unfolding r b upd_PIC_def by (simp add: pl)
        (simp add: sample_idle_def sample_idle_of_def zero_PIC_def sample_empty_def sample_state_def)
  qed
  have "pic_at sample_idle 1 = None" by code_simp
  then show ?thesis
    by (simp add: upt none s sample_dw_mode c)
qed

lemma sample_run: "hevc_run sample_idle"
proof (rule run_start)
  show "init_pic_list one_pic_env sample_empty = Some sample_idle"
    by (simp add: init_pic_list_def sample_work sample_init_bufs sample_init_pics)
qed (simp_all add: sample_empty_def sample_state_def no_buf_def)

lemma sample_boxes: "boxes_ok one_pic_env"
  by (simp add: boxes_ok_def one_pic_env_def sample_env_def)

section \<open>Properties\<close>

text \<open>C39. However the decoder came to its state, each referenced picture has no motion vector
  buffer or one of the 24 that has memory and is marked as used; two referenced pictures never
  share one; and each buffer marked as used is held by a referenced picture, so none is lost.\<close>

theorem mv_buffers_owned:
  assumes "hevc_run s"
  shows "(\<forall>i p. pic_at s i = Some p \<and> p_referenced p \<and> p_mv_buf_index p \<noteq> -1 \<longrightarrow>
      0 \<le> p_mv_buf_index p \<and> p_mv_buf_index p < 24 \<and>
      b_start_adr (hv_m_mv_BUF s ! nat (p_mv_buf_index p)) \<noteq> 0 \<and>
      b_used_flag (hv_m_mv_BUF s ! nat (p_mv_buf_index p))) \<and>
    (\<forall>i j p q. pic_at s i = Some p \<and> pic_at s j = Some q \<and> p_referenced p \<and> p_referenced q \<and>
      p_mv_buf_index p = p_mv_buf_index q \<and> p_mv_buf_index p \<noteq> -1 \<longrightarrow> i = j) \<and>
    (\<forall>b<24. b_used_flag (hv_m_mv_BUF s ! b) \<longrightarrow>
      (\<exists>i p. pic_at s i = Some p \<and> p_referenced p \<and> p_mv_buf_index p = int b))"
proof (intro conjI)
  have ok: "mv_ok (refs s) (set_option (hv_decoding_pic s)) s"
    using hevc_run_mv_inv [OF assms] by (simp add: mv_inv_def)
  show "\<forall>i p. pic_at s i = Some p \<and> p_referenced p \<and> p_mv_buf_index p \<noteq> -1 \<longrightarrow>
      0 \<le> p_mv_buf_index p \<and> p_mv_buf_index p < 24 \<and>
      b_start_adr (hv_m_mv_BUF s ! nat (p_mv_buf_index p)) \<noteq> 0 \<and>
      b_used_flag (hv_m_mv_BUF s ! nat (p_mv_buf_index p))"
    using mv_okD(3) [OF ok] unfolding refs_def in_use_def by blast
  show "\<forall>i j p q. pic_at s i = Some p \<and> pic_at s j = Some q \<and> p_referenced p \<and> p_referenced q \<and>
      p_mv_buf_index p = p_mv_buf_index q \<and> p_mv_buf_index p \<noteq> -1 \<longrightarrow> i = j"
    using mv_okD(4) [OF ok] unfolding refs_def by blast
  show "\<forall>b<24. b_used_flag (hv_m_mv_BUF s ! b) \<longrightarrow>
      (\<exists>i p. pic_at s i = Some p \<and> p_referenced p \<and> p_mv_buf_index p = int b)"
    using mv_okD(5) [OF ok] unfolding refs_def by fastforce
qed

theorem mv_buffers_owned_witness:
  "\<exists>s i p. hevc_run s \<and> b_used_flag (hv_m_mv_BUF s ! 0) \<and>
    pic_at s i = Some p \<and> p_referenced p \<and> p_mv_buf_index p = 0 \<and> b_start_adr (hv_m_mv_BUF s ! 0) \<noteq> 0 \<and>
    (\<forall>j q. pic_at s j = Some q \<and> p_referenced q \<and> p_mv_buf_index q = 0 \<longrightarrow> j = i)"
proof -
  have "map_option (\<lambda>(c, s). b_used_flag (hv_m_mv_BUF s ! 0))
      (hevc_slice_segment_header_process one_pic_env 0 (sample_idle_of rows)) = Some True" for rows
    by code_simp
  then obtain c s where r: "hevc_slice_segment_header_process one_pic_env 0 sample_idle = Some (c, s)"
    and used: "b_used_flag (hv_m_mv_BUF s ! 0)"
    unfolding sample_idle_def by fastforce
  have run: "hevc_run s"
    by (rule run_slice [OF sample_run sample_boxes r])
  note owned = mv_buffers_owned [OF run, THEN conjunct1] mv_buffers_owned [OF run, THEN conjunct2, THEN conjunct1]
    mv_buffers_owned [OF run, THEN conjunct2, THEN conjunct2]
  obtain i p where p: "pic_at s i = Some p" "p_referenced p" "p_mv_buf_index p = int 0"
    using owned(3) used by (metis zero_less_numeral)
  moreover have "b_start_adr (hv_m_mv_BUF s ! 0) \<noteq> 0"
    using owned(1) [rule_format, of i p] p by simp
  moreover have "j = i" if "pic_at s j = Some q \<and> p_referenced q \<and> p_mv_buf_index q = 0" for j q
    using owned(2) [rule_format, of j q i p] p that by simp
  ultimately show ?thesis
    using run used by (intro exI [of _ s] exI [of _ i] exI [of _ p] conjI allI impI) (assumption | simp only: of_nat_0)+
qed

text \<open>C40. There are always enough motion vector buffers: in every state of a run, a picture of
  the list that is not a reference gets one, when buffers are kept and not sized per picture and
  memory is granted. It is no buffer of another reference, after a change of the size as well.\<close>

theorem mv_buffers_suffice:
  assumes "hevc_run s" "pic_at s k = Some p" "\<not> p_referenced p" "\<not> par_mv_buf_dynamic_alloc e"
    and "\<forall>i n. \<exists>a. a \<noteq> 0 \<and> bmmu_alloc e i n = Some a"
  shows "\<exists>j s'. get_mv_buf e k s = Some (int j, s') \<and> j < 24 \<and>
    map_option p_mv_buf_index (pic_at s' k) = Some (int j) \<and>
    (\<forall>i q. i \<noteq> k \<and> pic_at s' i = Some q \<and> p_referenced q \<longrightarrow> p_mv_buf_index q \<noteq> int j)"
proof -
  have ok: "mv_ok (refs s) (set_option (hv_decoding_pic s)) s" (is "mv_ok ?R ?D s")
    using hevc_run_mv_inv [OF assms(1)] by (simp add: mv_inv_def)
  have k: "k \<notin> ?R" "k < 24"
    using assms(2,3) pic_at_bound [OF assms(2)] mv_okD(2) [OF ok] by (auto simp: refs_def)
  have boxes: "boxes_ok e" and mem: "bmmu_alloc e i n \<noteq> None" for i n
    using assms(5) unfolding boxes_ok_def by (metis option.inject, metis option.distinct(1))
  have "mv_buf_resize e p s \<noteq> None"
    using assms(4) by (simp add: mv_buf_resize_def)
  then obtain s1 where s1: "mv_buf_resize e p s = Some s1"
    by blast
  have ok1: "mv_ok ?R ?D s1"
    by (rule mv_buf_resize_ok [OF ok s1])
  obtain j s2 where c: "mv_buf_choose e s1 = (Some j, s2)"
    using mv_buf_choose_gives [OF ok1 k assms(4) mem] by (cases "mv_buf_choose e s1") auto
  have j: "j < 24"
    using mv_buf_choose_cases [OF ok1 boxes c] by auto
  obtain s' where g: "get_mv_buf e k s = Some (int j, s')"
    by (simp add: get_mv_buf_def assms(2) s1 c)
  have ok': "mv_ok (insert k ?R) ?D s'"
    using get_mv_buf_ok(1) [OF ok boxes k(1) g] by simp
  have refs: "map_option p_referenced (pic_at s' i) = map_option p_referenced (pic_at s i)" for i
    by (rule get_mv_buf_ok(2) [OF ok boxes k(1) g])
  obtain p1 where p1: "pic_at s1 k = Some p1"
    using mv_buf_resize_refs [OF s1, of k] assms(2) by (cases "pic_at s1 k") auto
  have at: "map_option p_mv_buf_index (pic_at s' k) = Some (int j)"
    using g p1 mv_buf_choose_refs [of e s1] by (auto simp: get_mv_buf_def assms(2) s1 c hevc_simps)
  have "p_mv_buf_index q \<noteq> int j" if q: "i \<noteq> k" "pic_at s' i = Some q" "p_referenced q" for i q
  proof
    assume eq: "p_mv_buf_index q = int j"
    have "i \<in> ?R"
      using refs [of i] q(2,3) by (cases "pic_at s i") (auto simp: refs_def)
    moreover obtain r where "pic_at s' k = Some r" "p_mv_buf_index r = int j"
      using at by auto
    ultimately show False
      using mv_okD(4) [OF ok', of i k q r] q eq by simp
  qed
  then show ?thesis
    using g j at by blast
qed

theorem mv_buffers_suffice_witness:
  "\<exists>j s'. get_mv_buf sample_env 0 sample_idle = Some (int j, s') \<and> j < 24 \<and>
    map_option p_mv_buf_index (pic_at s' 0) = Some (int j) \<and>
    (\<forall>i q. i \<noteq> 0 \<and> pic_at s' i = Some q \<and> p_referenced q \<longrightarrow> p_mv_buf_index q \<noteq> int j)"
proof -
  have "map_option p_referenced (pic_at sample_idle 0) = Some False"
    by code_simp
  then obtain p where "pic_at sample_idle 0 = Some p" "\<not> p_referenced p"
    by auto
  then show ?thesis
    by (rule mv_buffers_suffice [OF sample_run]) (auto simp: sample_env_def)
qed

end
