(* ===== verification/Spec2Isabelle.thy ===== *)
theory Spec2Isabelle
  imports Pts_Server_Correct Bit_Reader_Correct H264_Marking_Correct H264_Ref_Lists_Correct AV1_Pool_Correct AV1_Refs_Correct
    H265_Run_Correct
begin

text \<open>
  A verification development of the Amlogic media modules: kernel drivers that feed compressed
  video to the hardware decoders of a chip and hand the decoded frames to the display.

  \<^bold>\<open>The program.\<close> The decoding itself runs in firmware and hardware. The C code keeps the state
  around it: which time stamp belongs to which byte of the stream, what the parameter sets and
  headers say, which decoded pictures are references, in which order they are shown, and when the
  memory of a picture is free again. That state, and not the register programming, is what is
  modelled here. The parts are independent programs with one calling direction: a parser or the
  firmware gives header fields to the picture buffer of a decoder, which gives buffer indices to
  the driver; the time stamp server stands beside them.

  \<^bold>\<open>Parts and theories.\<close> Every theory \<open>X\<close> with definitions has one or more theories \<open>X_Correct\<close> with the
  lemmas about them.

  \<^item> \<open>Prelude\<close>: machine integers of C (\<open>s32\<close> and \<open>u32\<close> wrap an integer, \<open>'a word\<close> is used where the code
    works on bits), C division, folds that stop at a fault, the collections of rewrite rules.

  \<^item> \<open>Pts_Server\<close>: \<open>drivers/media_sync/pts_server/pts_server_core.c\<close>. The record of an
    instance has the list of time stamps in list order; check-in, check-out with its two loops, peek,
    the estimate of the frame duration, allocation and release of the instances in a table of ten.

  \<^item> \<open>Bit_Reader\<close>: \<open>drivers/amvdec_ports/utils/get_bits.h\<close>, \<open>golomb.h\<close>, \<open>golomb.c\<close>, \<open>common.c\<close>: the cached
    big-endian reader over 32-bit words, Exp-Golomb codes by table and by loop, start codes,
    removal of emulation prevention bytes.

  \<^item> \<open>H264_Poc\<close>, \<open>H264_Dpb\<close>, \<open>H264_Qsort\<close>, \<open>H264_Ref_Lists\<close>: \<open>decoder/h264_multi/h264_dpb.c\<close>: picture order
    counts, the decoded picture buffer (frame stores, marking, removal, output, co-located
    buffers), the quicksort with its explicit stack, and the reference lists.

  \<^item> \<open>AV1_Bufmgr\<close>, \<open>AV1_Refs\<close>, \<open>AV1_Header\<close>: \<open>decoder/vav1/av1_bufmgr.c\<close>: the pool of counted buffers, order hints
    and the choice of references, and the headers with the entry points \<open>av1_bufmgr_process\<close> and
    \<open>av1_bufmgr_postproc\<close>.

  \<^item> \<open>H265_Dpb\<close>, \<open>H265_Output\<close>, \<open>H265_Slice\<close>: \<open>decoder/h265/vh265.c\<close>: the list of 24 pictures with its frame and
    motion vector buffers and the reference picture sets; the order of output, fields, frames for
    the display and the flush; the slice header with order count, tiles, reference lists and
    collocated picture, and the steps of the interrupt handlers on that state. \<open>H265_Samples\<close> holds the
    decoders on which the lemmas are evaluated; \<open>H265_Mv_Correct\<close> and \<open>H265_Run_Correct\<close> have the invariant
    of the motion vector buffers and the runs \<open>hevc_run\<close>.

  \<^bold>\<open>How code becomes definitions.\<close> A structure is a record, a pointer into an array of the structure is
  its index (\<open>None\<close> for the null pointer), an output parameter is a component of the result. A function
  that the code calls with its state takes the state and returns it. A result of option type is used
  where the code can leave an array or follow a null pointer, and \<open>None\<close> is that fault; a return code is
  a value. Loops over a fixed range are folds, the others are recursive functions with a measure, or
  \<open>partial_function\<close> where the code may loop for ever. Locks make an operation atomic. Debug output,
  registers and time stamps that nothing reads are left out. What the code gets from elsewhere is an
  argument: the success of an allocation, the answer of \<open>prepare_display_buf\<close>, the parameters that the
  firmware parsed.

  \<^bold>\<open>What the lemmas show.\<close>

  \<^item> Time stamps: the list and its counters agree in every state that the entry points reach, check-in
    keeps the newest entries, check-out gives the entry nearest to the offset when offsets ascend, peek
    agrees with it but for one case that is stated, and two faults of the allocation.

  \<^item> Bit reader: every read is the big-endian value of the next bits of the stream, with the exact
    bound above which bits are lost; Exp-Golomb codes and emulation prevention are round trips; the
    start code search gives the first one.

  \<^item> H.264: order counts of type 0 recover the counts that the encoder sent, those of type 2 follow the
    decoding order; the pointers of the buffer stay a permutation of the stores; the flush of the
    output ends and offers the pictures in ascending order, whatever the driver does with them
    (\<open>settles\<close>), and removal is exact; a second field unmarks its first; the sliding window makes
    room; the sorting routine sorts for every comparison that is a total preorder (locale
    \<open>comparator\<close>, interpreted on the comparisons of the code, among them the one of AV1); the initial
    lists are those of the standard and a reordering moves what it names to the front.

  \<^item> AV1: reference counts are the number of holders in every reachable state, so the pool never runs
    out between frames and the reference map follows the refresh flags; the choice of references is
    complete; distances are signed differences; the motion field fits its registers; a dropped frame
    leaves each buffer of its map with one count too many per entry, and showing a reference that does not exist
    clears entries of the map.

  \<^item> H.265: after a reference picture set exactly the pictures that it names are references and exactly the
    motion vector buffers of the dropped ones are given back; a flush of one layer takes every waiting
    picture once in ascending order, shows those that may be shown and recycles the others
    (\<open>showable\<close> has its conditions), but with two layers it can go on for
    ever (\<open>stuck\<close>); order counts are recovered, except below zero; reference lists are those of the
    standard; the tile of a block contains it; the parts of a picture fit its buffer; and over every
    run the motion vector buffers are held by one reference each, none is lost and one is always free.

  \<^bold>\<open>Bounds.\<close> The stack of the quicksort has 62 parts (8-byte pointers), enough for every array below \<open>2 ^ 62\<close>
  elements, which is proved. The loops of the H.264 output are partial functions; that they end is
  proved from a measure on the waiting pictures. The hypotheses on sizes in the bit reader say that a
  position fits an \<open>int\<close>. The runs of the AV1 decoder (\<open>av1_run\<close>) follow the driver: a frame that was parsed is
  ended once before the next one, and the buffers start unreferenced; \<open>output_all_layers\<close> and large
  scale tiles are off, as nothing in the driver sets them. The flush and output loops of H.265 are
  partial functions; that they end is proved from the number of waiting pictures. The steps of \<open>hevc_run\<close>
  are the slice headers, the ends of pictures, sequences and streams, the display and anything that
  leaves pictures and buffers alone, in any order, with memory that may be refused at any step.

  \<^bold>\<open>Not modelled.\<close> Register and firmware programming, interrupt handlers, threads and work queues,
  the canvas and memory allocators of other modules, debug file systems, the V4L2 glue and the encoders'
  hardware control have no state of their own that could be stated without a model of the chip. Copies
  of a modelled file for other chips or for the V4L build (\<open>h265_fb\<close>, \<open>decoder_v4l\<close>) are not modelled again.
  In the H.265 decoder the error recovery (\<open>hevc_recover\<close>), the parsing of SEI messages, the scatter memory
  maps and the statistics are left out; whether the hardware decoded past the end of a picture, which
  the driver reads from a status register, is the field \<open>hv_over_decode\<close> that a step may set. Time stamps of
  frames and the display side of the drivers, and the VP9, AVS2 and AVS3 picture managers, which have
  the structure of those modelled, are not modelled.
\<close>

end
